(* ===== verification/Iotd_Prelude.thy ===== *)
theory Iotd_Prelude
  imports Main "HOL-Library.Word" "HOL-Library.AList" "HOL-Library.Multiset"
begin

text \<open>
  Shared vocabulary of the development.

  \<^item> Machine integers: Rust's \<open>u8\<close>, \<open>u16\<close>, \<open>u32\<close> and \<open>u64\<close> are words of that width;
    \<open>usize\<close> is \<open>nat\<close>.
  \<^item> A Rust \<open>String\<close> is a byte sequence that is valid UTF-8.  The model keeps it as a
    \<open>string\<close> with one \<open>char\<close> per byte, so that \<open>length\<close> is Rust's \<open>len()\<close>, and
    \<open>utf8_valid\<close> is the check of \<open>String::from_utf8\<close>.
  \<^item> \<open>outcome\<close> is the result of running Rust code: a value, an \<open>Err\<close>, a panic, or a future
    that is still pending because an awaited operation has not completed.  \<open>outcome_bind\<close> and
    \<open>qmark\<close> are Rust's \<open>?\<close> without and with a threaded state.
  \<^item> A \<open>HashMap\<close> is an association list with distinct keys (\<open>map_of\<close>, \<open>AList.update\<close>,
    \<open>AList.delete\<close>); the list order stands for the iteration order, which Rust leaves
    unspecified, and a \<open>HashSet\<close> is a distinct list.
\<close>

unbundle bit_operations_syntax

named_theorems byte_simps "conversions between words, bytes and strings"
named_theorems hash_map_simps "lookup and key facts on association lists"

section \<open>Integers and results\<close>

type_synonym u8 = "8 word"
type_synonym u16 = "16 word"
type_synonym u32 = "32 word"
type_synonym u64 = "64 word"
type_synonym bytes = "8 word list"
type_synonym rstring = string
type_synonym ('k, 'v) hash_map = "('k \<times> 'v) list"

datatype ('a, 'e) outcome = Ok 'a | Err 'e | Panic | Pending

fun outcome_bind :: "('a, 'e) outcome \<Rightarrow> ('a \<Rightarrow> ('b, 'e) outcome) \<Rightarrow> ('b, 'e) outcome" where
  "outcome_bind (Ok a) f = f a"
| "outcome_bind (Err e) f = Err e"
| "outcome_bind Panic f = Panic"
| "outcome_bind Pending f = Pending"

fun qmark :: "('a, 'e) outcome \<times> 's \<Rightarrow> ('a \<Rightarrow> 's \<Rightarrow> ('b, 'e) outcome \<times> 's)
    \<Rightarrow> ('b, 'e) outcome \<times> 's" where
  "qmark (Ok a, s) f = f a s"
| "qmark (Err e, s) f = (Err e, s)"
| "qmark (Panic, s) f = (Panic, s)"
| "qmark (Pending, s) f = (Pending, s)"

fun map_err :: "('e \<Rightarrow> 'f) \<Rightarrow> ('a, 'e) outcome \<Rightarrow> ('a, 'f) outcome" where
  "map_err h (Ok a) = Ok a"
| "map_err h (Err e) = Err (h e)"
| "map_err h Panic = Panic"
| "map_err h Pending = Pending"

definition or_panic :: "'a option \<Rightarrow> ('a, 'e) outcome" where
  "or_panic x = (case x of None \<Rightarrow> Panic | Some a \<Rightarrow> Ok a)"

lemma or_panic_simps [simp]: "or_panic None = Panic" "or_panic (Some a) = Ok a"
  by (simp_all add: or_panic_def)

lemma outcome_bind_eq_Ok:
  "outcome_bind x f = Ok b \<longleftrightarrow> (\<exists>a. x = Ok a \<and> f a = Ok b)"
  by (cases x) simp_all

lemma outcome_bind_eq_Pending:
  "outcome_bind x f = Pending \<longleftrightarrow> x = Pending \<or> (\<exists>a. x = Ok a \<and> f a = Pending)"
  by (cases x) simp_all

lemma outcome_bind_eq_Panic:
  "outcome_bind x f = Panic \<longleftrightarrow> x = Panic \<or> (\<exists>a. x = Ok a \<and> f a = Panic)"
  by (cases x) simp_all

lemma outcome_bind_assoc:
  "outcome_bind (outcome_bind x f) g = outcome_bind x (\<lambda>a. outcome_bind (f a) g)"
  by (cases x) simp_all

lemma or_panic_eq [simp]:
  "or_panic x = Ok a \<longleftrightarrow> x = Some a" "or_panic x = Panic \<longleftrightarrow> x = None"
  "or_panic x \<noteq> Pending" "or_panic x \<noteq> Err e"
  by (cases x; simp)+

lemma qmark_assoc:
  "qmark (qmark x f) g = qmark x (\<lambda>a s. qmark (f a s) g)"
  by (cases "(x, f)" rule: qmark.cases) simp_all

lemma qmark_ext: "(\<And>a s. f a s = g a s) \<Longrightarrow> qmark x f = qmark x g"
  by (cases "(x, f)" rule: qmark.cases) simp_all

lemma qmark_fst_Ok:
  "fst (qmark x f) = Ok b \<longleftrightarrow> (\<exists>a. fst x = Ok a \<and> fst (f a (snd x)) = Ok b)"
  by (cases "(x, f)" rule: qmark.cases) simp_all

section \<open>Bytes of integers and strings\<close>

definition be16 :: "u8 \<Rightarrow> u8 \<Rightarrow> u16" where
  "be16 hi lo = word_of_nat (256 * unat hi + unat lo)"

definition be16_bytes :: "u16 \<Rightarrow> bytes" where
  "be16_bytes w = [word_of_nat (unat w div 256), word_of_nat (unat w mod 256)]"

lemma length_be16_bytes [simp]: "length (be16_bytes w) = 2"
  by (simp add: be16_bytes_def)

lemma be16_bytes_neq_Nil [simp]: "be16_bytes w \<noteq> []"
  by (simp add: be16_bytes_def)

lemma unat_u16_less: "unat (w :: u16) < 65536"
  using unsigned_less [of w, where 'a = nat] by simp

lemma unat_u8_less: "unat (w :: u8) < 256"
  using unsigned_less [of w, where 'a = nat] by simp

lemma be16_be16_bytes [simp]:
  "be16 (be16_bytes w ! 0) (be16_bytes w ! Suc 0) = w"
proof -
  have "unat w div 256 < 256"
    using unat_u16_less [of w] by (simp add: div_less_iff_less_mult)
  then have "unat (word_of_nat (unat w div 256) :: u8) = unat w div 256"
    by (simp add: unat_of_nat)
  moreover have "unat (word_of_nat (unat w mod 256) :: u8) = unat w mod 256"
    by (simp add: unat_of_nat)
  ultimately show ?thesis
    by (simp add: be16_def be16_bytes_def)
qed

lemma unat_word_of_nat_u16 [byte_simps]: "n < 65536 \<Longrightarrow> unat (word_of_nat n :: u16) = n"
  by (simp add: unat_of_nat)

lemma unat_word_of_nat_u32 [byte_simps]: "n < 4294967296 \<Longrightarrow> unat (word_of_nat n :: u32) = n"
  by (simp add: unat_of_nat)

definition bytes_of :: "rstring \<Rightarrow> bytes" where
  "bytes_of s = map of_char s"

definition str_of :: "bytes \<Rightarrow> rstring" where
  "str_of bs = map (\<lambda>b. char_of (unat b)) bs"

lemma unat_of_char_u8: "unat (of_char c :: u8) = of_char c"
proof -
  have "(of_char c :: u8) = word_of_nat (of_char c)"
    by (simp add: of_nat_of_char)
  then show ?thesis
    by (simp only: unat_of_nat) simp
qed

lemma str_of_bytes_of [simp]: "str_of (bytes_of s) = s"
  by (simp add: str_of_def bytes_of_def unat_of_char_u8 o_def)

lemma bytes_of_str_of [simp]: "bytes_of (str_of bs) = bs"
proof -
  have "of_char (char_of (unat b)) = b" for b :: u8
  proof -
    have "of_char (char_of (unat b)) = unat b"
      using unat_u8_less [of b] by simp
    then have "word_of_nat (of_char (char_of (unat b))) = b"
      by simp
    then show ?thesis
      by (simp only: of_nat_of_char)
  qed
  then show ?thesis
    by (simp add: str_of_def bytes_of_def o_def)
qed

lemma length_bytes_of [simp]: "length (bytes_of s) = length s"
  by (simp add: bytes_of_def)

lemma bytes_of_simps [simp]: "bytes_of [] = []" "bytes_of (c # s) = of_char c # bytes_of s"
  by (simp_all add: bytes_of_def)

subsection \<open>UTF-8 validity\<close>

text \<open>
  The well-formed byte sequences that \<open>String::from_utf8\<close> and \<open>str::from_utf8\<close> accept: no
  overlong forms, no surrogates, nothing above U+10FFFF.
\<close>

definition in_range :: "nat \<Rightarrow> nat \<Rightarrow> u8 \<Rightarrow> bool" where
  "in_range lo hi b \<longleftrightarrow> lo \<le> unat b \<and> unat b \<le> hi"

abbreviation utf8_cont :: "u8 \<Rightarrow> bool" where
  "utf8_cont \<equiv> in_range 128 191"

fun utf8_valid :: "bytes \<Rightarrow> bool" where
  "utf8_valid [] = True"
| "utf8_valid (b # bs) =
    (if in_range 0 127 b then utf8_valid bs
     else case bs of
       [] \<Rightarrow> False
     | c # cs \<Rightarrow>
         if in_range 194 223 b then utf8_cont c \<and> utf8_valid cs
         else case cs of
           [] \<Rightarrow> False
         | d # ds \<Rightarrow>
             if in_range 224 239 b then
               (if unat b = 224 then in_range 160 191 c
                else if unat b = 237 then in_range 128 159 c else utf8_cont c)
               \<and> utf8_cont d \<and> utf8_valid ds
             else case ds of
               [] \<Rightarrow> False
             | e # es \<Rightarrow>
                 in_range 240 244 b
                 \<and> (if unat b = 240 then in_range 144 191 c
                    else if unat b = 244 then in_range 128 143 c else utf8_cont c)
                 \<and> utf8_cont d \<and> utf8_cont e \<and> utf8_valid es)"

abbreviation wf_string :: "rstring \<Rightarrow> bool" where
  "wf_string s \<equiv> utf8_valid (bytes_of s)"

text \<open>Every ASCII string is valid.\<close>

lemma utf8_valid_ascii: "\<forall>b \<in> set bs. unat b < 128 \<Longrightarrow> utf8_valid bs"
  by (induction bs) (auto simp: in_range_def)

section \<open>Lists\<close>

lemma append_eq_cases:
  assumes "xs @ ys = us @ vs"
  obtains (inside) zs where "us = xs @ zs" "zs \<noteq> []" | (beyond) zs where "xs = us @ zs" "zs @ ys = vs"
proof -
  from assms obtain zs where "xs = us @ zs \<and> zs @ ys = vs \<or> xs @ zs = us \<and> ys = zs @ vs"
    by (auto simp: append_eq_append_conv2)
  then show thesis
    using that by (cases "zs = []") auto
qed

section \<open>Association lists as hash maps\<close>

abbreviation keys :: "('k, 'v) hash_map \<Rightarrow> 'k set" where
  "keys m \<equiv> fst ` set m"

lemma distinct_update [hash_map_simps, intro]:
  "distinct (map fst m) \<Longrightarrow> distinct (map fst (AList.update k v m))"
  by (rule AList.distinct_update)

lemma distinct_delete [hash_map_simps, intro]:
  "distinct (map fst m) \<Longrightarrow> distinct (map fst (AList.delete k m))"
  by (rule AList.distinct_delete)

lemma map_of_eq_Some_in_set:
  "distinct (map fst m) \<Longrightarrow> map_of m k = Some v \<longleftrightarrow> (k, v) \<in> set m"
  by (rule map_of_eq_Some_iff)

lemma map_of_update [hash_map_simps]: "map_of (AList.update k v m) = (map_of m)(k \<mapsto> v)"
  by (simp add: update_conv')

lemma map_of_delete [hash_map_simps]: "map_of (AList.delete k m) = (map_of m)(k := None)"
  by (simp add: delete_conv')

lemma length_update:
  "length (AList.update k v m) = (if k \<in> keys m then length m else Suc (length m))"
  by (induction m) auto

lemma length_delete_le: "length (AList.delete k m) \<le> length m"
  by (rule AList.length_delete_le)

end
