(* ===== verification/Wire.thy ===== *)
theory Wire
  imports Iotd_Prelude
begin

text \<open>
  The byte-level interfaces the broker takes from other crates, as parameters of the model.

  \<^item> \<open>buf_ops\<close>: the reads of \<open>bytes::Buf\<close> on a \<open>Cursor<&[u8]>\<close>; \<open>None\<close> is the panic that
    \<open>Buf\<close> documents when too few bytes remain.
  \<^item> \<open>bufmut_ops\<close>: the writes of \<open>bytes::BufMut\<close> on a \<open>BytesMut\<close>.
  \<^item> \<open>reader_ops\<close>: \<open>read_u8\<close> and \<open>read_exact\<close> of tokio's \<open>AsyncReadExt\<close>.
  \<^item> \<open>writer_ops\<close>: \<open>write_all\<close> of tokio's \<open>AsyncWriteExt\<close>, on any of the open streams.

  Each record has a locale that states the documented behaviour over an abstract view, and an
  in-memory instance that satisfies it.
\<close>

section \<open>Operations\<close>

type_synonym io_error = string
type_synonym stream = nat

record 'c buf_ops =
  cursor_new :: "bytes \<Rightarrow> 'c"
  remaining :: "'c \<Rightarrow> nat"
  get_u8 :: "'c \<Rightarrow> (u8 \<times> 'c) option"
  get_u16 :: "'c \<Rightarrow> (u16 \<times> 'c) option"
  copy_to_slice :: "nat \<Rightarrow> 'c \<Rightarrow> (bytes \<times> 'c) option"

record 'b bufmut_ops =
  bytesmut_new :: "'b"
  put_u8 :: "u8 \<Rightarrow> 'b \<Rightarrow> 'b"
  put_u16 :: "u16 \<Rightarrow> 'b \<Rightarrow> 'b"
  put_slice :: "bytes \<Rightarrow> 'b \<Rightarrow> 'b"
  bytesmut_deref :: "'b \<Rightarrow> bytes"

record 'r reader_ops =
  read_u8 :: "'r \<Rightarrow> (u8, io_error) outcome \<times> 'r"
  read_exact :: "nat \<Rightarrow> 'r \<Rightarrow> (bytes, io_error) outcome \<times> 'r"

record 'w writer_ops =
  write_all :: "stream \<Rightarrow> bytes \<Rightarrow> 'w \<Rightarrow> (unit, io_error) outcome \<times> 'w"

section \<open>Documented behaviour\<close>

text \<open>
  \<open>view c\<close> is what is left to read and \<open>adv n c\<close> the cursor advanced by \<open>n\<close> bytes.
\<close>

locale buf_reader =
  fixes B :: "'c buf_ops"
    and adv :: "nat \<Rightarrow> 'c \<Rightarrow> 'c"
    and view :: "'c \<Rightarrow> bytes"
  assumes view_new: "view (cursor_new B bs) = bs"
    and view_adv: "view (adv n c) = drop n (view c)"
    and remaining_view: "remaining B c = length (view c)"
    and get_u8_view: "get_u8 B c = (if view c = [] then None else Some (hd (view c), adv 1 c))"
    and get_u16_view: "get_u16 B c =
      (if length (view c) < 2 then None
       else Some (be16 (view c ! 0) (view c ! 1), adv 2 c))"
    and copy_view: "copy_to_slice B n c =
      (if length (view c) < n then None else Some (take n (view c), adv n c))"

locale buf_writer =
  fixes M :: "'b bufmut_ops"
  assumes deref_new: "bytesmut_deref M (bytesmut_new M) = []"
    and deref_put_u8: "bytesmut_deref M (put_u8 M x b) = bytesmut_deref M b @ [x]"
    and deref_put_u16: "bytesmut_deref M (put_u16 M w b) = bytesmut_deref M b @ be16_bytes w"
    and deref_put_slice: "bytesmut_deref M (put_slice M bs b) = bytesmut_deref M b @ bs"

text \<open>
  \<open>avail r\<close> are the bytes that have arrived and were not consumed; after \<open>eof r\<close> none follow.
  A \<open>read_exact\<close> reads on until its buffer is full and waits only when there is nothing to read, so
  one that waits has taken the available bytes into its own buffer: tokio documents it as not
  cancellation safe.
\<close>

locale async_reader =
  fixes R :: "'r reader_ops"
    and avail :: "'r \<Rightarrow> bytes"
    and eof :: "'r \<Rightarrow> bool"
  assumes read_u8_ready: "avail r = b # bs \<Longrightarrow>
      fst (read_u8 R r) = Ok b \<and> avail (snd (read_u8 R r)) = bs
      \<and> eof (snd (read_u8 R r)) = eof r"
    and read_u8_eof: "avail r = [] \<Longrightarrow> eof r \<Longrightarrow>
      fst (read_u8 R r) = Err ''UnexpectedEof''"
    and read_u8_wait: "avail r = [] \<Longrightarrow> \<not> eof r \<Longrightarrow>
      fst (read_u8 R r) = Pending \<and> avail (snd (read_u8 R r)) = []
      \<and> \<not> eof (snd (read_u8 R r))"
    and read_exact_ready: "n \<le> length (avail r) \<Longrightarrow>
      fst (read_exact R n r) = Ok (take n (avail r))
      \<and> avail (snd (read_exact R n r)) = drop n (avail r)
      \<and> eof (snd (read_exact R n r)) = eof r"
    and read_exact_eof: "length (avail r) < n \<Longrightarrow> eof r \<Longrightarrow>
      fst (read_exact R n r) = Err ''UnexpectedEof''"
    and read_exact_wait: "length (avail r) < n \<Longrightarrow> \<not> eof r \<Longrightarrow>
      fst (read_exact R n r) = Pending \<and> avail (snd (read_exact R n r)) = []
      \<and> \<not> eof (snd (read_exact R n r))"

text \<open>
  \<open>sent w s\<close> is what stream \<open>s\<close> has taken so far, and \<open>intact w s\<close> says that every \<open>write_all\<close> to it
  has run to its end.  One that returns an error has written an unspecified first part of its bytes.
\<close>

locale byte_writer =
  fixes W :: "'w writer_ops"
    and sent :: "'w \<Rightarrow> stream \<Rightarrow> bytes"
    and intact :: "'w \<Rightarrow> stream \<Rightarrow> bool"
  assumes write_all_whole: "write_all W s bs w = (Ok (), w') \<Longrightarrow>
      sent w' = (sent w)(s := sent w s @ bs) \<and> (\<forall>t. intact w' t \<longrightarrow> intact w t)"
    and write_all_part: "write_all W s bs w = (res, w') \<Longrightarrow> res \<noteq> Ok () \<Longrightarrow>
      (\<exists>n. sent w' = (sent w)(s := sent w s @ take n bs)) \<and> \<not> intact w' s
      \<and> (\<forall>t. intact w' t \<longrightarrow> intact w t)"

text \<open>
  The same stream for the statements that tell what is written on a working connection: \<open>up w s\<close> says
  that the peer takes everything that is sent to it.
\<close>

locale stream_writer =
  fixes W :: "'w writer_ops"
    and sent :: "'w \<Rightarrow> stream \<Rightarrow> bytes"
    and up :: "'w \<Rightarrow> stream \<Rightarrow> bool"
  assumes write_all_up: "up w s \<Longrightarrow>
      fst (write_all W s bs w) = Ok ()
      \<and> sent (snd (write_all W s bs w)) = (sent w)(s := sent w s @ bs)
      \<and> up (snd (write_all W s bs w)) = up w"
    and write_all_down: "\<not> up w s \<Longrightarrow>
      (\<exists>e. fst (write_all W s bs w) = Err e)
      \<and> (\<exists>n. sent (snd (write_all W s bs w)) = (sent w)(s := sent w s @ take n bs))
      \<and> up (snd (write_all W s bs w)) = up w"

sublocale stream_writer \<subseteq> bytes: byte_writer W sent up
proof
  fix s bs w and res :: "(unit, io_error) outcome" and w'
  assume call: "write_all W s bs w = (res, w')" and "res \<noteq> Ok ()"
  then have "\<not> up w s"
    using write_all_up [of w s bs] by auto
  from write_all_down [OF this, of bs] this
  show "(\<exists>n. sent w' = (sent w)(s := sent w s @ take n bs)) \<and> \<not> up w' s \<and> (\<forall>t. up w' t \<longrightarrow> up w t)"
    by (simp add: call)
next
  fix s bs w w'
  assume call: "write_all W s bs w = (Ok (), w')"
  then have "up w s"
    using write_all_down [of w s bs] by auto
  from write_all_up [OF this, of bs]
  show "sent w' = (sent w)(s := sent w s @ bs) \<and> (\<forall>t. up w' t \<longrightarrow> up w t)"
    by (simp add: call)
qed

section \<open>In-memory instances\<close>

definition slice_buf :: "bytes buf_ops" where
  "slice_buf =
    \<lparr>cursor_new = (\<lambda>bs. bs),
     remaining = length,
     get_u8 = (\<lambda>c. case c of [] \<Rightarrow> None | b # bs \<Rightarrow> Some (b, bs)),
     get_u16 = (\<lambda>c. case c of b1 # b2 # bs \<Rightarrow> Some (be16 b1 b2, bs) | _ \<Rightarrow> None),
     copy_to_slice = (\<lambda>n c. if length c < n then None else Some (take n c, drop n c))\<rparr>"

definition vec_bufmut :: "bytes bufmut_ops" where
  "vec_bufmut =
    \<lparr>bytesmut_new = [],
     put_u8 = (\<lambda>x b. b @ [x]),
     put_u16 = (\<lambda>w b. b @ be16_bytes w),
     put_slice = (\<lambda>bs b. b @ bs),
     bytesmut_deref = (\<lambda>b. b)\<rparr>"

definition pipe_reader :: "(bytes \<times> bool) reader_ops" where
  "pipe_reader =
    \<lparr>read_u8 = (\<lambda>(bs, e). case bs of
        b # bs' \<Rightarrow> (Ok b, (bs', e))
      | [] \<Rightarrow> (if e then (Err ''UnexpectedEof'', ([], e)) else (Pending, ([], e)))),
     read_exact = (\<lambda>n (bs, e).
        if n \<le> length bs then (Ok (take n bs), (drop n bs, e))
        else if e then (Err ''UnexpectedEof'', ([], e)) else (Pending, ([], e)))\<rparr>"

definition net_writer :: "(stream \<Rightarrow> bytes option) writer_ops" where
  "net_writer =
    \<lparr>write_all = (\<lambda>s bs w. case w s of
        None \<Rightarrow> (Err ''BrokenPipe'', w)
      | Some out \<Rightarrow> (Ok (), w(s \<mapsto> out @ bs)))\<rparr>"

definition net_sent :: "(stream \<Rightarrow> bytes option) \<Rightarrow> stream \<Rightarrow> bytes" where
  "net_sent w s = (case w s of None \<Rightarrow> [] | Some out \<Rightarrow> out)"

interpretation slice: buf_reader slice_buf drop "\<lambda>c. c"
proof
  show "get_u8 slice_buf c = (if c = [] then None else Some (hd c, drop 1 c))" for c
    by (simp add: slice_buf_def split: list.split)
  show "get_u16 slice_buf c =
      (if length c < 2 then None else Some (be16 (c ! 0) (c ! 1), drop 2 c))" for c
    by (auto simp: slice_buf_def split: list.split)
qed (simp_all add: slice_buf_def)

interpretation vec: buf_writer vec_bufmut
  by unfold_locales (simp_all add: vec_bufmut_def)

interpretation pipe: async_reader pipe_reader fst snd
  by unfold_locales (auto simp: pipe_reader_def split: list.split)

interpretation net: stream_writer net_writer net_sent "\<lambda>w s. w s \<noteq> None"
proof
  show "(\<exists>e. fst (write_all net_writer s bs w) = Err e)
      \<and> (\<exists>n. net_sent (snd (write_all net_writer s bs w)) = (net_sent w)(s := net_sent w s @ take n bs))
      \<and> (\<lambda>t. snd (write_all net_writer s bs w) t \<noteq> None) = (\<lambda>t. w t \<noteq> None)" if "\<not> w s \<noteq> None" for w s bs
    using that by (intro conjI exI [of _ 0]) (auto simp: net_writer_def net_sent_def)
qed (auto simp: net_writer_def net_sent_def split: option.splits)

text \<open>
  Connections that break in the middle of a write: \<open>(out, n, ok)\<close> has taken \<open>out\<close>, takes \<open>n\<close> more bytes,
  and \<open>ok\<close> until a write was cut short.
\<close>

definition cut_writer :: "(stream \<Rightarrow> bytes \<times> nat \<times> bool) writer_ops" where
  "cut_writer =
    \<lparr>write_all = (\<lambda>s bs w. case w s of (out, n, ok) \<Rightarrow>
      if length bs \<le> n then (Ok (), w(s := (out @ bs, n - length bs, ok)))
      else (Err ''ConnectionReset'', w(s := (out @ take n bs, 0, False))))\<rparr>"

definition cut_sent :: "(stream \<Rightarrow> bytes \<times> nat \<times> bool) \<Rightarrow> stream \<Rightarrow> bytes" where
  "cut_sent w s = fst (w s)"

definition cut_intact :: "(stream \<Rightarrow> bytes \<times> nat \<times> bool) \<Rightarrow> stream \<Rightarrow> bool" where
  "cut_intact w s = snd (snd (w s))"

interpretation cut: byte_writer cut_writer cut_sent cut_intact
  by unfold_locales
    (auto simp: cut_writer_def cut_sent_def [abs_def] cut_intact_def split: prod.splits if_splits intro!: ext)

end
