(* ===== verification/Packet.thy ===== *)
theory Packet
  imports Wire
begin

text \<open>
  The MQTT v3.1.1 packets and their codec: \<^verbatim>\<open>src/protocol/packet.rs\<close> and the constants of
  \<^verbatim>\<open>src/protocol/v3.rs\<close>.  Decoders take the cursor operations \<open>B\<close> and return the packet, a
  \<open>PacketError\<close> or \<open>Panic\<close>, where the source reads with \<open>get_u8\<close>/\<open>get_u16\<close>/\<open>copy_to_slice\<close>
  without checking that enough bytes remain.  Encoders take the buffer operations \<open>M\<close>.
  Theorems about them are in \<open>Codec\<close>.
\<close>

section \<open>Data\<close>

datatype PacketError =
    InvalidPacketType u8
  | InvalidRemainingLength
  | IncompletePacket
  | InvalidUtf8
  | InvalidPacketFlags
  | Io io_error

datatype PacketType =
    TConnect | TConnAck | TPublish | TPubAck | TPubRec | TPubRel | TPubComp
  | TSubscribe | TSubAck | TUnsubscribe | TUnsubAck | TPingReq | TPingResp | TDisconnect

fun packet_type_u8 :: "PacketType \<Rightarrow> u8" where
  "packet_type_u8 TConnect = 1"
| "packet_type_u8 TConnAck = 2"
| "packet_type_u8 TPublish = 3"
| "packet_type_u8 TPubAck = 4"
| "packet_type_u8 TPubRec = 5"
| "packet_type_u8 TPubRel = 6"
| "packet_type_u8 TPubComp = 7"
| "packet_type_u8 TSubscribe = 8"
| "packet_type_u8 TSubAck = 9"
| "packet_type_u8 TUnsubscribe = 10"
| "packet_type_u8 TUnsubAck = 11"
| "packet_type_u8 TPingReq = 12"
| "packet_type_u8 TPingResp = 13"
| "packet_type_u8 TDisconnect = 14"

definition packet_type_try_from :: "u8 \<Rightarrow> (PacketType, PacketError) outcome" where
  "packet_type_try_from value =
    (if value = 1 then Ok TConnect
     else if value = 2 then Ok TConnAck
     else if value = 3 then Ok TPublish
     else if value = 4 then Ok TPubAck
     else if value = 5 then Ok TPubRec
     else if value = 6 then Ok TPubRel
     else if value = 7 then Ok TPubComp
     else if value = 8 then Ok TSubscribe
     else if value = 9 then Ok TSubAck
     else if value = 10 then Ok TUnsubscribe
     else if value = 11 then Ok TUnsubAck
     else if value = 12 then Ok TPingReq
     else if value = 13 then Ok TPingResp
     else if value = 14 then Ok TDisconnect
     else Err (InvalidPacketType value))"

datatype QoS = AtMostOnce | AtLeastOnce | ExactlyOnce

fun qos_u8 :: "QoS \<Rightarrow> u8" where
  "qos_u8 AtMostOnce = 0"
| "qos_u8 AtLeastOnce = 1"
| "qos_u8 ExactlyOnce = 2"

record ConnectPacket =
  cp_protocol_name :: rstring
  cp_protocol_level :: u8
  cp_clean_session :: bool
  cp_keep_alive :: u16
  cp_client_id :: rstring
  cp_will_flag :: bool
  cp_will_qos :: QoS
  cp_will_retain :: bool
  cp_will_topic :: "rstring option"
  cp_will_payload :: "bytes option"
  cp_username :: "rstring option"
  cp_password :: "bytes option"

record ConnAckPacket =
  ca_session_present :: bool
  ca_return_code :: u8

record PublishPacket =
  pp_topic :: rstring
  pp_packet_id :: "u16 option"
  pp_payload :: bytes
  pp_qos :: QoS
  pp_retain :: bool
  pp_dup :: bool

record PubAckPacket = pa_packet_id :: u16

record PubRecPacket = prec_packet_id :: u16

record PubRelPacket = prel_packet_id :: u16

record PubCompPacket = pcomp_packet_id :: u16

record SubscribePacket =
  sp_packet_id :: u16
  sp_topic_filters :: "(rstring \<times> QoS) list"

record SubAckPacket =
  sa_packet_id :: u16
  sa_return_codes :: "u8 list"

record UnsubscribePacket =
  up_packet_id :: u16
  up_topic_filters :: "rstring list"

record UnsubAckPacket = ua_packet_id :: u16

datatype Packet =
    Connect ConnectPacket
  | ConnAck ConnAckPacket
  | Publish PublishPacket
  | PubAck PubAckPacket
  | PubRec PubRecPacket
  | PubRel PubRelPacket
  | PubComp PubCompPacket
  | Subscribe SubscribePacket
  | SubAck SubAckPacket
  | Unsubscribe UnsubscribePacket
  | UnsubAck UnsubAckPacket
  | PingReq
  | PingResp
  | Disconnect

subsection \<open>Constants of v3.rs\<close>

definition PROTOCOL_NAME :: rstring where "PROTOCOL_NAME = ''MQTT''"
definition PROTOCOL_LEVEL :: u8 where "PROTOCOL_LEVEL = 4"
definition ACCEPTED :: u8 where "ACCEPTED = 0"
definition UNACCEPTABLE_PROTOCOL_VERSION :: u8 where "UNACCEPTABLE_PROTOCOL_VERSION = 1"
definition IDENTIFIER_REJECTED :: u8 where "IDENTIFIER_REJECTED = 2"
definition SERVER_UNAVAILABLE :: u8 where "SERVER_UNAVAILABLE = 3"
definition BAD_USERNAME_OR_PASSWORD :: u8 where "BAD_USERNAME_OR_PASSWORD = 4"
definition NOT_AUTHORIZED :: u8 where "NOT_AUTHORIZED = 5"
definition MAXIMUM_QOS_0 :: u8 where "MAXIMUM_QOS_0 = 0"
definition MAXIMUM_QOS_1 :: u8 where "MAXIMUM_QOS_1 = 1"
definition MAXIMUM_QOS_2 :: u8 where "MAXIMUM_QOS_2 = 2"
definition FAILURE :: u8 where "FAILURE = 128"

section \<open>Decoding\<close>

function decode_remaining_length_loop ::
  "'r reader_ops \<Rightarrow> u32 \<Rightarrow> u32 \<Rightarrow> nat \<Rightarrow> 'r \<Rightarrow> (u32, PacketError) outcome \<times> 'r" where
  "decode_remaining_length_loop R multiplier val byte_count r =
    (if byte_count \<ge> 4 then (Err InvalidRemainingLength, r)
     else case read_u8 R r of (res, r') \<Rightarrow>
       qmark (map_err Io res, r') (\<lambda>byte r.
         let val' = val + ucast (byte AND 0x7F) * multiplier
         in if byte AND 0x80 = 0 then (Ok val', r)
            else decode_remaining_length_loop R (multiplier * 128) val' (byte_count + 1) r))"
  by pat_completeness auto
termination
  by (relation "measure (\<lambda>(R, m, v, n, r). 4 - n)") auto

declare decode_remaining_length_loop.simps [simp del]

definition decode_remaining_length_async ::
  "'r reader_ops \<Rightarrow> 'r \<Rightarrow> (u32, PacketError) outcome \<times> 'r" where
  "decode_remaining_length_async R r = decode_remaining_length_loop R 1 0 0 r"

definition decode_string :: "'c buf_ops \<Rightarrow> 'c \<Rightarrow> (rstring \<times> 'c, PacketError) outcome" where
  "decode_string B c =
    (if remaining B c < 2 then Err IncompletePacket
     else outcome_bind (or_panic (get_u16 B c)) (\<lambda>(len, c).
       if remaining B c < unat len then Err IncompletePacket
       else outcome_bind (or_panic (copy_to_slice B (unat len) c)) (\<lambda>(bs, c).
         if utf8_valid bs then Ok (str_of bs, c) else Err InvalidUtf8)))"

text \<open>The three matches on a two-bit or one-byte QoS value.\<close>

definition qos_of_bits :: "u8 \<Rightarrow> QoS option" where
  "qos_of_bits v =
    (if v = 0 then Some AtMostOnce
     else if v = 1 then Some AtLeastOnce
     else if v = 2 then Some ExactlyOnce
     else None)"

definition decode_will :: "'c buf_ops \<Rightarrow> bool \<Rightarrow> 'c
    \<Rightarrow> ((rstring option \<times> bytes option) \<times> 'c, PacketError) outcome" where
  "decode_will B will_flag c =
    (if will_flag then
       outcome_bind (decode_string B c) (\<lambda>(topic, c).
       outcome_bind (or_panic (get_u16 B c)) (\<lambda>(payload_len, c).
       outcome_bind (or_panic (copy_to_slice B (unat payload_len) c)) (\<lambda>(payload, c).
         Ok ((Some topic, Some payload), c))))
     else Ok ((None, None), c))"

definition decode_username :: "'c buf_ops \<Rightarrow> bool \<Rightarrow> 'c
    \<Rightarrow> (rstring option \<times> 'c, PacketError) outcome" where
  "decode_username B username_flag c =
    (if username_flag then
       outcome_bind (decode_string B c) (\<lambda>(s, c). Ok (Some s, c))
     else Ok (None, c))"

definition decode_password :: "'c buf_ops \<Rightarrow> bool \<Rightarrow> 'c
    \<Rightarrow> (bytes option \<times> 'c, PacketError) outcome" where
  "decode_password B password_flag c =
    (if password_flag then
       if remaining B c < 2 then Err IncompletePacket
       else outcome_bind (or_panic (get_u16 B c)) (\<lambda>(len, c).
         if remaining B c < unat len then Err IncompletePacket
         else outcome_bind (or_panic (copy_to_slice B (unat len) c)) (\<lambda>(bs, c).
           Ok (Some bs, c)))
     else Ok (None, c))"

definition decode_will_qos :: "u8 \<Rightarrow> (QoS, PacketError) outcome" where
  "decode_will_qos connect_flags =
    (if connect_flags AND 0x04 \<noteq> 0 then
       (case qos_of_bits (drop_bit 3 connect_flags AND 0x03) of
          Some q \<Rightarrow> Ok q
        | None \<Rightarrow> Err InvalidPacketFlags)
     else Ok AtMostOnce)"

definition decode_connect :: "'c buf_ops \<Rightarrow> 'c \<Rightarrow> (ConnectPacket, PacketError) outcome" where
  "decode_connect B c =
    outcome_bind (decode_string B c) (\<lambda>(protocol_name, c).
    outcome_bind (or_panic (get_u8 B c)) (\<lambda>(protocol_level, c).
    outcome_bind (or_panic (get_u8 B c)) (\<lambda>(connect_flags, c).
    outcome_bind (or_panic (get_u16 B c)) (\<lambda>(keep_alive, c).
    outcome_bind (decode_string B c) (\<lambda>(client_id, c).
    let will_flag = (connect_flags AND 0x04 \<noteq> 0) in
    outcome_bind (decode_will_qos connect_flags) (\<lambda>will_qos.
    let will_retain = (connect_flags AND 0x20 \<noteq> 0);
        username_flag = (connect_flags AND 0x80 \<noteq> 0);
        password_flag = (connect_flags AND 0x40 \<noteq> 0) in
    if password_flag \<and> \<not> username_flag then Err InvalidPacketFlags
    else
      outcome_bind (decode_will B will_flag c) (\<lambda>((will_topic, will_payload), c).
      outcome_bind (decode_username B username_flag c) (\<lambda>(username, c).
      outcome_bind (decode_password B password_flag c) (\<lambda>(password, c).
        Ok \<lparr>cp_protocol_name = protocol_name,
            cp_protocol_level = protocol_level,
            cp_clean_session = (connect_flags AND 0x02 \<noteq> 0),
            cp_keep_alive = keep_alive,
            cp_client_id = client_id,
            cp_will_flag = will_flag,
            cp_will_qos = will_qos,
            cp_will_retain = will_retain,
            cp_will_topic = will_topic,
            cp_will_payload = will_payload,
            cp_username = username,
            cp_password = password\<rparr>)))))))))"

definition decode_publish :: "'c buf_ops \<Rightarrow> 'c \<Rightarrow> u8 \<Rightarrow> (PublishPacket, PacketError) outcome" where
  "decode_publish B c flags =
    outcome_bind (decode_string B c) (\<lambda>(topic, c).
    case qos_of_bits (drop_bit 1 flags AND 0x03) of
      None \<Rightarrow> Err (InvalidPacketType flags)
    | Some qos \<Rightarrow>
      outcome_bind
        (if qos = AtLeastOnce \<or> qos = ExactlyOnce
         then outcome_bind (or_panic (get_u16 B c)) (\<lambda>(i, c). Ok (Some i, c))
         else Ok (None, c)) (\<lambda>(packet_id, c).
      outcome_bind (or_panic (copy_to_slice B (remaining B c) c)) (\<lambda>(payload, c).
        Ok \<lparr>pp_topic = topic,
            pp_packet_id = packet_id,
            pp_payload = payload,
            pp_qos = qos,
            pp_retain = (flags AND 0x01 \<noteq> 0),
            pp_dup = (flags AND 0x08 \<noteq> 0)\<rparr>)))"

text \<open>
  The \<open>while cursor.remaining() > 0\<close> loops carry fuel, since nothing is known of the cursor
  parameter; \<open>Codec\<close> shows that the fuel given here is never used up.
\<close>

fun decode_subscribe_loop :: "'c buf_ops \<Rightarrow> nat \<Rightarrow> 'c \<Rightarrow> (rstring \<times> QoS) list
    \<Rightarrow> ((rstring \<times> QoS) list, PacketError) outcome" where
  "decode_subscribe_loop B 0 c topic_filters = Pending"
| "decode_subscribe_loop B (Suc fuel) c topic_filters =
    (if remaining B c > 0 then
       outcome_bind (decode_string B c) (\<lambda>(topic, c).
       outcome_bind (or_panic (get_u8 B c)) (\<lambda>(qos_byte, c).
       case qos_of_bits qos_byte of
         None \<Rightarrow> Err (InvalidPacketType qos_byte)
       | Some qos \<Rightarrow> decode_subscribe_loop B fuel c (topic_filters @ [(topic, qos)])))
     else Ok topic_filters)"

definition decode_subscribe :: "'c buf_ops \<Rightarrow> 'c \<Rightarrow> (SubscribePacket, PacketError) outcome" where
  "decode_subscribe B c =
    outcome_bind (or_panic (get_u16 B c)) (\<lambda>(packet_id, c).
    outcome_bind (decode_subscribe_loop B (Suc (remaining B c)) c []) (\<lambda>topic_filters.
      Ok \<lparr>sp_packet_id = packet_id, sp_topic_filters = topic_filters\<rparr>))"

fun decode_unsubscribe_loop :: "'c buf_ops \<Rightarrow> nat \<Rightarrow> 'c \<Rightarrow> rstring list
    \<Rightarrow> (rstring list, PacketError) outcome" where
  "decode_unsubscribe_loop B 0 c topic_filters = Pending"
| "decode_unsubscribe_loop B (Suc fuel) c topic_filters =
    (if remaining B c > 0 then
       outcome_bind (decode_string B c) (\<lambda>(topic, c).
         decode_unsubscribe_loop B fuel c (topic_filters @ [topic]))
     else Ok topic_filters)"

definition decode_unsubscribe :: "'c buf_ops \<Rightarrow> 'c \<Rightarrow> (UnsubscribePacket, PacketError) outcome" where
  "decode_unsubscribe B c =
    outcome_bind (or_panic (get_u16 B c)) (\<lambda>(packet_id, c).
    outcome_bind (decode_unsubscribe_loop B (Suc (remaining B c)) c []) (\<lambda>topic_filters.
      Ok \<lparr>up_packet_id = packet_id, up_topic_filters = topic_filters\<rparr>))"

text \<open>The arms of PUBACK, PUBREC, PUBREL and PUBCOMP that read one packet identifier.\<close>

definition decode_packet_id ::
  "'c buf_ops \<Rightarrow> PacketType \<Rightarrow> u32 \<Rightarrow> 'c \<Rightarrow> (u16, PacketError) outcome" where
  "decode_packet_id B packet_type remaining_length c =
    (if remaining_length \<noteq> 2 then Err (InvalidPacketType (packet_type_u8 packet_type))
     else outcome_bind (or_panic (get_u16 B c)) (\<lambda>(packet_id, c). Ok packet_id))"

definition decode_body ::
  "'c buf_ops \<Rightarrow> PacketType \<Rightarrow> u8 \<Rightarrow> u32 \<Rightarrow> 'c \<Rightarrow> (Packet, PacketError) outcome" where
  "decode_body B packet_type flags remaining_length c =
    (case packet_type of
       TConnect \<Rightarrow> outcome_bind (decode_connect B c) (\<lambda>p. Ok (Connect p))
     | TPublish \<Rightarrow> outcome_bind (decode_publish B c flags) (\<lambda>p. Ok (Publish p))
     | TPubAck \<Rightarrow> outcome_bind (decode_packet_id B packet_type remaining_length c)
         (\<lambda>packet_id. Ok (PubAck \<lparr>pa_packet_id = packet_id\<rparr>))
     | TPubRec \<Rightarrow> outcome_bind (decode_packet_id B packet_type remaining_length c)
         (\<lambda>packet_id. Ok (PubRec \<lparr>prec_packet_id = packet_id\<rparr>))
     | TPubRel \<Rightarrow>
         if flags \<noteq> 0x02 then Err InvalidPacketFlags
         else outcome_bind (decode_packet_id B packet_type remaining_length c)
           (\<lambda>packet_id. Ok (PubRel \<lparr>prel_packet_id = packet_id\<rparr>))
     | TPubComp \<Rightarrow> outcome_bind (decode_packet_id B packet_type remaining_length c)
         (\<lambda>packet_id. Ok (PubComp \<lparr>pcomp_packet_id = packet_id\<rparr>))
     | TSubscribe \<Rightarrow> outcome_bind (decode_subscribe B c) (\<lambda>p. Ok (Subscribe p))
     | TUnsubscribe \<Rightarrow> outcome_bind (decode_unsubscribe B c) (\<lambda>p. Ok (Unsubscribe p))
     | TPingReq \<Rightarrow> Ok PingReq
     | TDisconnect \<Rightarrow> Ok Disconnect
     | _ \<Rightarrow> Err (InvalidPacketType (packet_type_u8 packet_type)))"

definition Packet_decode ::
  "'r reader_ops \<Rightarrow> 'c buf_ops \<Rightarrow> 'r \<Rightarrow> (Packet, PacketError) outcome \<times> 'r" where
  "Packet_decode R B r =
    qmark (map_prod (map_err Io) id (read_u8 R r)) (\<lambda>first_byte r.
    qmark (packet_type_try_from (drop_bit 4 first_byte AND 0x0F), r) (\<lambda>packet_type r.
    let flags = first_byte AND 0x0F in
    qmark (decode_remaining_length_async R r) (\<lambda>remaining_length r.
    qmark (map_prod (map_err Io) id (read_exact R (unat remaining_length) r)) (\<lambda>packet_data r.
      (decode_body B packet_type flags remaining_length (cursor_new B packet_data), r)))))"

section \<open>Encoding\<close>

lemma unat_div_128: "unat ((n :: u32) div 128) = unat n div 128"
  by (simp add: unat_div)

function encode_remaining_length :: "'b bufmut_ops \<Rightarrow> u32 \<Rightarrow> 'b \<Rightarrow> 'b" where
  "encode_remaining_length M rest buf =
    (let byte = ucast (rest mod 128);
         rest' = rest div 128;
         byte' = (if rest' > 0 then byte OR 0x80 else byte);
         buf' = put_u8 M byte' buf
     in if rest' = 0 then buf' else encode_remaining_length M rest' buf')"
  by pat_completeness auto
termination
proof (relation "measure (\<lambda>(M, n, b). unat n)", goal_cases)
  case (2 M rest buf byte rest' byte' buf')
  then have "unat rest div 128 \<noteq> 0"
    by (metis unat_div_128 unat_eq_zero)
  with 2 show ?case
    by (simp add: unat_div_128)
qed simp

declare encode_remaining_length.simps [simp del]

definition encode_string :: "'b bufmut_ops \<Rightarrow> rstring \<Rightarrow> 'b \<Rightarrow> 'b" where
  "encode_string M s buf =
    put_slice M (bytes_of s) (put_u16 M (word_of_nat (length s)) buf)"

definition encode_connack :: "'b bufmut_ops \<Rightarrow> ConnAckPacket \<Rightarrow> 'b \<Rightarrow> 'b" where
  "encode_connack M packet buf =
    (let buf = put_u8 M 0x20 buf;
         buf = put_u8 M 2 buf;
         buf = put_u8 M (if ca_session_present packet then 0x01 else 0x00) buf
     in put_u8 M (ca_return_code packet) buf)"

definition publish_flags :: "PublishPacket \<Rightarrow> u8" where
  "publish_flags packet =
    (let flags = 0x30;
         flags = (if pp_dup packet then flags OR 0x08 else flags);
         flags = flags OR push_bit 1 (qos_u8 (pp_qos packet))
     in if pp_retain packet then flags OR 0x01 else flags)"

definition publish_remaining_length :: "PublishPacket \<Rightarrow> nat" where
  "publish_remaining_length packet =
    (let remaining_length = 2 + length (pp_topic packet);
         remaining_length =
           (if pp_packet_id packet \<noteq> None then remaining_length + 2 else remaining_length)
     in remaining_length + length (pp_payload packet))"

definition encode_publish :: "'b bufmut_ops \<Rightarrow> PublishPacket \<Rightarrow> 'b \<Rightarrow> 'b" where
  "encode_publish M packet buf =
    (let buf = put_u8 M (publish_flags packet) buf;
         buf = encode_remaining_length M (word_of_nat (publish_remaining_length packet)) buf;
         buf = encode_string M (pp_topic packet) buf;
         buf = (case pp_packet_id packet of
                  Some packet_id \<Rightarrow> put_u16 M packet_id buf
                | None \<Rightarrow> buf)
     in put_slice M (pp_payload packet) buf)"

definition encode_puback :: "'b bufmut_ops \<Rightarrow> PubAckPacket \<Rightarrow> 'b \<Rightarrow> 'b" where
  "encode_puback M packet buf =
    put_u16 M (pa_packet_id packet) (put_u8 M 2 (put_u8 M 0x40 buf))"

definition encode_pubrec :: "'b bufmut_ops \<Rightarrow> PubRecPacket \<Rightarrow> 'b \<Rightarrow> 'b" where
  "encode_pubrec M packet buf =
    put_u16 M (prec_packet_id packet) (put_u8 M 2 (put_u8 M 0x50 buf))"

definition encode_pubrel :: "'b bufmut_ops \<Rightarrow> PubRelPacket \<Rightarrow> 'b \<Rightarrow> 'b" where
  "encode_pubrel M packet buf =
    put_u16 M (prel_packet_id packet) (put_u8 M 2 (put_u8 M 0x62 buf))"

definition encode_pubcomp :: "'b bufmut_ops \<Rightarrow> PubCompPacket \<Rightarrow> 'b \<Rightarrow> 'b" where
  "encode_pubcomp M packet buf =
    put_u16 M (pcomp_packet_id packet) (put_u8 M 2 (put_u8 M 0x70 buf))"

definition encode_suback :: "'b bufmut_ops \<Rightarrow> SubAckPacket \<Rightarrow> 'b \<Rightarrow> 'b" where
  "encode_suback M packet buf =
    (let buf = put_u8 M 0x90 buf;
         buf = encode_remaining_length M (2 + word_of_nat (length (sa_return_codes packet))) buf;
         buf = put_u16 M (sa_packet_id packet) buf
     in fold (put_u8 M) (sa_return_codes packet) buf)"

definition encode_unsuback :: "'b bufmut_ops \<Rightarrow> UnsubAckPacket \<Rightarrow> 'b \<Rightarrow> 'b" where
  "encode_unsuback M packet buf =
    put_u16 M (ua_packet_id packet) (put_u8 M 2 (put_u8 M 0xB0 buf))"

definition encode_disconnect :: "'b bufmut_ops \<Rightarrow> 'b \<Rightarrow> 'b" where
  "encode_disconnect M buf = put_u8 M 0 (put_u8 M 0xE0 buf)"

definition encode_pingresp :: "'b bufmut_ops \<Rightarrow> 'b \<Rightarrow> 'b" where
  "encode_pingresp M buf = put_u8 M 0 (put_u8 M 0xD0 buf)"

fun Packet_encode :: "'b bufmut_ops \<Rightarrow> Packet \<Rightarrow> 'b \<Rightarrow> 'b" where
  "Packet_encode M (ConnAck packet) buf = encode_connack M packet buf"
| "Packet_encode M (Publish packet) buf = encode_publish M packet buf"
| "Packet_encode M (PubAck packet) buf = encode_puback M packet buf"
| "Packet_encode M (PubRec packet) buf = encode_pubrec M packet buf"
| "Packet_encode M (PubRel packet) buf = encode_pubrel M packet buf"
| "Packet_encode M (PubComp packet) buf = encode_pubcomp M packet buf"
| "Packet_encode M (SubAck packet) buf = encode_suback M packet buf"
| "Packet_encode M (UnsubAck packet) buf = encode_unsuback M packet buf"
| "Packet_encode M PingResp buf = encode_pingresp M buf"
| "Packet_encode M Disconnect buf = encode_disconnect M buf"
| "Packet_encode M _ buf = buf"

subsection \<open>Order on QoS levels\<close>

text \<open>QoS levels are ordered by their discriminants, as the source compares them.\<close>

instantiation QoS :: linorder
begin

definition less_eq_QoS :: "QoS \<Rightarrow> QoS \<Rightarrow> bool" where
  "less_eq_QoS a b \<longleftrightarrow> unat (qos_u8 a) \<le> unat (qos_u8 b)"

definition less_QoS :: "QoS \<Rightarrow> QoS \<Rightarrow> bool" where
  "less_QoS a b \<longleftrightarrow> unat (qos_u8 a) < unat (qos_u8 b)"

instance
proof
  fix a b :: QoS
  assume "a \<le> b" "b \<le> a"
  then show "a = b"
    by (cases a; cases b) (simp_all add: less_eq_QoS_def)
qed (auto simp: less_eq_QoS_def less_QoS_def)

end

lemma qos_of_bits_simps [simp]:
  "qos_of_bits 0 = Some AtMostOnce" "qos_of_bits 1 = Some AtLeastOnce"
  "qos_of_bits 2 = Some ExactlyOnce"
  by (simp_all add: qos_of_bits_def)

lemma qos_of_bits_qos_u8 [simp]: "qos_of_bits (qos_u8 q) = Some q"
  by (cases q) (simp_all add: qos_of_bits_def)

lemma packet_type_try_from_u8 [simp]: "packet_type_try_from (packet_type_u8 t) = Ok t"
  by (cases t) (simp_all add: packet_type_try_from_def)

end
