(* ===== verification/Codec.thy ===== *)
theory Codec
  imports Packet
begin

text \<open>
  Correctness of the packet codec.

  \<open>rl_bytes\<close>, \<open>str_field\<close>, \<open>bin_field\<close> and the \<open>mqtt_\<close> functions are the reference: the byte layout
  of the MQTT v3.1.1 standard written as a function from packets to bytes.  The encoders are shown
  equal to it, and the decoders are shown to invert it, for every cursor, buffer and reader that
  behaves as its crate documents (the locales of \<open>Wire\<close>).
\<close>

section \<open>Reference encoding\<close>

fun rl_bytes :: "nat \<Rightarrow> bytes" where
  "rl_bytes n =
    (if n < 128 then [word_of_nat n] else word_of_nat (n mod 128 + 128) # rl_bytes (n div 128))"

declare rl_bytes.simps [simp del]

definition str_field :: "rstring \<Rightarrow> bytes" where
  "str_field s = be16_bytes (word_of_nat (length s)) @ bytes_of s"

definition bin_field :: "bytes \<Rightarrow> bytes" where
  "bin_field bs = be16_bytes (word_of_nat (length bs)) @ bs"

definition wf_field :: "rstring \<Rightarrow> bool" where
  "wf_field s \<longleftrightarrow> wf_string s \<and> length s < 65536"

definition mqtt_frame :: "u8 \<Rightarrow> bytes \<Rightarrow> bytes" where
  "mqtt_frame first_byte body = first_byte # rl_bytes (length body) @ body"

definition mqtt_publish_body :: "PublishPacket \<Rightarrow> bytes" where
  "mqtt_publish_body p =
    str_field (pp_topic p)
    @ (case pp_packet_id p of None \<Rightarrow> [] | Some i \<Rightarrow> be16_bytes i)
    @ pp_payload p"

definition mqtt_connect_flags :: "ConnectPacket \<Rightarrow> u8" where
  "mqtt_connect_flags p =
    (if cp_username p \<noteq> None then 0x80 else 0)
    OR (if cp_password p \<noteq> None then 0x40 else 0)
    OR (if cp_will_retain p then 0x20 else 0)
    OR push_bit 3 (qos_u8 (cp_will_qos p))
    OR (if cp_will_flag p then 0x04 else 0)
    OR (if cp_clean_session p then 0x02 else 0)"

definition mqtt_connect_body :: "ConnectPacket \<Rightarrow> bytes" where
  "mqtt_connect_body p =
    str_field (cp_protocol_name p)
    @ [cp_protocol_level p, mqtt_connect_flags p]
    @ be16_bytes (cp_keep_alive p)
    @ str_field (cp_client_id p)
    @ (case cp_will_topic p of None \<Rightarrow> [] | Some t \<Rightarrow> str_field t)
    @ (case cp_will_payload p of None \<Rightarrow> [] | Some b \<Rightarrow> bin_field b)
    @ (case cp_username p of None \<Rightarrow> [] | Some u \<Rightarrow> str_field u)
    @ (case cp_password p of None \<Rightarrow> [] | Some b \<Rightarrow> bin_field b)"

definition mqtt_subscribe_body :: "SubscribePacket \<Rightarrow> bytes" where
  "mqtt_subscribe_body p =
    be16_bytes (sp_packet_id p)
    @ concat (map (\<lambda>(f, q). str_field f @ [qos_u8 q]) (sp_topic_filters p))"

definition mqtt_unsubscribe_body :: "UnsubscribePacket \<Rightarrow> bytes" where
  "mqtt_unsubscribe_body p =
    be16_bytes (up_packet_id p) @ concat (map str_field (up_topic_filters p))"

text \<open>
  The first byte of a PUBLISH, section 3.3.1 of the standard: the packet type 3 in the upper half; below it,
  from bit 3 down, DUP, two bits for the QoS level, and RETAIN.
\<close>

fun mqtt_qos_level :: "QoS \<Rightarrow> nat" where
  "mqtt_qos_level AtMostOnce = 0"
| "mqtt_qos_level AtLeastOnce = 1"
| "mqtt_qos_level ExactlyOnce = 2"

definition mqtt_publish_flags :: "PublishPacket \<Rightarrow> u8" where
  "mqtt_publish_flags p = word_of_nat
    (3 * 16 + of_bool (pp_dup p) * 8 + mqtt_qos_level (pp_qos p) * 2 + of_bool (pp_retain p))"

text \<open>The packets as the standard encodes them.\<close>

fun mqtt_bytes :: "Packet \<Rightarrow> bytes" where
  "mqtt_bytes (Connect p) = mqtt_frame 0x10 (mqtt_connect_body p)"
| "mqtt_bytes (Publish p) = mqtt_frame (mqtt_publish_flags p) (mqtt_publish_body p)"
| "mqtt_bytes (PubAck p) = mqtt_frame 0x40 (be16_bytes (pa_packet_id p))"
| "mqtt_bytes (PubRec p) = mqtt_frame 0x50 (be16_bytes (prec_packet_id p))"
| "mqtt_bytes (PubRel p) = mqtt_frame 0x62 (be16_bytes (prel_packet_id p))"
| "mqtt_bytes (PubComp p) = mqtt_frame 0x70 (be16_bytes (pcomp_packet_id p))"
| "mqtt_bytes (Subscribe p) = mqtt_frame 0x82 (mqtt_subscribe_body p)"
| "mqtt_bytes (Unsubscribe p) = mqtt_frame 0xA2 (mqtt_unsubscribe_body p)"
| "mqtt_bytes PingReq = mqtt_frame 0xC0 []"
| "mqtt_bytes Disconnect = mqtt_frame 0xE0 []"
| "mqtt_bytes (ConnAck p) =
    mqtt_frame 0x20 [if ca_session_present p then 1 else 0, ca_return_code p]"
| "mqtt_bytes (SubAck p) = mqtt_frame 0x90 (be16_bytes (sa_packet_id p) @ sa_return_codes p)"
| "mqtt_bytes (UnsubAck p) = mqtt_frame 0xB0 (be16_bytes (ua_packet_id p))"
| "mqtt_bytes PingResp = mqtt_frame 0xD0 []"

definition max_remaining_length :: nat where
  "max_remaining_length = 268435455"

definition wf_connect :: "ConnectPacket \<Rightarrow> bool" where
  "wf_connect p \<longleftrightarrow>
    wf_field (cp_protocol_name p) \<and> wf_field (cp_client_id p)
    \<and> (cp_will_flag p \<longleftrightarrow> cp_will_topic p \<noteq> None)
    \<and> (cp_will_flag p \<longleftrightarrow> cp_will_payload p \<noteq> None)
    \<and> (\<not> cp_will_flag p \<longrightarrow> cp_will_qos p = AtMostOnce)
    \<and> pred_option wf_field (cp_will_topic p)
    \<and> pred_option (\<lambda>b. length b < 65536) (cp_will_payload p)
    \<and> pred_option wf_field (cp_username p)
    \<and> pred_option (\<lambda>b. length b < 65536) (cp_password p)
    \<and> (cp_password p \<noteq> None \<longrightarrow> cp_username p \<noteq> None)
    \<and> length (mqtt_connect_body p) \<le> max_remaining_length"

definition wf_publish :: "PublishPacket \<Rightarrow> bool" where
  "wf_publish p \<longleftrightarrow>
    wf_field (pp_topic p) \<and> (pp_packet_id p = None \<longleftrightarrow> pp_qos p = AtMostOnce)
    \<and> length (mqtt_publish_body p) \<le> max_remaining_length"

fun wf_packet :: "Packet \<Rightarrow> bool" where
  "wf_packet (Connect p) \<longleftrightarrow> wf_connect p"
| "wf_packet (Publish p) \<longleftrightarrow> wf_publish p"
| "wf_packet (Subscribe p) \<longleftrightarrow>
    (\<forall>(f, q) \<in> set (sp_topic_filters p). wf_field f)
    \<and> length (mqtt_subscribe_body p) \<le> max_remaining_length"
| "wf_packet (Unsubscribe p) \<longleftrightarrow>
    (\<forall>f \<in> set (up_topic_filters p). wf_field f)
    \<and> length (mqtt_unsubscribe_body p) \<le> max_remaining_length"
| "wf_packet (SubAck p) \<longleftrightarrow> length (sa_return_codes p) + 2 \<le> max_remaining_length"
| "wf_packet _ \<longleftrightarrow> True"

text \<open>The packets the broker accepts, and those it sends.\<close>

fun inbound :: "Packet \<Rightarrow> bool" where
  "inbound (ConnAck _) = False"
| "inbound (SubAck _) = False"
| "inbound (UnsubAck _) = False"
| "inbound PingResp = False"
| "inbound _ = True"

fun outbound :: "Packet \<Rightarrow> bool" where
  "outbound (Connect _) = False"
| "outbound (Subscribe _) = False"
| "outbound (Unsubscribe _) = False"
| "outbound PingReq = False"
| "outbound _ = True"

section \<open>Remaining length\<close>

lemma unat_and_127: "unat ((b :: u8) AND 0x7F) = unat b mod 128"
proof -
  have "unat b AND 127 = take_bit 7 (unat b)"
    by (simp add: take_bit_eq_mask mask_eq_exp_minus_1)
  then show ?thesis
    by (simp add: unsigned_and_eq take_bit_eq_mod)
qed

lemma and_128_eq_0: "(b :: u8) AND 0x80 = 0 \<longleftrightarrow> unat b < 128"
proof -
  have "b AND 0x80 = 0 \<longleftrightarrow> \<not> bit b 7"
    using and_exp_eq_0_iff_not_bit [of b 7] by simp
  also have "\<dots> \<longleftrightarrow> \<not> bit (unat b) 7"
    by (simp add: bit_unsigned_iff)
  also have "\<dots> \<longleftrightarrow> even (unat b div 128)"
    by (simp add: bit_iff_odd)
  also have "\<dots> \<longleftrightarrow> unat b div 128 = 0"
  proof -
    have "unat b div 128 < 2"
      using unat_u8_less [of b] by (simp add: div_less_iff_less_mult)
    then show ?thesis
      by (auto simp: less_2_cases_iff)
  qed
  finally show ?thesis
    by (simp add: div_eq_0_iff)
qed

lemma unat_or_128: "unat (b :: u8) < 128 \<Longrightarrow> unat (b OR 0x80) = unat b + 128"
proof -
  assume "unat b < 128"
  then have "b OR 0x80 = b + 0x80"
    by (simp add: disjunctive_add_eq_or and_128_eq_0)
  with \<open>unat b < 128\<close> show ?thesis
    by (simp add: unat_word_ariths)
qed

lemma ucast_u8_u32: "(ucast (b :: u8) :: u32) = word_of_nat (unat b)"
  by (metis of_nat_unat ucast_id unsigned_of_nat unsigned_ucast_eq word_unat_eq_iff)

lemma rl_bytes_neq_Nil [simp]: "rl_bytes n \<noteq> []"
  by (subst rl_bytes.simps) simp

context buf_writer
begin

lemma encode_remaining_length_bytes:
  "bytesmut_deref M (encode_remaining_length M n buf) = bytesmut_deref M buf @ rl_bytes (unat n)"
proof (induction "unat n" arbitrary: n buf rule: less_induct)
  case less
  let ?byte = "ucast (n mod 128) :: u8"
  have byte: "unat ?byte = unat n mod 128"
    by (simp add: unat_mod unsigned_ucast_eq take_bit_eq_mod)
  show ?case
  proof (cases "n div 128 = 0")
    case True
    then have "unat n < 128"
      by (metis div_eq_0_iff unat_div_128 unsigned_0 zero_neq_numeral)
    moreover from this have "?byte = word_of_nat (unat n)"
      using byte by (simp only: word_unat_eq_iff unat_of_nat) simp
    ultimately show ?thesis
      using True
      by (subst encode_remaining_length.simps, subst rl_bytes.simps)
        (simp add: deref_put_u8 Let_def)
  next
    case False
    then have pos: "unat n div 128 \<noteq> 0"
      by (metis unat_div_128 unat_eq_zero)
    then have "unat (n div 128) < unat n"
      by (simp add: unat_div_128)
    with less have IH: "bytesmut_deref M (encode_remaining_length M (n div 128) b)
        = bytesmut_deref M b @ rl_bytes (unat (n div 128))" for b
      by blast
    have "unat (?byte OR 0x80) = unat n mod 128 + 128"
      using unat_or_128 [of ?byte] byte by simp
    then have "?byte OR 0x80 = word_of_nat (unat n mod 128 + 128)"
      by (simp only: word_unat_eq_iff unat_of_nat) simp
    then show ?thesis
      using False pos
      by (subst encode_remaining_length.simps, subst rl_bytes.simps)
        (simp add: IH deref_put_u8 unat_div_128 word_gt_0)
  qed
qed

end

lemma rl_last_digit:
  assumes "n < 128"
  shows "ucast ((word_of_nat n :: u8) AND 0x7F) = (word_of_nat n :: u32)" "(word_of_nat n :: u8) AND 0x80 = 0"
proof -
  have "unat (word_of_nat n :: u8) = n"
    using assms by (simp add: unat_of_nat)
  then show "ucast ((word_of_nat n :: u8) AND 0x7F) = (word_of_nat n :: u32)" "(word_of_nat n :: u8) AND 0x80 = 0"
    using assms by (simp_all only: ucast_u8_u32 unat_and_127 and_128_eq_0) simp_all
qed

lemma rl_more_digit:
  "ucast ((word_of_nat (n mod 128 + 128) :: u8) AND 0x7F) = (word_of_nat (n mod 128) :: u32)"
  "(word_of_nat (n mod 128 + 128) :: u8) AND 0x80 \<noteq> 0"
proof -
  have unat_b: "unat (word_of_nat (n mod 128 + 128) :: u8) = n mod 128 + 128"
    by (simp only: unat_of_nat) simp
  show "ucast ((word_of_nat (n mod 128 + 128) :: u8) AND 0x7F) = (word_of_nat (n mod 128) :: u32)"
    "(word_of_nat (n mod 128 + 128) :: u8) AND 0x80 \<noteq> 0"
    by (simp_all only: ucast_u8_u32 unat_and_127 and_128_eq_0 unat_b) simp_all
qed

lemma rl_digit_sum:
  "v + word_of_nat (n mod 128) * 128 ^ k + word_of_nat (n div 128) * 128 ^ Suc k = v + word_of_nat n * (128 ^ k :: u32)"
proof -
  have "(word_of_nat n :: u32) = word_of_nat (n mod 128) + 128 * word_of_nat (n div 128)"
    by (metis mod_mult_div_eq of_nat_add of_nat_mult of_nat_numeral)
  then show ?thesis
    by (simp add: algebra_simps)
qed

context async_reader
begin

lemma read_u8_Cons:
  assumes "avail r = b # bs"
  obtains r' where "read_u8 R r = (Ok b, r')" "avail r' = bs" "eof r' = eof r"
  using read_u8_ready [OF assms] by (metis prod.collapse)

lemma read_exact_Ok:
  assumes "avail r = bs @ rest" "length bs = n"
  obtains r' where "read_exact R n r = (Ok bs, r')" "avail r' = rest" "eof r' = eof r"
proof -
  have "n \<le> length (avail r)" "take n (avail r) = bs" "drop n (avail r) = rest"
    using assms by auto
  then show ?thesis
    using read_exact_ready [of n r] that by (metis prod.collapse)
qed

lemma decode_remaining_length_loop_reads:
  assumes "avail r = rl_bytes n @ rest" "n < 128 ^ (4 - k)" "k < 4"
  shows "\<exists>r'. decode_remaining_length_loop R (128 ^ k) v k r
      = (Ok (v + word_of_nat n * 128 ^ k), r') \<and> avail r' = rest \<and> eof r' = eof r"
  using assms
proof (induction n arbitrary: r k v rule: less_induct)
  case (less n)
  show ?case
  proof (cases "n < 128")
    case True
    with less.prems have "avail r = word_of_nat n # rest"
      by (simp add: rl_bytes.simps [of n])
    then obtain r' where r': "read_u8 R r = (Ok (word_of_nat n), r')" "avail r' = rest" "eof r' = eof r"
      by (rule read_u8_Cons)
    then show ?thesis
      using rl_last_digit [OF True] less.prems(3)
      by (subst decode_remaining_length_loop.simps) simp
  next
    case False
    let ?b = "word_of_nat (n mod 128 + 128) :: u8"
    have "avail r = ?b # rl_bytes (n div 128) @ rest"
      using less.prems False by (simp add: rl_bytes.simps [of n])
    then obtain r' where r': "read_u8 R r = (Ok ?b, r')"
        "avail r' = rl_bytes (n div 128) @ rest" "eof r' = eof r"
      by (rule read_u8_Cons)
    have k: "Suc k < 4"
    proof (rule ccontr)
      assume "\<not> Suc k < 4"
      with less.prems have "k = 3" by simp
      with less.prems False show False by simp
    qed
    then have m: "4 - k = Suc (4 - Suc k)"
      by simp
    have "n div 128 < 128 ^ (4 - Suc k)"
      using less.prems(2) by (simp add: m div_less_iff_less_mult mult.commute)
    moreover have "n div 128 < n"
      using False by simp
    moreover note less.IH [of "n div 128" r' "Suc k" "v + word_of_nat (n mod 128) * 128 ^ k"]
    ultimately obtain r'' where r'':
        "decode_remaining_length_loop R (128 ^ Suc k) (v + word_of_nat (n mod 128) * 128 ^ k) (Suc k) r'
         = (Ok (v + word_of_nat (n mod 128) * 128 ^ k + word_of_nat (n div 128) * 128 ^ Suc k), r'')"
        "avail r'' = rest" "eof r'' = eof r'"
      using r'(2) k by blast
    have "decode_remaining_length_loop R (128 ^ k) v k r
        = decode_remaining_length_loop R (128 ^ Suc k) (v + word_of_nat (n mod 128) * 128 ^ k) (Suc k) r'"
      using r'(1) rl_more_digit [of n] less.prems(3)
      by (subst decode_remaining_length_loop.simps) (simp add: mult.commute)
    then show ?thesis
      using r'' r'(3) unfolding rl_digit_sum by auto
  qed
qed

lemma decode_remaining_length_reads:
  assumes "avail r = rl_bytes n @ rest" "n \<le> max_remaining_length"
  obtains r' where "decode_remaining_length_async R r = (Ok (word_of_nat n), r')"
    "avail r' = rest" "eof r' = eof r"
proof -
  have "n < 128 ^ (4 - 0)"
    using assms(2) by (simp add: max_remaining_length_def)
  from decode_remaining_length_loop_reads [OF assms(1) this, of 0] show ?thesis
    using that by (auto simp: decode_remaining_length_async_def)
qed

end

section \<open>Fields and packet bodies\<close>

lemma connect_flags_bits:
  "(mqtt_connect_flags p AND 0x80 \<noteq> 0) = (cp_username p \<noteq> None)"
  "(mqtt_connect_flags p AND 0x40 \<noteq> 0) = (cp_password p \<noteq> None)"
  "(mqtt_connect_flags p AND 0x20 \<noteq> 0) = cp_will_retain p"
  "(mqtt_connect_flags p AND 0x04 \<noteq> 0) = cp_will_flag p"
  "(mqtt_connect_flags p AND 0x02 \<noteq> 0) = cp_clean_session p"
  "drop_bit 3 (mqtt_connect_flags p) AND 0x03 = qos_u8 (cp_will_qos p)"
  by (cases "cp_will_qos p"; simp add: mqtt_connect_flags_def)+

lemma publish_flags_standard: "publish_flags p = mqtt_publish_flags p"
  by (cases "pp_qos p") (simp_all add: publish_flags_def mqtt_publish_flags_def Let_def)

lemma publish_flags_bits:
  "drop_bit 4 (mqtt_publish_flags p) AND 0x0F = 3"
  "drop_bit (Suc 0) (mqtt_publish_flags p AND 0x0F) AND 0x03 = qos_u8 (pp_qos p)"
  "((mqtt_publish_flags p AND 0x0F) AND 0x01 \<noteq> 0) = pp_retain p"
  "((mqtt_publish_flags p AND 0x0F) AND 0x08 \<noteq> 0) = pp_dup p"
  by (cases "pp_qos p"; simp add: mqtt_publish_flags_def)+

context buf_reader
begin

lemma get_u8_Cons:
  assumes "view c = b # rest"
  obtains c' where "get_u8 B c = Some (b, c')" "view c' = rest"
proof
  show "get_u8 B c = Some (b, adv 1 c)" "view (adv 1 c) = rest"
    using assms by (simp_all add: get_u8_view view_adv)
qed

lemma get_u16_bytes:
  assumes "view c = be16_bytes w @ rest"
  obtains c' where "get_u16 B c = Some (w, c')" "view c' = rest"
proof
  have "be16 (view c ! 0) (view c ! 1) = w"
    using assms be16_be16_bytes [of w] by (simp add: nth_append)
  then show "get_u16 B c = Some (w, adv 2 c)" "view (adv 2 c) = rest"
    using assms by (simp_all add: get_u16_view view_adv)
qed

lemma copy_bytes:
  assumes "view c = bs @ rest" "length bs = n"
  obtains c' where "copy_to_slice B n c = Some (bs, c')" "view c' = rest"
proof
  show "copy_to_slice B n c = Some (bs, adv n c)" "view (adv n c) = rest"
    using assms by (auto simp: copy_view view_adv)
qed

lemma decode_string_reads:
  assumes "view c = str_field s @ rest" "wf_field s"
  obtains c' where "decode_string B c = Ok (s, c')" "view c' = rest"
proof -
  let ?w = "word_of_nat (length s) :: u16"
  have len: "unat ?w = length s"
    using assms(2) by (simp add: wf_field_def unat_word_of_nat_u16)
  have vc: "view c = be16_bytes ?w @ bytes_of s @ rest"
    using assms(1) by (simp add: str_field_def)
  then obtain c1 where c1: "get_u16 B c = Some (?w, c1)" "view c1 = bytes_of s @ rest"
    by (rule get_u16_bytes)
  obtain c2 where c2: "copy_to_slice B (length s) c1 = Some (bytes_of s, c2)" "view c2 = rest"
    by (rule copy_bytes [OF c1(2)]) simp_all
  have "decode_string B c = Ok (s, c2)"
    using c1 c2 assms(2) len vc
    by (simp add: decode_string_def remaining_view wf_field_def)
  then show ?thesis
    using c2(2) that by blast
qed

lemma bin_field_reads:
  assumes "view c = bin_field bs @ rest" "length bs < 65536"
  obtains c1 c2 where "get_u16 B c = Some (word_of_nat (length bs), c1)"
    "unat (word_of_nat (length bs) :: u16) = length bs"
    "view c1 = bs @ rest" "copy_to_slice B (length bs) c1 = Some (bs, c2)" "view c2 = rest"
proof -
  have "view c = be16_bytes (word_of_nat (length bs)) @ bs @ rest"
    using assms(1) by (simp add: bin_field_def)
  then obtain c1 where c1: "get_u16 B c = Some (word_of_nat (length bs), c1)" "view c1 = bs @ rest"
    by (rule get_u16_bytes)
  obtain c2 where c2: "copy_to_slice B (length bs) c1 = Some (bs, c2)" "view c2 = rest"
    by (rule copy_bytes [OF c1(2)]) simp_all
  show ?thesis
    by (rule that [OF c1(1) _ c1(2) c2]) (use assms(2) in \<open>simp add: unat_word_of_nat_u16\<close>)
qed

lemma decode_will_reads:
  assumes "view c = (case t of None \<Rightarrow> [] | Some t \<Rightarrow> str_field t)
      @ (case p of None \<Rightarrow> [] | Some b \<Rightarrow> bin_field b) @ rest"
    and "w \<longleftrightarrow> t \<noteq> None" "w \<longleftrightarrow> p \<noteq> None"
    and "pred_option wf_field t" "pred_option (\<lambda>b. length b < 65536) p"
  obtains c' where "decode_will B w c = Ok ((t, p), c')" "view c' = rest"
proof (cases w)
  case False
  with assms that show ?thesis
    by (auto simp: decode_will_def)
next
  case True
  with assms obtain t' p' where tp: "t = Some t'" "p = Some p'"
    by auto
  with assms(1,4) obtain c1 where c1: "decode_string B c = Ok (t', c1)" "view c1 = bin_field p' @ rest"
    by (auto elim: decode_string_reads [where s = t'])
  with tp assms(5) obtain c2 c3 where "get_u16 B c1 = Some (word_of_nat (length p'), c2)"
      "unat (word_of_nat (length p') :: u16) = length p'"
      "copy_to_slice B (length p') c2 = Some (p', c3)" "view c3 = rest"
    by (auto elim: bin_field_reads)
  with True tp c1 that show ?thesis
    by (simp add: decode_will_def)
qed

lemma decode_username_reads:
  assumes "view c = (case u of None \<Rightarrow> [] | Some u \<Rightarrow> str_field u) @ rest"
    and "pred_option wf_field u"
  obtains c' where "decode_username B (u \<noteq> None) c = Ok (u, c')" "view c' = rest"
proof (cases u)
  case None
  with assms that show ?thesis by (simp add: decode_username_def)
next
  case (Some u')
  with assms obtain c1 where "decode_string B c = Ok (u', c1)" "view c1 = rest"
    by (auto elim: decode_string_reads [where s = u'])
  with Some that show ?thesis by (simp add: decode_username_def)
qed

lemma decode_password_reads:
  assumes "view c = (case p of None \<Rightarrow> [] | Some b \<Rightarrow> bin_field b) @ rest"
    and "pred_option (\<lambda>b. length b < 65536) p"
  obtains c' where "decode_password B (p \<noteq> None) c = Ok (p, c')" "view c' = rest"
proof (cases p)
  case None
  with assms that show ?thesis by (simp add: decode_password_def)
next
  case (Some p')
  with assms obtain c1 c2 where "get_u16 B c = Some (word_of_nat (length p'), c1)"
      "unat (word_of_nat (length p') :: u16) = length p'"
      "view c1 = p' @ rest" "copy_to_slice B (length p') c1 = Some (p', c2)" "view c2 = rest"
    by (auto elim: bin_field_reads)
  moreover have "2 \<le> length (view c)"
    using assms Some by (simp add: bin_field_def)
  ultimately show ?thesis
    using Some that by (simp add: decode_password_def remaining_view)
qed

lemma decode_connect_reads:
  assumes "view c = mqtt_connect_body p" "wf_connect p"
  shows "decode_connect B c = Ok p"
proof -
  let ?will = "(case cp_will_topic p of None \<Rightarrow> [] | Some t \<Rightarrow> str_field t)
    @ (case cp_will_payload p of None \<Rightarrow> [] | Some b \<Rightarrow> bin_field b)"
  let ?user = "case cp_username p of None \<Rightarrow> [] | Some u \<Rightarrow> str_field u"
  let ?pass = "case cp_password p of None \<Rightarrow> [] | Some b \<Rightarrow> bin_field b"
  let ?flags = "mqtt_connect_flags p"
  note wf = assms(2) [unfolded wf_connect_def]
  obtain c1 where c1: "decode_string B c = Ok (cp_protocol_name p, c1)"
      "view c1 = cp_protocol_level p # ?flags # be16_bytes (cp_keep_alive p)
        @ str_field (cp_client_id p) @ ?will @ ?user @ ?pass"
    using decode_string_reads [of c "cp_protocol_name p"] assms(1) wf
    by (auto simp: mqtt_connect_body_def)
  from get_u8_Cons [OF c1(2)] obtain c2 where c2: "get_u8 B c1 = Some (cp_protocol_level p, c2)"
      "view c2 = ?flags # be16_bytes (cp_keep_alive p)
        @ str_field (cp_client_id p) @ ?will @ ?user @ ?pass" .
  from get_u8_Cons [OF c2(2)] obtain c3 where c3: "get_u8 B c2 = Some (?flags, c3)"
      "view c3 = be16_bytes (cp_keep_alive p) @ str_field (cp_client_id p) @ ?will @ ?user @ ?pass" .
  from get_u16_bytes [OF c3(2)] obtain c4 where c4: "get_u16 B c3 = Some (cp_keep_alive p, c4)"
      "view c4 = str_field (cp_client_id p) @ ?will @ ?user @ ?pass" .
  from decode_string_reads [OF c4(2)] wf obtain c5 where
      c5: "decode_string B c4 = Ok (cp_client_id p, c5)" "view c5 = ?will @ ?user @ ?pass"
    by blast
  obtain c6 where c6: "decode_will B (cp_will_flag p) c5 = Ok ((cp_will_topic p, cp_will_payload p), c6)"
      "view c6 = ?user @ ?pass"
    using decode_will_reads [of c5 "cp_will_topic p" "cp_will_payload p" "?user @ ?pass"] c5(2) wf
    by auto
  from decode_username_reads [OF c6(2)] wf obtain c7 where
      c7: "decode_username B (cp_username p \<noteq> None) c6 = Ok (cp_username p, c7)" "view c7 = ?pass"
    by blast
  have "view c7 = ?pass @ []"
    using c7(2) by simp
  then obtain c8 where c8: "decode_password B (cp_password p \<noteq> None) c7 = Ok (cp_password p, c8)"
    by (rule decode_password_reads) (use wf in simp)
  have qos: "decode_will_qos ?flags = Ok (cp_will_qos p)"
    using wf by (cases "cp_will_flag p") (simp_all add: decode_will_qos_def connect_flags_bits)
  have "\<not> (cp_password p \<noteq> None \<and> \<not> cp_username p \<noteq> None)"
    using wf by blast
  then show ?thesis
    by (simp only: decode_connect_def c1(1) c2(1) c3(1) c4(1) c5(1) outcome_bind.simps or_panic_simps
        prod.case Let_def connect_flags_bits qos c6(1) c7(1) c8(1) if_False) simp
qed

lemma decode_publish_reads:
  assumes "view c = mqtt_publish_body p" "wf_publish p"
  shows "decode_publish B c (mqtt_publish_flags p AND 0x0F) = Ok p"
proof -
  obtain c1 where c1: "decode_string B c = Ok (pp_topic p, c1)"
      "view c1 = (case pp_packet_id p of None \<Rightarrow> [] | Some i \<Rightarrow> be16_bytes i) @ pp_payload p"
    using decode_string_reads [of c "pp_topic p"] assms
    by (auto simp: mqtt_publish_body_def wf_publish_def)
  define fl where "fl = mqtt_publish_flags p AND 0x0F"
  note bits = publish_flags_bits(2-4) [of p, folded fl_def]
  have copy: "copy_to_slice B (remaining B c') c' = Some (view c', adv (length (view c')) c')" for c'
    by (simp add: copy_view remaining_view)
  show ?thesis
  proof (cases "pp_packet_id p")
    case None
    with assms(2) have "pp_qos p = AtMostOnce" by (simp add: wf_publish_def)
    with None c1 show ?thesis
      by (simp add: decode_publish_def copy bits flip: fl_def)
  next
    case (Some i)
    with c1(2) obtain c2 where c2: "get_u16 B c1 = Some (i, c2)" "view c2 = pp_payload p"
      by (auto elim: get_u16_bytes)
    from Some assms(2) have "pp_qos p = AtLeastOnce \<or> pp_qos p = ExactlyOnce"
      by (cases "pp_qos p") (simp_all add: wf_publish_def)
    with Some c1 c2 show ?thesis
      by (auto simp: decode_publish_def copy bits simp flip: fl_def)
  qed
qed

lemma decode_subscribe_loop_reads:
  assumes "view c = concat (map (\<lambda>(f, q). str_field f @ [qos_u8 q]) fs)"
    and "\<forall>(f, q) \<in> set fs. wf_field f" "length fs < fuel"
  shows "decode_subscribe_loop B fuel c acc = Ok (acc @ fs)"
  using assms
proof (induction fs arbitrary: c acc fuel)
  case Nil
  then show ?case by (cases fuel) (simp_all add: remaining_view)
next
  case (Cons fq fs)
  obtain f q where fq: "fq = (f, q)" by fastforce
  let ?rest = "concat (map (\<lambda>(f, q). str_field f @ [qos_u8 q]) fs)"
  from Cons.prems fq obtain c1 where c1: "decode_string B c = Ok (f, c1)" "view c1 = qos_u8 q # ?rest"
    by (auto elim: decode_string_reads [where s = f])
  from get_u8_Cons [OF c1(2)] obtain c2 where c2: "get_u8 B c1 = Some (qos_u8 q, c2)" "view c2 = ?rest" .
  obtain n where n: "fuel = Suc n" "length fs < n"
    using Cons.prems(3) by (cases fuel) auto
  have "decode_subscribe_loop B n c2 (acc @ [(f, q)]) = Ok ((acc @ [(f, q)]) @ fs)"
    using Cons.prems(2) by (intro Cons.IH c2 n) simp
  then show ?case
    using c1 c2 fq n Cons.prems(1) by (simp add: remaining_view)
qed

lemma decode_unsubscribe_loop_reads:
  assumes "view c = concat (map str_field fs)"
    and "\<forall>f \<in> set fs. wf_field f" "length fs < fuel"
  shows "decode_unsubscribe_loop B fuel c acc = Ok (acc @ fs)"
  using assms
proof (induction fs arbitrary: c acc fuel)
  case Nil
  then show ?case by (cases fuel) (simp_all add: remaining_view)
next
  case (Cons f fs)
  let ?rest = "concat (map str_field fs)"
  from Cons.prems obtain c1 where c1: "decode_string B c = Ok (f, c1)" "view c1 = ?rest"
    by (auto elim: decode_string_reads [where s = f])
  obtain n where n: "fuel = Suc n" "length fs < n"
    using Cons.prems(3) by (cases fuel) auto
  have "decode_unsubscribe_loop B n c1 (acc @ [f]) = Ok ((acc @ [f]) @ fs)"
    using Cons.prems(2) by (intro Cons.IH c1 n) simp
  moreover have "view c \<noteq> []"
    using Cons.prems(1) by (simp add: str_field_def)
  ultimately show ?case
    using c1 n by (simp add: remaining_view)
qed

lemma decode_subscribe_reads:
  assumes "view c = mqtt_subscribe_body p" "\<forall>(f, q) \<in> set (sp_topic_filters p). wf_field f"
  shows "decode_subscribe B c = Ok p"
proof -
  let ?rest = "concat (map (\<lambda>(f, q). str_field f @ [qos_u8 q]) (sp_topic_filters p))"
  from assms(1) obtain c1 where c1: "get_u16 B c = Some (sp_packet_id p, c1)" "view c1 = ?rest"
    by (auto simp: mqtt_subscribe_body_def elim: get_u16_bytes)
  have "length fs \<le> length (concat (map (\<lambda>(f, q). str_field f @ [qos_u8 q]) fs))" for fs
    by (induction fs) auto
  then have "length (sp_topic_filters p) < Suc (remaining B c1)"
    using c1(2) by (simp add: remaining_view le_imp_less_Suc)
  then show ?thesis
    using c1 decode_subscribe_loop_reads [OF c1(2) assms(2), of "Suc (remaining B c1)" "[]"]
    by (simp add: decode_subscribe_def del: decode_subscribe_loop.simps)
qed

lemma decode_unsubscribe_reads:
  assumes "view c = mqtt_unsubscribe_body p" "\<forall>f \<in> set (up_topic_filters p). wf_field f"
  shows "decode_unsubscribe B c = Ok p"
proof -
  let ?rest = "concat (map str_field (up_topic_filters p))"
  from assms(1) obtain c1 where c1: "get_u16 B c = Some (up_packet_id p, c1)" "view c1 = ?rest"
    by (auto simp: mqtt_unsubscribe_body_def elim: get_u16_bytes)
  have "length fs \<le> length (concat (map str_field fs))" for fs
    by (induction fs) (auto simp: str_field_def)
  then have "length (up_topic_filters p) < Suc (remaining B c1)"
    using c1(2) by (simp add: remaining_view le_imp_less_Suc)
  then show ?thesis
    using c1 decode_unsubscribe_loop_reads [OF c1(2) assms(2), of "Suc (remaining B c1)" "[]"]
    by (simp add: decode_unsubscribe_def del: decode_unsubscribe_loop.simps)
qed

lemma decode_packet_id_reads:
  assumes "view c = be16_bytes i"
  shows "decode_packet_id B t 2 c = Ok i"
proof -
  from assms have "view c = be16_bytes i @ []"
    by simp
  then obtain c1 where "get_u16 B c = Some (i, c1)"
    by (rule get_u16_bytes)
  then show ?thesis by (simp add: decode_packet_id_def)
qed

end

section \<open>Encoders\<close>

lemma rl_bytes_small: "n < 128 \<Longrightarrow> rl_bytes n = [word_of_nat n]"
  by (simp add: rl_bytes.simps)

lemma length_mqtt_publish_body: "length (mqtt_publish_body p) = publish_remaining_length p"
  by (simp add: mqtt_publish_body_def publish_remaining_length_def str_field_def split: option.split)

context buf_writer
begin

lemma deref_fold_put_u8:
  "bytesmut_deref M (fold (put_u8 M) bs buf) = bytesmut_deref M buf @ bs"
  by (induction bs arbitrary: buf) (simp_all add: deref_put_u8)

lemma encode_string_bytes:
  "bytesmut_deref M (encode_string M s buf) = bytesmut_deref M buf @ str_field s"
  by (simp add: encode_string_def str_field_def deref_put_u16 deref_put_slice)

lemma encode_publish_bytes:
  assumes "length (mqtt_publish_body p) \<le> max_remaining_length"
  shows "bytesmut_deref M (encode_publish M p buf) = bytesmut_deref M buf @ mqtt_bytes (Publish p)"
proof -
  have "unat (word_of_nat (publish_remaining_length p) :: u32) = publish_remaining_length p"
    using assms by (simp add: unat_word_of_nat_u32 max_remaining_length_def length_mqtt_publish_body)
  then show ?thesis
    by (cases "pp_packet_id p")
      (simp_all add: encode_publish_def publish_flags_standard deref_put_u8 encode_remaining_length_bytes
        encode_string_bytes deref_put_u16 deref_put_slice mqtt_frame_def length_mqtt_publish_body,
        simp_all add: mqtt_publish_body_def)
qed

lemma encode_suback_bytes:
  assumes "length (sa_return_codes p) + 2 \<le> max_remaining_length"
  shows "bytesmut_deref M (encode_suback M p buf) = bytesmut_deref M buf @ mqtt_bytes (SubAck p)"
proof -
  have "unat (word_of_nat (2 + length (sa_return_codes p)) :: u32) = 2 + length (sa_return_codes p)"
    using assms by (intro unat_word_of_nat_u32) (simp add: max_remaining_length_def)
  then show ?thesis
    by (simp add: encode_suback_def deref_put_u8 encode_remaining_length_bytes
        deref_put_u16 deref_fold_put_u8 mqtt_frame_def Let_def)
qed

lemma packet_encode_bytes:
  assumes "outbound p" "wf_packet p"
  shows "bytesmut_deref M (Packet_encode M p buf) = bytesmut_deref M buf @ mqtt_bytes p"
proof (cases p)
  case (Publish x)
  with assms(2) show ?thesis by (simp add: encode_publish_bytes wf_publish_def)
next
  case (SubAck x)
  with assms(2) show ?thesis by (simp add: encode_suback_bytes)
qed (use assms(1) in \<open>simp_all add: encode_connack_def encode_puback_def encode_pubrec_def
    encode_pubrel_def encode_pubcomp_def encode_unsuback_def encode_disconnect_def
    encode_pingresp_def mqtt_frame_def rl_bytes_small deref_put_u8 deref_put_u16 Let_def\<close>)

end

section \<open>Whole packets\<close>

lemma wf_body_length:
  "wf_connect c \<Longrightarrow> length (mqtt_connect_body c) \<le> max_remaining_length"
  "wf_publish p \<Longrightarrow> length (mqtt_publish_body p) \<le> max_remaining_length"
  by (simp_all add: wf_connect_def wf_publish_def)

text \<open>First byte, body and type of the packets a client may send.\<close>

fun frame_of :: "Packet \<Rightarrow> u8 \<times> bytes \<times> PacketType" where
  "frame_of (Connect p) = (0x10, mqtt_connect_body p, TConnect)"
| "frame_of (Publish p) = (mqtt_publish_flags p, mqtt_publish_body p, TPublish)"
| "frame_of (PubAck p) = (0x40, be16_bytes (pa_packet_id p), TPubAck)"
| "frame_of (PubRec p) = (0x50, be16_bytes (prec_packet_id p), TPubRec)"
| "frame_of (PubRel p) = (0x62, be16_bytes (prel_packet_id p), TPubRel)"
| "frame_of (PubComp p) = (0x70, be16_bytes (pcomp_packet_id p), TPubComp)"
| "frame_of (Subscribe p) = (0x82, mqtt_subscribe_body p, TSubscribe)"
| "frame_of (Unsubscribe p) = (0xA2, mqtt_unsubscribe_body p, TUnsubscribe)"
| "frame_of PingReq = (0xC0, [], TPingReq)"
| "frame_of _ = (0xE0, [], TDisconnect)"

lemma frame_of_layout:
  assumes "inbound p" "wf_packet p"
  shows "mqtt_bytes p = mqtt_frame (fst (frame_of p)) (fst (snd (frame_of p)))"
    "length (fst (snd (frame_of p))) \<le> max_remaining_length"
    "packet_type_try_from (drop_bit 4 (fst (frame_of p)) AND 0x0F) = Ok (snd (snd (frame_of p)))"
proof -
  show "mqtt_bytes p = mqtt_frame (fst (frame_of p)) (fst (snd (frame_of p)))"
    using assms(1) by (cases p) simp_all
  have "2 \<le> max_remaining_length"
    by (simp add: max_remaining_length_def)
  then show "length (fst (snd (frame_of p))) \<le> max_remaining_length"
    using assms(2) by (cases p) (simp_all add: wf_body_length)
  show "packet_type_try_from (drop_bit 4 (fst (frame_of p)) AND 0x0F) = Ok (snd (snd (frame_of p)))"
    by (cases p) (simp_all add: packet_type_try_from_def publish_flags_bits)
qed

context buf_reader
begin

lemma decode_body_frame:
  assumes "inbound p" "wf_packet p" "view c = fst (snd (frame_of p))"
  shows "decode_body B (snd (snd (frame_of p))) (fst (frame_of p) AND 0x0F) (word_of_nat (length (fst (snd (frame_of p))))) c
    = Ok p"
  using assms
  by (cases p) (simp_all add: decode_body_def decode_connect_reads decode_publish_reads decode_packet_id_reads
      decode_subscribe_reads decode_unsubscribe_reads publish_flags_bits)

end

locale codec = async_reader R avail eof + buf_reader B adv view
  for R :: "'r reader_ops" and avail eof
    and B :: "'c buf_ops" and adv view
begin

lemma packet_decode_frame:
  assumes "avail r = mqtt_frame b body @ rest" "length body \<le> max_remaining_length"
    and "packet_type_try_from (drop_bit 4 b AND 0x0F) = Ok t"
  obtains r' where "Packet_decode R B r =
      (decode_body B t (b AND 0x0F) (word_of_nat (length body)) (cursor_new B body), r')"
    "avail r' = rest" "eof r' = eof r"
proof -
  have "avail r = b # rl_bytes (length body) @ body @ rest"
    using assms(1) by (simp add: mqtt_frame_def)
  then obtain r1 where r1: "read_u8 R r = (Ok b, r1)"
      "avail r1 = rl_bytes (length body) @ body @ rest" "eof r1 = eof r"
    by (rule read_u8_Cons)
  from decode_remaining_length_reads [OF r1(2) assms(2)] obtain r2 where r2:
      "decode_remaining_length_async R r1 = (Ok (word_of_nat (length body)), r2)"
      "avail r2 = body @ rest" "eof r2 = eof r1" .
  have len: "unat (word_of_nat (length body) :: u32) = length body"
    using assms(2) by (simp add: unat_word_of_nat_u32 max_remaining_length_def)
  obtain r3 where r3: "read_exact R (length body) r2 = (Ok body, r3)" "avail r3 = rest" "eof r3 = eof r2"
    by (rule read_exact_Ok [OF r2(2)]) simp_all
  show ?thesis
  proof (rule that)
    show "Packet_decode R B r =
      (decode_body B t (b AND 0x0F) (word_of_nat (length body)) (cursor_new B body), r3)"
      by (simp add: Packet_decode_def r1(1) assms(3) r2(1) r3(1) len)
  qed (use r1 r2 r3 in simp_all)
qed

lemma packet_decode_mqtt_bytes:
  assumes "avail r = mqtt_bytes p @ rest" "inbound p" "wf_packet p"
  shows "\<exists>r'. Packet_decode R B r = (Ok p, r') \<and> avail r' = rest \<and> eof r' = eof r"
proof -
  let ?b = "fst (frame_of p)" and ?body = "fst (snd (frame_of p))" and ?t = "snd (snd (frame_of p))"
  note layout = frame_of_layout [OF assms(2,3)]
  have "decode_body B ?t (?b AND 0x0F) (word_of_nat (length ?body)) (cursor_new B ?body) = Ok p"
    by (rule decode_body_frame [OF assms(2,3) view_new])
  then show ?thesis
    using packet_decode_frame [of r ?b ?body rest ?t] layout assms(1) by metis
qed

end

interpretation pipe_codec: codec pipe_reader fst snd slice_buf drop "\<lambda>c. c"
  by unfold_locales

section \<open>Truncated, oversized and malformed input\<close>

context async_reader
begin

lemma decode_remaining_length_loop_prefix:
  assumes "avail r @ missing = rl_bytes n" "missing \<noteq> []" "\<not> eof r" "n < 128 ^ (4 - k)" "k < 4"
  shows "fst (decode_remaining_length_loop R m v k r) = Pending
      \<and> avail (snd (decode_remaining_length_loop R m v k r)) = []"
  using assms
proof (induction n arbitrary: r k m v rule: less_induct)
  case (less n)
  show ?case
  proof (cases "avail r")
    case Nil
    then obtain r' where "read_u8 R r = (Pending, r')" "avail r' = []"
      using read_u8_wait [of r] less.prems(3) by (metis prod.collapse)
    then show ?thesis
      using less.prems(5) by (subst (1 2) decode_remaining_length_loop.simps) simp
  next
    case (Cons b bs)
    then obtain r' where r': "read_u8 R r = (Ok b, r')" "avail r' = bs" "eof r' = eof r"
      by (rule read_u8_Cons)
    have big: "\<not> n < 128"
      using less.prems(1,2) Cons by (auto simp: rl_bytes.simps [of n])
    then have b: "b = word_of_nat (n mod 128 + 128)" "bs @ missing = rl_bytes (n div 128)"
      using less.prems(1) Cons by (auto simp: rl_bytes.simps [of n])
    have "unat b = n mod 128 + 128"
      unfolding b(1) by (simp only: unat_of_nat) simp
    then have cont: "b AND 0x80 \<noteq> 0"
      by (simp add: and_128_eq_0)
    have k: "Suc k < 4"
    proof (rule ccontr)
      assume "\<not> Suc k < 4"
      with less.prems have "k = 3" by simp
      with less.prems big show False by simp
    qed
    then have m: "4 - k = Suc (4 - Suc k)" by simp
    have "n div 128 < 128 ^ (4 - Suc k)" "n div 128 < n"
      using less.prems(4) big by (simp_all add: m div_less_iff_less_mult mult.commute)
    then have IH: "fst (decode_remaining_length_loop R m' v' (Suc k) r') = Pending
        \<and> avail (snd (decode_remaining_length_loop R m' v' (Suc k) r')) = []" for m' v'
      using less.IH [of "n div 128" r' "Suc k"] b(2) r' less.prems(2,3) k by simp
    show ?thesis
      using r'(1) cont less.prems(5) IH
      by (subst (1 2) decode_remaining_length_loop.simps) simp
  qed
qed

lemma decode_remaining_length_loop_too_long:
  assumes "avail r = bs @ rest" "k + length bs = 4" "\<forall>b \<in> set bs. 128 \<le> unat b"
  shows "fst (decode_remaining_length_loop R m v k r) = Err InvalidRemainingLength"
  using assms
proof (induction bs arbitrary: r k m v)
  case Nil
  then show ?case by (subst decode_remaining_length_loop.simps) simp
next
  case (Cons b bs)
  then obtain r' where r': "read_u8 R r = (Ok b, r')" "avail r' = bs @ rest"
    by (auto elim: read_u8_Cons)
  have "b AND 0x80 \<noteq> 0"
    using Cons.prems(3) by (simp add: and_128_eq_0)
  moreover have "fst (decode_remaining_length_loop R m' v' (Suc k) r') = Err InvalidRemainingLength"
    for m' v'
    using Cons.IH [OF r'(2)] Cons.prems by simp
  ultimately show ?case
    using r'(1) Cons.prems(2) by (subst decode_remaining_length_loop.simps) simp
qed

end

lemma rl_bytes_large:
  assumes "128 ^ k \<le> n"
  obtains bs missing where "rl_bytes n = bs @ missing" "length bs = k" "\<forall>b \<in> set bs. 128 \<le> unat b"
  using assms
proof (induction k arbitrary: n thesis)
  case 0
  then show ?case by (metis append_Nil list.set(1) list.size(3) empty_iff)
next
  case (Suc k)
  then have "128 ^ k \<le> n div 128"
    by (simp add: less_eq_div_iff_mult_less_eq mult.commute)
  then obtain bs missing where IH: "rl_bytes (n div 128) = bs @ missing" "length bs = k"
      "\<forall>b \<in> set bs. 128 \<le> unat b"
    using Suc.IH by blast
  let ?b = "word_of_nat (n mod 128 + 128) :: u8"
  have "unat ?b = n mod 128 + 128"
    by (simp only: unat_of_nat) simp
  moreover have "128 \<le> n"
    using Suc.prems(2) le_trans [of "128 * 1" "128 * 128 ^ k" n] by simp
  ultimately show ?case
    using IH by (intro Suc.prems(1) [of "?b # bs" missing]) (simp_all add: rl_bytes.simps [of n])
qed

context buf_reader
begin

lemma decode_string_not_Pending: "decode_string B c \<noteq> Pending"
  by (auto simp: decode_string_def get_u16_view remaining_view copy_view view_adv)

lemma decode_string_shorter:
  "decode_string B c = Ok (s, c') \<Longrightarrow> length (view c') < length (view c)"
  by (auto simp: decode_string_def get_u16_view remaining_view copy_view view_adv outcome_bind_eq_Ok
      split: if_splits)

lemma decode_subscribe_loop_not_Pending:
  "length (view c) < fuel \<Longrightarrow> decode_subscribe_loop B fuel c acc \<noteq> Pending"
proof (induction fuel arbitrary: c acc)
  case (Suc fuel)
  show ?case
  proof (cases "decode_string B c")
    case (Ok x)
    then obtain f c1 where c1: "decode_string B c = Ok (f, c1)" by (cases x) auto
    then have "length (view c1) < length (view c)" by (rule decode_string_shorter)
    then have "length (view (adv 1 c1)) < fuel"
      using Suc.prems by (simp add: view_adv)
    from Suc.IH [OF this] c1 show ?thesis
      by (auto simp: get_u8_view split: option.split)
  qed (use decode_string_not_Pending in simp_all)
qed simp

lemma decode_unsubscribe_loop_not_Pending:
  "length (view c) < fuel \<Longrightarrow> decode_unsubscribe_loop B fuel c acc \<noteq> Pending"
proof (induction fuel arbitrary: c acc)
  case (Suc fuel)
  show ?case
  proof (cases "decode_string B c")
    case (Ok x)
    then obtain f c1 where c1: "decode_string B c = Ok (f, c1)" by (cases x) auto
    then have "length (view c1) < fuel"
      using decode_string_shorter [OF c1] Suc.prems by simp
    from Suc.IH [OF this] c1 show ?thesis by simp
  qed (use decode_string_not_Pending in simp_all)
qed simp

lemma decode_fields_not_Pending:
  "decode_will B w c \<noteq> Pending" "decode_username B u c \<noteq> Pending"
  "decode_password B p c \<noteq> Pending" "decode_will_qos fl \<noteq> Pending"
  by (auto simp: decode_will_def decode_username_def decode_password_def decode_will_qos_def
      outcome_bind_eq_Pending decode_string_not_Pending split: option.splits if_splits)

lemma decode_body_not_Pending: "decode_body B t flags n c \<noteq> Pending"
proof -
  have "decode_connect B c \<noteq> Pending"
    by (auto simp: decode_connect_def outcome_bind_eq_Pending decode_string_not_Pending
        decode_fields_not_Pending Let_def split: if_splits)
  moreover have "decode_publish B c flags \<noteq> Pending"
    by (auto simp: decode_publish_def outcome_bind_eq_Pending decode_string_not_Pending
        split: if_splits option.splits)
  moreover have "decode_subscribe B c \<noteq> Pending" "decode_unsubscribe B c \<noteq> Pending"
    by (auto simp: decode_subscribe_def decode_unsubscribe_def outcome_bind_eq_Pending remaining_view
        decode_subscribe_loop_not_Pending decode_unsubscribe_loop_not_Pending
        simp del: decode_subscribe_loop.simps decode_unsubscribe_loop.simps)
  moreover have "decode_packet_id B t n c \<noteq> Pending"
    by (auto simp: decode_packet_id_def outcome_bind_eq_Pending)
  ultimately show ?thesis
    by (cases t) (auto simp: decode_body_def outcome_bind_eq_Pending)
qed

text \<open>Packets of fixed shape never panic: their length is checked before the identifier is read.\<close>

lemma decode_body_no_Panic:
  assumes "t \<notin> {TConnect, TPublish, TSubscribe, TUnsubscribe}"
    and "n = word_of_nat (length (view c))" "length (view c) \<le> max_remaining_length"
  shows "decode_body B t flags n c \<noteq> Panic"
proof -
  have "n = 2 \<Longrightarrow> length (view c) = 2"
    using assms(2,3) unat_word_of_nat_u32 [of "length (view c)"]
    by (simp add: max_remaining_length_def)
  then have "decode_packet_id B t n c \<noteq> Panic"
    by (auto simp: decode_packet_id_def outcome_bind_eq_Panic get_u16_view)
  then show ?thesis
    using assms(1) by (cases t) (auto simp: decode_body_def outcome_bind_eq_Panic)
qed

lemma decode_body_short_Panic:
  assumes "t = TSubscribe \<or> t = TUnsubscribe" "length (view c) < 2"
  shows "decode_body B t flags n c = Panic"
  using assms
  by (auto simp: decode_body_def decode_subscribe_def decode_unsubscribe_def get_u16_view)

end

lemma mqtt_bytes_frame:
  assumes "inbound p" "wf_packet p"
  obtains b body t where "mqtt_bytes p = mqtt_frame b body"
    "length body \<le> max_remaining_length" "packet_type_try_from (drop_bit 4 b AND 0x0F) = Ok t"
  using frame_of_layout [OF assms] by (rule that)

context codec
begin

lemma packet_decode_prefix:
  assumes "avail r @ missing = mqtt_bytes p" "missing \<noteq> []" "\<not> eof r" "inbound p" "wf_packet p"
  shows "fst (Packet_decode R B r) = Pending \<and> avail (snd (Packet_decode R B r)) = []"
proof -
  obtain b body t where frame: "mqtt_bytes p = mqtt_frame b body"
      "length body \<le> max_remaining_length" "packet_type_try_from (drop_bit 4 b AND 0x0F) = Ok t"
    using assms(4,5) by (rule mqtt_bytes_frame)
  show ?thesis
  proof (cases "avail r")
    case Nil
    then obtain r' where "read_u8 R r = (Pending, r')" "avail r' = []"
      using read_u8_wait [of r] assms(3) by (metis prod.collapse)
    then show ?thesis by (simp add: Packet_decode_def)
  next
    case (Cons b' bs)
    with assms(1) frame(1) have bs: "b' = b" "bs @ missing = rl_bytes (length body) @ body"
      by (simp_all add: mqtt_frame_def)
    from Cons obtain r1 where r1: "read_u8 R r = (Ok b, r1)" "avail r1 = bs" "eof r1 = eof r"
      unfolding bs(1) by (rule read_u8_Cons)
    have head: "Packet_decode R B r = qmark (decode_remaining_length_async R r1) (\<lambda>n r2.
        qmark (map_prod (map_err Io) id (read_exact R (unat n) r2)) (\<lambda>data r3.
          (decode_body B t (b AND 0x0F) n (cursor_new B data), r3)))"
      by (simp add: Packet_decode_def r1(1) frame(3))
    from bs(2) show ?thesis
    proof (cases rule: append_eq_cases)
      case (inside us)
      then have "fst (decode_remaining_length_async R r1) = Pending
          \<and> avail (snd (decode_remaining_length_async R r1)) = []"
        using decode_remaining_length_loop_prefix [of r1 us "length body" 0 1 0] r1 assms(3) frame(2)
        by (simp add: decode_remaining_length_async_def max_remaining_length_def)
      then show ?thesis
        unfolding head by (cases "decode_remaining_length_async R r1") auto
    next
      case (beyond us)
      from decode_remaining_length_reads [of r1 "length body" us] beyond(1) r1 frame(2)
      obtain r2 where r2: "decode_remaining_length_async R r1 = (Ok (word_of_nat (length body)), r2)"
          "avail r2 = us" "eof r2 = eof r1"
        by blast
      have "length us < length body"
        using beyond(2) assms(2) by auto
      moreover have "unat (word_of_nat (length body) :: u32) = length body"
        using frame(2) by (simp add: unat_word_of_nat_u32 max_remaining_length_def)
      ultimately obtain r3 where
          "read_exact R (unat (word_of_nat (length body) :: u32)) r2 = (Pending, r3)" "avail r3 = []"
        using read_exact_wait [of r2 "length body"] r2 r1 assms(3) by (metis prod.collapse)
      then show ?thesis
        by (simp add: head r2(1))
    qed
  qed
qed

end

context async_reader
begin

lemma read_u8_closed:
  assumes "eof r"
  shows "fst (read_u8 R r) \<noteq> Pending" "fst (read_u8 R r) = Ok b \<Longrightarrow> eof (snd (read_u8 R r))"
  using assms read_u8_ready [of r] read_u8_eof [of r] by (cases "avail r"; simp)+

lemma read_exact_closed:
  assumes "eof r"
  shows "fst (read_exact R n r) \<noteq> Pending"
  using assms read_exact_ready [of n r] read_exact_eof [of r n] by (cases "n \<le> length (avail r)") simp_all

lemma decode_remaining_length_loop_closed:
  assumes "eof r"
  shows "fst (decode_remaining_length_loop R m v k r) \<noteq> Pending
    \<and> (\<forall>n. fst (decode_remaining_length_loop R m v k r) = Ok n
        \<longrightarrow> eof (snd (decode_remaining_length_loop R m v k r)))"
  using assms
proof (induction "4 - k" arbitrary: k m v r)
  case 0
  then show ?case by (simp add: decode_remaining_length_loop.simps [of R m v k])
next
  case (Suc j)
  obtain res r' where rd: "read_u8 R r = (res, r')" by fastforce
  have IH: "eof r' \<Longrightarrow> fst (decode_remaining_length_loop R m' v' (Suc k) r') \<noteq> Pending
      \<and> (\<forall>n. fst (decode_remaining_length_loop R m' v' (Suc k) r') = Ok n
        \<longrightarrow> eof (snd (decode_remaining_length_loop R m' v' (Suc k) r')))" for m' v'
    using Suc.hyps by simp
  show ?case
    using rd IH read_u8_closed [OF Suc.prems] Suc.hyps(2)
    by (cases res) (simp_all add: decode_remaining_length_loop.simps [of R m v k] Let_def)
qed

end

context codec
begin

lemma packet_decode_closed:
  assumes "eof r"
  shows "fst (Packet_decode R B r) \<noteq> Pending"
proof -
  obtain x1 r1 where r1: "read_u8 R r = (x1, r1)" by fastforce
  obtain x2 r2 where r2: "decode_remaining_length_async R r1 = (x2, r2)" by fastforce
  obtain x3 r3 where r3: "read_exact R (unat n) r2 = (x3 n, r3 n)" for n :: u32
    by (rule that [of "\<lambda>n. fst (read_exact R (unat n) r2)" "\<lambda>n. snd (read_exact R (unat n) r2)"]) simp
  have x1: "x1 \<noteq> Pending" "\<And>b. x1 = Ok b \<Longrightarrow> eof r1"
    using read_u8_closed [OF assms] r1 by simp_all
  have x2: "x2 \<noteq> Pending" "\<And>n. x2 = Ok n \<Longrightarrow> eof r2" if "eof r1"
    using decode_remaining_length_loop_closed [OF that, of 1 0 0] r2
    by (simp_all add: decode_remaining_length_async_def)
  have x3: "x3 n \<noteq> Pending" if "eof r2" for n
    using read_exact_closed [OF that, of "unat n"] r3 by simp
  have type_cases: "packet_type_try_from v = Err (InvalidPacketType v)
      \<or> (\<exists>t. packet_type_try_from v = Ok t)" for v
    by (simp add: packet_type_try_from_def)
  show ?thesis
  proof (cases x1)
    case (Ok b)
    show ?thesis
    proof (cases x2)
      case Ok': (Ok n)
      then show ?thesis
        using Ok x1 x2 x3 [of n] type_cases [of "drop_bit 4 b AND 0x0F"]
        by (cases "x3 n") (auto simp: Packet_decode_def r1 r2 r3 decode_body_not_Pending)
    qed (use Ok x1 x2 type_cases [of "drop_bit 4 b AND 0x0F"] in \<open>auto simp: Packet_decode_def r1 r2\<close>)
  qed (use x1 in \<open>simp_all add: Packet_decode_def r1\<close>)
qed

end

section \<open>Properties\<close>

text \<open>
  C1: Whatever reader and cursor the crates supply, a well-formed packet that a client may send,
  laid out as the MQTT standard prescribes, is decoded to exactly that packet, and exactly its
  bytes are consumed: what follows in the stream is left for the next call.
\<close>

theorem packet_decode_standard:
  assumes "async_reader R avail eof" "buf_reader B adv view"
    and "inbound p" "wf_packet p" "avail r = mqtt_bytes p @ rest"
  shows "\<exists>r'. Packet_decode R B r = (Ok p, r') \<and> avail r' = rest \<and> eof r' = eof r"
proof -
  have codec: "codec R avail eof B adv view"
    using assms(1,2) by (rule codec.intro)
  show ?thesis
    by (rule codec.packet_decode_mqtt_bytes [OF codec assms(5,3,4)])
qed

definition example_connect :: ConnectPacket where
  "example_connect =
    \<lparr>cp_protocol_name = ''MQTT'', cp_protocol_level = 4, cp_clean_session = True,
     cp_keep_alive = 60, cp_client_id = ''c1'', cp_will_flag = True, cp_will_qos = AtLeastOnce,
     cp_will_retain = False, cp_will_topic = Some ''w'', cp_will_payload = Some [7],
     cp_username = Some ''u'', cp_password = Some [1, 2]\<rparr>"

lemma wf_example_connect: "wf_packet (Connect example_connect)"
  by (simp add: wf_connect_def example_connect_def wf_field_def in_range_def mqtt_connect_body_def
      str_field_def bin_field_def max_remaining_length_def)

theorem packet_decode_standard_witness:
  "\<exists>r'. Packet_decode pipe_reader slice_buf (mqtt_bytes (Connect example_connect) @ [0xC0, 0], False)
      = (Ok (Connect example_connect), r') \<and> fst r' = [0xC0, 0] \<and> snd r' = False"
  using packet_decode_standard [OF pipe.async_reader_axioms slice.buf_reader_axioms _
      wf_example_connect, of "(mqtt_bytes (Connect example_connect) @ [0xC0, 0], False)" "[0xC0, 0]"]
  by simp

text \<open>
  C2: For every packet the broker sends, the bytes appended to the output buffer are the encoding
  the MQTT standard prescribes, nothing more.
\<close>

theorem packet_encode_standard:
  assumes "buf_writer M" "outbound p" "wf_packet p"
  shows "bytesmut_deref M (Packet_encode M p buf) = bytesmut_deref M buf @ mqtt_bytes p"
  using assms by (rule buf_writer.packet_encode_bytes)

theorem packet_encode_standard_witness:
  "Packet_encode vec_bufmut (Publish \<lparr>pp_topic = ''a'', pp_packet_id = Some 258, pp_payload = [7],
      pp_qos = AtLeastOnce, pp_retain = True, pp_dup = True\<rparr>) [] = [0x3B, 6, 0, 1, 97, 1, 2, 7]"
proof -
  let ?p = "\<lparr>pp_topic = ''a'', pp_packet_id = Some 258, pp_payload = [7],
    pp_qos = AtLeastOnce, pp_retain = True, pp_dup = True\<rparr>"
  have "wf_packet (Publish ?p)"
    by (simp add: wf_publish_def wf_field_def in_range_def mqtt_publish_body_def str_field_def max_remaining_length_def)
  from packet_encode_standard [OF vec.buf_writer_axioms _ this, of "[]"] show ?thesis
    by (simp add: vec_bufmut_def mqtt_frame_def rl_bytes_small be16_bytes_def mqtt_publish_flags_def
        mqtt_publish_body_def str_field_def)
qed

text \<open>
  Encoding then decoding a packet that travels both ways (PUBLISH, the acknowledgements,
  DISCONNECT) gives the packet back.
\<close>

theorem packet_roundtrip:
  assumes "async_reader R avail eof" "buf_reader B adv view" "buf_writer M"
    and "inbound p" "outbound p" "wf_packet p"
    and "avail r = bytesmut_deref M (Packet_encode M p (bytesmut_new M)) @ rest"
  shows "\<exists>r'. Packet_decode R B r = (Ok p, r') \<and> avail r' = rest"
proof -
  have codec: "codec R avail eof B adv view"
    using assms(1,2) by (rule codec.intro)
  have "avail r = mqtt_bytes p @ rest"
    using assms(3,5,6,7) by (simp add: buf_writer.packet_encode_bytes buf_writer.deref_new)
  from codec.packet_decode_mqtt_bytes [OF codec this assms(4,6)] show ?thesis
    by blast
qed

definition example_publish :: PublishPacket where
  "example_publish =
    \<lparr>pp_topic = ''a/b'', pp_packet_id = Some 258, pp_payload = [9, 8], pp_qos = ExactlyOnce,
     pp_retain = True, pp_dup = False\<rparr>"

lemma wf_example_publish: "wf_packet (Publish example_publish)"
  by (simp add: wf_publish_def example_publish_def wf_field_def in_range_def mqtt_publish_body_def
      str_field_def max_remaining_length_def)

theorem packet_roundtrip_witness:
  "\<exists>r'. Packet_decode pipe_reader slice_buf
      (Packet_encode vec_bufmut (Publish example_publish) [], True)
    = (Ok (Publish example_publish), r') \<and> fst r' = []"
  using packet_roundtrip [OF pipe.async_reader_axioms slice.buf_reader_axioms vec.buf_writer_axioms
      _ _ wf_example_publish, of "(Packet_encode vec_bufmut (Publish example_publish) [], True)" "[]"]
  by (simp add: vec_bufmut_def)

text \<open>
  The variable-length header field is faithful up to 268435455, the largest value the standard
  allows, and a larger \<open>u32\<close>, which the encoder writes all the same, is rejected by the decoder.
\<close>

theorem remaining_length_roundtrip:
  assumes "async_reader R avail eof" "buf_writer M"
    and "avail r = bytesmut_deref M (encode_remaining_length M n (bytesmut_new M)) @ rest"
  shows "if n \<le> 268435455
    then \<exists>r'. decode_remaining_length_async R r = (Ok n, r') \<and> avail r' = rest
    else fst (decode_remaining_length_async R r) = Err InvalidRemainingLength"
proof -
  have av: "avail r = rl_bytes (unat n) @ rest"
    using assms(2,3) by (simp add: buf_writer.encode_remaining_length_bytes buf_writer.deref_new)
  have le: "n \<le> 268435455 \<longleftrightarrow> unat n \<le> max_remaining_length"
    by (simp add: word_le_nat_alt max_remaining_length_def)
  show ?thesis
  proof (cases "unat n \<le> max_remaining_length")
    case True
    from async_reader.decode_remaining_length_reads [OF assms(1) av True] le True show ?thesis
      by (metis of_nat_unat ucast_id)
  next
    case False
    then have "128 ^ 4 \<le> unat n"
      by (simp add: max_remaining_length_def)
    then obtain bs missing where bs: "rl_bytes (unat n) = bs @ missing" "length bs = 4"
        "\<forall>b \<in> set bs. 128 \<le> unat b"
      by (rule rl_bytes_large)
    have "avail r = bs @ missing @ rest" "0 + length bs = 4"
      using av bs by simp_all
    from async_reader.decode_remaining_length_loop_too_long [OF assms(1) this bs(3)] False le
    show ?thesis
      by (simp add: decode_remaining_length_async_def)
  qed
qed

theorem remaining_length_roundtrip_witness:
  "fst (decode_remaining_length_async pipe_reader
      (encode_remaining_length vec_bufmut 321 [], False)) = Ok 321"
  using remaining_length_roundtrip [OF pipe.async_reader_axioms vec.buf_writer_axioms,
      of "(encode_remaining_length vec_bufmut 321 [], False)" 321 "[]"]
  by (auto simp: vec_bufmut_def)

text \<open>
  C39: Decoding a closed connection always finishes: for any bytes at all, the decoder returns a
  packet, an error or panics, and never waits or loops.  In particular the fuel of the SUBSCRIBE
  and UNSUBSCRIBE loops is never used up.
\<close>

theorem packet_decode_returns:
  assumes "async_reader R avail eof" "buf_reader B adv view" "eof r"
  shows "fst (Packet_decode R B r) \<noteq> Pending"
  by (rule codec.packet_decode_closed [OF codec.intro [OF assms(1,2)] assms(3)])

theorem packet_decode_returns_witness:
  "fst (Packet_decode pipe_reader slice_buf ([0x82, 9, 0], True)) \<noteq> Pending"
  using packet_decode_returns [OF pipe.async_reader_axioms slice.buf_reader_axioms,
      of "([0x82, 9, 0], True)"] by simp

text \<open>
  C40: Decoding is not cancellation safe.  When only part of a packet has arrived, the decoder waits,
  and by then it has taken every received byte from the stream: a caller that drops the waiting
  call, as the \<open>tokio::select!\<close> of the session loop does whenever another branch is ready, loses
  those bytes.
\<close>

theorem packet_decode_partial_consumes:
  assumes "async_reader R avail eof" "buf_reader B adv view"
    and "avail r @ missing = mqtt_bytes p" "missing \<noteq> []" "\<not> eof r" "inbound p" "wf_packet p"
  shows "fst (Packet_decode R B r) = Pending \<and> avail (snd (Packet_decode R B r)) = []"
  by (rule codec.packet_decode_prefix [OF codec.intro [OF assms(1,2)] assms(3-7)])

theorem packet_decode_partial_consumes_witness:
  "fst (Packet_decode pipe_reader slice_buf ([0x40, 2, 0], False)) = Pending
    \<and> fst (snd (Packet_decode pipe_reader slice_buf ([0x40, 2, 0], False))) = []"
  using packet_decode_partial_consumes [OF pipe.async_reader_axioms slice.buf_reader_axioms,
      of "([0x40, 2, 0], False)" "[7]" "PubAck \<lparr>pa_packet_id = 7\<rparr>"]
  by (simp add: mqtt_frame_def rl_bytes_small be16_bytes_def)

text \<open>
  A SUBSCRIBE or UNSUBSCRIBE packet whose body is shorter than a packet identifier makes the
  decoder panic instead of returning an error.
\<close>

theorem short_subscribe_panics:
  assumes "async_reader R avail eof" "buf_reader B adv view"
    and "b = 0x82 \<or> b = 0xA2" "length body < 2" "avail r = mqtt_frame b body @ rest"
  shows "fst (Packet_decode R B r) = Panic"
proof -
  have codec: "codec R avail eof B adv view"
    using assms(1,2) by (rule codec.intro)
  obtain t where t: "packet_type_try_from (drop_bit 4 b AND 0x0F) = Ok t"
      "t = TSubscribe \<or> t = TUnsubscribe"
    using assms(3) by (auto simp: packet_type_try_from_def)
  have "length body \<le> max_remaining_length"
    using assms(4) by (simp add: max_remaining_length_def)
  from codec.packet_decode_frame [OF codec assms(5) this t(1)] show ?thesis
    using t(2) assms(2,4)
    by (metis buf_reader.decode_body_short_Panic buf_reader.view_new fst_conv)
qed

theorem short_subscribe_panics_witness:
  "fst (Packet_decode pipe_reader slice_buf ([0x82, 0], False)) = Panic"
  using short_subscribe_panics [OF pipe.async_reader_axioms slice.buf_reader_axioms,
      of "0x82" "[]" "([0x82, 0], False)" "[]"]
  by (simp add: mqtt_frame_def rl_bytes_small)

end
