(* ===== verification/Storage.thy ===== *)
theory Storage
  imports Packet
begin

text \<open>
  The storage layer's data and contract: \<^verbatim>\<open>src/storage/types.rs\<close> and \<^verbatim>\<open>src/storage/traits.rs\<close>.
  A \<open>dyn Storage\<close> is a record of operations on a state type; the locale \<open>storage\<close> states what the
  trait promises over two abstract views, the saved sessions and the retained messages, and
  \<open>reliable_storage\<close> adds that no operation fails.  A backend may return the rows of a session in
  another order and may keep an older creation time, so the contract speaks of multisets and of
  \<open>same_session\<close>.
\<close>

section \<open>Types\<close>

type_synonym datetime = int

datatype StoredQoS = StoredAtMostOnce | StoredAtLeastOnce | StoredExactlyOnce

definition stored_qos_from_u8 :: "u8 \<Rightarrow> StoredQoS option" where
  "stored_qos_from_u8 value =
    (if value = 0 then Some StoredAtMostOnce
     else if value = 1 then Some StoredAtLeastOnce
     else if value = 2 then Some StoredExactlyOnce
     else None)"

fun stored_qos_as_u8 :: "StoredQoS \<Rightarrow> u8" where
  "stored_qos_as_u8 StoredAtMostOnce = 0"
| "stored_qos_as_u8 StoredAtLeastOnce = 1"
| "stored_qos_as_u8 StoredExactlyOnce = 2"

fun stored_qos_from_qos :: "QoS \<Rightarrow> StoredQoS" where
  "stored_qos_from_qos AtMostOnce = StoredAtMostOnce"
| "stored_qos_from_qos AtLeastOnce = StoredAtLeastOnce"
| "stored_qos_from_qos ExactlyOnce = StoredExactlyOnce"

fun qos_from_stored_qos :: "StoredQoS \<Rightarrow> QoS" where
  "qos_from_stored_qos StoredAtMostOnce = AtMostOnce"
| "qos_from_stored_qos StoredAtLeastOnce = AtLeastOnce"
| "qos_from_stored_qos StoredExactlyOnce = ExactlyOnce"

record PersistedWillMessage =
  pw_topic :: rstring
  pw_payload :: bytes
  pw_qos :: StoredQoS
  pw_retain :: bool

record PersistedSession =
  ps_client_id :: rstring
  ps_next_packet_id :: u16
  ps_keep_alive :: u16
  ps_will_message :: "PersistedWillMessage option"
  ps_created_at :: datetime
  ps_updated_at :: datetime

record PersistedSubscription =
  psub_client_id :: rstring
  psub_topic_filter :: rstring
  psub_qos :: StoredQoS

datatype PersistedQos2State = PersistedAwaitingPubRec | PersistedAwaitingPubComp

definition qos2_state_from_u8 :: "u8 \<Rightarrow> PersistedQos2State option" where
  "qos2_state_from_u8 value =
    (if value = 0 then Some PersistedAwaitingPubRec
     else if value = 1 then Some PersistedAwaitingPubComp
     else None)"

fun qos2_state_as_u8 :: "PersistedQos2State \<Rightarrow> u8" where
  "qos2_state_as_u8 PersistedAwaitingPubRec = 0"
| "qos2_state_as_u8 PersistedAwaitingPubComp = 1"

record PersistedInflightMessage =
  pi_client_id :: rstring
  pi_packet_id :: u16
  pi_topic :: rstring
  pi_payload :: bytes
  pi_qos :: StoredQoS
  pi_retain :: bool
  pi_retry_count :: u32
  pi_qos2_state :: "PersistedQos2State option"
  pi_created_at :: datetime

record PersistedInboundQos2Message =
  pb_client_id :: rstring
  pb_packet_id :: u16
  pb_topic :: rstring
  pb_payload :: bytes
  pb_retain :: bool
  pb_received_at :: datetime

record PersistedRetainedMessage =
  pr_topic :: rstring
  pr_payload :: bytes
  pr_qos :: StoredQoS
  pr_updated_at :: datetime

lemma stored_qos_inverses [simp]:
  "qos_from_stored_qos (stored_qos_from_qos q) = q"
  "stored_qos_from_qos (qos_from_stored_qos s) = s"
  "stored_qos_from_u8 (stored_qos_as_u8 s) = Some s"
  "qos2_state_from_u8 (qos2_state_as_u8 x) = Some x"
  by (cases q, simp_all) (cases s, simp_all, cases s, simp_all add: stored_qos_from_u8_def,
      cases x, simp_all add: qos2_state_from_u8_def)

section \<open>The trait\<close>

datatype StorageError =
    Internal string
  | InvalidDateTime string string rstring string

type_synonym 'a storage_result = "StorageError + 'a"

record 'st storage_ops =
  save_session :: "PersistedSession \<Rightarrow> PersistedSubscription list \<Rightarrow> PersistedInflightMessage list
    \<Rightarrow> PersistedInboundQos2Message list \<Rightarrow> 'st \<Rightarrow> unit storage_result \<times> 'st"
  load_session :: "rstring \<Rightarrow> 'st \<Rightarrow> PersistedSession option storage_result"
  load_subscriptions :: "rstring \<Rightarrow> 'st \<Rightarrow> PersistedSubscription list storage_result"
  load_inflight_messages :: "rstring \<Rightarrow> 'st \<Rightarrow> PersistedInflightMessage list storage_result"
  load_inbound_qos2_messages :: "rstring \<Rightarrow> 'st \<Rightarrow> PersistedInboundQos2Message list storage_result"
  delete_session :: "rstring \<Rightarrow> 'st \<Rightarrow> unit storage_result \<times> 'st"
  session_exists :: "rstring \<Rightarrow> 'st \<Rightarrow> bool storage_result"
  delete_expired_sessions :: "datetime \<Rightarrow> 'st \<Rightarrow> nat storage_result \<times> 'st"
  save_retained_message :: "PersistedRetainedMessage \<Rightarrow> 'st \<Rightarrow> unit storage_result \<times> 'st"
  load_retained_message :: "rstring \<Rightarrow> 'st \<Rightarrow> PersistedRetainedMessage option storage_result"
  load_all_retained_messages :: "'st \<Rightarrow> PersistedRetainedMessage list storage_result"
  delete_retained_message :: "rstring \<Rightarrow> 'st \<Rightarrow> unit storage_result \<times> 'st"
  count_retained_messages :: "'st \<Rightarrow> nat storage_result"

section \<open>The contract\<close>

text \<open>What a backend holds for one client, and when two records of a session agree.\<close>

record saved_session =
  sv_session :: PersistedSession
  sv_subscriptions :: "PersistedSubscription list"
  sv_inflight :: "PersistedInflightMessage list"
  sv_inbound :: "PersistedInboundQos2Message list"

definition same_session :: "PersistedSession \<Rightarrow> PersistedSession \<Rightarrow> bool" where
  "same_session s s' \<longleftrightarrow> s\<lparr>ps_created_at := 0\<rparr> = s'\<lparr>ps_created_at := 0\<rparr>"

definition stores :: "saved_session \<Rightarrow> PersistedSession \<Rightarrow> PersistedSubscription list
    \<Rightarrow> PersistedInflightMessage list \<Rightarrow> PersistedInboundQos2Message list \<Rightarrow> bool" where
  "stores v s subs infl inb \<longleftrightarrow>
    same_session (sv_session v) s \<and> mset (sv_subscriptions v) = mset subs
    \<and> mset (sv_inflight v) = mset infl \<and> mset (sv_inbound v) = mset inb"

text \<open>The rows of a session carry its client identifier.\<close>

definition owned :: "PersistedSession \<Rightarrow> PersistedSubscription list \<Rightarrow> PersistedInflightMessage list
    \<Rightarrow> PersistedInboundQos2Message list \<Rightarrow> bool" where
  "owned s subs infl inb \<longleftrightarrow> (\<forall>x \<in> set subs. psub_client_id x = ps_client_id s)
    \<and> (\<forall>x \<in> set infl. pi_client_id x = ps_client_id s)
    \<and> (\<forall>x \<in> set inb. pb_client_id x = ps_client_id s)"

lemma same_session_refl [simp]: "same_session s s"
  by (simp add: same_session_def)

lemma same_session_fields:
  assumes "same_session s s'"
  shows "ps_client_id s = ps_client_id s'" "ps_next_packet_id s = ps_next_packet_id s'"
    "ps_keep_alive s = ps_keep_alive s'" "ps_will_message s = ps_will_message s'"
    "ps_updated_at s = ps_updated_at s'"
  using assms by (cases s; cases s'; simp add: same_session_def)+

locale storage =
  fixes ops :: "'st storage_ops"
    and inv :: "'st \<Rightarrow> bool"
    and saved :: "'st \<Rightarrow> rstring \<Rightarrow> saved_session option"
    and retained :: "'st \<Rightarrow> rstring \<Rightarrow> PersistedRetainedMessage option"
  assumes load_session_saved: "inv st \<Longrightarrow> load_session ops cid st = Inr x \<Longrightarrow>
      x = map_option sv_session (saved st cid)"
    and load_subscriptions_saved: "inv st \<Longrightarrow> load_subscriptions ops cid st = Inr xs \<Longrightarrow>
      mset xs = mset (case saved st cid of None \<Rightarrow> [] | Some v \<Rightarrow> sv_subscriptions v)"
    and load_inflight_saved: "inv st \<Longrightarrow> load_inflight_messages ops cid st = Inr ms \<Longrightarrow>
      mset ms = mset (case saved st cid of None \<Rightarrow> [] | Some v \<Rightarrow> sv_inflight v)"
    and load_inbound_saved: "inv st \<Longrightarrow> load_inbound_qos2_messages ops cid st = Inr bs \<Longrightarrow>
      mset bs = mset (case saved st cid of None \<Rightarrow> [] | Some v \<Rightarrow> sv_inbound v)"
    and session_exists_saved: "inv st \<Longrightarrow> session_exists ops cid st = Inr b \<Longrightarrow>
      b \<longleftrightarrow> saved st cid \<noteq> None"
    and save_session_ok: "inv st \<Longrightarrow> owned s subs infl inb \<Longrightarrow> save_session ops s subs infl inb st = (Inr (), st') \<Longrightarrow>
      inv st' \<and> retained st' = retained st
      \<and> (\<exists>v. saved st' = (saved st)(ps_client_id s \<mapsto> v) \<and> stores v s subs infl inb)"
    and save_session_fail: "inv st \<Longrightarrow> save_session ops s subs infl inb st = (Inl e, st') \<Longrightarrow>
      inv st' \<and> retained st' = retained st \<and> saved st' = saved st"
    and delete_session_ok: "inv st \<Longrightarrow> delete_session ops cid st = (Inr (), st') \<Longrightarrow>
      inv st' \<and> retained st' = retained st \<and> saved st' = (saved st)(cid := None)"
    and delete_session_fail: "inv st \<Longrightarrow> delete_session ops cid st = (Inl e, st') \<Longrightarrow>
      inv st' \<and> retained st' = retained st \<and> saved st' = saved st"
    and retained_topic: "inv st \<Longrightarrow> retained st t = Some m \<Longrightarrow> pr_topic m = t"
    and retained_finite: "inv st \<Longrightarrow> finite (dom (retained st))"
    and load_retained: "inv st \<Longrightarrow> load_retained_message ops t st = Inr y \<Longrightarrow> y = retained st t"
    and load_all_retained: "inv st \<Longrightarrow> load_all_retained_messages ops st = Inr rs \<Longrightarrow>
      distinct (map pr_topic rs) \<and> set rs = ran (retained st)"
    and count_retained: "inv st \<Longrightarrow> count_retained_messages ops st = Inr n \<Longrightarrow>
      n = card (dom (retained st))"
    and save_retained_ok: "inv st \<Longrightarrow> save_retained_message ops m st = (Inr (), st') \<Longrightarrow>
      inv st' \<and> saved st' = saved st \<and> retained st' = (retained st)(pr_topic m \<mapsto> m)"
    and save_retained_fail: "inv st \<Longrightarrow> save_retained_message ops m st = (Inl e, st') \<Longrightarrow>
      inv st' \<and> saved st' = saved st \<and> retained st' = retained st"
    and delete_retained_ok: "inv st \<Longrightarrow> delete_retained_message ops t st = (Inr (), st') \<Longrightarrow>
      inv st' \<and> saved st' = saved st \<and> retained st' = (retained st)(t := None)"
    and delete_retained_fail: "inv st \<Longrightarrow> delete_retained_message ops t st = (Inl e, st') \<Longrightarrow>
      inv st' \<and> saved st' = saved st \<and> retained st' = retained st"
begin

lemmas laws = load_session_saved load_subscriptions_saved load_inflight_saved load_inbound_saved
  session_exists_saved save_session_ok save_session_fail delete_session_ok delete_session_fail
  retained_topic retained_finite load_retained load_all_retained count_retained
  save_retained_ok save_retained_fail delete_retained_ok delete_retained_fail

end

text \<open>
  Expiry, which the broker does not call: a backend may compare times only within a range, the
  times for which \<open>valid\<close> holds.
\<close>

locale session_expiry =
  fixes ops :: "'st storage_ops"
    and inv :: "'st \<Rightarrow> bool"
    and saved :: "'st \<Rightarrow> rstring \<Rightarrow> saved_session option"
    and retained :: "'st \<Rightarrow> rstring \<Rightarrow> PersistedRetainedMessage option"
    and valid :: "datetime \<Rightarrow> bool"
  assumes delete_expired_ok: "inv st \<Longrightarrow> valid older_than \<Longrightarrow>
      \<forall>cid v. saved st cid = Some v \<longrightarrow> valid (ps_updated_at (sv_session v)) \<Longrightarrow>
      delete_expired_sessions ops older_than st = (Inr n, st') \<Longrightarrow>
      inv st' \<and> retained st' = retained st
      \<and> saved st' = (\<lambda>cid. case saved st cid of
            None \<Rightarrow> None
          | Some v \<Rightarrow> if ps_updated_at (sv_session v) < older_than then None else Some v)
      \<and> n = card {cid. \<exists>v. saved st cid = Some v \<and> ps_updated_at (sv_session v) < older_than}"
    and delete_expired_fail: "inv st \<Longrightarrow> delete_expired_sessions ops older_than st = (Inl e, st') \<Longrightarrow>
      inv st' \<and> retained st' = retained st \<and> saved st' = saved st"

text \<open>A backend whose operations always succeed.\<close>

locale reliable_storage = storage ops inv saved retained
  for ops :: "'st storage_ops" and inv saved retained +
  assumes loads_succeed: "inv st \<Longrightarrow>
      (\<exists>x. load_session ops cid st = Inr x) \<and> (\<exists>x. load_subscriptions ops cid st = Inr x)
      \<and> (\<exists>x. load_inflight_messages ops cid st = Inr x)
      \<and> (\<exists>x. load_inbound_qos2_messages ops cid st = Inr x)"
    and retained_loads_succeed: "inv st \<Longrightarrow>
      (\<exists>x. load_retained_message ops t st = Inr x) \<and> (\<exists>x. load_all_retained_messages ops st = Inr x)
      \<and> (\<exists>x. count_retained_messages ops st = Inr x)"
    and save_session_succeeds: "inv st \<Longrightarrow> fst (save_session ops s subs infl inb st) = Inr ()"
    and delete_session_succeeds: "inv st \<Longrightarrow> fst (delete_session ops cid st) = Inr ()"
    and save_retained_succeeds: "inv st \<Longrightarrow> fst (save_retained_message ops m st) = Inr ()"
    and delete_retained_succeeds: "inv st \<Longrightarrow> fst (delete_retained_message ops t st) = Inr ()"
begin

lemma reliable_loads:
  assumes "inv st"
  shows "load_session ops cid st = Inr (map_option sv_session (saved st cid))"
    "load_retained_message ops t st = Inr (retained st t)"
    "count_retained_messages ops st = Inr (card (dom (retained st)))"
  using loads_succeed [OF assms, of cid] retained_loads_succeed [OF assms, of t]
    load_session_saved [OF assms] load_retained [OF assms] count_retained [OF assms]
  by blast+

lemma reliable_rows:
  assumes "inv st" "saved st cid = Some v"
  obtains xs ms bs where "load_subscriptions ops cid st = Inr xs" "mset xs = mset (sv_subscriptions v)"
    "load_inflight_messages ops cid st = Inr ms" "mset ms = mset (sv_inflight v)"
    "load_inbound_qos2_messages ops cid st = Inr bs" "mset bs = mset (sv_inbound v)"
proof -
  obtain xs ms bs where loads: "load_subscriptions ops cid st = Inr xs"
    "load_inflight_messages ops cid st = Inr ms" "load_inbound_qos2_messages ops cid st = Inr bs"
    using loads_succeed [OF assms(1), of cid] by blast
  then show thesis
    using that load_subscriptions_saved [OF assms(1) loads(1)] load_inflight_saved [OF assms(1) loads(2)]
      load_inbound_saved [OF assms(1) loads(3)] assms(2) by simp
qed

lemma reliable_save_retained:
  assumes "inv st"
  obtains st' where "save_retained_message ops m st = (Inr (), st')" "inv st'" "saved st' = saved st"
    "retained st' = (retained st)(pr_topic m \<mapsto> m)"
  using save_retained_succeeds [OF assms, of m] save_retained_ok [OF assms, of m]
  by (metis prod.collapse)

lemma reliable_delete_retained:
  assumes "inv st"
  obtains st' where "delete_retained_message ops t st = (Inr (), st')" "inv st'" "saved st' = saved st"
    "retained st' = (retained st)(t := None)"
  using delete_retained_succeeds [OF assms, of t] delete_retained_ok [OF assms, of t]
  by (metis prod.collapse)

lemma reliable_load_all:
  assumes "inv st"
  obtains rs where "load_all_retained_messages ops st = Inr rs" "distinct (map pr_topic rs)"
    "set rs = ran (retained st)"
  using retained_loads_succeed [OF assms] load_all_retained [OF assms] by blast

lemma reliable_save_session:
  assumes "inv st" "owned s subs infl inb"
  obtains st' v where "save_session ops s subs infl inb st = (Inr (), st')" "inv st'"
    "retained st' = retained st" "saved st' = (saved st)(ps_client_id s \<mapsto> v)"
    "stores v s subs infl inb"
  using save_session_succeeds [OF assms(1), of s subs infl inb] save_session_ok [OF assms]
  by (metis prod.collapse)

lemma reliable_delete_session:
  assumes "inv st"
  obtains st' where "delete_session ops cid st = (Inr (), st')" "inv st'"
    "retained st' = retained st" "saved st' = (saved st)(cid := None)"
  using delete_session_succeeds [OF assms, of cid] delete_session_ok [OF assms, of cid]
  by (metis prod.collapse)

end

end
