(* ===== verification/Memory_Storage.thy ===== *)
theory Memory_Storage
  imports Storage
begin

text \<open>
  The in-memory backend, \<^verbatim>\<open>src/storage/memory.rs\<close>: five hash maps, one operation per trait method,
  and the proof that it is a reliable storage.  Each method of the source holds the write locks of
  all the maps it touches, so that it is one atomic step; lock poisoning is left out.
\<close>

section \<open>State and operations\<close>

record memory =
  mem_sessions :: "(rstring, PersistedSession) hash_map"
  mem_subscriptions :: "(rstring, PersistedSubscription list) hash_map"
  mem_inflight :: "(rstring, PersistedInflightMessage list) hash_map"
  mem_inbound_qos2 :: "(rstring, PersistedInboundQos2Message list) hash_map"
  mem_retained :: "(rstring, PersistedRetainedMessage) hash_map"

definition memory_new :: memory where
  "memory_new =
    \<lparr>mem_sessions = [], mem_subscriptions = [], mem_inflight = [], mem_inbound_qos2 = [],
     mem_retained = []\<rparr>"

definition memory_save_session ::
  "PersistedSession \<Rightarrow> PersistedSubscription list \<Rightarrow> PersistedInflightMessage list
    \<Rightarrow> PersistedInboundQos2Message list \<Rightarrow> memory \<Rightarrow> unit storage_result \<times> memory" where
  "memory_save_session session subscriptions inflight inbound_qos2 m =
    (let client_id = ps_client_id session in
     (Inr (),
      m\<lparr>mem_sessions := AList.update client_id session (mem_sessions m),
        mem_subscriptions := AList.update client_id subscriptions (mem_subscriptions m),
        mem_inflight := AList.update client_id inflight (mem_inflight m),
        mem_inbound_qos2 := AList.update client_id inbound_qos2 (mem_inbound_qos2 m)\<rparr>))"

definition unwrap_or_default :: "'a list option \<Rightarrow> 'a list" where
  "unwrap_or_default x = (case x of None \<Rightarrow> [] | Some xs \<Rightarrow> xs)"

definition memory_load_session :: "rstring \<Rightarrow> memory \<Rightarrow> PersistedSession option storage_result" where
  "memory_load_session client_id m = Inr (map_of (mem_sessions m) client_id)"

definition memory_load_subscriptions ::
  "rstring \<Rightarrow> memory \<Rightarrow> PersistedSubscription list storage_result" where
  "memory_load_subscriptions client_id m =
    Inr (unwrap_or_default (map_of (mem_subscriptions m) client_id))"

definition memory_load_inflight_messages ::
  "rstring \<Rightarrow> memory \<Rightarrow> PersistedInflightMessage list storage_result" where
  "memory_load_inflight_messages client_id m =
    Inr (unwrap_or_default (map_of (mem_inflight m) client_id))"

definition memory_load_inbound_qos2_messages ::
  "rstring \<Rightarrow> memory \<Rightarrow> PersistedInboundQos2Message list storage_result" where
  "memory_load_inbound_qos2_messages client_id m =
    Inr (unwrap_or_default (map_of (mem_inbound_qos2 m) client_id))"

definition memory_remove_client :: "rstring \<Rightarrow> memory \<Rightarrow> memory" where
  "memory_remove_client client_id m =
    m\<lparr>mem_sessions := AList.delete client_id (mem_sessions m),
      mem_subscriptions := AList.delete client_id (mem_subscriptions m),
      mem_inflight := AList.delete client_id (mem_inflight m),
      mem_inbound_qos2 := AList.delete client_id (mem_inbound_qos2 m)\<rparr>"

definition memory_delete_session :: "rstring \<Rightarrow> memory \<Rightarrow> unit storage_result \<times> memory" where
  "memory_delete_session client_id m = (Inr (), memory_remove_client client_id m)"

definition memory_session_exists :: "rstring \<Rightarrow> memory \<Rightarrow> bool storage_result" where
  "memory_session_exists client_id m = Inr (map_of (mem_sessions m) client_id \<noteq> None)"

definition memory_delete_expired_sessions ::
  "datetime \<Rightarrow> memory \<Rightarrow> nat storage_result \<times> memory" where
  "memory_delete_expired_sessions older_than m =
    (let expired = map fst (filter (\<lambda>(_, s). ps_updated_at s < older_than) (mem_sessions m));
         count = length expired
     in (Inr count, fold memory_remove_client expired m))"

definition memory_save_retained_message ::
  "PersistedRetainedMessage \<Rightarrow> memory \<Rightarrow> unit storage_result \<times> memory" where
  "memory_save_retained_message msg m =
    (Inr (), m\<lparr>mem_retained := AList.update (pr_topic msg) msg (mem_retained m)\<rparr>)"

definition memory_load_retained_message ::
  "rstring \<Rightarrow> memory \<Rightarrow> PersistedRetainedMessage option storage_result" where
  "memory_load_retained_message topic m = Inr (map_of (mem_retained m) topic)"

definition memory_load_all_retained_messages ::
  "memory \<Rightarrow> PersistedRetainedMessage list storage_result" where
  "memory_load_all_retained_messages m = Inr (map snd (mem_retained m))"

definition memory_delete_retained_message :: "rstring \<Rightarrow> memory \<Rightarrow> unit storage_result \<times> memory" where
  "memory_delete_retained_message topic m =
    (Inr (), m\<lparr>mem_retained := AList.delete topic (mem_retained m)\<rparr>)"

definition memory_count_retained_messages :: "memory \<Rightarrow> nat storage_result" where
  "memory_count_retained_messages m = Inr (length (mem_retained m))"

definition memory_ops :: "memory storage_ops" where
  "memory_ops =
    \<lparr>save_session = memory_save_session,
     load_session = memory_load_session,
     load_subscriptions = memory_load_subscriptions,
     load_inflight_messages = memory_load_inflight_messages,
     load_inbound_qos2_messages = memory_load_inbound_qos2_messages,
     delete_session = memory_delete_session,
     session_exists = memory_session_exists,
     delete_expired_sessions = memory_delete_expired_sessions,
     save_retained_message = memory_save_retained_message,
     load_retained_message = memory_load_retained_message,
     load_all_retained_messages = memory_load_all_retained_messages,
     delete_retained_message = memory_delete_retained_message,
     count_retained_messages = memory_count_retained_messages\<rparr>"

section \<open>Invariant and views\<close>

definition memory_inv :: "memory \<Rightarrow> bool" where
  "memory_inv m \<longleftrightarrow>
    distinct (map fst (mem_sessions m)) \<and> distinct (map fst (mem_retained m))
    \<and> dom (map_of (mem_subscriptions m)) = dom (map_of (mem_sessions m))
    \<and> dom (map_of (mem_inflight m)) = dom (map_of (mem_sessions m))
    \<and> dom (map_of (mem_inbound_qos2 m)) = dom (map_of (mem_sessions m))
    \<and> (\<forall>t msg. map_of (mem_retained m) t = Some msg \<longrightarrow> pr_topic msg = t)"

definition memory_saved :: "memory \<Rightarrow> rstring \<Rightarrow> saved_session option" where
  "memory_saved m cid = map_option (\<lambda>s.
     \<lparr>sv_session = s,
      sv_subscriptions = unwrap_or_default (map_of (mem_subscriptions m) cid),
      sv_inflight = unwrap_or_default (map_of (mem_inflight m) cid),
      sv_inbound = unwrap_or_default (map_of (mem_inbound_qos2 m) cid)\<rparr>) (map_of (mem_sessions m) cid)"

definition memory_retained :: "memory \<Rightarrow> rstring \<Rightarrow> PersistedRetainedMessage option" where
  "memory_retained m = map_of (mem_retained m)"

lemmas memory_defs =
  memory_save_session_def memory_load_session_def memory_load_subscriptions_def
  memory_load_inflight_messages_def memory_load_inbound_qos2_messages_def
  memory_delete_session_def memory_session_exists_def memory_save_retained_message_def
  memory_load_retained_message_def memory_load_all_retained_messages_def
  memory_delete_retained_message_def memory_count_retained_messages_def

lemma memory_ops_simps [simp]:
  "save_session memory_ops = memory_save_session"
  "load_session memory_ops = memory_load_session"
  "load_subscriptions memory_ops = memory_load_subscriptions"
  "load_inflight_messages memory_ops = memory_load_inflight_messages"
  "load_inbound_qos2_messages memory_ops = memory_load_inbound_qos2_messages"
  "delete_session memory_ops = memory_delete_session"
  "session_exists memory_ops = memory_session_exists"
  "delete_expired_sessions memory_ops = memory_delete_expired_sessions"
  "save_retained_message memory_ops = memory_save_retained_message"
  "load_retained_message memory_ops = memory_load_retained_message"
  "load_all_retained_messages memory_ops = memory_load_all_retained_messages"
  "delete_retained_message memory_ops = memory_delete_retained_message"
  "count_retained_messages memory_ops = memory_count_retained_messages"
  by (simp_all add: memory_ops_def)

lemma memory_inv_new: "memory_inv memory_new"
  by (simp add: memory_inv_def memory_new_def)

lemma memory_inv_save_session:
  "memory_inv m \<Longrightarrow> memory_inv (snd (memory_save_session s subs infl inb m))"
  by (simp add: memory_inv_def memory_defs Let_def map_of_update distinct_update)

lemma memory_saved_save_session:
  "memory_saved (snd (memory_save_session s subs infl inb m))
    = (memory_saved m)(ps_client_id s \<mapsto>
        \<lparr>sv_session = s, sv_subscriptions = subs, sv_inflight = infl, sv_inbound = inb\<rparr>)"
  by (auto simp: memory_saved_def memory_defs Let_def map_of_update unwrap_or_default_def fun_eq_iff)

lemma memory_inv_remove_client: "memory_inv m \<Longrightarrow> memory_inv (memory_remove_client cid m)"
  by (simp add: memory_inv_def memory_remove_client_def map_of_delete distinct_delete)

lemma memory_saved_remove_client:
  "memory_saved (memory_remove_client cid m) = (memory_saved m)(cid := None)"
  by (auto simp: memory_saved_def memory_remove_client_def map_of_delete fun_eq_iff)

lemma memory_retained_remove_client:
  "memory_retained (memory_remove_client cid m) = memory_retained m"
  by (simp add: memory_retained_def memory_remove_client_def)

lemma memory_fold_remove_client:
  "memory_inv m \<Longrightarrow> memory_inv (fold memory_remove_client cids m)"
  "memory_retained (fold memory_remove_client cids m) = memory_retained m"
  "memory_saved (fold memory_remove_client cids m)
    = (\<lambda>c. if c \<in> set cids then None else memory_saved m c)"
  by (induction cids arbitrary: m)
    (simp_all add: memory_inv_remove_client memory_retained_remove_client
      memory_saved_remove_client fun_eq_iff)

lemma memory_expired_set:
  assumes "memory_inv m"
  shows "set (map fst (filter (\<lambda>(_, s). ps_updated_at s < t) (mem_sessions m)))
      = {cid. \<exists>v. memory_saved m cid = Some v \<and> ps_updated_at (sv_session v) < t}"
    and "distinct (map fst (filter (\<lambda>(_, s). ps_updated_at s < t) (mem_sessions m)))"
proof -
  have d: "distinct (map fst (mem_sessions m))"
    using assms by (simp add: memory_inv_def)
  then show "distinct (map fst (filter (\<lambda>(_, s). ps_updated_at s < t) (mem_sessions m)))"
    by (induction "mem_sessions m") (auto simp: distinct_map_filter)
  show "set (map fst (filter (\<lambda>(_, s). ps_updated_at s < t) (mem_sessions m)))
      = {cid. \<exists>v. memory_saved m cid = Some v \<and> ps_updated_at (sv_session v) < t}"
    using map_of_eq_Some_in_set [OF d] by (force simp: memory_saved_def)
qed

lemma memory_delete_expired:
  assumes "memory_inv m" "memory_delete_expired_sessions t m = (r, m')"
  shows "memory_inv m' \<and> memory_retained m' = memory_retained m
      \<and> memory_saved m' = (\<lambda>cid. case memory_saved m cid of
            None \<Rightarrow> None
          | Some v \<Rightarrow> if ps_updated_at (sv_session v) < t then None else Some v)
      \<and> r = Inr (card {cid. \<exists>v. memory_saved m cid = Some v \<and> ps_updated_at (sv_session v) < t})"
proof -
  let ?cids = "map fst (filter (\<lambda>(_, s). ps_updated_at s < t) (mem_sessions m))"
  have m': "m' = fold memory_remove_client ?cids m" "r = Inr (length ?cids)"
    using assms(2) by (auto simp: memory_delete_expired_sessions_def Let_def)
  have "length ?cids = card (set ?cids)"
    using memory_expired_set(2) [OF assms(1)] by (simp only: distinct_card)
  then show ?thesis
    using memory_fold_remove_client [where cids = ?cids] assms(1)
    unfolding m' memory_expired_set(1) [OF assms(1)]
    by (auto simp: fun_eq_iff split: option.split)
qed

lemma memory_retained_values:
  assumes "memory_inv m"
  shows "distinct (map pr_topic (map snd (mem_retained m)))"
    and "set (map snd (mem_retained m)) = ran (memory_retained m)"
    and "length (mem_retained m) = card (dom (memory_retained m))"
proof -
  have d: "distinct (map fst (mem_retained m))"
    using assms by (simp add: memory_inv_def)
  have "pr_topic msg = t" if "(t, msg) \<in> set (mem_retained m)" for t msg
    using assms that map_of_eq_Some_in_set [OF d] by (simp add: memory_inv_def)
  then have eq: "map pr_topic (map snd (mem_retained m)) = map fst (mem_retained m)"
    by auto
  show "distinct (map pr_topic (map snd (mem_retained m)))"
    unfolding eq by (rule d)
  show "set (map snd (mem_retained m)) = ran (memory_retained m)"
    using ran_distinct [OF d] by (simp add: memory_retained_def)
  show "length (mem_retained m) = card (dom (memory_retained m))"
    using distinct_card [OF d] by (simp add: memory_retained_def dom_map_of_conv_image_fst)
qed

lemma memory_loads:
  assumes "memory_inv m"
  shows "memory_load_session cid m = Inr (map_option sv_session (memory_saved m cid))"
    and "memory_load_subscriptions cid m
      = Inr (case memory_saved m cid of None \<Rightarrow> [] | Some v \<Rightarrow> sv_subscriptions v)"
    and "memory_load_inflight_messages cid m
      = Inr (case memory_saved m cid of None \<Rightarrow> [] | Some v \<Rightarrow> sv_inflight v)"
    and "memory_load_inbound_qos2_messages cid m
      = Inr (case memory_saved m cid of None \<Rightarrow> [] | Some v \<Rightarrow> sv_inbound v)"
    and "memory_session_exists cid m = Inr (memory_saved m cid \<noteq> None)"
proof -
  have none: "map_of (mem_subscriptions m) cid = None" "map_of (mem_inflight m) cid = None"
    "map_of (mem_inbound_qos2 m) cid = None" if "map_of (mem_sessions m) cid = None"
    using assms that unfolding memory_inv_def by (metis domIff)+
  show "memory_load_session cid m = Inr (map_option sv_session (memory_saved m cid))"
    "memory_session_exists cid m = Inr (memory_saved m cid \<noteq> None)"
    by (simp_all add: memory_defs memory_saved_def option.map_comp o_def option.map_ident)
  show "memory_load_subscriptions cid m
      = Inr (case memory_saved m cid of None \<Rightarrow> [] | Some v \<Rightarrow> sv_subscriptions v)"
    "memory_load_inflight_messages cid m
      = Inr (case memory_saved m cid of None \<Rightarrow> [] | Some v \<Rightarrow> sv_inflight v)"
    "memory_load_inbound_qos2_messages cid m
      = Inr (case memory_saved m cid of None \<Rightarrow> [] | Some v \<Rightarrow> sv_inbound v)"
    using none
    by (cases "map_of (mem_sessions m) cid";
        simp add: memory_defs memory_saved_def unwrap_or_default_def)+
qed

lemma memory_inv_retained:
  assumes "memory_inv m"
  shows "memory_inv (snd (memory_save_retained_message msg m))"
    and "memory_inv (snd (memory_delete_retained_message t m))"
  using assms
  by (simp_all add: memory_inv_def memory_defs map_of_update map_of_delete distinct_update
      distinct_delete)

lemma memory_updates:
  assumes "memory_inv m"
  shows "memory_save_session s subs infl inb m = (r, m') \<Longrightarrow>
      r = Inr () \<and> memory_inv m' \<and> memory_retained m' = memory_retained m
      \<and> memory_saved m' = (memory_saved m)(ps_client_id s \<mapsto>
          \<lparr>sv_session = s, sv_subscriptions = subs, sv_inflight = infl, sv_inbound = inb\<rparr>)"
    and "memory_delete_session cid m = (r, m') \<Longrightarrow>
      r = Inr () \<and> memory_inv m' \<and> memory_retained m' = memory_retained m
      \<and> memory_saved m' = (memory_saved m)(cid := None)"
    and "memory_save_retained_message msg m = (r, m') \<Longrightarrow>
      r = Inr () \<and> memory_inv m' \<and> memory_saved m' = memory_saved m
      \<and> memory_retained m' = (memory_retained m)(pr_topic msg \<mapsto> msg)"
    and "memory_delete_retained_message t m = (r, m') \<Longrightarrow>
      r = Inr () \<and> memory_inv m' \<and> memory_saved m' = memory_saved m
      \<and> memory_retained m' = (memory_retained m)(t := None)"
proof -
  show "r = Inr () \<and> memory_inv m' \<and> memory_retained m' = memory_retained m
      \<and> memory_saved m' = (memory_saved m)(ps_client_id s \<mapsto>
          \<lparr>sv_session = s, sv_subscriptions = subs, sv_inflight = infl, sv_inbound = inb\<rparr>)"
    if "memory_save_session s subs infl inb m = (r, m')"
    using that memory_inv_save_session [OF assms, of s subs infl inb]
      memory_saved_save_session [of s subs infl inb m]
    by (auto simp: memory_save_session_def Let_def memory_retained_def)
  show "r = Inr () \<and> memory_inv m' \<and> memory_retained m' = memory_retained m
      \<and> memory_saved m' = (memory_saved m)(cid := None)"
    if "memory_delete_session cid m = (r, m')"
    using that memory_inv_remove_client [OF assms, of cid]
    by (auto simp: memory_delete_session_def memory_saved_remove_client
        memory_retained_remove_client)
  show "r = Inr () \<and> memory_inv m' \<and> memory_saved m' = memory_saved m
      \<and> memory_retained m' = (memory_retained m)(pr_topic msg \<mapsto> msg)"
    if "memory_save_retained_message msg m = (r, m')"
    using that memory_inv_retained(1) [OF assms, of msg]
    by (auto simp: memory_defs memory_saved_def memory_retained_def map_of_update fun_eq_iff)
  show "r = Inr () \<and> memory_inv m' \<and> memory_saved m' = memory_saved m
      \<and> memory_retained m' = (memory_retained m)(t := None)"
    if "memory_delete_retained_message t m = (r, m')"
    using that memory_inv_retained(2) [OF assms, of t]
    by (auto simp: memory_defs memory_saved_def memory_retained_def map_of_delete fun_eq_iff)
qed

lemma memory_retained_keys:
  assumes "memory_inv m"
  shows "memory_retained m t = Some msg \<Longrightarrow> pr_topic msg = t"
    and "finite (dom (memory_retained m))"
  using assms by (simp_all add: memory_inv_def memory_retained_def finite_dom_map_of)

lemma memory_results:
  "fst (memory_save_session s subs infl inb m) = Inr ()"
  "fst (memory_delete_session cid m) = Inr ()"
  "fst (memory_save_retained_message msg m) = Inr ()"
  "fst (memory_delete_retained_message t m) = Inr ()"
  "memory_load_retained_message t m = Inr (memory_retained m t)"
  "memory_load_all_retained_messages m = Inr (map snd (mem_retained m))"
  "memory_count_retained_messages m = Inr (length (mem_retained m))"
  by (simp_all add: memory_defs Let_def memory_retained_def)

interpretation mem: reliable_storage memory_ops memory_inv memory_saved memory_retained
  by unfold_locales
    (auto simp: memory_loads memory_results memory_retained_keys stores_def
      memory_retained_values [unfolded list.map_comp list.set_map]
      dest: memory_updates)

interpretation mem_expiry: session_expiry memory_ops memory_inv memory_saved memory_retained "\<lambda>_. True"
  by unfold_locales (auto dest: memory_delete_expired)

end
