(* ===== verification/Rust_Str.thy ===== *)
theory Rust_Str
  imports Iotd_Prelude
begin

text \<open>
  What the source uses of Rust's \<open>str\<close>: \<open>split\<close>, \<open>split_once\<close>, \<open>splitn\<close>, \<open>lines\<close>, \<open>trim\<close>,
  \<open>contains\<close> and \<open>strip_prefix\<close>, on the byte strings of \<open>Iotd_Prelude\<close>.  All separators of
  the source are ASCII characters, which never occur inside a multi-byte UTF-8 sequence, so
  that splitting bytes and splitting characters agree.
\<close>

section \<open>Definitions\<close>

definition str_contains :: "char \<Rightarrow> rstring \<Rightarrow> bool" where
  "str_contains c s \<longleftrightarrow> c \<in> set s"

fun split_on :: "char \<Rightarrow> rstring \<Rightarrow> rstring list" where
  "split_on sep [] = [[]]"
| "split_on sep (c # cs) =
    (if c = sep then [] # split_on sep cs
     else case split_on sep cs of
       [] \<Rightarrow> [[c]]
     | part # parts \<Rightarrow> (c # part) # parts)"

fun split_once :: "char \<Rightarrow> rstring \<Rightarrow> (rstring \<times> rstring) option" where
  "split_once sep [] = None"
| "split_once sep (c # cs) =
    (if c = sep then Some ([], cs)
     else map_option (\<lambda>(a, b). (c # a, b)) (split_once sep cs))"

fun splitn :: "nat \<Rightarrow> char \<Rightarrow> rstring \<Rightarrow> rstring list" where
  "splitn 0 sep s = []"
| "splitn (Suc n) sep s =
    (if n = 0 then [s]
     else case split_once sep s of
       None \<Rightarrow> [s]
     | Some (a, b) \<Rightarrow> a # splitn n sep b)"

definition newline :: char where "newline = CHR 0x0A"
definition carriage_return :: char where "carriage_return = CHR 0x0D"

definition strip_cr :: "rstring \<Rightarrow> rstring" where
  "strip_cr s = (if s \<noteq> [] \<and> last s = carriage_return then butlast s else s)"

text \<open>
  \<open>lines\<close>: a line ends at a line feed, with one carriage return before it removed; after the
  last line feed there is a further line only if it is not empty.
\<close>

fun str_lines_acc :: "rstring \<Rightarrow> rstring \<Rightarrow> rstring list" where
  "str_lines_acc acc [] = (if acc = [] then [] else [rev acc])"
| "str_lines_acc acc (c # cs) =
    (if c = newline then strip_cr (rev acc) # str_lines_acc [] cs
     else str_lines_acc (c # acc) cs)"

definition str_lines :: "rstring \<Rightarrow> rstring list" where
  "str_lines s = str_lines_acc [] s"

text \<open>The UTF-8 encodings of the characters with the Unicode property \<open>White_Space\<close>.\<close>

definition ws_units :: "rstring list" where
  "ws_units =
    map (\<lambda>n. [char_of n]) [9, 10, 11, 12, 13, 32 :: nat]
    @ map (map char_of)
      ([[0xC2, 0x85], [0xC2, 0xA0], [0xE1, 0x9A, 0x80],
        [0xE2, 0x80, 0x80], [0xE2, 0x80, 0x81], [0xE2, 0x80, 0x82], [0xE2, 0x80, 0x83],
        [0xE2, 0x80, 0x84], [0xE2, 0x80, 0x85], [0xE2, 0x80, 0x86], [0xE2, 0x80, 0x87],
        [0xE2, 0x80, 0x88], [0xE2, 0x80, 0x89], [0xE2, 0x80, 0x8A], [0xE2, 0x80, 0xA8],
        [0xE2, 0x80, 0xA9], [0xE2, 0x80, 0xAF], [0xE2, 0x81, 0x9F], [0xE3, 0x80, 0x80]]
       :: nat list list)"

definition starts_with :: "rstring \<Rightarrow> rstring \<Rightarrow> bool" where
  "starts_with p s \<longleftrightarrow> take (length p) s = p"

definition strip_prefix :: "rstring \<Rightarrow> rstring \<Rightarrow> rstring option" where
  "strip_prefix p s = (if starts_with p s then Some (drop (length p) s) else None)"

function trim_units :: "rstring list \<Rightarrow> rstring \<Rightarrow> rstring" where
  "trim_units us s =
    (case List.find (\<lambda>u. u \<noteq> [] \<and> starts_with u s) us of
       None \<Rightarrow> s
     | Some u \<Rightarrow> trim_units us (drop (length u) s))"
  by pat_completeness auto
termination
proof (relation "measure (\<lambda>(us, s). length s)", goal_cases)
  case (2 us s u)
  then have "u \<noteq> []" "starts_with u s"
    by (auto simp: find_Some_iff)
  then show ?case
    by (cases s) (auto simp: starts_with_def)
qed simp

declare trim_units.simps [simp del]

definition str_trim :: "rstring \<Rightarrow> rstring" where
  "str_trim s = rev (trim_units (map rev ws_units) (rev (trim_units ws_units s)))"

section \<open>Splitting and joining\<close>

lemma split_on_neq_Nil [simp]: "split_on sep s \<noteq> []"
  by (induction s) (auto split: list.split)

fun join_on :: "char \<Rightarrow> rstring list \<Rightarrow> rstring" where
  "join_on sep [] = []"
| "join_on sep [p] = p"
| "join_on sep (p # ps) = p @ sep # join_on sep ps"

lemma join_on_Cons: "ps \<noteq> [] \<Longrightarrow> join_on sep (p # ps) = p @ sep # join_on sep ps"
  by (cases ps) simp_all

lemma join_split [simp]: "join_on sep (split_on sep s) = s"
proof (induction s)
  case (Cons c cs)
  obtain part parts where "split_on sep cs = part # parts"
    by (meson neq_Nil_conv split_on_neq_Nil)
  with Cons show ?case
    by (cases parts) auto
qed simp

lemma split_on_inj: "split_on sep s = split_on sep t \<longleftrightarrow> s = t"
  by (metis join_split)

lemma split_on_no_sep: "p \<in> set (split_on sep s) \<Longrightarrow> sep \<notin> set p"
  by (induction s arbitrary: p) (auto split: list.splits if_splits)

lemma split_on_single: "sep \<notin> set s \<Longrightarrow> split_on sep s = [s]"
  by (induction s) auto

lemma split_on_append: "sep \<notin> set p \<Longrightarrow> split_on sep (p @ sep # s) = p # split_on sep s"
  by (induction p) auto

lemma split_join:
  "ps \<noteq> [] \<Longrightarrow> \<forall>p \<in> set ps. sep \<notin> set p \<Longrightarrow> split_on sep (join_on sep ps) = ps"
  by (induction ps rule: join_on.induct) (auto simp: split_on_single split_on_append)

lemma set_split_on: "c \<noteq> sep \<Longrightarrow> c \<in> set s \<longleftrightarrow> (\<exists>p \<in> set (split_on sep s). c \<in> set p)"
  by (induction s) (auto split: list.split)

lemma split_once_append: "sep \<notin> set a \<Longrightarrow> split_once sep (a @ sep # b) = Some (a, b)"
  by (induction a) auto

lemma split_once_Some: "split_once sep s = Some (a, b) \<longleftrightarrow> s = a @ sep # b \<and> sep \<notin> set a"
proof
  show "split_once sep s = Some (a, b) \<Longrightarrow> s = a @ sep # b \<and> sep \<notin> set a"
    by (induction s arbitrary: a) (auto split: if_splits)
qed (auto simp: split_once_append)

lemma split_once_None: "split_once sep s = None \<longleftrightarrow> sep \<notin> set s"
  by (induction s) auto

section \<open>Lines\<close>

lemma str_lines_acc_append:
  "newline \<notin> set l \<Longrightarrow>
    str_lines_acc acc (l @ newline # s) = strip_cr (rev acc @ l) # str_lines_acc [] s"
  by (induction l arbitrary: acc) auto

lemma strip_cr_id: "carriage_return \<notin> set s \<Longrightarrow> strip_cr s = s"
  unfolding strip_cr_def by (metis last_in_set)

definition unlines :: "rstring list \<Rightarrow> rstring" where
  "unlines ls = concat (map (\<lambda>l. l @ [newline]) ls)"

lemma str_lines_unlines:
  assumes "\<forall>l \<in> set ls. newline \<notin> set l \<and> carriage_return \<notin> set l"
  shows "str_lines (unlines ls) = ls"
  using assms
  by (induction ls)
    (simp_all add: str_lines_def unlines_def str_lines_acc_append strip_cr_id)

section \<open>Trimming\<close>

definition ws_starts :: "char set" where
  "ws_starts = set (map hd ws_units)"

definition ws_ends :: "char set" where
  "ws_ends = set (map last ws_units)"

lemma trim_units_id:
  assumes "\<forall>u \<in> set us. u \<noteq> [] \<longrightarrow> s = [] \<or> hd u \<noteq> hd s"
  shows "trim_units us s = s"
proof -
  have "\<not> (u \<noteq> [] \<and> starts_with u s)" if "u \<in> set us" for u
    using assms that by (cases u; cases s) (auto simp: starts_with_def)
  then have "List.find (\<lambda>u. u \<noteq> [] \<and> starts_with u s) us = None"
    by (simp add: find_None_iff)
  then show ?thesis
    by (subst trim_units.simps) simp
qed

lemma ws_units_neq_Nil: "u \<in> set ws_units \<Longrightarrow> u \<noteq> []"
  by (auto simp: ws_units_def)

lemma str_trim_id:
  assumes "s \<noteq> []" "hd s \<notin> ws_starts" "last s \<notin> ws_ends"
  shows "str_trim s = s"
proof -
  have "trim_units ws_units s = s"
    using assms(2) by (intro trim_units_id) (metis image_eqI list.set_map ws_starts_def)
  moreover have "trim_units (map rev ws_units) (rev s) = rev s"
    using assms(1,3) ws_units_neq_Nil
    by (intro trim_units_id) (metis (no_types, lifting) hd_rev imageE image_eqI list.set_map ws_ends_def)
  ultimately show ?thesis
    by (simp add: str_trim_def)
qed

end
