(* ===== verification/Config.thy ===== *)
theory Config
  imports Rust_Str
begin

text \<open>
  The configuration, \<^verbatim>\<open>src/config.rs\<close>, with its defaults, and the protocol prefix of a listen
  address, \<open>Protocol::from_url\<close> of \<^verbatim>\<open>src/transport.rs\<close>.  The derived (de)serialisation of the
  records is serde's; the hand-written visitor for \<open>listen\<close> is modelled over the serde
  operations it calls.
\<close>

section \<open>Data and defaults\<close>

type_synonym path = rstring

datatype StorageBackend = Memory | Sqlite

record PersistenceConfig =
  pc_backend :: StorageBackend
  pc_database_path :: path
  pc_session_expiry_seconds :: u64

datatype AuthBackend = AuthAllowAll | PasswordFile

record AuthConfig =
  auth_backend :: AuthBackend
  auth_password_file :: path

datatype AclBackend = AclAllowAll | AclFile

record AclConfig =
  acl_backend :: AclBackend
  acl_acl_file :: path

record TlsConfig =
  tls_cert_file :: path
  tls_key_file :: path

record Config =
  cfg_listen :: "rstring list"
  cfg_retained_message_limit :: nat
  cfg_max_retransmission_limit :: u32
  cfg_retransmission_interval_ms :: u64
  cfg_persistence :: PersistenceConfig
  cfg_auth :: AuthConfig
  cfg_acl :: AclConfig
  cfg_tls :: "TlsConfig option"

definition default_listen :: "rstring list" where
  "default_listen = [''127.0.0.1:1883'']"

definition default_retained_message_limit :: nat where
  "default_retained_message_limit = 10000"

definition default_max_retransmission_limit :: u32 where
  "default_max_retransmission_limit = 10"

definition default_retransmission_interval_ms :: u64 where
  "default_retransmission_interval_ms = 5000"

definition default_persistence :: PersistenceConfig where
  "default_persistence =
    \<lparr>pc_backend = Memory, pc_database_path = ''iotd.db'', pc_session_expiry_seconds = 86400\<rparr>"

definition default_auth :: AuthConfig where
  "default_auth = \<lparr>auth_backend = AuthAllowAll, auth_password_file = ''passwd''\<rparr>"

definition default_acl :: AclConfig where
  "default_acl = \<lparr>acl_backend = AclAllowAll, acl_acl_file = ''acl.conf''\<rparr>"

definition default_config :: Config where
  "default_config =
    \<lparr>cfg_listen = default_listen,
     cfg_retained_message_limit = default_retained_message_limit,
     cfg_max_retransmission_limit = default_max_retransmission_limit,
     cfg_retransmission_interval_ms = default_retransmission_interval_ms,
     cfg_persistence = default_persistence,
     cfg_auth = default_auth,
     cfg_acl = default_acl,
     cfg_tls = None\<rparr>"

definition get_retransmission_interval_ms :: "Config \<Rightarrow> u64" where
  "get_retransmission_interval_ms config =
    (if cfg_retransmission_interval_ms config = 0 then 0
     else max (cfg_retransmission_interval_ms config) 500)"

section \<open>The listen addresses\<close>

record ('s, 'v, 'e) serializer_ops =
  serialize_str :: "rstring \<Rightarrow> ('v, 'e) outcome"
  serialize_seq :: "nat \<Rightarrow> ('s, 'e) outcome"
  serialize_element :: "rstring \<Rightarrow> 's \<Rightarrow> ('s, 'e) outcome"
  seq_end :: "'s \<Rightarrow> ('v, 'e) outcome"

text \<open>
  A sequence access is the list of the results its \<open>next_element\<close> calls return before \<open>None\<close>.
\<close>

type_synonym 'e seq_access = "(rstring, 'e) outcome list"

record ('v, 'e) deserializer_ops =
  deserialize_any :: "(rstring \<Rightarrow> (rstring list, 'e) outcome)
    \<Rightarrow> ('e seq_access \<Rightarrow> (rstring list, 'e) outcome) \<Rightarrow> 'v \<Rightarrow> (rstring list, 'e) outcome"

definition visit_str :: "rstring \<Rightarrow> (rstring list, 'e) outcome" where
  "visit_str value = Ok [value]"

fun visit_seq_loop :: "rstring list \<Rightarrow> 'e seq_access \<Rightarrow> (rstring list, 'e) outcome" where
  "visit_seq_loop vec [] = Ok vec"
| "visit_seq_loop vec (next # seq) =
    outcome_bind next (\<lambda>value. visit_seq_loop (vec @ [value]) seq)"

definition visit_seq :: "'e seq_access \<Rightarrow> (rstring list, 'e) outcome" where
  "visit_seq seq = visit_seq_loop [] seq"

definition deserialize_listen :: "('v, 'e) deserializer_ops \<Rightarrow> 'v \<Rightarrow> (rstring list, 'e) outcome" where
  "deserialize_listen D v = deserialize_any D visit_str visit_seq v"

fun serialize_elements ::
  "('s, 'v, 'e) serializer_ops \<Rightarrow> rstring list \<Rightarrow> 's \<Rightarrow> ('s, 'e) outcome" where
  "serialize_elements S [] seq = Ok seq"
| "serialize_elements S (addr # listen) seq =
    outcome_bind (serialize_element S addr seq) (\<lambda>seq. serialize_elements S listen seq)"

definition serialize_listen ::
  "('s, 'v, 'e) serializer_ops \<Rightarrow> rstring list \<Rightarrow> ('v, 'e) outcome" where
  "serialize_listen S listen =
    (if length listen = 1 then serialize_str S (listen ! 0)
     else outcome_bind (serialize_seq S (length listen)) (\<lambda>seq.
       outcome_bind (serialize_elements S listen seq) (seq_end S)))"

datatype Protocol = Tcp | TcpTls | WebSocket | WebSocketSecure | Unix

definition protocol_from_url :: "rstring \<Rightarrow> (Protocol \<times> rstring, 'e) outcome" where
  "protocol_from_url url =
    (case strip_prefix ''tcp://'' url of
       Some addr \<Rightarrow> Ok (Tcp, addr)
     | None \<Rightarrow>
         (case strip_prefix ''tls://'' url of
            Some addr \<Rightarrow> Ok (TcpTls, addr)
          | None \<Rightarrow> Ok (Tcp, url)))"

section \<open>Round trip of the listen addresses\<close>

text \<open>
  What serde documents of a self-describing format: a string that was written calls \<open>visit_str\<close>,
  a sequence that was written calls \<open>visit_seq\<close> with its elements in order.
\<close>

locale serde_format =
  fixes S :: "('s, 'v, 'e) serializer_ops"
    and D :: "('v, 'e) deserializer_ops"
    and elems :: "'s \<Rightarrow> rstring list"
  assumes str_written: "\<exists>v. serialize_str S s = Ok v \<and> (\<forall>f g. deserialize_any D f g v = f s)"
    and seq_started: "\<exists>q. serialize_seq S n = Ok q \<and> elems q = []"
    and element_written: "\<exists>q'. serialize_element S s q = Ok q' \<and> elems q' = elems q @ [s]"
    and seq_written: "\<exists>v. seq_end S q = Ok v
      \<and> (\<forall>f g. deserialize_any D f g v = g (map Ok (elems q)))"
begin

lemma visit_seq_loop_Ok: "visit_seq_loop vec (map Ok xs) = Ok (vec @ xs)"
  by (induction xs arbitrary: vec) simp_all

lemma serialize_elements_written:
  "\<exists>q'. serialize_elements S xs q = Ok q' \<and> elems q' = elems q @ xs"
proof (induction xs arbitrary: q)
  case (Cons x xs)
  obtain q1 where q1: "serialize_element S x q = Ok q1" "elems q1 = elems q @ [x]"
    using element_written by blast
  with Cons [of q1] show ?case
    by auto
qed simp

lemma listen_roundtrip:
  "\<exists>v. serialize_listen S listen = Ok v \<and> deserialize_listen D v = Ok listen"
proof (cases "length listen = 1")
  case True
  obtain v where "serialize_str S (listen ! 0) = Ok v"
    "\<forall>f g. deserialize_any D f g v = f (listen ! 0)"
    using str_written by blast
  moreover have "[listen ! 0] = listen"
    using True by (cases listen) auto
  ultimately show ?thesis
    using True by (simp add: serialize_listen_def deserialize_listen_def visit_str_def)
next
  case False
  obtain q where q: "serialize_seq S (length listen) = Ok q" "elems q = []"
    using seq_started by blast
  obtain q' where q': "serialize_elements S listen q = Ok q'" "elems q' = listen"
    using serialize_elements_written [of listen q] q(2) by auto
  obtain v where "seq_end S q' = Ok v" "\<forall>f g. deserialize_any D f g v = g (map Ok (elems q'))"
    using seq_written by blast
  then show ?thesis
    using False q q'
    by (simp add: serialize_listen_def deserialize_listen_def visit_seq_def visit_seq_loop_Ok)
qed

end

text \<open>An instance: values as trees.\<close>

datatype tree = Str rstring | Seq "rstring list"

definition tree_ser :: "(rstring list, tree, unit) serializer_ops" where
  "tree_ser = \<lparr>serialize_str = (\<lambda>s. Ok (Str s)), serialize_seq = (\<lambda>n. Ok []),
    serialize_element = (\<lambda>s q. Ok (q @ [s])), seq_end = (\<lambda>q. Ok (Seq q))\<rparr>"

definition tree_de :: "(tree, unit) deserializer_ops" where
  "tree_de = \<lparr>deserialize_any = (\<lambda>f g v. case v of Str s \<Rightarrow> f s | Seq xs \<Rightarrow> g (map Ok xs))\<rparr>"

interpretation tree: serde_format tree_ser tree_de "\<lambda>q. q"
  by unfold_locales (simp_all add: tree_ser_def tree_de_def)

section \<open>Properties\<close>

text \<open>
  A configuration's listen addresses survive being written and read back, whether they are
  written as one string or as an array, in any format with serde's documented behaviour.
\<close>

theorem listen_addresses_roundtrip:
  assumes "serde_format S D elems"
  shows "\<exists>v. serialize_listen S listen = Ok v \<and> deserialize_listen D v = Ok listen"
  using assms by (rule serde_format.listen_roundtrip)

theorem listen_addresses_roundtrip_witness:
  "\<exists>v. serialize_listen tree_ser [''a:1'', ''tls://b:2''] = Ok v
    \<and> deserialize_listen tree_de v = Ok [''a:1'', ''tls://b:2'']"
  using listen_addresses_roundtrip [OF tree.serde_format_axioms] by blast

end
