(* ===== verification/Auth.thy ===== *)
theory Auth
  imports Config Packet
begin

text \<open>
  Authentication and authorisation, \<^verbatim>\<open>src/auth/\<close>: the traits as function types, the allow-all
  implementation, the password file and the ACL file with their parsers, and the two
  constructors that choose an implementation.  \<open>std::fs::read_to_string\<close> is the parameter
  \<open>read\<close>: a path gives the contents of the file or an I/O error.
\<close>

section \<open>Traits\<close>

datatype AuthError =
    InvalidCredentials
  | NotAuthorized
  | BackendError rstring
  | AuthIo io_error

record Credentials =
  cred_username :: "rstring option"
  cred_password :: "bytes option"
  cred_client_id :: rstring

type_synonym Authenticator = "Credentials \<Rightarrow> (unit, AuthError) outcome"

record Authorizer =
  authorize_publish :: "rstring \<Rightarrow> rstring \<Rightarrow> (unit, AuthError) outcome"
  authorize_subscribe :: "rstring \<Rightarrow> rstring \<Rightarrow> (unit, AuthError) outcome"

type_synonym file_reader = "path \<Rightarrow> (rstring, io_error) outcome"

section \<open>Allow all\<close>

definition allow_all_authenticate :: Authenticator where
  "allow_all_authenticate credentials = Ok ()"

definition allow_all_authorizer :: Authorizer where
  "allow_all_authorizer =
    \<lparr>authorize_publish = (\<lambda>client_id topic. Ok ()),
     authorize_subscribe = (\<lambda>client_id topic_filter. Ok ())\<rparr>"

section \<open>Password file\<close>

definition skip_line :: "rstring \<Rightarrow> bool" where
  "skip_line line \<longleftrightarrow> line = [] \<or> starts_with ''#'' line"

fun parse_passwords :: "rstring list \<Rightarrow> (rstring, rstring) hash_map \<Rightarrow> (rstring, rstring) hash_map"
where
  "parse_passwords [] credentials = credentials"
| "parse_passwords (line # lines) credentials =
    (let line = str_trim line in
     if skip_line line then parse_passwords lines credentials
     else case split_once (CHR '':'') line of
       Some (username, password) \<Rightarrow>
         parse_passwords lines (AList.update username password credentials)
     | None \<Rightarrow> parse_passwords lines credentials)"

definition password_file_new ::
  "file_reader \<Rightarrow> path \<Rightarrow> ((rstring, rstring) hash_map, AuthError) outcome" where
  "password_file_new read path =
    outcome_bind (map_err AuthIo (read path)) (\<lambda>contents.
      Ok (parse_passwords (str_lines contents) []))"

definition password_file_authenticate :: "(rstring, rstring) hash_map \<Rightarrow> Authenticator" where
  "password_file_authenticate credentials creds =
    (case cred_username creds of
       None \<Rightarrow> Err InvalidCredentials
     | Some username \<Rightarrow>
         (case cred_password creds of
            None \<Rightarrow> Err InvalidCredentials
          | Some password \<Rightarrow>
              if \<not> utf8_valid password then Err InvalidCredentials
              else
                let password_str = str_of password in
                (case map_of credentials username of
                   Some stored \<Rightarrow>
                     if stored = password_str then Ok () else Err InvalidCredentials
                 | None \<Rightarrow> Err InvalidCredentials)))"

section \<open>ACL file\<close>

datatype Permission = PermPublish | PermSubscribe | PermPublishSubscribe

record AclRule =
  rule_client_id :: rstring
  rule_permission :: Permission
  rule_topic_filter :: rstring

definition parse_permission :: "rstring \<Rightarrow> Permission option" where
  "parse_permission part =
    (if part = ''pub'' then Some PermPublish
     else if part = ''sub'' then Some PermSubscribe
     else if part = ''pubsub'' then Some PermPublishSubscribe
     else None)"

fun parse_rules :: "rstring list \<Rightarrow> AclRule list \<Rightarrow> AclRule list" where
  "parse_rules [] rules = rules"
| "parse_rules (line # lines) rules =
    (let line = str_trim line in
     if skip_line line then parse_rules lines rules
     else
       let parts = splitn 3 (CHR '' '') line in
       if length parts \<noteq> 3 then parse_rules lines rules
       else case parse_permission (parts ! 1) of
         Some permission \<Rightarrow>
           parse_rules lines
             (rules @ [\<lparr>rule_client_id = parts ! 0, rule_permission = permission,
                        rule_topic_filter = parts ! 2\<rparr>])
       | None \<Rightarrow> parse_rules lines rules)"

definition acl_file_new :: "file_reader \<Rightarrow> path \<Rightarrow> (AclRule list, AuthError) outcome" where
  "acl_file_new read path =
    outcome_bind (map_err AuthIo (read path)) (\<lambda>contents.
      Ok (parse_rules (str_lines contents) []))"

fun acl_authorize_publish :: "AclRule list \<Rightarrow> rstring \<Rightarrow> rstring \<Rightarrow> (unit, AuthError) outcome" where
  "acl_authorize_publish [] client_id topic = Err NotAuthorized"
| "acl_authorize_publish (rule # rules) client_id topic =
    (if rule_client_id rule \<noteq> client_id then acl_authorize_publish rules client_id topic
     else if \<not> (rule_permission rule = PermPublish \<or> rule_permission rule = PermPublishSubscribe)
     then acl_authorize_publish rules client_id topic
     else if rule_topic_filter rule = topic then Ok ()
     else acl_authorize_publish rules client_id topic)"

fun acl_authorize_subscribe :: "AclRule list \<Rightarrow> rstring \<Rightarrow> rstring \<Rightarrow> (unit, AuthError) outcome" where
  "acl_authorize_subscribe [] client_id topic_filter = Err NotAuthorized"
| "acl_authorize_subscribe (rule # rules) client_id topic_filter =
    (if rule_client_id rule \<noteq> client_id then acl_authorize_subscribe rules client_id topic_filter
     else if \<not> (rule_permission rule = PermSubscribe \<or> rule_permission rule = PermPublishSubscribe)
     then acl_authorize_subscribe rules client_id topic_filter
     else if rule_topic_filter rule = topic_filter then Ok ()
     else acl_authorize_subscribe rules client_id topic_filter)"

definition acl_file_authorizer :: "AclRule list \<Rightarrow> Authorizer" where
  "acl_file_authorizer rules =
    \<lparr>authorize_publish = acl_authorize_publish rules,
     authorize_subscribe = acl_authorize_subscribe rules\<rparr>"

section \<open>Constructors\<close>

definition auth_new :: "file_reader \<Rightarrow> AuthConfig \<Rightarrow> (Authenticator, AuthError) outcome" where
  "auth_new read config =
    (case auth_backend config of
       AuthAllowAll \<Rightarrow> Ok allow_all_authenticate
     | PasswordFile \<Rightarrow>
         outcome_bind (password_file_new read (auth_password_file config)) (\<lambda>credentials.
           Ok (password_file_authenticate credentials)))"

definition auth_new_authorizer :: "file_reader \<Rightarrow> AclConfig \<Rightarrow> (Authorizer, AuthError) outcome" where
  "auth_new_authorizer read config =
    (case acl_backend config of
       AclAllowAll \<Rightarrow> Ok allow_all_authorizer
     | AclFile \<Rightarrow>
         outcome_bind (acl_file_new read (acl_acl_file config)) (\<lambda>rules.
           Ok (acl_file_authorizer rules)))"

section \<open>Parsing, line by line\<close>

definition password_entry :: "rstring \<Rightarrow> (rstring \<times> rstring) option" where
  "password_entry line =
    (if skip_line (str_trim line) then None else split_once (CHR '':'') (str_trim line))"

definition acl_entry :: "rstring \<Rightarrow> AclRule option" where
  "acl_entry line =
    (if skip_line (str_trim line) then None
     else case splitn 3 (CHR '' '') (str_trim line) of
       [cid, perm, flt] \<Rightarrow>
         map_option (\<lambda>p. \<lparr>rule_client_id = cid, rule_permission = p, rule_topic_filter = flt\<rparr>)
           (parse_permission perm)
     | _ \<Rightarrow> None)"

lemma parse_passwords_entries:
  "map_of (parse_passwords ls creds) u =
    (case map_of (rev (List.map_filter password_entry ls)) u of
       Some p \<Rightarrow> Some p | None \<Rightarrow> map_of creds u)"
proof (induction ls arbitrary: creds)
  case (Cons l ls)
  show ?case
    by (cases "password_entry l")
      (auto simp: Cons password_entry_def List.map_filter_simps map_of_update map_add_def Let_def
        split: option.splits if_splits)
qed (simp add: List.map_filter_simps)

lemma length_3_cases: "length xs = 3 \<longleftrightarrow> (\<exists>a b c. xs = [a, b, c])"
  by (auto simp: numeral_3_eq_3 length_Suc_conv)

lemma parse_rules_entries: "parse_rules ls rules = rules @ List.map_filter acl_entry ls"
proof (induction ls arbitrary: rules)
  case (Cons l ls)
  consider (three) a b c where "splitn 3 (CHR '' '') (str_trim l) = [a, b, c]"
    | (other) "length (splitn 3 (CHR '' '') (str_trim l)) \<noteq> 3"
    using length_3_cases by metis
  then show ?case
  proof cases
    case three
    then show ?thesis
      by (simp add: Cons acl_entry_def List.map_filter_simps Let_def split: option.split)
  next
    case other
    then have "acl_entry l = None"
      by (auto simp: acl_entry_def split: list.split)
    with other show ?thesis
      by (simp add: Cons List.map_filter_simps Let_def)
  qed
qed (simp add: List.map_filter_simps)

lemma acl_authorize_iff:
  "acl_authorize_publish rules cid t = Ok () \<longleftrightarrow>
    (\<exists>r \<in> set rules. rule_client_id r = cid \<and> rule_topic_filter r = t
       \<and> rule_permission r \<noteq> PermSubscribe)"
  "acl_authorize_subscribe rules cid t = Ok () \<longleftrightarrow>
    (\<exists>r \<in> set rules. rule_client_id r = cid \<and> rule_topic_filter r = t
       \<and> rule_permission r \<noteq> PermPublish)"
proof -
  have "p \<noteq> PermSubscribe \<longleftrightarrow> p = PermPublish \<or> p = PermPublishSubscribe"
    "p \<noteq> PermPublish \<longleftrightarrow> p = PermSubscribe \<or> p = PermPublishSubscribe" for p
    by (cases p; simp)+
  then show "acl_authorize_publish rules cid t = Ok () \<longleftrightarrow>
      (\<exists>r \<in> set rules. rule_client_id r = cid \<and> rule_topic_filter r = t
         \<and> rule_permission r \<noteq> PermSubscribe)"
    "acl_authorize_subscribe rules cid t = Ok () \<longleftrightarrow>
      (\<exists>r \<in> set rules. rule_client_id r = cid \<and> rule_topic_filter r = t
         \<and> rule_permission r \<noteq> PermPublish)"
    by (induction rules) auto
qed

lemma acl_authorize_cases:
  "acl_authorize_publish rules cid t = Ok () \<or> acl_authorize_publish rules cid t = Err NotAuthorized"
  "acl_authorize_subscribe rules cid t = Ok ()
    \<or> acl_authorize_subscribe rules cid t = Err NotAuthorized"
  by (induction rules) auto

text \<open>A line that survives trimming and is not a comment.\<close>

definition plain_line :: "rstring \<Rightarrow> bool" where
  "plain_line l \<longleftrightarrow> l \<noteq> [] \<and> hd l \<notin> ws_starts \<and> last l \<notin> ws_ends \<and> hd l \<noteq> CHR ''#''
    \<and> newline \<notin> set l \<and> carriage_return \<notin> set l"

lemma plain_line_trim:
  assumes "plain_line l"
  shows "str_trim l = l" "\<not> skip_line l"
  using assms str_trim_id by (cases l; auto simp: plain_line_def skip_line_def starts_with_def)+

definition password_line :: "rstring \<times> rstring \<Rightarrow> rstring" where
  "password_line = (\<lambda>(u, p). u @ CHR '':'' # p)"

definition wf_password :: "rstring \<times> rstring \<Rightarrow> bool" where
  "wf_password e \<longleftrightarrow> plain_line (password_line e) \<and> CHR '':'' \<notin> set (fst e) \<and> wf_string (snd e)"

lemma password_entry_line: "wf_password e \<Longrightarrow> password_entry (password_line e) = Some e"
  by (cases e) (auto simp: wf_password_def password_entry_def plain_line_trim password_line_def
      split_once_append)

fun permission_word :: "Permission \<Rightarrow> rstring" where
  "permission_word PermPublish = ''pub''"
| "permission_word PermSubscribe = ''sub''"
| "permission_word PermPublishSubscribe = ''pubsub''"

definition acl_line :: "AclRule \<Rightarrow> rstring" where
  "acl_line r = rule_client_id r @ CHR '' '' # permission_word (rule_permission r)
    @ CHR '' '' # rule_topic_filter r"

definition wf_rule :: "AclRule \<Rightarrow> bool" where
  "wf_rule r \<longleftrightarrow> plain_line (acl_line r) \<and> CHR '' '' \<notin> set (rule_client_id r)"

lemma acl_entry_line: "wf_rule r \<Longrightarrow> acl_entry (acl_line r) = Some r"
proof -
  assume wf: "wf_rule r"
  have perm: "CHR '' '' \<notin> set (permission_word p)"
    "parse_permission (permission_word p) = Some p" for p
    by (cases p; simp add: parse_permission_def)+
  have "splitn 3 (CHR '' '') (acl_line r)
      = [rule_client_id r, permission_word (rule_permission r), rule_topic_filter r]"
    using wf perm(1) by (simp add: wf_rule_def acl_line_def numeral_3_eq_3 split_once_append)
  then show ?thesis
    using wf perm(2) by (simp add: acl_entry_def wf_rule_def plain_line_trim)
qed

lemma map_filter_lines:
  assumes "\<forall>e \<in> set es. plain_line (pr e) \<and> parse (pr e) = Some e"
  shows "List.map_filter parse (str_lines (unlines (map pr es))) = es"
proof -
  have "str_lines (unlines (map pr es)) = map pr es"
    using assms by (intro str_lines_unlines) (auto simp: plain_line_def)
  moreover have "List.map_filter parse (map pr es) = es"
    using assms by (induction es) (auto simp: List.map_filter_simps)
  ultimately show ?thesis
    by simp
qed

lemma password_check:
  "password_file_authenticate creds c = Ok () \<longleftrightarrow>
    (\<exists>u pw. cred_username c = Some u \<and> map_of creds u = Some pw \<and> wf_string pw
       \<and> cred_password c = Some (bytes_of pw))"
  "password_file_authenticate creds c = Ok ()
    \<or> password_file_authenticate creds c = Err InvalidCredentials"
proof -
  have "utf8_valid bs \<and> pw = str_of bs \<longleftrightarrow> bs = bytes_of pw \<and> wf_string pw" for pw bs
    by (metis bytes_of_str_of str_of_bytes_of)
  then show "password_file_authenticate creds c = Ok () \<longleftrightarrow>
      (\<exists>u pw. cred_username c = Some u \<and> map_of creds u = Some pw \<and> wf_string pw
         \<and> cred_password c = Some (bytes_of pw))"
    by (auto simp: password_file_authenticate_def Let_def split: option.splits)
  show "password_file_authenticate creds c = Ok ()
      \<or> password_file_authenticate creds c = Err InvalidCredentials"
    by (auto simp: password_file_authenticate_def Let_def split: option.splits)
qed

section \<open>Properties\<close>

text \<open>
  a password file written one entry per line is read back completely: the authenticator made
  from it accepts a client exactly if the last entry for its user name has the password it sent,
  and refuses everyone else with \<open>InvalidCredentials\<close>.
\<close>

theorem password_file_accepts:
  assumes "\<forall>e \<in> set es. wf_password e"
    and "auth_backend config = PasswordFile"
    and "read (auth_password_file config) = Ok (unlines (map password_line es))"
  shows "\<exists>a. auth_new read config = Ok a
    \<and> (\<forall>c. a c = (if \<exists>u pw. cred_username c = Some u \<and> map_of (rev es) u = Some pw
          \<and> cred_password c = Some (bytes_of pw)
        then Ok () else Err InvalidCredentials))"
proof -
  let ?creds = "parse_passwords (str_lines (unlines (map password_line es))) []"
  have "List.map_filter password_entry (str_lines (unlines (map password_line es))) = es"
    using assms(1) by (intro map_filter_lines) (auto simp: password_entry_line, simp add: wf_password_def)
  then have creds: "map_of ?creds u = map_of (rev es) u" for u
    by (simp add: parse_passwords_entries split: option.split)
  have "wf_string pw" if "map_of (rev es) u = Some pw" for u pw
    using assms(1) map_of_SomeD [OF that] by (auto simp: wf_password_def)
  then have "password_file_authenticate ?creds c = (if \<exists>u pw. cred_username c = Some u
        \<and> map_of (rev es) u = Some pw \<and> cred_password c = Some (bytes_of pw)
      then Ok () else Err InvalidCredentials)" for c
    using password_check [of ?creds c] unfolding creds by (metis (no_types, lifting))
  then show ?thesis
    using assms(2,3) by (simp add: auth_new_def password_file_new_def)
qed

text \<open>
  C37: an ACL file written one rule per line is read back completely, and the authorizer made from it
  grants exactly what a rule names: the client identifier and the topic (or filter) as the same
  string, with a permission that covers the operation; everything else is \<open>NotAuthorized\<close>.
  Wildcards in a rule's filter are not expanded.
\<close>

theorem acl_file_grants:
  assumes "\<forall>r \<in> set rules. wf_rule r"
    and "acl_backend config = AclFile"
    and "read (acl_acl_file config) = Ok (unlines (map acl_line rules))"
  shows "\<exists>a. auth_new_authorizer read config = Ok a
    \<and> (\<forall>cid t. authorize_publish a cid t =
        (if \<exists>r \<in> set rules. rule_client_id r = cid \<and> rule_topic_filter r = t
            \<and> rule_permission r \<in> {PermPublish, PermPublishSubscribe}
         then Ok () else Err NotAuthorized))
    \<and> (\<forall>cid f. authorize_subscribe a cid f =
        (if \<exists>r \<in> set rules. rule_client_id r = cid \<and> rule_topic_filter r = f
            \<and> rule_permission r \<in> {PermSubscribe, PermPublishSubscribe}
         then Ok () else Err NotAuthorized))"
proof -
  have parsed: "parse_rules (str_lines (unlines (map acl_line rules))) [] = rules"
    using assms(1) unfolding parse_rules_entries append_Nil
    by (intro map_filter_lines) (auto simp: acl_entry_line, simp add: wf_rule_def)
  have perm: "p \<noteq> PermSubscribe \<longleftrightarrow> p \<in> {PermPublish, PermPublishSubscribe}"
    "p \<noteq> PermPublish \<longleftrightarrow> p \<in> {PermSubscribe, PermPublishSubscribe}" for p
    by (cases p; simp)+
  have "auth_new_authorizer read config = Ok (acl_file_authorizer rules)"
    using assms(2,3) by (simp add: auth_new_authorizer_def acl_file_new_def parsed)
  then show ?thesis
    using acl_authorize_iff [of rules, unfolded perm] acl_authorize_cases [of rules]
    by (simp add: acl_file_authorizer_def) metis
qed

subsection \<open>Concrete files\<close>

definition example_reader :: "rstring \<Rightarrow> file_reader" where
  "example_reader contents path = Ok contents"

lemma char_eq_char_of: "c = char_of n \<longleftrightarrow> of_char c = (n mod 256 :: nat)"
  by (metis char_of_char of_char_of)

lemma example_password_wf: "wf_password (''admin'', ''secret'')"
  by (simp add: wf_password_def plain_line_def password_line_def ws_starts_def ws_ends_def
      ws_units_def newline_def carriage_return_def in_range_def char_eq_char_of)

lemma example_rule_wf:
  "wf_rule \<lparr>rule_client_id = ''sensor1'', rule_permission = PermPublish, rule_topic_filter = ''a/b''\<rparr>"
  by (simp add: wf_rule_def plain_line_def acl_line_def ws_starts_def ws_ends_def
      ws_units_def newline_def carriage_return_def char_eq_char_of)

theorem password_file_accepts_witness:
  "\<exists>a. auth_new (example_reader (unlines (map password_line [(''admin'', ''secret'')])))
      \<lparr>auth_backend = PasswordFile, auth_password_file = ''passwd''\<rparr> = Ok a
    \<and> a \<lparr>cred_username = Some ''admin'', cred_password = Some (bytes_of ''secret''),
          cred_client_id = ''c''\<rparr> = Ok ()"
proof -
  have "\<forall>e \<in> set [(''admin'', ''secret'')]. wf_password e"
    by (simp add: example_password_wf)
  from password_file_accepts [OF this, of "\<lparr>auth_backend = PasswordFile, auth_password_file = ''passwd''\<rparr>"
      "example_reader (unlines (map password_line [(''admin'', ''secret'')]))"]
  show ?thesis
    by (auto simp: example_reader_def)
qed

theorem acl_file_grants_witness:
  "\<exists>a. auth_new_authorizer (example_reader (unlines (map acl_line
        [\<lparr>rule_client_id = ''sensor1'', rule_permission = PermPublish, rule_topic_filter = ''a/b''\<rparr>])))
      \<lparr>acl_backend = AclFile, acl_acl_file = ''acl.conf''\<rparr> = Ok a
    \<and> authorize_publish a ''sensor1'' ''a/b'' = Ok ()
    \<and> authorize_subscribe a ''sensor1'' ''a/b'' = Err NotAuthorized"
proof -
  have "\<forall>r \<in> set [\<lparr>rule_client_id = ''sensor1'', rule_permission = PermPublish,
      rule_topic_filter = ''a/b''\<rparr>]. wf_rule r"
    by (simp add: example_rule_wf)
  from acl_file_grants [OF this, of "\<lparr>acl_backend = AclFile, acl_acl_file = ''acl.conf''\<rparr>"
      "example_reader (unlines (map acl_line
        [\<lparr>rule_client_id = ''sensor1'', rule_permission = PermPublish, rule_topic_filter = ''a/b''\<rparr>]))"]
  show ?thesis
    by (auto simp: example_reader_def)
qed

end
