(* ===== verification/Topic.thy ===== *)
theory Topic
  imports Rust_Str
begin

text \<open>
  Topic names and topic filters: the validation and matching functions of
  \<^verbatim>\<open>src/router.rs\<close>, with the declarative meaning of a filter.
\<close>

section \<open>The functions of the source\<close>

definition validate_publish_topic :: "rstring \<Rightarrow> bool" where
  "validate_publish_topic topic =
    (if topic = [] then False
     else if str_contains (CHR 0x00) topic then False
     else True)"

definition has_wildcards :: "rstring \<Rightarrow> bool" where
  "has_wildcards filt \<longleftrightarrow> str_contains (CHR ''+'') filt \<or> str_contains (CHR ''#'') filt"

text \<open>The loop of \<open>validate_subscribe_filter\<close> over the enumerated levels.\<close>

fun validate_levels :: "nat \<Rightarrow> nat \<Rightarrow> rstring list \<Rightarrow> bool" where
  "validate_levels n i [] = True"
| "validate_levels n i (level # levels) =
    (if str_contains (CHR ''#'') level \<and> (level \<noteq> ''#'' \<or> i \<noteq> n - 1) then False
     else if str_contains (CHR ''+'') level \<and> level \<noteq> ''+'' then False
     else validate_levels n (i + 1) levels)"

definition validate_subscribe_filter :: "rstring \<Rightarrow> bool" where
  "validate_subscribe_filter filt =
    (if filt = [] then False
     else if str_contains (CHR 0x00) filt then False
     else let levels = split_on (CHR ''/'') filt
          in validate_levels (length levels) 0 levels)"

function match_parts :: "rstring list \<Rightarrow> rstring list \<Rightarrow> nat \<Rightarrow> nat \<Rightarrow> bool" where
  "match_parts topic_parts filter_parts topic_idx filter_idx =
    (if filter_idx \<ge> length filter_parts then topic_idx \<ge> length topic_parts
     else if topic_idx \<ge> length topic_parts then
       filter_idx = length filter_parts - 1 \<and> filter_parts ! filter_idx = ''#''
     else
       if filter_parts ! filter_idx = ''#'' then filter_idx = length filter_parts - 1
       else if filter_parts ! filter_idx = ''+'' then
         (if topic_parts ! topic_idx = [] then False
          else match_parts topic_parts filter_parts (topic_idx + 1) (filter_idx + 1))
       else
         (if topic_parts ! topic_idx = filter_parts ! filter_idx
          then match_parts topic_parts filter_parts (topic_idx + 1) (filter_idx + 1)
          else False))"
  by pat_completeness auto
termination
  by (relation "measure (\<lambda>(ts, fs, i, j). length fs - j)") auto

declare match_parts.simps [simp del]

definition topic_matches :: "rstring \<Rightarrow> rstring \<Rightarrow> bool" where
  "topic_matches topic filt =
    (if topic = filt then True
     else match_parts (split_on (CHR ''/'') topic) (split_on (CHR ''/'') filt) 0 0)"

section \<open>Matching, declaratively\<close>

text \<open>
  \<open>level_ok\<close>: what one level of a filter accepts.  \<open>filter_accepts\<close>: without a final \<open>#\<close> the
  levels correspond one to one; with it the levels before it match a prefix of the topic.
\<close>

definition level_ok :: "rstring \<Rightarrow> rstring \<Rightarrow> bool" where
  "level_ok t f \<longleftrightarrow> (if f = ''+'' then t \<noteq> [] else t = f)"

definition filter_accepts :: "rstring list \<Rightarrow> rstring list \<Rightarrow> bool" where
  "filter_accepts fs ts \<longleftrightarrow>
    (if fs \<noteq> [] \<and> last fs = ''#''
     then length fs \<le> Suc (length ts) \<and> (\<forall>i < length fs - 1. level_ok (ts ! i) (fs ! i))
     else length fs = length ts \<and> (\<forall>i < length fs. level_ok (ts ! i) (fs ! i)))"

definition hash_only_last :: "rstring list \<Rightarrow> bool" where
  "hash_only_last fs \<longleftrightarrow> (\<forall>i < length fs. fs ! i = ''#'' \<longrightarrow> i = length fs - 1)"

fun levels_match :: "rstring list \<Rightarrow> rstring list \<Rightarrow> bool" where
  "levels_match ts [] = (ts = [])"
| "levels_match [] (f # fs) = (f = ''#'' \<and> fs = [])"
| "levels_match (t # ts) (f # fs) =
    (if f = ''#'' then fs = [] else level_ok t f \<and> levels_match ts fs)"

lemma match_parts_levels:
  "match_parts ts fs i j = levels_match (drop i ts) (drop j fs)"
proof (induction ts fs i j rule: match_parts.induct)
  case (1 ts fs i j)
  have drops: "drop i ts = ts ! i # drop (Suc i) ts" if "i < length ts"
    using that by (simp add: Cons_nth_drop_Suc)
  have dropsf: "drop j fs = fs ! j # drop (Suc j) fs" if "j < length fs"
    using that by (simp add: Cons_nth_drop_Suc)
  consider "length fs \<le> j" | "j < length fs" "length ts \<le> i" | "j < length fs" "i < length ts"
    by linarith
  then show ?case
  proof cases
    case 3
    then show ?thesis
      using 1 by (subst match_parts.simps) (auto simp: drops dropsf level_ok_def)
  qed (simp_all add: match_parts.simps dropsf, auto)
qed

lemma hash_only_last_Cons:
  "hash_only_last (f # fs) \<longleftrightarrow> (f = ''#'' \<longrightarrow> fs = []) \<and> hash_only_last fs"
proof -
  have "hash_only_last fs"
    if h: "hash_only_last (f # fs)"
    unfolding hash_only_last_def
  proof (intro allI impI)
    fix i
    assume "i < length fs" "fs ! i = ''#''"
    then show "i = length fs - 1"
      using h [unfolded hash_only_last_def, rule_format, of "Suc i"] by auto
  qed
  then show ?thesis
    by (auto simp: hash_only_last_def nth_Cons split: nat.splits)
qed

lemma levels_match_accepts:
  "hash_only_last fs \<Longrightarrow> levels_match ts fs \<longleftrightarrow> filter_accepts fs ts"
proof (induction ts fs rule: levels_match.induct)
  case (1 ts)
  then show ?case by (simp add: filter_accepts_def)
next
  case (2 f fs)
  then show ?case by (cases fs) (auto simp: filter_accepts_def)
next
  case (3 t ts f fs)
  show ?case
  proof (cases "f = ''#''")
    case True
    then show ?thesis
      using 3 by (auto simp: hash_only_last_Cons filter_accepts_def)
  next
    case False
    have split0: "(\<forall>i < n. level_ok ((t # ts) ! i) ((f # fs) ! i))
        \<longleftrightarrow> n = 0 \<or> level_ok t f \<and> (\<forall>i < n - 1. level_ok (ts ! i) (fs ! i))" for n
      by (cases n) (auto simp: All_less_Suc2)
    have "filter_accepts (f # fs) (t # ts) \<longleftrightarrow> level_ok t f \<and> filter_accepts fs ts"
      unfolding filter_accepts_def split0 using False by (cases fs) (auto simp: split0)
    then show ?thesis
      using 3 False by (simp add: hash_only_last_Cons)
  qed
qed

section \<open>Validation, level by level and character by character\<close>

fun levels_ok :: "rstring list \<Rightarrow> bool" where
  "levels_ok [] = True"
| "levels_ok (f # fs) \<longleftrightarrow>
    (CHR ''#'' \<in> set f \<longrightarrow> f = ''#'' \<and> fs = [])
    \<and> (CHR ''+'' \<in> set f \<longrightarrow> f = ''+'') \<and> levels_ok fs"

lemma validate_levels_ok: "n = i + length fs \<Longrightarrow> validate_levels n i fs = levels_ok fs"
  by (induction n i fs rule: validate_levels.induct) (auto simp: str_contains_def)

lemma validate_filter_levels:
  "validate_subscribe_filter f \<longleftrightarrow>
    f \<noteq> [] \<and> CHR 0x00 \<notin> set f \<and> levels_ok (split_on (CHR ''/'') f)"
  by (simp add: validate_subscribe_filter_def Let_def validate_levels_ok str_contains_def)

text \<open>A scan over the characters; the flag says that a level starts here.\<close>

fun wildcards_ok :: "bool \<Rightarrow> rstring \<Rightarrow> bool" where
  "wildcards_ok start [] = True"
| "wildcards_ok start (c # cs) =
    (if c = CHR ''#'' then start \<and> cs = []
     else if c = CHR ''+'' then
       start \<and> (cs = [] \<or> hd cs = CHR ''/'') \<and> wildcards_ok False cs
     else wildcards_ok (c = CHR ''/'') cs)"

definition wildcard_placement :: "bool \<Rightarrow> rstring \<Rightarrow> bool" where
  "wildcard_placement start s \<longleftrightarrow>
    (\<forall>k < length s.
      (s ! k = CHR ''#'' \<or> s ! k = CHR ''+'' \<longrightarrow>
        (if k = 0 then start else s ! (k - 1) = CHR ''/''))
      \<and> (s ! k = CHR ''#'' \<longrightarrow> Suc k = length s)
      \<and> (s ! k = CHR ''+'' \<longrightarrow> Suc k = length s \<or> s ! Suc k = CHR ''/''))"

lemma wildcard_placement_Cons:
  "wildcard_placement start (c # cs) \<longleftrightarrow>
    (c = CHR ''#'' \<or> c = CHR ''+'' \<longrightarrow> start)
    \<and> (c = CHR ''#'' \<longrightarrow> cs = [])
    \<and> (c = CHR ''+'' \<longrightarrow> cs = [] \<or> hd cs = CHR ''/'')
    \<and> wildcard_placement (c = CHR ''/'') cs"
proof -
  have prev: "(c # cs) ! k = (if k = 0 then c else cs ! (k - 1))" for k
    by (cases k) auto
  have hd: "cs = [] \<or> hd cs = CHR ''/'' \<longleftrightarrow> 0 = length cs \<or> cs ! 0 = CHR ''/''"
    by (cases cs) auto
  show ?thesis
    unfolding wildcard_placement_def hd
    by (simp add: All_less_Suc2 prev cong: if_cong)
qed

lemma wildcards_ok_placement: "wildcards_ok start s = wildcard_placement start s"
proof (induction start s rule: wildcards_ok.induct)
  case (1 start)
  then show ?case by (simp add: wildcard_placement_def)
next
  case (2 start c cs)
  show ?case
    unfolding wildcard_placement_Cons using 2
    by (auto simp: wildcard_placement_def)
qed

lemma wildcards_ok_levels:
  assumes "split_on (CHR ''/'') s = p # ps"
  shows "(wildcards_ok True s \<longleftrightarrow> levels_ok (p # ps))
    \<and> (wildcards_ok False s \<longleftrightarrow>
      CHR ''#'' \<notin> set p \<and> CHR ''+'' \<notin> set p \<and> levels_ok ps)"
  using assms
proof (induction s arbitrary: p ps)
  case (Cons c cs)
  obtain q qs where cs: "split_on (CHR ''/'') cs = q # qs"
    by (meson neq_Nil_conv split_on_neq_Nil)
  note IH = Cons.IH [OF cs]
  have empty: "q = [] \<longleftrightarrow> cs = [] \<or> hd cs = CHR ''/''" "q = [] \<and> qs = [] \<longleftrightarrow> cs = []"
    using cs by (cases cs; force split: list.splits if_splits)+
  consider "c = CHR ''/''" "p = []" "ps = q # qs"
    | "c = CHR ''#''" "p = c # q" "ps = qs"
    | "c = CHR ''+''" "p = c # q" "ps = qs"
    | "c \<noteq> CHR ''/''" "c \<noteq> CHR ''#''" "c \<noteq> CHR ''+''" "p = c # q" "ps = qs"
    using Cons.prems cs by (cases "c = CHR ''/''") auto
  then show ?case
    by cases (use IH empty in auto)
qed auto

lemma hash_only_last_levels_ok: "levels_ok fs \<Longrightarrow> hash_only_last fs"
proof (induction fs)
  case (Cons f fs)
  have "f = ''#'' \<longrightarrow> CHR ''#'' \<in> set f"
    by simp
  with Cons show ?case
    unfolding hash_only_last_Cons levels_ok.simps by blast
qed (simp add: hash_only_last_def)

lemma levels_match_self: "levels_ok fs \<Longrightarrow> levels_match fs fs"
proof (induction fs)
  case (Cons f fs)
  have "f = ''#'' \<longrightarrow> CHR ''#'' \<in> set f"
    by simp
  with Cons have "f = ''#'' \<longrightarrow> fs = []" "levels_match fs fs"
    unfolding levels_ok.simps by blast+
  then show ?case
    by (simp add: level_ok_def)
qed simp

lemma topic_matches_levels:
  assumes "validate_subscribe_filter f"
  shows "topic_matches t f \<longleftrightarrow>
    filter_accepts (split_on (CHR ''/'') f) (split_on (CHR ''/'') t)"
proof -
  have ok: "levels_ok (split_on (CHR ''/'') f)"
    using assms by (simp add: validate_filter_levels)
  show ?thesis
    using levels_match_self [OF ok]
    by (simp add: topic_matches_def match_parts_levels
        levels_match_accepts [OF hash_only_last_levels_ok [OF ok], symmetric])
qed

lemma filter_accepts_literal:
  assumes "\<forall>f \<in> set fs. f \<noteq> ''#'' \<and> f \<noteq> ''+''"
  shows "filter_accepts fs ts \<longleftrightarrow> ts = fs"
proof -
  have "level_ok (ts ! i) (fs ! i) \<longleftrightarrow> ts ! i = fs ! i" if "i < length fs" for i
    using assms that by (simp add: level_ok_def)
  moreover have "fs \<noteq> [] \<Longrightarrow> last fs \<noteq> ''#''"
    using assms by simp
  ultimately show ?thesis
    unfolding filter_accepts_def list_eq_iff_nth_eq [of ts fs] by (simp cong: conj_cong) metis
qed

lemma topic_matches_no_wildcards:
  assumes "\<not> has_wildcards f" "validate_subscribe_filter f"
  shows "topic_matches t f \<longleftrightarrow> t = f"
proof -
  have "p \<noteq> ''#'' \<and> p \<noteq> ''+''" if "p \<in> set (split_on (CHR ''/'') f)" for p
  proof -
    have "CHR ''#'' \<notin> set p" "CHR ''+'' \<notin> set p"
      using assms(1) that set_split_on [of "CHR ''#''" "CHR ''/''" f]
        set_split_on [of "CHR ''+''" "CHR ''/''" f]
      by (simp_all add: has_wildcards_def str_contains_def)
    then show ?thesis
      by (metis list.set_intros(1))
  qed
  then show ?thesis
    by (simp add: topic_matches_levels [OF assms(2)] filter_accepts_literal split_on_inj)
qed

section \<open>Properties\<close>

text \<open>
  C36: \<open>validate_subscribe_filter\<close> accepts exactly the filters MQTT 3.1.1 (section 4.7.1) allows: not
  empty, no null character, every \<open>#\<close> the last character and every \<open>+\<close> followed by a level
  separator or the end, both preceded by a separator or the beginning of the filter.
\<close>

theorem validate_subscribe_filter_mqtt:
  "validate_subscribe_filter f \<longleftrightarrow>
    f \<noteq> [] \<and> CHR 0x00 \<notin> set f \<and> wildcard_placement True f"
proof -
  obtain p ps where "split_on (CHR ''/'') f = p # ps"
    by (meson neq_Nil_conv split_on_neq_Nil)
  then show ?thesis
    using wildcards_ok_levels
    by (simp add: validate_filter_levels wildcards_ok_placement [symmetric])
qed

text \<open>
  C35: on a valid filter \<open>topic_matches\<close> decides the declarative matching of levels: one to one without a
  final \<open>#\<close>, on a prefix of the topic with it, so that \<open>a/#\<close> also matches \<open>a\<close>; a \<open>+\<close> accepts one
  level that is not empty.  In particular the early return on equal strings and the
  index-based recursion agree.
\<close>

theorem topic_matches_accepts:
  assumes "validate_subscribe_filter f"
  shows "topic_matches t f \<longleftrightarrow>
    filter_accepts (split_on (CHR ''/'') f) (split_on (CHR ''/'') t)"
  using assms by (rule topic_matches_levels)

theorem topic_matches_accepts_witness:
  "validate_subscribe_filter ''a/+/#''
    \<and> (topic_matches ''a/b'' ''a/+/#''
       \<longleftrightarrow> filter_accepts (split_on (CHR ''/'') ''a/+/#'') (split_on (CHR ''/'') ''a/b''))"
proof -
  have "validate_subscribe_filter ''a/+/#''"
    by (simp add: validate_subscribe_filter_def str_contains_def)
  then show ?thesis
    using topic_matches_accepts [of "''a/+/#''" "''a/b''"] by blast
qed

end
