(* ===== verification/Channel.thy ===== *)
theory Channel
  imports Iotd_Prelude
begin

text \<open>
  Tokio's bounded \<open>mpsc\<close> channels, a parameter of the model: a channel is known by a number, and
  \<open>'q\<close> is the state of all channels that carry messages of type \<open>'m\<close>.  A \<open>send\<close> on a full
  channel is \<open>Pending\<close>; once the receiver is gone it returns the message as an error.
\<close>

type_synonym channel = nat

record ('m, 'q) chan_ops =
  ch_send :: "channel \<Rightarrow> 'm \<Rightarrow> 'q \<Rightarrow> (unit, 'm) outcome \<times> 'q"
  ch_recv :: "channel \<Rightarrow> 'q \<Rightarrow> ('m option, unit) outcome \<times> 'q"

text \<open>
  The documented behaviour over the queued messages, the capacity, and whether the receiver
  still exists.
\<close>

locale mpsc =
  fixes C :: "('m, 'q) chan_ops"
    and queue :: "'q \<Rightarrow> channel \<Rightarrow> 'm list"
    and open_rx :: "'q \<Rightarrow> channel \<Rightarrow> bool"
    and cap :: "channel \<Rightarrow> nat"
  assumes send_room: "open_rx q c \<Longrightarrow> length (queue q c) < cap c \<Longrightarrow>
      fst (ch_send C c m q) = Ok ()
      \<and> queue (snd (ch_send C c m q)) = (queue q)(c := queue q c @ [m])
      \<and> open_rx (snd (ch_send C c m q)) = open_rx q"
    and send_full: "open_rx q c \<Longrightarrow> cap c \<le> length (queue q c) \<Longrightarrow>
      fst (ch_send C c m q) = Pending \<and> queue (snd (ch_send C c m q)) = queue q
      \<and> open_rx (snd (ch_send C c m q)) = open_rx q"
    and send_closed: "\<not> open_rx q c \<Longrightarrow>
      fst (ch_send C c m q) = Err m \<and> queue (snd (ch_send C c m q)) = queue q
      \<and> open_rx (snd (ch_send C c m q)) = open_rx q"
    and recv_ready: "queue q c = m # ms \<Longrightarrow>
      fst (ch_recv C c q) = Ok (Some m)
      \<and> queue (snd (ch_recv C c q)) = (queue q)(c := ms)
      \<and> open_rx (snd (ch_recv C c q)) = open_rx q"
    and recv_wait: "queue q c = [] \<Longrightarrow> fst (ch_recv C c q) = Pending
      \<and> queue (snd (ch_recv C c q)) = queue q
      \<and> open_rx (snd (ch_recv C c q)) = open_rx q"
begin

lemma send_cases:
  obtains (sent) "open_rx q c" "length (queue q c) < cap c" "fst (ch_send C c m q) = Ok ()"
      "queue (snd (ch_send C c m q)) = (queue q)(c := queue q c @ [m])"
      "open_rx (snd (ch_send C c m q)) = open_rx q"
    | (blocked) "open_rx q c" "cap c \<le> length (queue q c)" "fst (ch_send C c m q) = Pending"
      "queue (snd (ch_send C c m q)) = queue q" "open_rx (snd (ch_send C c m q)) = open_rx q"
    | (closed) "\<not> open_rx q c" "fst (ch_send C c m q) = Err m"
      "queue (snd (ch_send C c m q)) = queue q" "open_rx (snd (ch_send C c m q)) = open_rx q"
  using send_room [of q c m] send_full [of q c m] send_closed [of q c m]
  by (meson linorder_not_less)

end

text \<open>
  An instance: all channels of the same capacity, each open one a list of queued messages.
\<close>

definition bounded_chan :: "nat \<Rightarrow> ('m, channel \<Rightarrow> 'm list option) chan_ops" where
  "bounded_chan n =
    \<lparr>ch_send = (\<lambda>c m q. case q c of
        None \<Rightarrow> (Err m, q)
      | Some ms \<Rightarrow> if length ms < n then (Ok (), q(c \<mapsto> ms @ [m])) else (Pending, q)),
     ch_recv = (\<lambda>c q. case q c of
        Some (m # ms) \<Rightarrow> (Ok (Some m), q(c \<mapsto> ms))
      | _ \<Rightarrow> (Pending, q))\<rparr>"

definition chan_queue :: "(channel \<Rightarrow> 'm list option) \<Rightarrow> channel \<Rightarrow> 'm list" where
  "chan_queue q c = (case q c of None \<Rightarrow> [] | Some ms \<Rightarrow> ms)"

interpretation bounded: mpsc "bounded_chan n" chan_queue "\<lambda>q c. q c \<noteq> None" "\<lambda>_. n"
  by unfold_locales
    (auto simp: bounded_chan_def chan_queue_def fun_eq_iff split: option.splits list.splits)

end
