(* ===== verification/Router.thy ===== *)
theory Router
  imports Topic Storage Channel
begin

text \<open>
  The router, \<^verbatim>\<open>src/router.rs\<close>: the subscription index in its two directions, the retained
  messages kept in the storage, and the delivery of a PUBLISH to the mailboxes of the matching
  subscriptions.  The storage is shared with the rest of the broker, so its state is an argument
  of the operations that use it.  Every operation holds the router's lock, a write lock where it
  changes the index; here it is one step, and \<open>Broker_Locks\<close> takes it apart at its awaits.
\<close>

section \<open>State and operations\<close>

type_synonym Mailbox = channel

record Router =
  r_filters :: "(rstring, (rstring, Mailbox \<times> QoS) hash_map) hash_map"
  r_sessions :: "(rstring, rstring list) hash_map"
  r_retained_message_limit :: nat

definition Router_new :: "nat \<Rightarrow> Router" where
  "Router_new retained_message_limit =
    \<lparr>r_filters = [], r_sessions = [], r_retained_message_limit = retained_message_limit\<rparr>"

definition MAX_SUPPORTED_QOS :: u8 where
  "MAX_SUPPORTED_QOS = 2"

definition min_qos :: "QoS \<Rightarrow> QoS \<Rightarrow> QoS" where
  "min_qos a b =
    (let min_val = min (qos_u8 a) (qos_u8 b);
         capped = min min_val MAX_SUPPORTED_QOS
     in if capped = 0 then AtMostOnce
        else if capped = 1 then AtLeastOnce
        else if capped = 2 then ExactlyOnce
        else ExactlyOnce)"

definition or_default :: "'v list option \<Rightarrow> 'v list" where
  "or_default x = (case x of None \<Rightarrow> [] | Some v \<Rightarrow> v)"

subsection \<open>Retained messages for a new subscription\<close>

definition add_retained_packet ::
  "PersistedRetainedMessage \<Rightarrow> QoS \<Rightarrow> PublishPacket list \<Rightarrow> PublishPacket list" where
  "add_retained_packet retained subscription_qos retained_to_send =
    (let retained_qos = qos_from_stored_qos (pr_qos retained);
         effective_qos = min_qos retained_qos subscription_qos
     in retained_to_send @
        [\<lparr>pp_topic = pr_topic retained,
          pp_packet_id = None,
          pp_payload = pr_payload retained,
          pp_qos = effective_qos,
          pp_retain = True,
          pp_dup = False\<rparr>])"

fun add_matching_retained ::
  "rstring \<Rightarrow> QoS \<Rightarrow> PersistedRetainedMessage list \<Rightarrow> PublishPacket list \<Rightarrow> PublishPacket list" where
  "add_matching_retained filt subscription_qos [] retained_to_send = retained_to_send"
| "add_matching_retained filt subscription_qos (retained # messages) retained_to_send =
    add_matching_retained filt subscription_qos messages
      (if topic_matches (pr_topic retained) filt
       then add_retained_packet retained subscription_qos retained_to_send
       else retained_to_send)"

definition find_retained_for_filter ::
  "'st storage_ops \<Rightarrow> 'st \<Rightarrow> rstring \<Rightarrow> QoS
    \<Rightarrow> PublishPacket list \<times> PersistedRetainedMessage list option
    \<Rightarrow> PublishPacket list \<times> PersistedRetainedMessage list option" where
  "find_retained_for_filter S st filt subscription_qos =
    (\<lambda>(retained_to_send, all_retained).
      if has_wildcards filt then
        let all_retained =
          (case all_retained of
             None \<Rightarrow> (case load_all_retained_messages S st of
                 Inr msgs \<Rightarrow> Some msgs
               | Inl e \<Rightarrow> Some [])
           | Some msgs \<Rightarrow> Some msgs)
        in (case all_retained of
              Some messages \<Rightarrow>
                (add_matching_retained filt subscription_qos messages retained_to_send, all_retained)
            | None \<Rightarrow> (retained_to_send, all_retained))
      else
        (case load_retained_message S filt st of
           Inr (Some retained) \<Rightarrow>
             (add_retained_packet retained subscription_qos retained_to_send, all_retained)
         | Inr None \<Rightarrow> (retained_to_send, all_retained)
         | Inl e \<Rightarrow> (retained_to_send, all_retained)))"

subsection \<open>Subscriptions\<close>

text \<open>The two inserts of \<open>subscribe\<close> for one valid filter.\<close>

definition insert_subscription :: "rstring \<Rightarrow> Mailbox \<Rightarrow> rstring \<Rightarrow> QoS \<Rightarrow> Router \<Rightarrow> Router" where
  "insert_subscription session_id sender filt qos r =
    r\<lparr>r_filters := AList.update filt
        (AList.update session_id (sender, qos) (or_default (map_of (r_filters r) filt)))
        (r_filters r),
      r_sessions := AList.update session_id
        (List.insert filt (or_default (map_of (r_sessions r) session_id)))
        (r_sessions r)\<rparr>"

fun subscribe_loop ::
  "'st storage_ops \<Rightarrow> 'st \<Rightarrow> rstring \<Rightarrow> Mailbox \<Rightarrow> (rstring \<times> QoS) list \<Rightarrow> u8 list
    \<Rightarrow> PublishPacket list \<times> PersistedRetainedMessage list option \<Rightarrow> Router
    \<Rightarrow> (u8 list \<times> PublishPacket list) \<times> Router" where
  "subscribe_loop S st session_id sender [] return_codes found r = ((return_codes, fst found), r)"
| "subscribe_loop S st session_id sender ((filt, qos) # topic_filters) return_codes found r =
    (if \<not> validate_subscribe_filter filt then
       subscribe_loop S st session_id sender topic_filters (return_codes @ [FAILURE]) found r
     else
       let r = insert_subscription session_id sender filt qos r;
           granted_qos = min (qos_u8 qos) MAX_SUPPORTED_QOS
       in subscribe_loop S st session_id sender topic_filters (return_codes @ [granted_qos])
            (find_retained_for_filter S st filt qos found) r)"

definition Router_subscribe ::
  "'st storage_ops \<Rightarrow> 'st \<Rightarrow> rstring \<Rightarrow> Mailbox \<Rightarrow> (rstring \<times> QoS) list \<Rightarrow> Router
    \<Rightarrow> (u8 list \<times> PublishPacket list) \<times> Router" where
  "Router_subscribe S st session_id sender topic_filters r =
    subscribe_loop S st session_id sender topic_filters [] ([], None) r"

definition remove_from_filter :: "rstring \<Rightarrow> rstring \<Rightarrow> Router \<Rightarrow> Router" where
  "remove_from_filter session_id filt r =
    (case map_of (r_filters r) filt of
       Some record \<Rightarrow>
         r\<lparr>r_filters := AList.update filt (AList.delete session_id record) (r_filters r)\<rparr>
     | None \<Rightarrow> r)"

definition remove_from_session :: "rstring \<Rightarrow> rstring \<Rightarrow> Router \<Rightarrow> Router" where
  "remove_from_session session_id filt r =
    (case map_of (r_sessions r) session_id of
       Some record \<Rightarrow>
         r\<lparr>r_sessions := AList.update session_id (removeAll filt record) (r_sessions r)\<rparr>
     | None \<Rightarrow> r)"

fun Router_unsubscribe :: "rstring \<Rightarrow> rstring list \<Rightarrow> Router \<Rightarrow> Router" where
  "Router_unsubscribe session_id [] r = r"
| "Router_unsubscribe session_id (filt # topic_filters) r =
    Router_unsubscribe session_id topic_filters
      (remove_from_session session_id filt (remove_from_filter session_id filt r))"

definition Router_unsubscribe_all :: "rstring \<Rightarrow> Router \<Rightarrow> Router" where
  "Router_unsubscribe_all session_id r =
    (case map_of (r_sessions r) session_id of
       Some filters \<Rightarrow>
         fold (remove_from_filter session_id) filters
           (r\<lparr>r_sessions := AList.delete session_id (r_sessions r)\<rparr>)
     | None \<Rightarrow> r)"

definition subscription_of :: "Router \<Rightarrow> rstring \<Rightarrow> rstring \<Rightarrow> (Mailbox \<times> QoS) option" where
  "subscription_of r session_id filt =
    (case map_of (r_filters r) filt of
       Some sessions \<Rightarrow> map_of sessions session_id
     | None \<Rightarrow> None)"

definition Router_get_subscriptions :: "rstring \<Rightarrow> Router \<Rightarrow> (rstring \<times> QoS) list" where
  "Router_get_subscriptions session_id r =
    (case map_of (r_sessions r) session_id of
       Some filters \<Rightarrow>
         concat (map (\<lambda>filt. case subscription_of r session_id filt of
             Some (_, qos) \<Rightarrow> [(filt, qos)]
           | None \<Rightarrow> []) filters)
     | None \<Rightarrow> [])"

subsection \<open>Routing\<close>

definition handle_retained_message ::
  "'st storage_ops \<Rightarrow> nat \<Rightarrow> datetime \<Rightarrow> PublishPacket \<Rightarrow> 'st \<Rightarrow> 'st" where
  "handle_retained_message S limit now packet st =
    (if pp_payload packet = [] then
       snd (delete_retained_message S (pp_topic packet) st)
     else
       let existing = load_retained_message S (pp_topic packet) st;
           count = (case count_retained_messages S st of Inr n \<Rightarrow> n | Inl e \<Rightarrow> 0);
           is_new = (case existing of Inr None \<Rightarrow> True | _ \<Rightarrow> False)
       in if is_new \<and> count \<ge> limit then st
          else
            let retained =
              \<lparr>pr_topic = pp_topic packet,
               pr_payload = pp_payload packet,
               pr_qos = stored_qos_from_qos (pp_qos packet),
               pr_updated_at = now\<rparr>
            in snd (save_retained_message S retained st))"

definition forward_packet :: "PublishPacket \<Rightarrow> QoS \<Rightarrow> PublishPacket" where
  "forward_packet packet subscription_qos =
    \<lparr>pp_topic = pp_topic packet,
     pp_packet_id = None,
     pp_payload = pp_payload packet,
     pp_qos = min_qos (pp_qos packet) subscription_qos,
     pp_retain = False,
     pp_dup = False\<rparr>"

fun ignore_err :: "(unit, 'e) outcome \<Rightarrow> (unit, unit) outcome" where
  "ignore_err (Ok x) = Ok x"
| "ignore_err (Err e) = Ok ()"
| "ignore_err Panic = Panic"
| "ignore_err Pending = Pending"

fun route_sessions :: "(Packet, 'q) chan_ops \<Rightarrow> PublishPacket
    \<Rightarrow> (rstring, Mailbox \<times> QoS) hash_map \<Rightarrow> 'q \<Rightarrow> (unit, unit) outcome \<times> 'q" where
  "route_sessions C packet [] q = (Ok (), q)"
| "route_sessions C packet ((session_id, (sender, subscription_qos)) # sessions) q =
    qmark (map_prod ignore_err id
        (ch_send C sender (Publish (forward_packet packet subscription_qos)) q))
      (\<lambda>_ q. route_sessions C packet sessions q)"

fun route_filters :: "(Packet, 'q) chan_ops \<Rightarrow> PublishPacket
    \<Rightarrow> (rstring, (rstring, Mailbox \<times> QoS) hash_map) hash_map \<Rightarrow> 'q
    \<Rightarrow> (unit, unit) outcome \<times> 'q" where
  "route_filters C packet [] q = (Ok (), q)"
| "route_filters C packet ((filt, sessions) # filters) q =
    (if topic_matches (pp_topic packet) filt then
       qmark (route_sessions C packet sessions q) (\<lambda>_ q. route_filters C packet filters q)
     else route_filters C packet filters q)"

definition Router_route :: "'st storage_ops \<Rightarrow> (Packet, 'q) chan_ops \<Rightarrow> datetime \<Rightarrow> Router
    \<Rightarrow> PublishPacket \<Rightarrow> 'st \<times> 'q \<Rightarrow> (unit, unit) outcome \<times> ('st \<times> 'q)" where
  "Router_route S C now r packet = (\<lambda>(st, q).
    if \<not> validate_publish_topic (pp_topic packet) then (Ok (), (st, q))
    else
      let st = (if pp_retain packet
                then handle_retained_message S (r_retained_message_limit r) now packet st
                else st);
          (res, q) = route_filters C packet (r_filters r) q
      in (res, (st, q)))"

end
