(* ===== verification/Routing.thy ===== *)
theory Routing
  imports Router Memory_Storage
begin

text \<open>
  Correctness of the router of \<open>Router\<close>: the two-way index refines one table of subscriptions
  (the locale \<open>subscription_index\<close> states that contract for the broker and the sessions), a
  PUBLISH reaches each matching subscription once, and the retained messages a subscriber gets
  are those whose topic matches.
\<close>

section \<open>The subscription index\<close>

definition session_filters :: "Router \<Rightarrow> rstring \<Rightarrow> rstring list" where
  "session_filters r session_id = or_default (map_of (r_sessions r) session_id)"

definition router_inv :: "Router \<Rightarrow> bool" where
  "router_inv r \<longleftrightarrow>
    distinct (map fst (r_filters r)) \<and> distinct (map fst (r_sessions r))
    \<and> (\<forall>f ss. map_of (r_filters r) f = Some ss \<longrightarrow> distinct (map fst ss))
    \<and> (\<forall>s. distinct (session_filters r s))
    \<and> (\<forall>s f. f \<in> set (session_filters r s) \<longleftrightarrow> subscription_of r s f \<noteq> None)
    \<and> (\<forall>s f. f \<in> set (session_filters r s) \<longrightarrow> validate_subscribe_filter f)"

lemma or_default_simps [simp]: "or_default None = []" "or_default (Some v) = v"
  by (simp_all add: or_default_def)

lemma subscription_of_insert:
  "subscription_of (insert_subscription s m f q r) =
    (\<lambda>s' f'. if s' = s \<and> f' = f then Some (m, q) else subscription_of r s' f')"
  by (auto simp: subscription_of_def insert_subscription_def map_of_update fun_eq_iff
      split: option.split)

lemma session_filters_insert:
  "session_filters (insert_subscription s m f q r) =
    (session_filters r)(s := List.insert f (session_filters r s))"
  by (auto simp: session_filters_def insert_subscription_def map_of_update fun_eq_iff)

lemma subscription_of_remove_from_filter:
  "subscription_of (remove_from_filter s f r) =
    (\<lambda>s' f'. if s' = s \<and> f' = f then None else subscription_of r s' f')"
  by (auto simp: subscription_of_def remove_from_filter_def map_of_update map_of_delete fun_eq_iff
      split: option.split)

lemma session_filters_remove_from_filter [simp]:
  "session_filters (remove_from_filter s f r) = session_filters r"
  by (auto simp: session_filters_def remove_from_filter_def split: option.split)

lemma subscription_of_remove_from_session [simp]:
  "subscription_of (remove_from_session s f r) = subscription_of r"
  by (auto simp: subscription_of_def remove_from_session_def fun_eq_iff split: option.split)

lemma session_filters_remove_from_session:
  "session_filters (remove_from_session s f r) =
    (session_filters r)(s := removeAll f (session_filters r s))"
  by (auto simp: session_filters_def remove_from_session_def map_of_update fun_eq_iff
      split: option.split)

text \<open>Distinct keys at every level, kept apart from the agreement of the two directions.\<close>

definition index_keys :: "Router \<Rightarrow> bool" where
  "index_keys r \<longleftrightarrow>
    distinct (map fst (r_filters r)) \<and> distinct (map fst (r_sessions r))
    \<and> (\<forall>f ss. map_of (r_filters r) f = Some ss \<longrightarrow> distinct (map fst ss))"

lemma router_inv_alt:
  "router_inv r \<longleftrightarrow> index_keys r \<and> (\<forall>s. distinct (session_filters r s))
    \<and> (\<forall>s f. f \<in> set (session_filters r s) \<longleftrightarrow> subscription_of r s f \<noteq> None)
    \<and> (\<forall>s f. f \<in> set (session_filters r s) \<longrightarrow> validate_subscribe_filter f)"
  by (auto simp: router_inv_def index_keys_def)

lemma index_keys_insert: "index_keys r \<Longrightarrow> index_keys (insert_subscription s m f q r)"
  by (auto simp: index_keys_def insert_subscription_def map_of_update distinct_update
      or_default_def split: option.split)

lemma index_keys_remove_from_filter: "index_keys r \<Longrightarrow> index_keys (remove_from_filter s f r)"
  by (auto simp: index_keys_def remove_from_filter_def map_of_update distinct_update
      distinct_delete simp del: map_of_eq_Some_iff split: option.split)

lemma index_keys_remove_from_session: "index_keys r \<Longrightarrow> index_keys (remove_from_session s f r)"
  by (auto simp: index_keys_def remove_from_session_def distinct_update split: option.split)

lemma router_inv_new: "router_inv (Router_new n)"
  by (simp add: router_inv_def Router_new_def session_filters_def subscription_of_def)

lemma router_inv_insert:
  "router_inv r \<Longrightarrow> validate_subscribe_filter f \<Longrightarrow> router_inv (insert_subscription s m f q r)"
  by (auto simp: router_inv_alt index_keys_insert subscription_of_insert session_filters_insert)

subsection \<open>Subscribing\<close>

definition index_subscribe ::
  "rstring \<Rightarrow> Mailbox \<Rightarrow> (rstring \<times> QoS) list \<Rightarrow> Router \<Rightarrow> Router" where
  "index_subscribe s m = fold (\<lambda>(f, q) r.
    if validate_subscribe_filter f then insert_subscription s m f q r else r)"

definition grant :: "rstring \<times> QoS \<Rightarrow> u8" where
  "grant = (\<lambda>(f, q). if validate_subscribe_filter f then qos_u8 q else FAILURE)"

lemma min_supported: "min (qos_u8 q) MAX_SUPPORTED_QOS = qos_u8 q"
  by (cases q) (simp_all add: MAX_SUPPORTED_QOS_def)

lemma subscribe_loop_index:
  "snd (subscribe_loop S st s m fs codes found r) = index_subscribe s m fs r"
  "fst (fst (subscribe_loop S st s m fs codes found r)) = codes @ map grant fs"
  by (induction S st s m fs codes found r rule: subscribe_loop.induct)
    (simp_all add: index_subscribe_def grant_def Let_def min_supported)

lemma Router_subscribe_index: "snd (Router_subscribe S st s m fs r) = index_subscribe s m fs r"
  by (simp add: Router_subscribe_def subscribe_loop_index)

lemma router_inv_subscribe: "router_inv r \<Longrightarrow> router_inv (index_subscribe s m fs r)"
  by (induction fs arbitrary: r) (auto simp: index_subscribe_def router_inv_insert)

lemma subscription_of_subscribe:
  "subscription_of (index_subscribe s m fs r) =
    (\<lambda>s' f. if s' = s \<and> validate_subscribe_filter f \<and> f \<in> fst ` set fs
            then Some (m, the (map_of (rev fs) f)) else subscription_of r s' f)"
proof (induction fs rule: rev_induct)
  case Nil
  then show ?case by (simp add: index_subscribe_def)
next
  case (snoc fq fs)
  then show ?case
    by (cases fq) (auto simp: index_subscribe_def subscription_of_insert fun_eq_iff)
qed

subsection \<open>Unsubscribing\<close>

lemma subscription_of_unsubscribe:
  "subscription_of (Router_unsubscribe s fs r) =
    (\<lambda>s' f. if s' = s \<and> f \<in> set fs then None else subscription_of r s' f)"
  by (induction s fs r rule: Router_unsubscribe.induct)
    (auto simp: subscription_of_remove_from_filter fun_eq_iff)

lemma router_inv_remove:
  "router_inv r \<Longrightarrow> router_inv (remove_from_session s f (remove_from_filter s f r))"
  unfolding router_inv_alt
  by (intro conjI; simp add: index_keys_remove_from_filter index_keys_remove_from_session
      session_filters_remove_from_session subscription_of_remove_from_filter distinct_removeAll;
      blast)

lemma router_inv_unsubscribe: "router_inv r \<Longrightarrow> router_inv (Router_unsubscribe s fs r)"
  by (induction s fs r rule: Router_unsubscribe.induct) (auto simp: router_inv_remove)

lemma fold_remove_from_filter:
  "subscription_of (fold (remove_from_filter s) fs r) =
    (\<lambda>s' f. if s' = s \<and> f \<in> set fs then None else subscription_of r s' f)"
  "session_filters (fold (remove_from_filter s) fs r) = session_filters r"
  "index_keys r \<Longrightarrow> index_keys (fold (remove_from_filter s) fs r)"
  by (induction fs arbitrary: r)
    (auto simp: subscription_of_remove_from_filter fun_eq_iff index_keys_remove_from_filter)

lemma drop_session:
  "subscription_of (r\<lparr>r_sessions := AList.delete s (r_sessions r)\<rparr>) = subscription_of r"
  "session_filters (r\<lparr>r_sessions := AList.delete s (r_sessions r)\<rparr>) = (session_filters r)(s := [])"
  "index_keys r \<Longrightarrow> index_keys (r\<lparr>r_sessions := AList.delete s (r_sessions r)\<rparr>)"
  by (auto simp: subscription_of_def session_filters_def index_keys_def map_of_delete fun_eq_iff
      distinct_delete)

lemma unsubscribe_all_views:
  assumes "router_inv r"
  shows "subscription_of (Router_unsubscribe_all s r) = (subscription_of r)(s := \<lambda>_. None)"
    and "session_filters (Router_unsubscribe_all s r) = (session_filters r)(s := [])"
    and "index_keys (Router_unsubscribe_all s r)"
proof -
  have row: "f \<notin> set (session_filters r s) \<Longrightarrow> subscription_of r s f = None" for f
    using assms unfolding router_inv_def by blast
  have "index_keys r"
    using assms by (simp add: router_inv_alt)
  then show "index_keys (Router_unsubscribe_all s r)"
    by (simp add: Router_unsubscribe_all_def fold_remove_from_filter drop_session
        split: option.split)
  show "session_filters (Router_unsubscribe_all s r) = (session_filters r)(s := [])"
  proof (cases "map_of (r_sessions r) s")
    case None
    then have "session_filters r s = []"
      by (simp add: session_filters_def)
    with None show ?thesis
      by (simp add: Router_unsubscribe_all_def fun_eq_iff)
  qed (simp add: Router_unsubscribe_all_def fold_remove_from_filter drop_session)
  show "subscription_of (Router_unsubscribe_all s r) = (subscription_of r)(s := \<lambda>_. None)"
    using row
    by (auto simp: Router_unsubscribe_all_def fold_remove_from_filter drop_session fun_eq_iff
        session_filters_def split: option.split)
qed

lemma router_inv_unsubscribe_all: "router_inv r \<Longrightarrow> router_inv (Router_unsubscribe_all s r)"
  using unsubscribe_all_views [of r s] by (auto simp: router_inv_alt)

lemma get_subscriptions_views:
  assumes "router_inv r"
  shows "map fst (Router_get_subscriptions s r) = session_filters r s"
    and "set (Router_get_subscriptions s r) = {(f, q). \<exists>m. subscription_of r s f = Some (m, q)}"
proof -
  have row: "f \<in> set (session_filters r s) \<longleftrightarrow> subscription_of r s f \<noteq> None" for f
    using assms by (simp add: router_inv_def)
  have gets: "Router_get_subscriptions s r = concat (map (\<lambda>f. case subscription_of r s f of
      Some (_, qos) \<Rightarrow> [(f, qos)] | None \<Rightarrow> []) (session_filters r s))"
    by (simp add: Router_get_subscriptions_def session_filters_def split: option.split)
  have "map fst (concat (map (\<lambda>f. case subscription_of r s f of
      Some (_, qos) \<Rightarrow> [(f, qos)] | None \<Rightarrow> []) fs)) = fs"
    if "set fs \<subseteq> set (session_filters r s)" for fs
    using that row by (induction fs) auto
  then show "map fst (Router_get_subscriptions s r) = session_filters r s"
    by (simp add: gets)
  show "set (Router_get_subscriptions s r) = {(f, q). \<exists>m. subscription_of r s f = Some (m, q)}"
    using row by (force simp: gets split: option.splits)
qed

section \<open>The index as an interface\<close>

locale subscription_index =
  fixes inv :: "'r \<Rightarrow> bool"
    and table :: "'r \<Rightarrow> rstring \<Rightarrow> rstring \<Rightarrow> (Mailbox \<times> QoS) option"
    and subscribe :: "rstring \<Rightarrow> Mailbox \<Rightarrow> (rstring \<times> QoS) list \<Rightarrow> 'r \<Rightarrow> 'r"
    and unsubscribe :: "rstring \<Rightarrow> rstring list \<Rightarrow> 'r \<Rightarrow> 'r"
    and unsubscribe_all :: "rstring \<Rightarrow> 'r \<Rightarrow> 'r"
    and subscriptions :: "rstring \<Rightarrow> 'r \<Rightarrow> (rstring \<times> QoS) list"
  assumes inv_subscribe: "inv r \<Longrightarrow> inv (subscribe s m fs r)"
    and inv_unsubscribe: "inv r \<Longrightarrow> inv (unsubscribe s us r)"
    and inv_unsubscribe_all: "inv r \<Longrightarrow> inv (unsubscribe_all s r)"
    and table_subscribe: "inv r \<Longrightarrow> table (subscribe s m fs r) =
      (\<lambda>s' f. if s' = s \<and> validate_subscribe_filter f \<and> f \<in> fst ` set fs
              then Some (m, the (map_of (rev fs) f)) else table r s' f)"
    and table_unsubscribe: "inv r \<Longrightarrow> table (unsubscribe s us r) =
      (\<lambda>s' f. if s' = s \<and> f \<in> set us then None else table r s' f)"
    and table_unsubscribe_all: "inv r \<Longrightarrow>
      table (unsubscribe_all s r) = (table r)(s := \<lambda>_. None)"
    and table_valid: "inv r \<Longrightarrow> table r s f = Some v \<Longrightarrow> validate_subscribe_filter f"
    and subscriptions_distinct: "inv r \<Longrightarrow> distinct (map fst (subscriptions s r))"
    and subscriptions_set: "inv r \<Longrightarrow>
      set (subscriptions s r) = {(f, q). \<exists>m. table r s f = Some (m, q)}"
begin

text \<open>
  Subscribing again what was listed before, in any order and with another mailbox, gives a
  session without subscriptions the same filters and levels.
\<close>

lemma resubscribe:
  assumes "inv r" "inv r'" "table r' s' = (\<lambda>_. None)" "mset fs = mset (subscriptions s r)"
  shows "table (subscribe s' m fs r') s' f = map_option (\<lambda>(_, q). (m, q)) (table r s f)"
proof -
  have set: "set fs = {(f, q). \<exists>m. table r s f = Some (m, q)}"
    using assms(4) subscriptions_set [OF assms(1), of s] by (metis set_mset_mset)
  have "distinct (map fst fs)"
    using assms(4) subscriptions_distinct [OF assms(1), of s]
    by (metis mset_map mset_eq_imp_distinct_iff)
  then have "map_of (rev fs) f = Some q" if "(f, q) \<in> set fs" for q
    using that by (simp add: map_of_eq_Some_iff rev_map [symmetric])
  then show ?thesis
    using table_subscribe [OF assms(2), of s' m fs] assms(3) set table_valid [OF assms(1), of s f]
    by (cases "table r s f") (auto simp: image_iff)
qed

end

interpretation index: subscription_index router_inv subscription_of
  "\<lambda>s m fs r. snd (Router_subscribe S st s m fs r)"
  Router_unsubscribe Router_unsubscribe_all Router_get_subscriptions
proof
  fix r :: Router and s f :: rstring and v
  assume inv: "router_inv r"
  show "subscription_of r s f = Some v \<Longrightarrow> validate_subscribe_filter f"
    using inv unfolding router_inv_def by blast
  show "distinct (map fst (Router_get_subscriptions s r))"
    using inv get_subscriptions_views(1) [OF inv] by (simp add: router_inv_def)
  show "set (Router_get_subscriptions s r) = {(f, q). \<exists>m. subscription_of r s f = Some (m, q)}"
    by (rule get_subscriptions_views(2) [OF inv])
qed (simp_all add: Router_subscribe_index router_inv_subscribe router_inv_unsubscribe
    router_inv_unsubscribe_all subscription_of_subscribe subscription_of_unsubscribe
    unsubscribe_all_views)

section \<open>Retained messages\<close>

definition retained_packet :: "QoS \<Rightarrow> PersistedRetainedMessage \<Rightarrow> PublishPacket" where
  "retained_packet q m =
    \<lparr>pp_topic = pr_topic m, pp_packet_id = None, pp_payload = pr_payload m,
     pp_qos = min_qos (qos_from_stored_qos (pr_qos m)) q, pp_retain = True, pp_dup = False\<rparr>"

definition all_retained_messages :: "'st storage_ops \<Rightarrow> 'st \<Rightarrow> PersistedRetainedMessage list" where
  "all_retained_messages S st = (case load_all_retained_messages S st of Inr ms \<Rightarrow> ms | Inl _ \<Rightarrow> [])"

definition retained_found :: "'st storage_ops \<Rightarrow> 'st \<Rightarrow> rstring \<times> QoS \<Rightarrow> PublishPacket list" where
  "retained_found S st = (\<lambda>(f, q).
    if \<not> validate_subscribe_filter f then []
    else if has_wildcards f then
      map (retained_packet q) (filter (\<lambda>m. topic_matches (pr_topic m) f) (all_retained_messages S st))
    else (case load_retained_message S f st of Inr (Some m) \<Rightarrow> [retained_packet q m] | _ \<Rightarrow> []))"

lemma add_retained_packet_eq: "add_retained_packet m q acc = acc @ [retained_packet q m]"
  by (simp add: add_retained_packet_def retained_packet_def)

lemma add_matching_retained_eq:
  "add_matching_retained f q ms acc =
    acc @ map (retained_packet q) (filter (\<lambda>m. topic_matches (pr_topic m) f) ms)"
  by (induction f q ms acc rule: add_matching_retained.induct) (simp_all add: add_retained_packet_eq)

text \<open>The cache holds nothing or what the storage would return.\<close>

definition cache_ok :: "'st storage_ops \<Rightarrow> 'st \<Rightarrow> PersistedRetainedMessage list option \<Rightarrow> bool" where
  "cache_ok S st cache \<longleftrightarrow> cache = None \<or> cache = Some (all_retained_messages S st)"

lemma find_retained_for_filter_eq:
  assumes "cache_ok S st cache" "validate_subscribe_filter f"
  shows "fst (find_retained_for_filter S st f q (acc, cache)) = acc @ retained_found S st (f, q)"
    and "cache_ok S st (snd (find_retained_for_filter S st f q (acc, cache)))"
  using assms
  by (auto simp: find_retained_for_filter_def retained_found_def cache_ok_def Let_def
      add_retained_packet_eq add_matching_retained_eq all_retained_messages_def
      split: option.split sum.split)

lemma subscribe_loop_retained:
  "cache_ok S st (snd found) \<Longrightarrow>
    snd (fst (subscribe_loop S st s m fs codes found r))
      = fst found @ concat (map (retained_found S st) fs)"
proof (induction S st s m fs codes found r rule: subscribe_loop.induct)
  case (2 S st s m f q fs codes found r)
  obtain acc cache where "found = (acc, cache)"
    by (cases found)
  with 2 show ?case
    using find_retained_for_filter_eq [of S st cache f q acc]
    by (simp add: Let_def) (simp add: retained_found_def)
qed simp

lemma Router_subscribe_retained:
  "snd (fst (Router_subscribe S st s m fs r)) = concat (map (retained_found S st) fs)"
  by (simp add: Router_subscribe_def subscribe_loop_retained cache_ok_def)

lemma min_qos_min: "min_qos a b = min a b"
  by (cases a; cases b) (simp_all add: min_qos_def MAX_SUPPORTED_QOS_def Let_def min_def less_eq_QoS_def
      word_le_nat_alt)

lemma filter_unique:
  assumes "distinct (map h xs)" "x \<in> set xs"
  shows "filter (\<lambda>y. h y = h x) xs = [x]"
  using assms
proof (induction xs)
  case (Cons y ys)
  then show ?case
    by (cases "h y = h x") (auto simp: filter_empty_conv image_iff)
qed simp

context reliable_storage
begin

lemma all_retained_messages_spec:
  assumes "inv st"
  shows "distinct (map pr_topic (all_retained_messages ops st))"
    and "set (all_retained_messages ops st) = ran (retained st)"
proof -
  obtain rs where "load_all_retained_messages ops st = Inr rs" "distinct (map pr_topic rs)"
    "set rs = ran (retained st)"
    by (rule reliable_load_all [OF assms])
  then show "distinct (map pr_topic (all_retained_messages ops st))"
    "set (all_retained_messages ops st) = ran (retained st)"
    by (simp_all add: all_retained_messages_def)
qed

text \<open>The direct lookup of a filter without wildcards finds what the scan would find.\<close>

lemma retained_found_scan:
  assumes "inv st" "validate_subscribe_filter f"
  shows "retained_found ops st (f, q) = map (retained_packet q)
    (filter (\<lambda>m. topic_matches (pr_topic m) f) (all_retained_messages ops st))"
proof (cases "has_wildcards f")
  case False
  note all = all_retained_messages_spec [OF assms(1)]
  have match: "topic_matches t f \<longleftrightarrow> t = f" for t
    by (rule topic_matches_no_wildcards [OF False assms(2)])
  show ?thesis
  proof (cases "retained st f")
    case None
    then have "\<forall>m \<in> set (all_retained_messages ops st). pr_topic m \<noteq> f"
      using all(2) retained_topic [OF assms(1)] by (auto simp: ran_def)
    then show ?thesis
      using None False assms(2)
      by (simp add: retained_found_def reliable_loads [OF assms(1)] match filter_empty_conv)
  next
    case (Some m)
    then have "m \<in> set (all_retained_messages ops st)" "pr_topic m = f"
      using all(2) retained_topic [OF assms(1)] by (auto simp: ran_def)
    then show ?thesis
      using Some False assms(2) filter_unique [OF all(1), of m]
      by (simp add: retained_found_def reliable_loads [OF assms(1)] match)
  qed
qed (simp add: retained_found_def assms(2))

lemma handle_retained_message_effect:
  assumes "inv st"
  shows "inv (handle_retained_message ops limit now p st)
    \<and> saved (handle_retained_message ops limit now p st) = saved st
    \<and> retained (handle_retained_message ops limit now p st) =
      (if pp_payload p = [] then (retained st)(pp_topic p := None)
       else if retained st (pp_topic p) = None \<and> limit \<le> card (dom (retained st)) then retained st
       else (retained st)(pp_topic p \<mapsto>
         \<lparr>pr_topic = pp_topic p, pr_payload = pp_payload p,
          pr_qos = stored_qos_from_qos (pp_qos p), pr_updated_at = now\<rparr>))"
proof (cases "pp_payload p = []")
  case True
  then show ?thesis
    using reliable_delete_retained [OF assms, of "pp_topic p"]
    by (metis handle_retained_message_def snd_conv)
next
  case False
  let ?m = "\<lparr>pr_topic = pp_topic p, pr_payload = pp_payload p,
    pr_qos = stored_qos_from_qos (pp_qos p), pr_updated_at = now\<rparr>"
  obtain st' where "save_retained_message ops ?m st = (Inr (), st')" "inv st'" "saved st' = saved st"
    "retained st' = (retained st)(pp_topic p \<mapsto> ?m)"
    using reliable_save_retained [OF assms, of ?m] by auto
  then show ?thesis
    using False assms
    by (cases "retained st (pp_topic p)")
      (simp_all add: handle_retained_message_def reliable_loads [OF assms] Let_def)
qed

lemma handle_retained_message_limit:
  assumes "inv st" "card (dom (retained st)) \<le> limit"
  shows "card (dom (retained (handle_retained_message ops limit now p st))) \<le> limit"
proof -
  have fin: "finite (dom (retained st))"
    by (rule retained_finite [OF assms(1)])
  have "card (dom (retained st) - {pp_topic p}) \<le> limit"
    using assms(2) by (meson card_Diff1_le le_trans)
  moreover have "card (insert (pp_topic p) (dom (retained st))) \<le> limit"
    if "\<not> (retained st (pp_topic p) = None \<and> limit \<le> card (dom (retained st)))"
    using that assms(2) fin by (cases "pp_topic p \<in> dom (retained st)") (auto simp: insert_absorb)
  ultimately show ?thesis
    using handle_retained_message_effect [OF assms(1), of limit now p] assms(2) by auto
qed

end

section \<open>Delivery\<close>

text \<open>The subscriptions as a list, in the order in which \<open>route\<close> visits them.\<close>

type_synonym subscription_entry = "rstring \<times> rstring \<times> Mailbox \<times> QoS"

definition entries :: "rstring \<Rightarrow> (rstring, Mailbox \<times> QoS) hash_map \<Rightarrow> subscription_entry list" where
  "entries f ss = map (\<lambda>(s, v). (s, f, v)) ss"

definition subscription_list ::
  "(rstring, (rstring, Mailbox \<times> QoS) hash_map) hash_map \<Rightarrow> subscription_entry list" where
  "subscription_list fs = concat (map (\<lambda>(f, ss). entries f ss) fs)"

definition matching :: "rstring \<Rightarrow> Router \<Rightarrow> subscription_entry list" where
  "matching t r = filter (\<lambda>e. topic_matches t (fst (snd e))) (subscription_list (r_filters r))"

fun send_all :: "(Packet, 'q) chan_ops \<Rightarrow> PublishPacket \<Rightarrow> subscription_entry list \<Rightarrow> 'q
    \<Rightarrow> (unit, unit) outcome \<times> 'q" where
  "send_all C p [] q = (Ok (), q)"
| "send_all C p ((s, f, m, qos) # subs) q =
    qmark (map_prod ignore_err id (ch_send C m (Publish (forward_packet p qos)) q))
      (\<lambda>_ q. send_all C p subs q)"

lemma send_all_append:
  "send_all C p (xs @ ys) q = qmark (send_all C p xs q) (\<lambda>_ q. send_all C p ys q)"
  by (induction C p xs q rule: send_all.induct) (auto simp: qmark_assoc intro: qmark_ext)

lemma entries_simps [simp]:
  "entries f [] = []" "entries f ((s, v) # ss) = (s, f, v) # entries f ss"
  by (simp_all add: entries_def)

lemma route_sessions_send_all: "route_sessions C p ss q = send_all C p (entries f ss) q"
  by (induction C p ss q rule: route_sessions.induct) (auto intro: qmark_ext)

lemma filter_entries:
  "filter (\<lambda>e. P (fst (snd e))) (entries f ss) = (if P f then entries f ss else [])"
  by (induction ss) (auto simp: entries_def)

lemma route_filters_send_all:
  "route_filters C p fs q = send_all C p
    (filter (\<lambda>e. topic_matches (pp_topic p) (fst (snd e))) (subscription_list fs)) q"
proof (induction C p fs q rule: route_filters.induct)
  case (2 C p f ss fs q)
  then show ?case
    using filter_entries [of "topic_matches (pp_topic p)" f ss]
    by (auto simp: subscription_list_def send_all_append route_sessions_send_all [of C p ss _ f]
        intro: qmark_ext)
qed (simp add: subscription_list_def)

lemma subscription_list_entries:
  "(s, f, v) \<in> set (subscription_list fs) \<longleftrightarrow> (\<exists>ss. (f, ss) \<in> set fs \<and> (s, v) \<in> set ss)"
  by (force simp: subscription_list_def entries_def)

definition entry_key :: "subscription_entry \<Rightarrow> rstring \<times> rstring" where
  "entry_key e = (fst e, fst (snd e))"

lemma subscription_list_distinct:
  assumes "distinct (map fst fs)" "\<forall>f ss. (f, ss) \<in> set fs \<longrightarrow> distinct (map fst ss)"
  shows "distinct (map entry_key (subscription_list fs))"
  using assms
proof (induction fs)
  case (Cons fss fs)
  obtain f ss where fss: "fss = (f, ss)"
    by (cases fss)
  have "map entry_key (entries f ss) = map (\<lambda>s. (s, f)) (map fst ss)"
    by (auto simp: entries_def entry_key_def)
  moreover have "distinct (map (\<lambda>s. (s, f)) (map fst ss))"
    using Cons.prems fss unfolding distinct_map by (auto simp: inj_on_def)
  ultimately have here: "distinct (map entry_key (entries f ss))"
    by metis
  have "f' \<noteq> f" if "(s, f', v) \<in> set (subscription_list fs)" for s f' v
    using that Cons.prems(1) fss unfolding subscription_list_entries by force
  then have "entry_key ` set (entries f ss) \<inter> entry_key ` set (subscription_list fs) = {}"
    by (force simp: entries_def entry_key_def)
  moreover have "distinct (map entry_key (subscription_list fs))"
    using Cons.IH Cons.prems fss by auto
  ultimately show ?case
    using here fss by (simp add: subscription_list_def)
qed (simp add: subscription_list_def)

lemma subscription_list_table:
  assumes "router_inv r"
  shows "distinct (map entry_key (subscription_list (r_filters r)))"
    and "(s, f, v) \<in> set (subscription_list (r_filters r)) \<longleftrightarrow> subscription_of r s f = Some v"
proof -
  have keys: "distinct (map fst (r_filters r))"
    and inner: "(f, ss) \<in> set (r_filters r) \<Longrightarrow> distinct (map fst ss)" for f ss
    using assms by (auto simp: router_inv_def)
  show "distinct (map entry_key (subscription_list (r_filters r)))"
    using keys inner by (intro subscription_list_distinct) auto
  have look: "map_of (r_filters r) f = Some ss \<longleftrightarrow> (f, ss) \<in> set (r_filters r)" for ss
    using keys by (rule map_of_eq_Some_in_set)
  show "(s, f, v) \<in> set (subscription_list (r_filters r)) \<longleftrightarrow> subscription_of r s f = Some v"
  proof (cases "map_of (r_filters r) f")
    case None
    then have "(f, ss) \<notin> set (r_filters r)" for ss
      using look [of ss] by simp
    with None show ?thesis
      by (simp add: subscription_list_entries subscription_of_def)
  next
    case (Some ss)
    then have ss: "(f, ss') \<in> set (r_filters r) \<longleftrightarrow> ss' = ss" for ss'
      using look [of ss'] by auto
    then have "map_of ss s = Some v \<longleftrightarrow> (s, v) \<in> set ss"
      using inner [of f ss] by (simp add: map_of_eq_Some_in_set)
    with Some ss show ?thesis
      by (simp add: subscription_list_entries subscription_of_def)
  qed
qed

text \<open>The levels at which the entries of a list ask for a copy in mailbox \<open>c\<close>.\<close>

definition copies :: "Mailbox \<Rightarrow> subscription_entry list \<Rightarrow> QoS list" where
  "copies c es = map (\<lambda>e. snd (snd (snd e))) (filter (\<lambda>e. fst (snd (snd e)) = c) es)"

lemma copies_simps [simp]:
  "copies c [] = []"
  "copies c ((s, f, m, q) # es) = (if m = c then q # copies c es else copies c es)"
  by (simp_all add: copies_def)

text \<open>Channels that carry packets: the mailboxes of the sessions.\<close>

locale mailboxes = mpsc C queue open_rx cap
  for C :: "(Packet, 'q) chan_ops" and queue open_rx cap
begin

lemma send_all_delivers:
  assumes "\<forall>c. open_rx q c \<longrightarrow> length (queue q c) + length (copies c es) \<le> cap c"
  shows "\<exists>q'. send_all C p es q = (Ok (), q')
    \<and> (\<forall>c. queue q' c = queue q c @
          (if open_rx q c then map (\<lambda>qos. Publish (forward_packet p qos)) (copies c es) else []))
    \<and> open_rx q' = open_rx q"
  using assms
proof (induction es arbitrary: q)
  case (Cons e es)
  obtain s f m qos where e: "e = (s, f, m, qos)"
    by (cases e)
  let ?m = "Publish (forward_packet p qos)"
  obtain res q1 where send: "ch_send C m ?m q = (res, q1)"
    by fastforce
  have room: "open_rx q m \<Longrightarrow> length (queue q m) < cap m"
    using Cons.prems e by auto
  then have q1: "open_rx q1 = open_rx q" "ignore_err res = Ok ()"
    "queue q1 = (if open_rx q m then (queue q)(m := queue q m @ [?m]) else queue q)"
    by (cases rule: send_cases [of q m ?m]; simp add: send)+
  then have "\<forall>c. open_rx q1 c \<longrightarrow> length (queue q1 c) + length (copies c es) \<le> cap c"
    using Cons.prems e by (auto split: if_splits)
  from Cons.IH [OF this] obtain q' where "send_all C p es q1 = (Ok (), q')"
    "\<forall>c. queue q' c = queue q1 c @
      (if open_rx q1 c then map (\<lambda>qos. Publish (forward_packet p qos)) (copies c es) else [])"
    "open_rx q' = open_rx q1"
    by blast
  then show ?case
    using e send q1 by auto
qed simp

text \<open>Whatever the mailboxes hold, a delivery ends or waits; it waits at a full mailbox.\<close>

lemma send_all_result:
  assumes "send_all C p es q = (res, q')"
  shows "res = Ok () \<or> res = Pending
    \<and> (\<exists>s f m qos. (s, f, m, qos) \<in> set es \<and> open_rx q m \<and> cap m \<le> length (queue q' m))"
  using assms
proof (induction es arbitrary: q)
  case (Cons e es)
  obtain s f m qos where e: "e = (s, f, m, qos)"
    by (cases e)
  let ?m = "Publish (forward_packet p qos)"
  obtain res1 q1 where send: "ch_send C m ?m q = (res1, q1)"
    by fastforce
  show ?case
  proof (cases "ignore_err res1 = Ok ()")
    case True
    then have "send_all C p es q1 = (res, q')"
      using Cons.prems e send by simp
    moreover have "open_rx q1 = open_rx q"
      by (cases rule: send_cases [of q m ?m]) (simp_all add: send)
    ultimately show ?thesis
      using Cons.IH [of q1] by auto
  next
    case False
    then show ?thesis
      using Cons.prems e send by (cases rule: send_cases [of q m ?m]) auto
  qed
qed simp

end

interpretation mail: mailboxes "bounded_chan n" chan_queue "\<lambda>q c. q c \<noteq> None" "\<lambda>_. n"
  by unfold_locales

section \<open>Properties\<close>

text \<open>The index operations as a sequence of commands, on the router and on the abstract table.\<close>

datatype index_op =
    OpSubscribe rstring Mailbox "(rstring \<times> QoS) list"
  | OpUnsubscribe rstring "rstring list"
  | OpUnsubscribeAll rstring

type_synonym table = "rstring \<Rightarrow> rstring \<Rightarrow> (Mailbox \<times> QoS) option"

fun router_step :: "'st storage_ops \<Rightarrow> 'st \<Rightarrow> index_op \<Rightarrow> Router \<Rightarrow> Router" where
  "router_step S st (OpSubscribe s m fs) r = snd (Router_subscribe S st s m fs r)"
| "router_step S st (OpUnsubscribe s fs) r = Router_unsubscribe s fs r"
| "router_step S st (OpUnsubscribeAll s) r = Router_unsubscribe_all s r"

fun table_step :: "index_op \<Rightarrow> table \<Rightarrow> table" where
  "table_step (OpSubscribe s m fs) T =
    fold (\<lambda>(f, q) T. if validate_subscribe_filter f then T(s := (T s)(f \<mapsto> (m, q))) else T) fs T"
| "table_step (OpUnsubscribe s fs) T = T(s := \<lambda>f. if f \<in> set fs then None else T s f)"
| "table_step (OpUnsubscribeAll s) T = T(s := \<lambda>_. None)"

lemma table_step_subscribe:
  "fold (\<lambda>(f, q) T. if validate_subscribe_filter f then T(s := (T s)(f \<mapsto> (m, q))) else T) fs
      (subscription_of r) = subscription_of (index_subscribe s m fs r)"
proof (induction fs arbitrary: r)
  case (Cons fq fs)
  obtain f q where fq: "fq = (f, q)"
    by (cases fq)
  have "(subscription_of r)(s := (subscription_of r s)(f \<mapsto> (m, q)))
      = subscription_of (insert_subscription s m f q r)"
    by (auto simp: subscription_of_insert fun_eq_iff)
  then show ?case
    using Cons [of "insert_subscription s m f q r"] Cons [of r] fq by (simp add: index_subscribe_def)
qed (simp add: index_subscribe_def)

lemma router_step_refines:
  assumes "router_inv r"
  shows "router_inv (router_step S st op r)
    \<and> subscription_of (router_step S st op r) = table_step op (subscription_of r)"
  using assms index.inv_subscribe [of r] index.inv_unsubscribe [of r] index.inv_unsubscribe_all [of r]
  by (cases op)
    (auto simp: Router_subscribe_index table_step_subscribe index.table_unsubscribe
      index.table_unsubscribe_all)

text \<open>
  C32: the router's two hash maps implement one table from sessions and filters to mailbox and QoS.
  After any sequence of subscribe, unsubscribe and unsubscribe_all calls from an empty router,
  the index is consistent in both directions, it holds exactly what the same commands leave in
  the table, and \<open>get_subscriptions\<close> lists a session's row without repetition.
\<close>

theorem router_refines_table:
  "let r = fold (router_step S st) cmds (Router_new n) in
    router_inv r \<and> subscription_of r = fold table_step cmds (\<lambda>_ _. None)
    \<and> distinct (map fst (Router_get_subscriptions s r))
    \<and> set (Router_get_subscriptions s r) = {(f, q). \<exists>m. subscription_of r s f = Some (m, q)}"
proof -
  have steps: "router_inv (fold (router_step S st) cmds r)
      \<and> subscription_of (fold (router_step S st) cmds r) = fold table_step cmds (subscription_of r)"
    if "router_inv r" for r
    using that by (induction cmds arbitrary: r) (simp_all add: router_step_refines)
  have "subscription_of (Router_new n) = (\<lambda>_ _. None)"
    by (simp add: fun_eq_iff subscription_of_def Router_new_def)
  then have "router_inv (fold (router_step S st) cmds (Router_new n))"
    "subscription_of (fold (router_step S st) cmds (Router_new n)) = fold table_step cmds (\<lambda>_ _. None)"
    using steps [OF router_inv_new [of n]] by simp_all
  then show ?thesis
    using index.subscriptions_distinct [of "fold (router_step S st) cmds (Router_new n)" s]
      index.subscriptions_set [of "fold (router_step S st) cmds (Router_new n)" s]
    unfolding Let_def by blast
qed

text \<open>
  C33: the answer to a SUBSCRIBE.  Each filter gets the requested QoS as its return code, or FAILURE if
  it is not valid, in the order of the request; and for each valid filter the subscriber gets one
  packet for every retained message whose topic matches, at the smaller QoS, with the retain flag.
  The direct lookup for filters without wildcards and the cached scan for the others agree.
\<close>

theorem subscribe_answers:
  assumes "reliable_storage S st_inv saved retained" "st_inv st"
  shows "fst (fst (Router_subscribe S st s m fs r)) =
      map (\<lambda>(f, q). if validate_subscribe_filter f then qos_u8 q else FAILURE) fs
    \<and> (\<exists>rs. distinct (map pr_topic rs) \<and> set rs = ran (retained st)
        \<and> snd (fst (Router_subscribe S st s m fs r)) = concat (map (\<lambda>(f, q).
            if validate_subscribe_filter f
            then map (\<lambda>msg. \<lparr>pp_topic = pr_topic msg, pp_packet_id = None,
                pp_payload = pr_payload msg, pp_qos = min (qos_from_stored_qos (pr_qos msg)) q,
                pp_retain = True, pp_dup = False\<rparr>)
              (filter (\<lambda>msg. topic_matches (pr_topic msg) f) rs)
            else []) fs))"
proof -
  note scan = reliable_storage.retained_found_scan [OF assms]
  note all = reliable_storage.all_retained_messages_spec [OF assms]
  have "retained_found S st (f, q) =
      (if validate_subscribe_filter f
       then map (retained_packet q)
         (filter (\<lambda>msg. topic_matches (pr_topic msg) f) (all_retained_messages S st))
       else [])" for f q
    using scan [of f q] by (simp add: retained_found_def)
  then have "retained_found S st = (\<lambda>(f, q). if validate_subscribe_filter f
       then map (retained_packet q)
         (filter (\<lambda>msg. topic_matches (pr_topic msg) f) (all_retained_messages S st))
       else [])"
    by (simp add: fun_eq_iff)
  note found = this [unfolded retained_packet_def [abs_def] min_qos_min]
  show ?thesis
  proof (intro conjI exI)
    show "fst (fst (Router_subscribe S st s m fs r)) =
        map (\<lambda>(f, q). if validate_subscribe_filter f then qos_u8 q else FAILURE) fs"
      by (simp add: Router_subscribe_def subscribe_loop_index grant_def)
  qed (rule all(1), rule all(2), simp only: Router_subscribe_retained found)
qed

theorem subscribe_answers_witness:
  "reliable_storage memory_ops memory_inv memory_saved memory_retained \<and> memory_inv memory_new
    \<and> fst (fst (Router_subscribe memory_ops memory_new ''s'' 0
        [(''a/#'', AtLeastOnce), (''a#'', ExactlyOnce)] (Router_new 10)))
      = map (\<lambda>(f, q). if validate_subscribe_filter f then qos_u8 q else FAILURE)
          [(''a/#'', AtLeastOnce), (''a#'', ExactlyOnce)]"
  using subscribe_answers [OF mem.reliable_storage_axioms memory_inv_new,
      of "''s''" 0 "[(''a/#'', AtLeastOnce), (''a#'', ExactlyOnce)]" "Router_new 10"]
    mem.reliable_storage_axioms memory_inv_new
  by blast

text \<open>The router's delivery to one mailbox, as the copies its subscriptions ask for.\<close>

lemma matching_copies:
  assumes "router_inv r"
  obtains xs where "distinct xs"
    "set xs = {(s, f, q). subscription_of r s f = Some (c, q) \<and> topic_matches t f}"
    "copies c (matching t r) = map (\<lambda>(s, f, q). q) xs"
proof -
  define es where "es = filter (\<lambda>e. fst (snd (snd e)) = c) (matching t r)"
  define xs where "xs = map (\<lambda>(s, f, m, q). (s, f, q)) es"
  have mem: "(s, f, v) \<in> set es \<longleftrightarrow>
      subscription_of r s f = Some v \<and> fst v = c \<and> topic_matches t f" for s f v
    using subscription_list_table(2) [OF assms] by (auto simp: es_def matching_def)
  have "distinct (map entry_key es)"
    using subscription_list_table(1) [OF assms] by (simp add: es_def matching_def distinct_map_filter)
  moreover have "map entry_key es = map (\<lambda>(s, f, q). (s, f)) xs"
    by (auto simp: xs_def entry_key_def)
  ultimately have "distinct xs"
    by (metis distinct_map)
  moreover have "set xs = {(s, f, q). subscription_of r s f = Some (c, q) \<and> topic_matches t f}"
  proof -
    have "(s, f, q) \<in> set xs \<longleftrightarrow> (s, f, c, q) \<in> set es" for s f q
      using mem by (force simp: xs_def)
    then show ?thesis
      using mem by auto
  qed
  moreover have "copies c (matching t r) = map (\<lambda>(s, f, q). q) xs"
    by (auto simp: copies_def xs_def es_def)
  ultimately show thesis
    by (rule that)
qed

lemma Router_route_eq:
  assumes "validate_publish_topic (pp_topic p)"
    and "send_all C p (matching (pp_topic p) r) q = (res, q')"
  shows "Router_route S C now r p (st, q) =
    (res,
     (if pp_retain p then handle_retained_message S (r_retained_message_limit r) now p st else st,
      q'))"
  using assms by (simp add: Router_route_def Let_def route_filters_send_all matching_def)

definition due :: "Router \<Rightarrow> rstring \<Rightarrow> Mailbox \<Rightarrow> (rstring \<times> rstring \<times> QoS) set" where
  "due r t c = {(s, f, q). subscription_of r s f = Some (c, q) \<and> topic_matches t f}"

lemma length_copies:
  assumes "router_inv r"
  shows "length (copies c (matching t r)) = card (due r t c)"
proof -
  obtain xs where "distinct xs" "set xs = due r t c" "copies c (matching t r) = map (\<lambda>(s, f, q). q) xs"
    unfolding due_def by (rule matching_copies [OF assms])
  then show ?thesis
    by (metis distinct_card length_map)
qed

text \<open>
  C31: delivery.  If the open mailboxes have room for the copies due to them, \<open>route\<close> completes and
  every open mailbox receives exactly one copy for each subscription whose filter matches the
  topic, at the smaller of the two QoS levels, without packet identifier, retain or dup flag;
  nothing else is queued, and closed mailboxes are skipped.
\<close>

theorem route_delivers:
  assumes "mailboxes C queue open_rx cap" "router_inv r" "validate_publish_topic (pp_topic p)"
    and room: "\<forall>c. open_rx q c \<longrightarrow> length (queue q c) + card (due r (pp_topic p) c) \<le> cap c"
  shows "\<exists>st' q'. Router_route S C now r p (st, q) = (Ok (), (st', q'))
    \<and> (\<forall>c. \<exists>xs. distinct xs
        \<and> set xs = {(s, f, qos). subscription_of r s f = Some (c, qos) \<and> topic_matches (pp_topic p) f}
        \<and> queue q' c = queue q c @
            (if open_rx q c
             then map (\<lambda>(s, f, qos). Publish
                 \<lparr>pp_topic = pp_topic p, pp_packet_id = None, pp_payload = pp_payload p,
                  pp_qos = min (pp_qos p) qos, pp_retain = False, pp_dup = False\<rparr>) xs
             else []))"
proof -
  have "\<forall>c. open_rx q c \<longrightarrow>
      length (queue q c) + length (copies c (matching (pp_topic p) r)) \<le> cap c"
    using room unfolding length_copies [OF assms(2)] .
  from mailboxes.send_all_delivers [OF assms(1) this, of p] obtain q' where q':
    "send_all C p (matching (pp_topic p) r) q = (Ok (), q')"
    "\<forall>c. queue q' c = queue q c @ (if open_rx q c
      then map (\<lambda>qos. Publish (forward_packet p qos)) (copies c (matching (pp_topic p) r)) else [])"
    by blast
  have "\<exists>xs. distinct xs
        \<and> set xs = {(s, f, qos). subscription_of r s f = Some (c, qos) \<and> topic_matches (pp_topic p) f}
        \<and> queue q' c = queue q c @
            (if open_rx q c
             then map (\<lambda>(s, f, qos). Publish (forward_packet p qos)) xs else [])" for c
  proof -
    obtain xs where "distinct xs"
      "set xs = {(s, f, qos). subscription_of r s f = Some (c, qos) \<and> topic_matches (pp_topic p) f}"
      "copies c (matching (pp_topic p) r) = map (\<lambda>(s, f, q). q) xs"
      by (rule matching_copies [OF assms(2)])
    then show ?thesis
      using q'(2) by (intro exI [of _ xs]) (simp add: o_def case_prod_beta)
  qed
  then show ?thesis
    using Router_route_eq [OF assms(3) q'(1), of S now st] unfolding forward_packet_def min_qos_min
    by blast
qed

text \<open>
  \<open>route\<close> never fails and never panics: it completes, or it waits because the mailbox of a
  matching subscription is full.
\<close>

theorem route_waits_only_when_full:
  assumes "mailboxes C queue open_rx cap" "router_inv r"
    and "Router_route S C now r p (st, q) = (res, (st', q'))"
  shows "res = Ok () \<or> res = Pending
    \<and> (\<exists>s f c qos. subscription_of r s f = Some (c, qos) \<and> topic_matches (pp_topic p) f
        \<and> open_rx q c \<and> cap c \<le> length (queue q' c))"
proof (cases "validate_publish_topic (pp_topic p)")
  case True
  then obtain res' q1 where send: "send_all C p (matching (pp_topic p) r) q = (res', q1)"
    by fastforce
  have "res' = res" "q1 = q'"
    using Router_route_eq [OF True send, of S now st] assms(3) by auto
  then show ?thesis
    using mailboxes.send_all_result [OF assms(1) send] subscription_list_table(2) [OF assms(2)]
    by (auto simp: matching_def)
next
  case False
  then show ?thesis
    using assms(3) by (simp add: Router_route_def)
qed

text \<open>
  C34: retained messages.  A PUBLISH with the retain flag replaces the retained message of its topic, or
  deletes it if the payload is empty; a message for a new topic is dropped when the limit is
  reached; a PUBLISH without the flag, or with an invalid topic, changes none.  The number of
  retained messages never grows beyond the limit, and saved sessions are not touched.
\<close>

theorem route_retains:
  assumes "reliable_storage S st_inv saved retained" "st_inv st"
    and "Router_route S C now r p (st, q) = (res, (st', q'))"
  shows "st_inv st' \<and> saved st' = saved st
    \<and> retained st' =
      (if \<not> pp_retain p \<or> pp_topic p = [] \<or> CHR 0x00 \<in> set (pp_topic p) then retained st
       else if pp_payload p = [] then (retained st)(pp_topic p := None)
       else if retained st (pp_topic p) = None
            \<and> r_retained_message_limit r \<le> card (dom (retained st)) then retained st
       else (retained st)(pp_topic p \<mapsto>
         \<lparr>pr_topic = pp_topic p, pr_payload = pp_payload p,
          pr_qos = stored_qos_from_qos (pp_qos p), pr_updated_at = now\<rparr>))
    \<and> (card (dom (retained st)) \<le> r_retained_message_limit r \<longrightarrow>
        card (dom (retained st')) \<le> r_retained_message_limit r)"
proof -
  have valid: "validate_publish_topic t \<longleftrightarrow> t \<noteq> [] \<and> CHR 0x00 \<notin> set t" for t
    by (simp add: validate_publish_topic_def str_contains_def)
  have "st' = (if pp_retain p \<and> validate_publish_topic (pp_topic p)
      then handle_retained_message S (r_retained_message_limit r) now p st else st)"
    using assms(3) by (auto simp: Router_route_def Let_def split: if_splits prod.splits)
  then show ?thesis
    using reliable_storage.handle_retained_message_effect [OF assms(1,2),
        of "r_retained_message_limit r" now p]
      reliable_storage.handle_retained_message_limit [OF assms(1,2),
        of "r_retained_message_limit r" now p] assms(2)
    by (auto simp: valid)
qed

subsection \<open>A concrete router\<close>

definition example_router :: Router where
  "example_router =
    snd (Router_subscribe memory_ops memory_new ''s'' 0 [(''a/#'', AtLeastOnce)] (Router_new 1))"

definition example_message :: PublishPacket where
  "example_message =
    \<lparr>pp_topic = ''a/b'', pp_packet_id = None, pp_payload = [1], pp_qos = ExactlyOnce,
     pp_retain = True, pp_dup = False\<rparr>"

definition example_mailboxes :: "channel \<Rightarrow> Packet list option" where
  "example_mailboxes = [0 \<mapsto> []]"

lemma example_router_eq:
  "example_router = \<lparr>r_filters = [(''a/#'', [(''s'', (0, AtLeastOnce))])],
    r_sessions = [(''s'', [''a/#''])], r_retained_message_limit = 1\<rparr>"
  by (simp add: example_router_def Router_subscribe_index index_subscribe_def
      validate_subscribe_filter_def str_contains_def insert_subscription_def Router_new_def)

lemma example_inv: "router_inv example_router"
  unfolding example_router_def by (rule index.inv_subscribe [OF router_inv_new])

lemma example_matching:
  "matching (pp_topic example_message) example_router = [(''s'', ''a/#'', 0, AtLeastOnce)]"
  by (simp add: example_router_eq example_message_def matching_def subscription_list_def
      topic_matches_def match_parts_levels level_ok_def)

lemma example_room:
  "card (due example_router (pp_topic example_message) c) = (if c = 0 then 1 else 0)"
  using length_copies [OF example_inv, of c "pp_topic example_message"]
  by (simp add: example_matching split: if_splits)

theorem route_delivers_witness:
  "\<exists>st' q'. Router_route memory_ops (bounded_chan 100) 7 example_router example_message
      (memory_new, example_mailboxes) = (Ok (), (st', q'))
    \<and> (\<forall>c. \<exists>xs. distinct xs
        \<and> set xs = {(s, f, qos). subscription_of example_router s f = Some (c, qos)
            \<and> topic_matches (pp_topic example_message) f}
        \<and> chan_queue q' c = chan_queue example_mailboxes c @
            (if example_mailboxes c \<noteq> None
             then map (\<lambda>(s, f, qos). Publish
                 \<lparr>pp_topic = pp_topic example_message, pp_packet_id = None,
                  pp_payload = pp_payload example_message,
                  pp_qos = min (pp_qos example_message) qos, pp_retain = False, pp_dup = False\<rparr>) xs
             else []))"
proof -
  have "\<forall>c. example_mailboxes c \<noteq> None \<longrightarrow> length (chan_queue example_mailboxes c)
      + card (due example_router (pp_topic example_message) c) \<le> 100"
    by (simp add: example_room example_mailboxes_def chan_queue_def)
  moreover have "validate_publish_topic (pp_topic example_message)"
    by (simp add: example_message_def validate_publish_topic_def str_contains_def)
  ultimately show ?thesis
    using route_delivers [OF mail.mailboxes_axioms example_inv, of example_message
        example_mailboxes 100 memory_ops 7 memory_new] by simp
qed

theorem route_waits_only_when_full_witness:
  "\<exists>res st' q'. Router_route memory_ops (bounded_chan 0) 7 example_router example_message
      (memory_new, example_mailboxes) = (res, (st', q')) \<and> res = Pending
    \<and> (res = Ok () \<or> res = Pending
      \<and> (\<exists>s f c qos. subscription_of example_router s f = Some (c, qos)
          \<and> topic_matches (pp_topic example_message) f
          \<and> example_mailboxes c \<noteq> None \<and> 0 \<le> length (chan_queue q' c)))"
proof -
  have send: "send_all (bounded_chan 0) example_message
      (matching (pp_topic example_message) example_router) example_mailboxes
      = (Pending, example_mailboxes)"
    by (simp add: example_matching bounded_chan_def example_mailboxes_def)
  have "validate_publish_topic (pp_topic example_message)"
    by (simp add: example_message_def validate_publish_topic_def str_contains_def)
  note run = Router_route_eq [OF this send, of memory_ops 7 memory_new]
  show ?thesis
    using run route_waits_only_when_full [OF mail.mailboxes_axioms example_inv run] by blast
qed

theorem route_retains_witness:
  "\<exists>res st' q'. Router_route memory_ops (bounded_chan 100) 7 example_router example_message
      (memory_new, example_mailboxes) = (res, (st', q'))
    \<and> memory_retained st' = [''a/b'' \<mapsto> \<lparr>pr_topic = ''a/b'', pr_payload = [1],
        pr_qos = StoredExactlyOnce, pr_updated_at = 7\<rparr>]"
proof -
  obtain res st' q' where run: "Router_route memory_ops (bounded_chan 100) 7 example_router
      example_message (memory_new, example_mailboxes) = (res, (st', q'))"
    by (metis prod.collapse)
  have "memory_retained memory_new = Map.empty"
    by (simp add: memory_retained_def memory_new_def)
  then show ?thesis
    using run route_retains [OF mem.reliable_storage_axioms memory_inv_new run]
    by (simp add: example_message_def example_router_eq)
qed

end
