(* ===== verification/Broker.thy ===== *)
theory Broker
  imports Routing Auth
begin

text \<open>
  The broker, \<^verbatim>\<open>src/broker.rs\<close>, with the parts of \<^verbatim>\<open>src/session.rs\<close> it sees: the session
  handle, the commands a session takes and the takeover action.  A takeover action is a closure
  over the sending end of a session's command channel; the model keeps that channel.

  \<open>env\<close> collects what does not change while the server runs: the storage backend, the channels,
  the readers and writers, the codec's buffers and the authenticator and authorizer; \<open>world\<close> collects the
  shared state.  The clock readings of a step are fields of the world.
\<close>

section \<open>Shared state\<close>

record TakeoverParams =
  tp_stream :: stream
  tp_clean_session :: bool
  tp_keep_alive :: u16

datatype Command = Takeover TakeoverParams | Cancel

type_synonym TakeoverAction = channel

record Session =
  s_id :: rstring
  s_command_tx :: channel

record Broker =
  b_sessions :: "(rstring, Session) hash_map"
  b_named_clients :: "(rstring, TakeoverAction) hash_map"
  b_router :: Router
  b_config :: Config

record ('st, 'q, 'k, 'w, 'b, 'r, 'c) env =
  e_storage :: "'st storage_ops"
  e_mail :: "(Packet, 'q) chan_ops"
  e_cmd :: "(Command, 'k) chan_ops"
  e_writer :: "'w writer_ops"
  e_buf :: "'b bufmut_ops"
  e_reader :: "'r reader_ops"
  e_cursor :: "'c buf_ops"
  e_authenticator :: Authenticator
  e_authorizer :: Authorizer

record ('st, 'q, 'k, 'w, 'r) world =
  w_broker :: Broker
  w_storage :: 'st
  w_mail :: 'q
  w_cmd :: 'k
  w_out :: 'w
  w_in :: "stream \<Rightarrow> 'r"
  w_instant :: nat
  w_utc :: datetime

section \<open>Operations\<close>

definition Broker_new :: "Config \<Rightarrow> Broker" where
  "Broker_new config =
    (let retained_message_limit = cfg_retained_message_limit config in
     \<lparr>b_sessions = [],
      b_named_clients = [],
      b_router = Router_new retained_message_limit,
      b_config = config\<rparr>)"

definition Broker_add_client :: "Session \<Rightarrow> Broker \<Rightarrow> Broker" where
  "Broker_add_client handle b =
    b\<lparr>b_sessions := AList.update (s_id handle) handle (b_sessions b)\<rparr>"

text \<open>\<open>Session::cancel\<close> and the takeover closure of \<open>make_takeover\<close>: both only log a failed send.\<close>

definition Session_cancel :: "(Command, 'k) chan_ops \<Rightarrow> Session \<Rightarrow> 'k \<Rightarrow> (unit, unit) outcome \<times> 'k" where
  "Session_cancel K session k = map_prod ignore_err id (ch_send K (s_command_tx session) Cancel k)"

definition run_takeover :: "(Command, 'k) chan_ops \<Rightarrow> TakeoverAction \<Rightarrow> stream \<Rightarrow> bool \<Rightarrow> u16 \<Rightarrow> 'k
    \<Rightarrow> (unit, unit) outcome \<times> 'k" where
  "run_takeover K takeover stream clean_session keep_alive k =
    (let params = \<lparr>tp_stream = stream, tp_clean_session = clean_session,
                   tp_keep_alive = keep_alive\<rparr>
     in map_prod ignore_err id (ch_send K takeover (Takeover params) k))"

fun cancel_sessions ::
  "(Command, 'k) chan_ops \<Rightarrow> Session list \<Rightarrow> 'k \<Rightarrow> (unit, unit) outcome \<times> 'k" where
  "cancel_sessions K [] k = (Ok (), k)"
| "cancel_sessions K (session # sessions) k =
    qmark (Session_cancel K session k) (\<lambda>_ k. cancel_sessions K sessions k)"

definition Broker_cancel_all_sessions :: "(Command, 'k) chan_ops \<Rightarrow> Broker \<times> 'k
    \<Rightarrow> (unit, unit) outcome \<times> (Broker \<times> 'k)" where
  "Broker_cancel_all_sessions K = (\<lambda>(b, k).
    let sessions = map snd (b_sessions b);
        b = b\<lparr>b_sessions := []\<rparr>
    in case cancel_sessions K sessions k of (res, k) \<Rightarrow>
      qmark (res, (b, k)) (\<lambda>_ (b, k). (Ok (), (b\<lparr>b_named_clients := []\<rparr>, k))))"

definition Broker_has_collision ::
  "rstring \<Rightarrow> TakeoverAction \<Rightarrow> Broker \<Rightarrow> TakeoverAction option \<times> Broker" where
  "Broker_has_collision client_id action b =
    (case map_of (b_named_clients b) client_id of
       Some entry \<Rightarrow> (Some entry, b)
     | None \<Rightarrow> (None, b\<lparr>b_named_clients := AList.update client_id action (b_named_clients b)\<rparr>))"

definition Broker_remove_session :: "rstring \<Rightarrow> rstring option \<Rightarrow> Broker \<Rightarrow> Broker" where
  "Broker_remove_session session_id client_id b =
    (let b = b\<lparr>b_router := Router_unsubscribe_all session_id (b_router b)\<rparr>;
         b = b\<lparr>b_sessions := AList.delete session_id (b_sessions b)\<rparr>
     in case client_id of
          Some cid \<Rightarrow> b\<lparr>b_named_clients := AList.delete cid (b_named_clients b)\<rparr>
        | None \<Rightarrow> b)"

definition Broker_subscribe :: "('st, 'q, 'k, 'w, 'b, 'r, 'c) env \<Rightarrow> rstring \<Rightarrow> Mailbox
    \<Rightarrow> (rstring \<times> QoS) list \<Rightarrow> ('st, 'q, 'k, 'w, 'r) world
    \<Rightarrow> (u8 list \<times> PublishPacket list) \<times> ('st, 'q, 'k, 'w, 'r) world" where
  "Broker_subscribe E session_id sender topic_filters w =
    (case Router_subscribe (e_storage E) (w_storage w) session_id sender topic_filters
        (b_router (w_broker w)) of
      (answer, r) \<Rightarrow> (answer, w\<lparr>w_broker := (w_broker w)\<lparr>b_router := r\<rparr>\<rparr>))"

definition Broker_unsubscribe ::
  "rstring \<Rightarrow> rstring list \<Rightarrow> ('st, 'q, 'k, 'w, 'r) world \<Rightarrow> ('st, 'q, 'k, 'w, 'r) world" where
  "Broker_unsubscribe session_id topic_filters w =
    w\<lparr>w_broker := (w_broker w)\<lparr>b_router :=
      Router_unsubscribe session_id topic_filters (b_router (w_broker w))\<rparr>\<rparr>"

definition Broker_unsubscribe_all ::
  "rstring \<Rightarrow> ('st, 'q, 'k, 'w, 'r) world \<Rightarrow> ('st, 'q, 'k, 'w, 'r) world" where
  "Broker_unsubscribe_all session_id w =
    w\<lparr>w_broker := (w_broker w)\<lparr>b_router :=
      Router_unsubscribe_all session_id (b_router (w_broker w))\<rparr>\<rparr>"

definition Broker_route :: "('st, 'q, 'k, 'w, 'b, 'r, 'c) env \<Rightarrow> PublishPacket \<Rightarrow> ('st, 'q, 'k, 'w, 'r) world
    \<Rightarrow> (unit, unit) outcome \<times> ('st, 'q, 'k, 'w, 'r) world" where
  "Broker_route E packet w =
    (case Router_route (e_storage E) (e_mail E) (w_utc w) (b_router (w_broker w)) packet
        (w_storage w, w_mail w) of
      (res, (st, q)) \<Rightarrow> (res, w\<lparr>w_storage := st, w_mail := q\<rparr>))"

definition Broker_get_subscriptions ::
  "rstring \<Rightarrow> ('st, 'q, 'k, 'w, 'r) world \<Rightarrow> (rstring \<times> QoS) list" where
  "Broker_get_subscriptions session_id w =
    Router_get_subscriptions session_id (b_router (w_broker w))"

end
