(* ===== verification/Session.thy ===== *)
theory Session
  imports Broker
begin

text \<open>
  The session task, \<^verbatim>\<open>src/session.rs\<close>: the runtime of one connection, the handlers of packets,
  mailbox messages, takeovers and timers, persistence, and the states of the main loop.  A
  handler maps the runtime and the shared world to a result and their new values; the result
  is \<open>Pending\<close> where the source would wait for a full channel.  Times are nanoseconds.
\<close>

section \<open>Data\<close>

datatype Qos2State = AwaitingPubRec | AwaitingPubComp

record InflightMessage =
  im_packet :: PublishPacket
  im_timestamp :: nat
  im_retry_count :: u32
  im_qos2_state :: "Qos2State option"

record ReceivedQos2Message = rq_packet :: PublishPacket

record WillMessage =
  wm_topic :: rstring
  wm_payload :: bytes
  wm_qos :: QoS
  wm_retain :: bool

record Runtime =
  rt_id :: rstring
  rt_client_id :: "rstring option"
  rt_takeover :: TakeoverAction
  rt_command_rx :: channel
  rt_message_tx :: Mailbox
  rt_message_rx :: channel
  rt_stream :: "stream option"
  rt_clean_session :: bool
  rt_keep_alive :: u16
  rt_will_message :: "WillMessage option"
  rt_next_packet_id :: u16
  rt_inflight_queue :: "InflightMessage list"
  rt_inbound_qos2 :: "(u16, ReceivedQos2Message) hash_map"

datatype State = Waiting | Processing | PendingState | Cleanup

datatype SessionError = IOError io_error | SendError Packet

type_synonym ('st, 'q, 'k, 'w, 'r) sstate = "Runtime \<times> ('st, 'q, 'k, 'w, 'r) world"
type_synonym ('st, 'q, 'k, 'w, 'b, 'r, 'c, 'a) handler =
  "('st, 'q, 'k, 'w, 'b, 'r, 'c) env \<Rightarrow> ('st, 'q, 'k, 'w, 'r) sstate
    \<Rightarrow> ('a, SessionError) outcome \<times> ('st, 'q, 'k, 'w, 'r) sstate"

text \<open>
  \<open>Session::new\<close>: the identifier comes from \<open>Uuid::new_v4\<close> and the channels from
  \<open>mpsc::channel\<close>.
\<close>

definition Session_new :: "rstring \<Rightarrow> channel \<Rightarrow> channel \<Rightarrow> stream \<Rightarrow> Session \<times> Runtime" where
  "Session_new sid command_ch message_ch stream =
    (\<lparr>s_id = sid, s_command_tx = command_ch\<rparr>,
     \<lparr>rt_id = sid,
      rt_client_id = None,
      rt_takeover = command_ch,
      rt_command_rx = command_ch,
      rt_message_tx = message_ch,
      rt_message_rx = message_ch,
      rt_stream = Some stream,
      rt_clean_session = True,
      rt_keep_alive = 0,
      rt_will_message = None,
      rt_next_packet_id = 1,
      rt_inflight_queue = [],
      rt_inbound_qos2 = []\<rparr>)"

section \<open>Sending\<close>

fun infallible :: "(unit, unit) outcome \<Rightarrow> (unit, 'e) outcome" where
  "infallible (Ok x) = Ok x"
| "infallible (Err x) = Ok ()"
| "infallible Panic = Panic"
| "infallible Pending = Pending"

definition send_packet :: "Packet \<Rightarrow> stream \<Rightarrow> ('st, 'q, 'k, 'w, 'b, 'r, 'c, unit) handler" where
  "send_packet packet writer E = (\<lambda>(rt, w).
    let buf = Packet_encode (e_buf E) packet (bytesmut_new (e_buf E)) in
    case write_all (e_writer E) writer (bytesmut_deref (e_buf E) buf) (w_out w) of
      (res, out) \<Rightarrow> (map_err IOError res, (rt, w\<lparr>w_out := out\<rparr>)))"

definition mailbox_send :: "Packet \<Rightarrow> ('st, 'q, 'k, 'w, 'b, 'r, 'c, unit) handler" where
  "mailbox_send packet E = (\<lambda>(rt, w).
    case ch_send (e_mail E) (rt_message_tx rt) packet (w_mail w) of
      (res, q) \<Rightarrow> (map_err SendError res, (rt, w\<lparr>w_mail := q\<rparr>)))"

definition session_route :: "PublishPacket \<Rightarrow> ('st, 'q, 'k, 'w, 'b, 'r, 'c, unit) handler" where
  "session_route packet E = (\<lambda>(rt, w).
    case Broker_route E packet w of (res, w) \<Rightarrow> (infallible res, (rt, w)))"

definition next_packet_id :: "Runtime \<Rightarrow> u16 \<times> Runtime" where
  "next_packet_id rt =
    (let packet_id = rt_next_packet_id rt in
     (packet_id, rt\<lparr>rt_next_packet_id :=
        (if rt_next_packet_id rt = 65535 then 1 else rt_next_packet_id rt + 1)\<rparr>))"

section \<open>Messages from the mailbox\<close>

text \<open>The two branches of \<open>on_message\<close> that assign a packet identifier differ in the QoS 2 state.\<close>

definition send_new_message ::
  "PublishPacket \<Rightarrow> Qos2State option \<Rightarrow> stream \<Rightarrow> ('st, 'q, 'k, 'w, 'b, 'r, 'c, unit) handler" where
  "send_new_message pub_packet qos2_state writer E = (\<lambda>(rt, w).
    case next_packet_id rt of (packet_id, rt) \<Rightarrow>
      let pub_packet = pub_packet\<lparr>pp_packet_id := Some packet_id\<rparr> in
      qmark (send_packet (Publish pub_packet) writer E (rt, w)) (\<lambda>_ (rt, w).
        let inflight =
          \<lparr>im_packet = pub_packet\<lparr>pp_dup := True\<rparr>,
           im_timestamp = w_instant w,
           im_retry_count = 0,
           im_qos2_state = qos2_state\<rparr>
        in (Ok (), (rt\<lparr>rt_inflight_queue := rt_inflight_queue rt @ [inflight]\<rparr>, w))))"

definition on_message :: "Packet \<Rightarrow> stream \<Rightarrow> ('st, 'q, 'k, 'w, 'b, 'r, 'c, unit) handler" where
  "on_message message writer E s =
    (case message of
       Publish pub_packet \<Rightarrow>
         (case pp_qos pub_packet of
            AtMostOnce \<Rightarrow> send_packet (Publish pub_packet) writer E s
          | AtLeastOnce \<Rightarrow>
              if \<not> pp_dup pub_packet then send_new_message pub_packet None writer E s
              else send_packet (Publish pub_packet) writer E s
          | ExactlyOnce \<Rightarrow>
              if \<not> pp_dup pub_packet
              then send_new_message pub_packet (Some AwaitingPubRec) writer E s
              else send_packet (Publish pub_packet) writer E s)
     | _ \<Rightarrow> (Ok (), s))"

section \<open>Packets from the client\<close>

definition retain_other :: "u16 \<Rightarrow> InflightMessage list \<Rightarrow> InflightMessage list" where
  "retain_other packet_id = filter (\<lambda>inflight. pp_packet_id (im_packet inflight) \<noteq> Some packet_id)"

definition on_puback :: "PubAckPacket \<Rightarrow> ('st, 'q, 'k, 'w, 'b, 'r, 'c, bool) handler" where
  "on_puback packet E = (\<lambda>(rt, w).
    (Ok True,
     (rt\<lparr>rt_inflight_queue := retain_other (pa_packet_id packet) (rt_inflight_queue rt)\<rparr>, w)))"

fun mark_pubrec :: "u16 \<Rightarrow> nat \<Rightarrow> InflightMessage list \<Rightarrow> InflightMessage list" where
  "mark_pubrec packet_id now [] = []"
| "mark_pubrec packet_id now (inflight # queue) =
    (if pp_packet_id (im_packet inflight) = Some packet_id
        \<and> im_qos2_state inflight = Some AwaitingPubRec
     then inflight\<lparr>im_qos2_state := Some AwaitingPubComp, im_timestamp := now,
                   im_retry_count := 0\<rparr> # queue
     else inflight # mark_pubrec packet_id now queue)"

definition on_pubrec :: "PubRecPacket \<Rightarrow> stream \<Rightarrow> ('st, 'q, 'k, 'w, 'b, 'r, 'c, bool) handler" where
  "on_pubrec packet writer E = (\<lambda>(rt, w).
    let rt = rt\<lparr>rt_inflight_queue :=
      mark_pubrec (prec_packet_id packet) (w_instant w) (rt_inflight_queue rt)\<rparr> in
    qmark (send_packet (PubRel \<lparr>prel_packet_id = prec_packet_id packet\<rparr>) writer E (rt, w))
      (\<lambda>_ s. (Ok True, s)))"

text \<open>\<open>self.client_id.as_deref().unwrap_or("")\<close>, and a branch on the authorizer's answer.\<close>

definition client_name :: "Runtime \<Rightarrow> rstring" where
  "client_name rt = (case rt_client_id rt of Some cid \<Rightarrow> cid | None \<Rightarrow> [])"

fun if_granted :: "(unit, AuthError) outcome \<Rightarrow> ('a, 'e) outcome \<times> 's \<Rightarrow> ('a, 'e) outcome \<times> 's
    \<Rightarrow> ('a, 'e) outcome \<times> 's" where
  "if_granted (Ok x) granted denied = granted"
| "if_granted (Err e) granted denied = denied"
| "if_granted Panic granted denied = (Panic, snd denied)"
| "if_granted Pending granted denied = (Pending, snd denied)"

definition route_authorized :: "PublishPacket \<Rightarrow> ('st, 'q, 'k, 'w, 'b, 'r, 'c, bool) handler" where
  "route_authorized packet E = (\<lambda>(rt, w).
    if_granted (authorize_publish (e_authorizer E) (client_name rt) (pp_topic packet))
      (qmark (session_route packet E (rt, w)) (\<lambda>_ s. (Ok True, s)))
      (Ok True, (rt, w)))"

definition on_pubrel :: "PubRelPacket \<Rightarrow> stream \<Rightarrow> ('st, 'q, 'k, 'w, 'b, 'r, 'c, bool) handler" where
  "on_pubrel packet writer E s =
    qmark (send_packet (PubComp \<lparr>pcomp_packet_id = prel_packet_id packet\<rparr>) writer E s)
      (\<lambda>_ (rt, w).
        case map_of (rt_inbound_qos2 rt) (prel_packet_id packet) of
          Some received \<Rightarrow>
            route_authorized (rq_packet received) E
              (rt\<lparr>rt_inbound_qos2 := AList.delete (prel_packet_id packet) (rt_inbound_qos2 rt)\<rparr>, w)
        | None \<Rightarrow> (Ok True, (rt, w)))"

definition on_pubcomp :: "PubCompPacket \<Rightarrow> ('st, 'q, 'k, 'w, 'b, 'r, 'c, bool) handler" where
  "on_pubcomp packet E = (\<lambda>(rt, w).
    (Ok True,
     (rt\<lparr>rt_inflight_queue := retain_other (pcomp_packet_id packet) (rt_inflight_queue rt)\<rparr>, w)))"

definition on_publish :: "PublishPacket \<Rightarrow> stream \<Rightarrow> ('st, 'q, 'k, 'w, 'b, 'r, 'c, bool) handler" where
  "on_publish packet writer E = (\<lambda>(rt, w).
    case pp_qos packet of
      AtLeastOnce \<Rightarrow>
        (case pp_packet_id packet of
           Some packet_id \<Rightarrow>
             qmark (send_packet (PubAck \<lparr>pa_packet_id = packet_id\<rparr>) writer E (rt, w)) (\<lambda>_ s.
               if pp_dup packet then (Ok True, s) else route_authorized packet E s)
         | None \<Rightarrow> (Ok False, (rt, w)))
    | ExactlyOnce \<Rightarrow>
        (case pp_packet_id packet of
           Some packet_id \<Rightarrow>
             if map_of (rt_inbound_qos2 rt) packet_id \<noteq> None then
               qmark (send_packet (PubRec \<lparr>prec_packet_id = packet_id\<rparr>) writer E (rt, w))
                 (\<lambda>_ s. (Ok True, s))
             else
               let rt = rt\<lparr>rt_inbound_qos2 :=
                 AList.update packet_id \<lparr>rq_packet = packet\<rparr> (rt_inbound_qos2 rt)\<rparr> in
               qmark (send_packet (PubRec \<lparr>prec_packet_id = packet_id\<rparr>) writer E (rt, w))
                 (\<lambda>_ s. (Ok True, s))
         | None \<Rightarrow> (Ok False, (rt, w)))
    | AtMostOnce \<Rightarrow> route_authorized packet E (rt, w))"

text \<open>The first loop of \<open>on_subscribe\<close>: the authorized filters and the indices of the others.\<close>

fun check_filters :: "Authorizer \<Rightarrow> rstring \<Rightarrow> nat \<Rightarrow> (rstring \<times> QoS) list \<Rightarrow> (rstring \<times> QoS) list
    \<Rightarrow> nat list \<Rightarrow> ((rstring \<times> QoS) list \<times> nat list, SessionError) outcome" where
  "check_filters A client_id i [] authorized denied = Ok (authorized, denied)"
| "check_filters A client_id i ((topic_filter, qos) # topic_filters) authorized denied =
    (case authorize_subscribe A client_id topic_filter of
       Ok x \<Rightarrow>
         check_filters A client_id (i + 1) topic_filters (authorized @ [(topic_filter, qos)]) denied
     | Err e \<Rightarrow> check_filters A client_id (i + 1) topic_filters authorized (denied @ [i])
     | Panic \<Rightarrow> Panic
     | Pending \<Rightarrow> Pending)"

text \<open>
  The second loop: \<open>fuel\<close> counts the iterations of \<open>for i in 0..len\<close>; indexing \<open>router_codes\<close>
  out of range panics.
\<close>

fun rebuild_codes :: "nat list \<Rightarrow> u8 list \<Rightarrow> nat \<Rightarrow> nat \<Rightarrow> nat \<Rightarrow> u8 list
    \<Rightarrow> (u8 list, SessionError) outcome" where
  "rebuild_codes denied router_codes 0 i router_idx return_codes = Ok return_codes"
| "rebuild_codes denied router_codes (Suc n) i router_idx return_codes =
    (if i \<in> set denied then
       rebuild_codes denied router_codes n (i + 1) router_idx (return_codes @ [FAILURE])
     else if router_idx < length router_codes then
       rebuild_codes denied router_codes n (i + 1) (router_idx + 1)
         (return_codes @ [router_codes ! router_idx])
     else Panic)"

fun send_retained :: "PublishPacket list \<Rightarrow> ('st, 'q, 'k, 'w, 'b, 'r, 'c, unit) handler" where
  "send_retained [] E s = (Ok (), s)"
| "send_retained (retained_msg # retained_messages) E s =
    qmark (mailbox_send (Publish retained_msg) E s) (\<lambda>_ s. send_retained retained_messages E s)"

definition on_subscribe :: "SubscribePacket \<Rightarrow> stream \<Rightarrow> ('st, 'q, 'k, 'w, 'b, 'r, 'c, bool) handler" where
  "on_subscribe packet writer E = (\<lambda>(rt, w).
    qmark (check_filters (e_authorizer E) (client_name rt) 0 (sp_topic_filters packet) [] [], (rt, w))
      (\<lambda>(authorized_filters, denied_indices) (rt, w).
        let ((router_codes, retained_messages), w) =
          (if authorized_filters \<noteq> []
           then Broker_subscribe E (rt_id rt) (rt_message_tx rt) authorized_filters w
           else (([], []), w))
        in qmark
          (rebuild_codes denied_indices router_codes (length (sp_topic_filters packet)) 0 0 [], (rt, w))
          (\<lambda>return_codes s.
            qmark (send_packet (SubAck \<lparr>sa_packet_id = sp_packet_id packet,
                sa_return_codes = return_codes\<rparr>) writer E s) (\<lambda>_ s.
              qmark (send_retained retained_messages E s) (\<lambda>_ s. (Ok True, s))))))"

definition on_unsubscribe :: "UnsubscribePacket \<Rightarrow> stream \<Rightarrow> ('st, 'q, 'k, 'w, 'b, 'r, 'c, bool) handler" where
  "on_unsubscribe packet writer E = (\<lambda>(rt, w).
    let w = Broker_unsubscribe (rt_id rt) (up_topic_filters packet) w in
    qmark (send_packet (UnsubAck \<lparr>ua_packet_id = up_packet_id packet\<rparr>) writer E (rt, w))
      (\<lambda>_ s. (Ok True, s)))"

definition on_pingreq :: "stream \<Rightarrow> ('st, 'q, 'k, 'w, 'b, 'r, 'c, bool) handler" where
  "on_pingreq writer E s = qmark (send_packet PingResp writer E s) (\<lambda>_ s. (Ok True, s))"

definition on_disconnect :: "('st, 'q, 'k, 'w, 'b, 'r, 'c, bool) handler" where
  "on_disconnect E = (\<lambda>(rt, w). (Ok False, (rt\<lparr>rt_will_message := None\<rparr>, w)))"

definition on_packet :: "Packet \<Rightarrow> stream \<Rightarrow> ('st, 'q, 'k, 'w, 'b, 'r, 'c, bool) handler" where
  "on_packet pack writer E s =
    (case pack of
       Publish p \<Rightarrow> on_publish p writer E s
     | PubAck p \<Rightarrow> on_puback p E s
     | PubRec p \<Rightarrow> on_pubrec p writer E s
     | PubRel p \<Rightarrow> on_pubrel p writer E s
     | PubComp p \<Rightarrow> on_pubcomp p E s
     | Subscribe p \<Rightarrow> on_subscribe p writer E s
     | Unsubscribe p \<Rightarrow> on_unsubscribe p writer E s
     | PingReq \<Rightarrow> on_pingreq writer E s
     | Disconnect \<Rightarrow> on_disconnect E s
     | _ \<Rightarrow> (Ok False, s))"

section \<open>Retransmission and the will\<close>

definition elapsed_ms :: "nat \<Rightarrow> nat \<Rightarrow> u64" where
  "elapsed_ms now timestamp = word_of_nat ((now - timestamp) div 1000000)"

text \<open>The closure given to \<open>retain_mut\<close>, with the two vectors it fills.\<close>

fun retransmit_scan :: "u64 \<Rightarrow> u32 \<Rightarrow> nat \<Rightarrow> InflightMessage list
    \<Rightarrow> InflightMessage list \<times> PublishPacket list \<times> u16 list" where
  "retransmit_scan interval limit now [] = ([], [], [])"
| "retransmit_scan interval limit now (inflight # queue) =
    (let (kept, publishes, pubrels) = retransmit_scan interval limit now queue in
     if elapsed_ms now (im_timestamp inflight) \<ge> interval then
       let inflight = inflight\<lparr>im_retry_count := im_retry_count inflight + 1, im_timestamp := now\<rparr> in
       if im_retry_count inflight > limit then (kept, publishes, pubrels)
       else
         (case im_qos2_state inflight of
            Some AwaitingPubComp \<Rightarrow>
              (case pp_packet_id (im_packet inflight) of
                 Some packet_id \<Rightarrow> (inflight # kept, publishes, packet_id # pubrels)
               | None \<Rightarrow> (inflight # kept, publishes, pubrels))
          | _ \<Rightarrow> (inflight # kept, im_packet inflight # publishes, pubrels))
     else (inflight # kept, publishes, pubrels))"

fun resend_publishes :: "PublishPacket list \<Rightarrow> ('st, 'q, 'k, 'w, 'b, 'r, 'c, unit) handler" where
  "resend_publishes [] E s = (Ok (), s)"
| "resend_publishes (packet # packets) E s =
    qmark (mailbox_send (Publish packet) E s) (\<lambda>_ s. resend_publishes packets E s)"

fun resend_pubrels :: "u16 list \<Rightarrow> stream \<Rightarrow> ('st, 'q, 'k, 'w, 'b, 'r, 'c, unit) handler" where
  "resend_pubrels [] writer E s = (Ok (), s)"
| "resend_pubrels (packet_id # packet_ids) writer E s =
    qmark (send_packet (PubRel \<lparr>prel_packet_id = packet_id\<rparr>) writer E s)
      (\<lambda>_ s. resend_pubrels packet_ids writer E s)"

definition on_retransmit :: "stream \<Rightarrow> ('st, 'q, 'k, 'w, 'b, 'r, 'c, unit) handler" where
  "on_retransmit writer E = (\<lambda>(rt, w).
    let interval = get_retransmission_interval_ms (b_config (w_broker w)) in
    if interval = 0 then (Ok (), (rt, w))
    else
      let limit = cfg_max_retransmission_limit (b_config (w_broker w));
          (kept, publishes, pubrels) =
            retransmit_scan interval limit (w_instant w) (rt_inflight_queue rt);
          rt = rt\<lparr>rt_inflight_queue := kept\<rparr>
      in qmark (resend_publishes publishes E (rt, w)) (\<lambda>_ s. resend_pubrels pubrels writer E s))"

definition will_packet :: "WillMessage \<Rightarrow> PublishPacket" where
  "will_packet will =
    \<lparr>pp_topic = wm_topic will,
     pp_packet_id = None,
     pp_payload = wm_payload will,
     pp_qos = AtMostOnce,
     pp_retain = wm_retain will,
     pp_dup = False\<rparr>"

definition publish_will :: "('st, 'q, 'k, 'w, 'b, 'r, 'c, unit) handler" where
  "publish_will E = (\<lambda>(rt, w).
    case rt_will_message rt of
      Some will \<Rightarrow> session_route (will_packet will) E (rt\<lparr>rt_will_message := None\<rparr>, w)
    | None \<Rightarrow> (Ok (), (rt, w)))"

section \<open>Persistence\<close>

fun persist_qos2 :: "Qos2State \<Rightarrow> PersistedQos2State" where
  "persist_qos2 AwaitingPubRec = PersistedAwaitingPubRec"
| "persist_qos2 AwaitingPubComp = PersistedAwaitingPubComp"

fun restore_qos2 :: "PersistedQos2State \<Rightarrow> Qos2State" where
  "restore_qos2 PersistedAwaitingPubRec = AwaitingPubRec"
| "restore_qos2 PersistedAwaitingPubComp = AwaitingPubComp"

definition persist_will :: "WillMessage \<Rightarrow> PersistedWillMessage" where
  "persist_will w =
    \<lparr>pw_topic = wm_topic w, pw_payload = wm_payload w, pw_qos = stored_qos_from_qos (wm_qos w),
     pw_retain = wm_retain w\<rparr>"

definition restore_will :: "PersistedWillMessage \<Rightarrow> WillMessage" where
  "restore_will w =
    \<lparr>wm_topic = pw_topic w, wm_payload = pw_payload w, wm_qos = qos_from_stored_qos (pw_qos w),
     wm_retain = pw_retain w\<rparr>"

definition persist_subscription :: "rstring \<Rightarrow> rstring \<times> QoS \<Rightarrow> PersistedSubscription" where
  "persist_subscription client_id = (\<lambda>(filt, qos).
    \<lparr>psub_client_id = client_id, psub_topic_filter = filt, psub_qos = stored_qos_from_qos qos\<rparr>)"

definition restore_subscription :: "PersistedSubscription \<Rightarrow> rstring \<times> QoS" where
  "restore_subscription s = (psub_topic_filter s, qos_from_stored_qos (psub_qos s))"

definition persist_inflight ::
  "rstring \<Rightarrow> datetime \<Rightarrow> InflightMessage \<Rightarrow> PersistedInflightMessage" where
  "persist_inflight client_id now inflight =
    \<lparr>pi_client_id = client_id,
     pi_packet_id = (case pp_packet_id (im_packet inflight) of Some i \<Rightarrow> i | None \<Rightarrow> 0),
     pi_topic = pp_topic (im_packet inflight),
     pi_payload = pp_payload (im_packet inflight),
     pi_qos = stored_qos_from_qos (pp_qos (im_packet inflight)),
     pi_retain = pp_retain (im_packet inflight),
     pi_retry_count = im_retry_count inflight,
     pi_qos2_state = map_option persist_qos2 (im_qos2_state inflight),
     pi_created_at = now\<rparr>"

definition restore_inflight :: "nat \<Rightarrow> PersistedInflightMessage \<Rightarrow> InflightMessage" where
  "restore_inflight now msg =
    \<lparr>im_packet =
       \<lparr>pp_topic = pi_topic msg,
        pp_packet_id = Some (pi_packet_id msg),
        pp_payload = pi_payload msg,
        pp_qos = qos_from_stored_qos (pi_qos msg),
        pp_retain = pi_retain msg,
        pp_dup = True\<rparr>,
     im_timestamp = now,
     im_retry_count = pi_retry_count msg,
     im_qos2_state = map_option restore_qos2 (pi_qos2_state msg)\<rparr>"

definition persist_inbound ::
  "rstring \<Rightarrow> datetime \<Rightarrow> u16 \<times> ReceivedQos2Message \<Rightarrow> PersistedInboundQos2Message" where
  "persist_inbound client_id now = (\<lambda>(packet_id, received).
    \<lparr>pb_client_id = client_id,
     pb_packet_id = packet_id,
     pb_topic = pp_topic (rq_packet received),
     pb_payload = pp_payload (rq_packet received),
     pb_retain = pp_retain (rq_packet received),
     pb_received_at = now\<rparr>)"

definition restore_inbound :: "PersistedInboundQos2Message \<Rightarrow> ReceivedQos2Message" where
  "restore_inbound msg =
    \<lparr>rq_packet =
       \<lparr>pp_topic = pb_topic msg,
        pp_packet_id = Some (pb_packet_id msg),
        pp_payload = pb_payload msg,
        pp_qos = ExactlyOnce,
        pp_retain = pb_retain msg,
        pp_dup = False\<rparr>\<rparr>"

definition save_to_storage :: "('st, 'q, 'k, 'w, 'b, 'r, 'c) env \<Rightarrow> ('st, 'q, 'k, 'w, 'r) sstate
    \<Rightarrow> ('st, 'q, 'k, 'w, 'r) sstate" where
  "save_to_storage E = (\<lambda>(rt, w).
    case rt_client_id rt of
      None \<Rightarrow> (rt, w)
    | Some client_id \<Rightarrow>
        let now = w_utc w;
            persisted_session =
              \<lparr>ps_client_id = client_id,
               ps_next_packet_id = rt_next_packet_id rt,
               ps_keep_alive = rt_keep_alive rt,
               ps_will_message = map_option persist_will (rt_will_message rt),
               ps_created_at = now,
               ps_updated_at = now\<rparr>;
            router_subs = Broker_get_subscriptions (rt_id rt) w;
            persisted_subs = map (persist_subscription client_id) router_subs;
            persisted_inflight = map (persist_inflight client_id now) (rt_inflight_queue rt);
            persisted_inbound_qos2 = map (persist_inbound client_id now) (rt_inbound_qos2 rt)
        in (rt, w\<lparr>w_storage := snd (save_session (e_storage E) persisted_session persisted_subs
              persisted_inflight persisted_inbound_qos2 (w_storage w))\<rparr>))"

definition or_empty :: "'a list storage_result \<Rightarrow> 'a list" where
  "or_empty res = (case res of Inr xs \<Rightarrow> xs | Inl e \<Rightarrow> [])"

definition restore_from_storage :: "rstring \<Rightarrow> ('st, 'q, 'k, 'w, 'b, 'r, 'c) env
    \<Rightarrow> ('st, 'q, 'k, 'w, 'r) sstate \<Rightarrow> bool \<times> ('st, 'q, 'k, 'w, 'r) sstate" where
  "restore_from_storage client_id E = (\<lambda>(rt, w).
    case load_session (e_storage E) client_id (w_storage w) of
      Inr (Some persisted_session) \<Rightarrow>
        let persisted_subs = or_empty (load_subscriptions (e_storage E) client_id (w_storage w));
            persisted_inflight =
              or_empty (load_inflight_messages (e_storage E) client_id (w_storage w));
            persisted_inbound_qos2 =
              or_empty (load_inbound_qos2_messages (e_storage E) client_id (w_storage w));
            rt = rt\<lparr>rt_next_packet_id := ps_next_packet_id persisted_session,
                    rt_keep_alive := ps_keep_alive persisted_session,
                    rt_will_message := map_option restore_will (ps_will_message persisted_session)\<rparr>;
            topic_filters = map restore_subscription persisted_subs;
            w = (if topic_filters \<noteq> []
                 then snd (Broker_subscribe E (rt_id rt) (rt_message_tx rt) topic_filters w)
                 else w);
            rt = rt\<lparr>rt_inflight_queue := rt_inflight_queue rt
                      @ map (restore_inflight (w_instant w)) persisted_inflight\<rparr>;
            rt = rt\<lparr>rt_inbound_qos2 := fold
                      (\<lambda>msg. AList.update (pb_packet_id msg) (restore_inbound msg))
                      persisted_inbound_qos2 (rt_inbound_qos2 rt)\<rparr>;
            w = w\<lparr>w_storage := snd (delete_session (e_storage E) client_id (w_storage w))\<rparr>
        in (True, (rt, w))
    | Inr None \<Rightarrow> (False, (rt, w))
    | Inl e \<Rightarrow> (False, (rt, w)))"

section \<open>Connecting and taking over\<close>

definition ascii_alphanumeric :: "char \<Rightarrow> bool" where
  "ascii_alphanumeric c \<longleftrightarrow>
    (let n = (of_char c :: nat) in
     48 \<le> n \<and> n \<le> 57 \<or> 65 \<le> n \<and> n \<le> 90 \<or> 97 \<le> n \<and> n \<le> 122)"

definition validate_client_id :: "rstring \<Rightarrow> bool \<Rightarrow> u8 + unit" where
  "validate_client_id client_id clean_session =
    (if client_id \<noteq> [] then
       if length client_id > 23 then Inl IDENTIFIER_REJECTED
       else if \<not> list_all ascii_alphanumeric client_id then Inl IDENTIFIER_REJECTED
       else Inr ()
     else if \<not> clean_session then Inl IDENTIFIER_REJECTED
     else Inr ())"

definition send_connack_error :: "stream \<Rightarrow> u8 \<Rightarrow> ('st, 'q, 'k, 'w, 'b, 'r, 'c, unit) handler" where
  "send_connack_error stream return_code E s =
    send_packet (ConnAck \<lparr>ca_session_present = False, ca_return_code = return_code\<rparr>) stream E s"

text \<open>A refusal: the CONNACK with its code, then \<open>State::Cleanup\<close>.\<close>

definition refuse :: "stream \<Rightarrow> u8 \<Rightarrow> ('st, 'q, 'k, 'w, 'b, 'r, 'c, State) handler" where
  "refuse stream return_code E s =
    qmark (send_connack_error stream return_code E s) (\<lambda>_ s. (Ok Cleanup, s))"

definition connect_will :: "ConnectPacket \<Rightarrow> Runtime \<Rightarrow> Runtime" where
  "connect_will connect rt =
    (if cp_will_flag connect then
       (case (cp_will_topic connect, cp_will_payload connect) of
          (Some topic, Some payload) \<Rightarrow>
            rt\<lparr>rt_will_message := Some \<lparr>wm_topic = topic, wm_payload = payload,
              wm_qos = cp_will_qos connect, wm_retain = cp_will_retain connect\<rparr>\<rparr>
        | _ \<Rightarrow> rt)
     else rt)"

text \<open>The end of \<open>on_connect\<close>: accept, keep the stream and go on to \<open>State::Processing\<close>.\<close>

definition accept_connect :: "stream \<Rightarrow> bool \<Rightarrow> ('st, 'q, 'k, 'w, 'b, 'r, 'c, State) handler" where
  "accept_connect stream session_present E s =
    qmark (send_packet (ConnAck \<lparr>ca_session_present = session_present, ca_return_code = ACCEPTED\<rparr>)
        stream E s)
      (\<lambda>_ (rt, w). (Ok Processing, (rt\<lparr>rt_stream := Some stream\<rparr>, w)))"

text \<open>The client identifier part of \<open>on_connect\<close>: takeover, or cleaning or restoring the session.\<close>

definition connect_identified ::
  "ConnectPacket \<Rightarrow> stream \<Rightarrow> ('st, 'q, 'k, 'w, 'b, 'r, 'c, State) handler" where
  "connect_identified connect stream E = (\<lambda>(rt, w).
    let rt = rt\<lparr>rt_client_id := Some (cp_client_id connect)\<rparr> in
    case Broker_has_collision (cp_client_id connect) (rt_takeover rt) (w_broker w) of
      (Some takeover, b) \<Rightarrow>
        (case run_takeover (e_cmd E) takeover stream (cp_clean_session connect)
            (cp_keep_alive connect) (w_cmd w) of
          (res, k) \<Rightarrow>
            qmark (infallible res, (rt, w\<lparr>w_broker := b, w_cmd := k\<rparr>)) (\<lambda>_ s. (Ok Cleanup, s)))
    | (None, b) \<Rightarrow>
        let w = w\<lparr>w_broker := b\<rparr> in
        if cp_clean_session connect then
          accept_connect stream False E
            (rt, w\<lparr>w_storage :=
              snd (delete_session (e_storage E) (cp_client_id connect) (w_storage w))\<rparr>)
        else
          (case restore_from_storage (cp_client_id connect) E (rt, w) of
            (session_present, s) \<Rightarrow> accept_connect stream session_present E s))"

definition on_connect :: "ConnectPacket \<Rightarrow> stream \<Rightarrow> ('st, 'q, 'k, 'w, 'b, 'r, 'c, State) handler" where
  "on_connect connect stream E = (\<lambda>(rt, w).
    if cp_protocol_name connect \<noteq> PROTOCOL_NAME \<or> cp_protocol_level connect \<noteq> PROTOCOL_LEVEL
    then refuse stream UNACCEPTABLE_PROTOCOL_VERSION E (rt, w)
    else case validate_client_id (cp_client_id connect) (cp_clean_session connect) of
      Inl return_code \<Rightarrow> refuse stream return_code E (rt, w)
    | Inr _ \<Rightarrow>
        let credentials = \<lparr>cred_username = cp_username connect, cred_password = cp_password connect,
                           cred_client_id = cp_client_id connect\<rparr> in
        case e_authenticator E credentials of
          Ok _ \<Rightarrow>
            let rt = rt\<lparr>rt_clean_session := cp_clean_session connect,
                        rt_keep_alive := cp_keep_alive connect\<rparr>;
                rt = connect_will connect rt
            in if cp_client_id connect \<noteq> [] then connect_identified connect stream E (rt, w)
               else accept_connect stream False E (rt, w)
        | Err InvalidCredentials \<Rightarrow> refuse stream BAD_USERNAME_OR_PASSWORD E (rt, w)
        | Err e \<Rightarrow> refuse stream NOT_AUTHORIZED E (rt, w)
        | Panic \<Rightarrow> (Panic, (rt, w))
        | Pending \<Rightarrow> (Pending, (rt, w)))"

definition on_takeover :: "stream \<Rightarrow> bool \<Rightarrow> u16 \<Rightarrow> ('st, 'q, 'k, 'w, 'b, 'r, 'c, unit) handler" where
  "on_takeover stream clean_session keep_alive E s =
    (let session_present = (\<not> clean_session) in
     qmark (send_packet (ConnAck \<lparr>ca_session_present = session_present, ca_return_code = ACCEPTED\<rparr>)
         stream E s)
       (\<lambda>_ (rt, w).
         let rt = rt\<lparr>rt_clean_session := clean_session, rt_keep_alive := keep_alive\<rparr> in
         if clean_session then
           let w = Broker_unsubscribe_all (rt_id rt) w;
               w = (case rt_client_id rt of
                      Some client_id \<Rightarrow>
                        w\<lparr>w_storage := snd (delete_session (e_storage E) client_id (w_storage w))\<rparr>
                    | None \<Rightarrow> w)
           in (Ok (), (rt\<lparr>rt_inflight_queue := []\<rparr>, w))
         else (Ok (), (rt, w))))"

section \<open>The main loop\<close>

text \<open>
  One branch of a \<open>select!\<close> completes: a packet is decoded, a mailbox message or a command is
  received, or a timer ticks.  When another branch wins after the decoder was polled, the
  decoder's future is dropped with the bytes it has taken; the flag says whether it was polled.
\<close>

datatype loop_event =
    EvPacket
  | EvMessage bool
  | EvCommand bool
  | EvKeepAlive bool
  | EvRetransmit bool

datatype loop_result = Continue | Break State

definition decode_from :: "stream \<Rightarrow> ('st, 'q, 'k, 'w, 'b, 'r, 'c) env \<Rightarrow> ('st, 'q, 'k, 'w, 'r) world
    \<Rightarrow> (Packet, PacketError) outcome \<times> ('st, 'q, 'k, 'w, 'r) world" where
  "decode_from stream E w =
    (case Packet_decode (e_reader E) (e_cursor E) (w_in w stream) of
      (pack, r) \<Rightarrow> (pack, w\<lparr>w_in := (w_in w)(stream := r)\<rparr>))"

definition drop_decode :: "bool \<Rightarrow> stream \<Rightarrow> ('st, 'q, 'k, 'w, 'b, 'r, 'c) env
    \<Rightarrow> ('st, 'q, 'k, 'w, 'r) world \<Rightarrow> ('st, 'q, 'k, 'w, 'r) world" where
  "drop_decode polled stream E w =
    (if polled then
       (case decode_from stream E w of (Pending, w') \<Rightarrow> w' | _ \<Rightarrow> w)
     else w)"

definition recv_command :: "('st, 'q, 'k, 'w, 'b, 'r, 'c) env \<Rightarrow> ('st, 'q, 'k, 'w, 'r) sstate
    \<Rightarrow> (Command option, SessionError) outcome \<times> ('st, 'q, 'k, 'w, 'r) sstate" where
  "recv_command E = (\<lambda>(rt, w).
    case ch_recv (e_cmd E) (rt_command_rx rt) (w_cmd w) of
      (Ok command, k) \<Rightarrow> (Ok command, (rt, w\<lparr>w_cmd := k\<rparr>))
    | (Err _, k) \<Rightarrow> (Ok None, (rt, w\<lparr>w_cmd := k\<rparr>))
    | (Panic, k) \<Rightarrow> (Panic, (rt, w\<lparr>w_cmd := k\<rparr>))
    | (Pending, k) \<Rightarrow> (Pending, (rt, w\<lparr>w_cmd := k\<rparr>)))"

definition recv_message :: "('st, 'q, 'k, 'w, 'b, 'r, 'c) env \<Rightarrow> ('st, 'q, 'k, 'w, 'r) sstate
    \<Rightarrow> (Packet, SessionError) outcome \<times> ('st, 'q, 'k, 'w, 'r) sstate" where
  "recv_message E = (\<lambda>(rt, w).
    case ch_recv (e_mail E) (rt_message_rx rt) (w_mail w) of
      (Ok (Some message), q) \<Rightarrow> (Ok message, (rt, w\<lparr>w_mail := q\<rparr>))
    | (Panic, q) \<Rightarrow> (Panic, (rt, w\<lparr>w_mail := q\<rparr>))
    | (_, q) \<Rightarrow> (Pending, (rt, w\<lparr>w_mail := q\<rparr>)))"

fun catch_err :: "'a \<Rightarrow> ('a, 'e) outcome \<times> 's \<Rightarrow> ('a, 'e) outcome \<times> 's" where
  "catch_err d (Ok a, s) = (Ok a, s)"
| "catch_err d (Err e, s) = (Ok d, s)"
| "catch_err d (Panic, s) = (Panic, s)"
| "catch_err d (Pending, s) = (Pending, s)"

definition do_waiting :: "loop_event \<Rightarrow> ('st, 'q, 'k, 'w, 'b, 'r, 'c, State) handler" where
  "do_waiting ev E = (\<lambda>(rt, w).
    case rt_stream rt of
      None \<Rightarrow> (Ok Cleanup, (rt, w))
    | Some stream \<Rightarrow>
        let rt = rt\<lparr>rt_stream := None\<rparr> in
        case ev of
          EvPacket \<Rightarrow>
            (case decode_from stream E w of
               (Ok (Connect connect), w) \<Rightarrow>
                 catch_err Cleanup (on_connect connect stream E (rt, w))
             | (Ok _, w) \<Rightarrow> (Ok Cleanup, (rt, w))
             | (Err _, w) \<Rightarrow> (Ok Cleanup, (rt, w))
             | (Panic, w) \<Rightarrow> (Panic, (rt, w))
             | (Pending, w) \<Rightarrow> (Pending, (rt, w)))
        | EvCommand polled \<Rightarrow>
            qmark (recv_command E (rt, drop_decode polled stream E w)) (\<lambda>_ s. (Ok Cleanup, s))
        | _ \<Rightarrow> (Pending, (rt, w)))"

text \<open>
  The periods of the two timers that \<open>do_processing\<close> starts, in milliseconds;
  \<open>tokio::time::interval\<close> panics on a period of zero.
\<close>

definition keep_alive_timeout :: "u16 \<Rightarrow> u64" where
  "keep_alive_timeout keep_alive_secs =
    (if keep_alive_secs > 0 then ucast keep_alive_secs * 1500
     else 3600 * 24 * 365 * 1000)"

definition timer_interval :: "Config \<Rightarrow> u64" where
  "timer_interval config =
    (let retransmission_interval_ms = get_retransmission_interval_ms config in
     if retransmission_interval_ms > 0 then retransmission_interval_ms div 2
     else 3600 * 24 * 1000)"

definition start_processing :: "('st, 'q, 'k, 'w, 'r) sstate
    \<Rightarrow> ((stream \<times> u16) option, SessionError) outcome \<times> ('st, 'q, 'k, 'w, 'r) sstate" where
  "start_processing = (\<lambda>(rt, w).
    case rt_stream rt of
      None \<Rightarrow> (Ok None, (rt, w))
    | Some stream \<Rightarrow>
        if keep_alive_timeout (rt_keep_alive rt) = 0 \<or> timer_interval (b_config (w_broker w)) = 0
        then (Panic, (rt\<lparr>rt_stream := None\<rparr>, w))
        else (Ok (Some (stream, rt_keep_alive rt)), (rt\<lparr>rt_stream := None\<rparr>, w)))"

text \<open>\<open>next_state\<close> after a failure: \<open>Pending\<close> for a persistent session, else \<open>Cleanup\<close>.\<close>

definition after_failure :: "bool \<Rightarrow> State" where
  "after_failure clean_session = (if \<not> clean_session then PendingState else Cleanup)"

definition break_off :: "('st, 'q, 'k, 'w, 'r) sstate
    \<Rightarrow> (loop_result, SessionError) outcome \<times> ('st, 'q, 'k, 'w, 'r) sstate" where
  "break_off s = (Ok (Break (after_failure (rt_clean_session (fst s)))), s)"

fun continue_if :: "(bool, SessionError) outcome \<times> ('st, 'q, 'k, 'w, 'r) sstate
    \<Rightarrow> (loop_result, SessionError) outcome \<times> ('st, 'q, 'k, 'w, 'r) sstate" where
  "continue_if (Ok success, s) = (if success then (Ok Continue, s) else break_off s)"
| "continue_if (Err e, s) = break_off s"
| "continue_if (Panic, s) = (Panic, s)"
| "continue_if (Pending, s) = (Pending, s)"

definition processing_takeover :: "TakeoverParams \<Rightarrow> stream
    \<Rightarrow> ('st, 'q, 'k, 'w, 'b, 'r, 'c, loop_result) handler" where
  "processing_takeover params writer E s =
    qmark (catch_err () (send_packet Disconnect writer E s)) (\<lambda>_ s.
      case on_takeover (tp_stream params) (tp_clean_session params) (tp_keep_alive params) E s of
        (Ok _, (rt, w)) \<Rightarrow>
          (Ok (Break Processing), (rt\<lparr>rt_stream := Some (tp_stream params)\<rparr>, w))
      | (Err e, s) \<Rightarrow> (Ok (Break (after_failure (tp_clean_session params))), s)
      | (Panic, s) \<Rightarrow> (Panic, s)
      | (Pending, s) \<Rightarrow> (Pending, s))"

definition processing_event :: "loop_event \<Rightarrow> stream \<Rightarrow> u16
    \<Rightarrow> ('st, 'q, 'k, 'w, 'b, 'r, 'c, loop_result) handler" where
  "processing_event ev stream keep_alive_secs E = (\<lambda>(rt, w).
    case ev of
      EvPacket \<Rightarrow>
        (case decode_from stream E w of
           (Ok pack, w) \<Rightarrow> continue_if (on_packet pack stream E (rt, w))
         | (Err _, w) \<Rightarrow> break_off (rt, w)
         | (Panic, w) \<Rightarrow> (Panic, (rt, w))
         | (Pending, w) \<Rightarrow> (Pending, (rt, w)))
    | EvMessage polled \<Rightarrow>
        qmark (recv_message E (rt, drop_decode polled stream E w)) (\<lambda>message s.
          continue_if (qmark (on_message message stream E s) (\<lambda>_ s. (Ok True, s))))
    | EvCommand polled \<Rightarrow>
        qmark (recv_command E (rt, drop_decode polled stream E w)) (\<lambda>command s.
          case command of
            Some (Takeover params) \<Rightarrow> processing_takeover params stream E s
          | _ \<Rightarrow> (Ok (Break Cleanup), s))
    | EvKeepAlive polled \<Rightarrow>
        let s = (rt, drop_decode polled stream E w) in
        if keep_alive_secs > 0 then break_off s else (Ok Continue, s)
    | EvRetransmit polled \<Rightarrow>
        continue_if (qmark (on_retransmit stream E (rt, drop_decode polled stream E w))
          (\<lambda>_ s. (Ok True, s))))"

text \<open>\<open>do_pending\<close> after the session was saved: the next command.\<close>

definition pending_command :: "('st, 'q, 'k, 'w, 'b, 'r, 'c, State) handler" where
  "pending_command E s =
    qmark (recv_command E s) (\<lambda>command s.
      case command of
        Some (Takeover params) \<Rightarrow>
          (case on_takeover (tp_stream params) (tp_clean_session params) (tp_keep_alive params) E s of
             (Ok _, (rt, w)) \<Rightarrow> (Ok Processing, (rt\<lparr>rt_stream := Some (tp_stream params)\<rparr>, w))
           | (Err e, s) \<Rightarrow> (Ok PendingState, s)
           | (Panic, s) \<Rightarrow> (Panic, s)
           | (Pending, s) \<Rightarrow> (Pending, s))
      | Some Cancel \<Rightarrow> (Ok Cleanup, s)
      | None \<Rightarrow> (Ok Cleanup, s))"

definition do_pending :: "('st, 'q, 'k, 'w, 'b, 'r, 'c, State) handler" where
  "do_pending E s = pending_command E (save_to_storage E s)"

text \<open>\<open>State::Cleanup\<close> of \<open>run\<close>, and what \<open>Session::new\<close>'s future does after it.\<close>

definition cleanup :: "('st, 'q, 'k, 'w, 'b, 'r, 'c, unit) handler" where
  "cleanup E s =
    qmark (publish_will E s) (\<lambda>_ (rt, w).
      (Ok (), (rt, w\<lparr>w_broker :=
        Broker_remove_session (rt_id rt) (rt_client_id rt) (w_broker w)\<rparr>)))"

end
