(* ===== verification/Session_Facts.thy ===== *)
theory Session_Facts
  imports Session Codec
begin

text \<open>
  What the handlers of \<open>Session\<close> change and what they leave alone: the frame of sending and
  routing, the contract a session relies on for its output, and the effect of each handler.
  The locale \<open>session_io\<close> names the interfaces of the writers and of the encoder.
\<close>

section \<open>Frames\<close>

lemma send_packet_frame:
  assumes "send_packet p wr E (rt, w) = (res, s')"
  obtains out where "s' = (rt, w\<lparr>w_out := out\<rparr>)"
  using assms by (auto simp: send_packet_def Let_def split: prod.splits)

lemma Broker_route_frame:
  assumes "Broker_route E p w = (res, w')"
  obtains st q where "w' = w\<lparr>w_storage := st, w_mail := q\<rparr>"
  using assms by (auto simp: Broker_route_def split: prod.splits)

lemma Broker_route_out:
  "Broker_route E p (w\<lparr>w_out := out\<rparr>)
    = (fst (Broker_route E p w), (snd (Broker_route E p w))\<lparr>w_out := out\<rparr>)"
  by (simp add: Broker_route_def split: prod.splits)

text \<open>
  Two worlds that differ at most in what was written to the clients, in the mailboxes, or in
  the storage.
\<close>

definition same_but_out :: "('st, 'q, 'k, 'w, 'r) world \<Rightarrow> ('st, 'q, 'k, 'w, 'r) world \<Rightarrow> bool" where
  "same_but_out w w' \<longleftrightarrow> w' = w\<lparr>w_out := w_out w'\<rparr>"

lemma same_but_out_refl [simp]: "same_but_out w w"
  by (simp add: same_but_out_def)

lemma same_but_out_trans: "same_but_out w w' \<Longrightarrow> same_but_out w' w'' \<Longrightarrow> same_but_out w w''"
  unfolding same_but_out_def by (metis (no_types, lifting) world.update_convs(5) world.surjective)

lemma same_but_out_update [simp]: "same_but_out w (w\<lparr>w_out := out\<rparr>)"
  by (simp add: same_but_out_def)

lemma same_but_out_fields:
  assumes "same_but_out w w'"
  shows "w_broker w' = w_broker w" "w_storage w' = w_storage w" "w_mail w' = w_mail w"
    "w_cmd w' = w_cmd w" "w_in w' = w_in w" "w_instant w' = w_instant w" "w_utc w' = w_utc w"
  using assms unfolding same_but_out_def by (metis world.select_convs world.surjective world.update_convs)+

section \<open>Output\<close>

locale session_io =
  out: stream_writer "e_writer E" sent up + enc: buf_writer "e_buf E"
  for E :: "('st, 'q, 'k, 'w, 'b, 'r, 'c) env"
    and sent :: "'w \<Rightarrow> stream \<Rightarrow> bytes"
    and up :: "'w \<Rightarrow> stream \<Rightarrow> bool"
begin

text \<open>From \<open>w\<close> to \<open>w'\<close> exactly \<open>bs\<close> was written to stream \<open>wr\<close>, and nothing else changed.\<close>

definition wrote ::
  "stream \<Rightarrow> bytes \<Rightarrow> ('st, 'q, 'k, 'w, 'r) world \<Rightarrow> ('st, 'q, 'k, 'w, 'r) world \<Rightarrow> bool" where
  "wrote wr bs w w' \<longleftrightarrow> same_but_out w w' \<and> up (w_out w') = up (w_out w)
    \<and> sent (w_out w') = (sent (w_out w))(wr := sent (w_out w) wr @ bs)"

lemma wrote_Nil: "wrote wr [] w w"
  by (simp add: wrote_def)

lemma wrote_trans: "wrote wr bs w w' \<Longrightarrow> wrote wr cs w' w'' \<Longrightarrow> wrote wr (bs @ cs) w w''"
  unfolding wrote_def using same_but_out_trans by fastforce

lemma wrote_up: "wrote wr bs w w' \<Longrightarrow> up (w_out w') = up (w_out w)"
  by (simp add: wrote_def)

lemma send_ok:
  assumes "up (w_out w) wr" "outbound p" "wf_packet p"
  shows "\<exists>w'. send_packet p wr E (rt, w) = (Ok (), (rt, w')) \<and> wrote wr (mqtt_bytes p) w w'"
proof -
  let ?bs = "bytesmut_deref (e_buf E) (Packet_encode (e_buf E) p (bytesmut_new (e_buf E)))"
  obtain res out where call: "write_all (e_writer E) wr ?bs (w_out w) = (res, out)"
    by fastforce
  have bs: "?bs = mqtt_bytes p"
    using enc.packet_encode_bytes [OF assms(2,3)] by (simp add: enc.deref_new)
  have "res = Ok ()" "up out = up (w_out w)"
    "sent out = (sent (w_out w))(wr := sent (w_out w) wr @ mqtt_bytes p)"
    using out.write_all_up [OF assms(1), of ?bs] call bs by simp_all
  then show ?thesis
    using call by (intro exI [of _ "w\<lparr>w_out := out\<rparr>"]) (simp add: send_packet_def wrote_def)
qed

end

section \<open>Sequences of packets\<close>

text \<open>The packet branch of the processing loop, for the packets of a list.\<close>

fun run_packets :: "Packet list \<Rightarrow> stream \<Rightarrow> ('st, 'q, 'k, 'w, 'b, 'r, 'c, bool) handler" where
  "run_packets [] wr E s = (Ok True, s)"
| "run_packets (p # ps) wr E s =
    qmark (on_packet p wr E s) (\<lambda>success s.
      if success then run_packets ps wr E s else (Ok False, s))"

lemma run_packets_append:
  "run_packets (ps @ qs) wr E s =
    qmark (run_packets ps wr E s) (\<lambda>success s.
      if success then run_packets qs wr E s else (Ok False, s))"
proof (induction ps arbitrary: s)
  case (Cons p ps)
  obtain res s1 where "on_packet p wr E s = (res, s1)"
    by (rule prod.exhaust)
  with Cons show ?case
    by (cases res) simp_all
qed simp

section \<open>Inbound QoS 2\<close>

context session_io
begin

lemma publish_qos2:
  assumes "up (w_out w) wr" "pp_qos p = ExactlyOnce" "pp_packet_id p = Some i"
  obtains w' where "on_packet (Publish p) wr E (rt, w) =
      (Ok True, (rt\<lparr>rt_inbound_qos2 :=
         (if map_of (rt_inbound_qos2 rt) i = None
          then AList.update i \<lparr>rq_packet = p\<rparr> (rt_inbound_qos2 rt) else rt_inbound_qos2 rt)\<rparr>, w'))"
    "wrote wr (mqtt_bytes (PubRec \<lparr>prec_packet_id = i\<rparr>)) w w'"
proof -
  have sends: "\<exists>w'. send_packet (PubRec \<lparr>prec_packet_id = i\<rparr>) wr E (rt', w) = (Ok (), (rt', w'))
      \<and> wrote wr (mqtt_bytes (PubRec \<lparr>prec_packet_id = i\<rparr>)) w w'" for rt'
    by (rule send_ok [OF assms(1)]) simp_all
  show thesis
  proof (cases "map_of (rt_inbound_qos2 rt) i")
    case None
    then show ?thesis
      using that assms(2,3) sends [of "rt\<lparr>rt_inbound_qos2 :=
          AList.update i \<lparr>rq_packet = p\<rparr> (rt_inbound_qos2 rt)\<rparr>"]
      by (auto simp: on_packet_def on_publish_def Let_def)
  next
    case (Some x)
    then show ?thesis
      using that assms(2,3) sends [of rt] by (auto simp: on_packet_def on_publish_def)
  qed
qed

lemma publish_qos2_list:
  assumes "up (w_out w) wr" "\<forall>p \<in> set ps. pp_qos p = ExactlyOnce \<and> pp_packet_id p = Some i"
    and "map_of (rt_inbound_qos2 rt) i \<noteq> None"
  shows "\<exists>w'. run_packets (map Publish ps) wr E (rt, w) = (Ok True, (rt, w'))
    \<and> wrote wr (concat (replicate (length ps) (mqtt_bytes (PubRec \<lparr>prec_packet_id = i\<rparr>)))) w w'"
  using assms
proof (induction ps arbitrary: w)
  case (Cons p ps)
  obtain w1 where w1: "on_packet (Publish p) wr E (rt, w) = (Ok True, (rt, w1))"
    "wrote wr (mqtt_bytes (PubRec \<lparr>prec_packet_id = i\<rparr>)) w w1"
    using publish_qos2 [OF Cons.prems(1), of p i rt] Cons.prems(2,3) by auto
  have "up (w_out w1) wr"
    using wrote_up [OF w1(2)] Cons.prems(1) by simp
  then obtain w2 where "run_packets (map Publish ps) wr E (rt, w1) = (Ok True, (rt, w2))"
    "wrote wr (concat (replicate (length ps) (mqtt_bytes (PubRec \<lparr>prec_packet_id = i\<rparr>)))) w1 w2"
    using Cons.IH [of w1] Cons.prems(2,3) by auto
  then show ?case
    using w1 wrote_trans [OF w1(2)] by auto
qed (simp add: wrote_Nil)

lemma pubrel_unknown:
  assumes "up (w_out w) wr" "map_of (rt_inbound_qos2 rt) i = None"
  shows "\<exists>w'. on_packet (PubRel \<lparr>prel_packet_id = i\<rparr>) wr E (rt, w) = (Ok True, (rt, w'))
    \<and> wrote wr (mqtt_bytes (PubComp \<lparr>pcomp_packet_id = i\<rparr>)) w w'"
proof -
  have "\<exists>w'. send_packet (PubComp \<lparr>pcomp_packet_id = i\<rparr>) wr E (rt, w) = (Ok (), (rt, w'))
      \<and> wrote wr (mqtt_bytes (PubComp \<lparr>pcomp_packet_id = i\<rparr>)) w w'"
    by (rule send_ok [OF assms(1)]) simp_all
  then show ?thesis
    using assms(2) by (auto simp: on_packet_def on_pubrel_def)
qed

lemma pubrel_unknown_list:
  assumes "up (w_out w) wr" "map_of (rt_inbound_qos2 rt) i = None"
  shows "\<exists>w'. run_packets (replicate n (PubRel \<lparr>prel_packet_id = i\<rparr>)) wr E (rt, w) = (Ok True, (rt, w'))
    \<and> wrote wr (concat (replicate n (mqtt_bytes (PubComp \<lparr>pcomp_packet_id = i\<rparr>)))) w w'"
  using assms
proof (induction n arbitrary: w)
  case (Suc n)
  obtain w1 where w1: "on_packet (PubRel \<lparr>prel_packet_id = i\<rparr>) wr E (rt, w) = (Ok True, (rt, w1))"
    "wrote wr (mqtt_bytes (PubComp \<lparr>pcomp_packet_id = i\<rparr>)) w w1"
    using pubrel_unknown [OF Suc.prems] by blast
  have "up (w_out w1) wr"
    using wrote_up [OF w1(2)] Suc.prems(1) by simp
  then obtain w2 where
    "run_packets (replicate n (PubRel \<lparr>prel_packet_id = i\<rparr>)) wr E (rt, w1) = (Ok True, (rt, w2))"
    "wrote wr (concat (replicate n (mqtt_bytes (PubComp \<lparr>pcomp_packet_id = i\<rparr>)))) w1 w2"
    using Suc.IH Suc.prems(2) by blast
  then show ?case
    using w1 wrote_trans [OF w1(2)] by auto
qed (simp add: wrote_Nil)

lemma pubrel_pending:
  assumes "up (w_out w) wr" "map_of (rt_inbound_qos2 rt) i = Some \<lparr>rq_packet = p\<rparr>"
    and "authorize_publish (e_authorizer E) (client_name rt) (pp_topic p) = Ok ()"
    and "Broker_route E p w = (Ok (), w1)"
  shows "\<exists>w2. on_packet (PubRel \<lparr>prel_packet_id = i\<rparr>) wr E (rt, w)
      = (Ok True, (rt\<lparr>rt_inbound_qos2 := AList.delete i (rt_inbound_qos2 rt)\<rparr>, w1\<lparr>w_out := w_out w2\<rparr>))
    \<and> wrote wr (mqtt_bytes (PubComp \<lparr>pcomp_packet_id = i\<rparr>)) w w2"
proof -
  have "\<exists>w2. send_packet (PubComp \<lparr>pcomp_packet_id = i\<rparr>) wr E (rt, w) = (Ok (), (rt, w2))
      \<and> wrote wr (mqtt_bytes (PubComp \<lparr>pcomp_packet_id = i\<rparr>)) w w2"
    by (rule send_ok [OF assms(1)]) simp_all
  then obtain w2 where w2:
    "send_packet (PubComp \<lparr>pcomp_packet_id = i\<rparr>) wr E (rt, w) = (Ok (), (rt, w2))"
    "wrote wr (mqtt_bytes (PubComp \<lparr>pcomp_packet_id = i\<rparr>)) w w2"
    by blast
  have "w2 = w\<lparr>w_out := w_out w2\<rparr>"
    using w2(2) by (simp add: wrote_def same_but_out_def)
  then have "Broker_route E p w2 = (Ok (), w1\<lparr>w_out := w_out w2\<rparr>)"
    using Broker_route_out [of E p "w_out w2" w] assms(4) by simp
  moreover have "client_name (rt\<lparr>rt_inbound_qos2 := AList.delete i (rt_inbound_qos2 rt)\<rparr>) = client_name rt"
    by (simp add: client_name_def)
  ultimately have "on_packet (PubRel \<lparr>prel_packet_id = i\<rparr>) wr E (rt, w)
      = (Ok True, (rt\<lparr>rt_inbound_qos2 := AList.delete i (rt_inbound_qos2 rt)\<rparr>, w1\<lparr>w_out := w_out w2\<rparr>))"
    using w2(1) assms(2,3)
    by (simp add: on_packet_def on_pubrel_def route_authorized_def session_route_def)
  with w2(2) show ?thesis
    by blast
qed

lemma qos2_publishes:
  assumes "up (w_out w) wr" "map_of (rt_inbound_qos2 rt) i = None"
    and "\<forall>p' \<in> set (p # ps). pp_qos p' = ExactlyOnce \<and> pp_packet_id p' = Some i"
  shows "\<exists>w'. run_packets (map Publish (p # ps)) wr E (rt, w) =
      (Ok True, (rt\<lparr>rt_inbound_qos2 := AList.update i \<lparr>rq_packet = p\<rparr> (rt_inbound_qos2 rt)\<rparr>, w'))
    \<and> wrote wr (concat (replicate (length (p # ps)) (mqtt_bytes (PubRec \<lparr>prec_packet_id = i\<rparr>)))) w w'"
proof -
  let ?rt1 = "rt\<lparr>rt_inbound_qos2 := AList.update i \<lparr>rq_packet = p\<rparr> (rt_inbound_qos2 rt)\<rparr>"
  obtain wa where wa: "on_packet (Publish p) wr E (rt, w) = (Ok True, (?rt1, wa))"
    "wrote wr (mqtt_bytes (PubRec \<lparr>prec_packet_id = i\<rparr>)) w wa"
    using publish_qos2 [OF assms(1), of p i rt] assms(2,3) by auto
  have "up (w_out wa) wr"
    using wrote_up [OF wa(2)] assms(1) by simp
  then obtain wb where wb: "run_packets (map Publish ps) wr E (?rt1, wa) = (Ok True, (?rt1, wb))"
    "wrote wr (concat (replicate (length ps) (mqtt_bytes (PubRec \<lparr>prec_packet_id = i\<rparr>)))) wa wb"
    using publish_qos2_list [of wa wr ps i ?rt1] assms(3) by (auto simp: map_of_update)
  show ?thesis
    using wa(1) wb(1) wrote_trans [OF wa(2) wb(2)] by simp
qed

lemma qos2_releases:
  assumes "up (w_out w) wr" "map_of (rt_inbound_qos2 rt) i = Some \<lparr>rq_packet = p\<rparr>"
    and "authorize_publish (e_authorizer E) (client_name rt) (pp_topic p) = Ok ()"
    and "Broker_route E p w = (Ok (), w1)"
  shows "\<exists>w'. run_packets (replicate (Suc m) (PubRel \<lparr>prel_packet_id = i\<rparr>)) wr E (rt, w) =
      (Ok True, (rt\<lparr>rt_inbound_qos2 := AList.delete i (rt_inbound_qos2 rt)\<rparr>, w1\<lparr>w_out := w_out w'\<rparr>))
    \<and> wrote wr (concat (replicate (Suc m) (mqtt_bytes (PubComp \<lparr>pcomp_packet_id = i\<rparr>)))) w w'"
proof -
  let ?rt2 = "rt\<lparr>rt_inbound_qos2 := AList.delete i (rt_inbound_qos2 rt)\<rparr>"
  let ?comp = "mqtt_bytes (PubComp \<lparr>pcomp_packet_id = i\<rparr>)"
  obtain wc where wc: "on_packet (PubRel \<lparr>prel_packet_id = i\<rparr>) wr E (rt, w)
      = (Ok True, (?rt2, w1\<lparr>w_out := w_out wc\<rparr>))" "wrote wr ?comp w wc"
    using pubrel_pending [OF assms] by blast
  let ?w3 = "w1\<lparr>w_out := w_out wc\<rparr>"
  have "up (w_out ?w3) wr"
    using wrote_up [OF wc(2)] assms(1) by simp
  then obtain wd where wd: "run_packets (replicate m (PubRel \<lparr>prel_packet_id = i\<rparr>)) wr E (?rt2, ?w3)
      = (Ok True, (?rt2, wd))" "wrote wr (concat (replicate m ?comp)) ?w3 wd"
    using pubrel_unknown_list [of ?w3 wr ?rt2 i m] by (auto simp: map_of_delete)
  have "wd = w1\<lparr>w_out := w_out wd\<rparr>"
    using wd(2) by (simp add: wrote_def same_but_out_def)
  moreover have "wrote wr (?comp @ concat (replicate m ?comp)) w (w\<lparr>w_out := w_out wd\<rparr>)"
    using wc(2) wd(2) by (simp add: wrote_def)
  ultimately show ?thesis
    using wc(1) wd(1) by (intro exI [of _ "w\<lparr>w_out := w_out wd\<rparr>"]) simp
qed

lemma qos2_once:
  assumes "up (w_out w) wr" "map_of (rt_inbound_qos2 rt) i = None"
    and "\<forall>p' \<in> set (p # ps). pp_qos p' = ExactlyOnce \<and> pp_packet_id p' = Some i"
    and "authorize_publish (e_authorizer E) (client_name rt) (pp_topic p) = Ok ()"
    and "Broker_route E p w = (Ok (), w1)"
  shows "\<exists>rt' w'. run_packets (map Publish (p # ps) @ replicate (Suc m) (PubRel \<lparr>prel_packet_id = i\<rparr>))
        wr E (rt, w) = (Ok True, (rt', w1\<lparr>w_out := w_out w'\<rparr>))
    \<and> map_of (rt_inbound_qos2 rt') = map_of (rt_inbound_qos2 rt)
    \<and> wrote wr (concat (replicate (length (p # ps)) (mqtt_bytes (PubRec \<lparr>prec_packet_id = i\<rparr>)))
        @ concat (replicate (Suc m) (mqtt_bytes (PubComp \<lparr>pcomp_packet_id = i\<rparr>)))) w w'"
proof -
  let ?inb = "AList.update i \<lparr>rq_packet = p\<rparr> (rt_inbound_qos2 rt)"
  let ?rt1 = "rt\<lparr>rt_inbound_qos2 := ?inb\<rparr>"
  obtain wb where wb: "run_packets (map Publish (p # ps)) wr E (rt, w) = (Ok True, (?rt1, wb))"
    "wrote wr (concat (replicate (length (p # ps)) (mqtt_bytes (PubRec \<lparr>prec_packet_id = i\<rparr>)))) w wb"
    using qos2_publishes [OF assms(1-3)] by blast
  then have "wb = w\<lparr>w_out := w_out wb\<rparr>" and up: "up (w_out wb) wr"
    using assms(1) by (simp_all add: wrote_def same_but_out_def)
  then have route: "Broker_route E p wb = (Ok (), w1\<lparr>w_out := w_out wb\<rparr>)"
    using Broker_route_out [of E p "w_out wb" w] assms(5) by simp
  have auth: "authorize_publish (e_authorizer E) (client_name ?rt1) (pp_topic p) = Ok ()"
    using assms(4) by (simp add: client_name_def)
  have held: "map_of (rt_inbound_qos2 ?rt1) i = Some \<lparr>rq_packet = p\<rparr>"
    "map_of (AList.delete i ?inb) = map_of (rt_inbound_qos2 rt)"
    using assms(2) by (auto simp: map_of_update map_of_delete fun_eq_iff)
  from qos2_releases [OF up held(1) auth route, of m] obtain w' where w':
    "run_packets (replicate (Suc m) (PubRel \<lparr>prel_packet_id = i\<rparr>)) wr E (?rt1, wb) =
      (Ok True, (?rt1\<lparr>rt_inbound_qos2 := AList.delete i (rt_inbound_qos2 ?rt1)\<rparr>, w1\<lparr>w_out := w_out w'\<rparr>))"
    "wrote wr (concat (replicate (Suc m) (mqtt_bytes (PubComp \<lparr>pcomp_packet_id = i\<rparr>)))) wb w'"
    by auto
  show ?thesis
    unfolding run_packets_append wb(1)
    using w'(1) held(2) wrote_trans [OF wb(2) w'(2)] by (simp del: replicate_Suc) blast
qed

end

end
