(* ===== verification/Session_Inv.thy ===== *)
theory Session_Inv
  imports Session_Facts
begin

text \<open>
  The invariant of a session and of the state it shares, kept by every handler whatever its
  result, on any storage that honours the contract \<open>storage\<close>, failures included; then the
  session's control flow as a step relation, and the broker as a system of interleaved sessions
  with its reachable states.
\<close>

section \<open>Invariants\<close>

definition inflight_ok :: "InflightMessage \<Rightarrow> bool" where
  "inflight_ok m \<longleftrightarrow> pp_dup (im_packet m)
    \<and> (\<exists>i. pp_packet_id (im_packet m) = Some i \<and> i \<noteq> 0)
    \<and> (case im_qos2_state m of
         None \<Rightarrow> pp_qos (im_packet m) = AtLeastOnce
       | Some _ \<Rightarrow> pp_qos (im_packet m) = ExactlyOnce)"

definition inbound_ok :: "u16 \<Rightarrow> ReceivedQos2Message \<Rightarrow> bool" where
  "inbound_ok i m \<longleftrightarrow> pp_packet_id (rq_packet m) = Some i \<and> pp_qos (rq_packet m) = ExactlyOnce"

definition runtime_inv :: "Runtime \<Rightarrow> bool" where
  "runtime_inv rt \<longleftrightarrow> rt_next_packet_id rt \<noteq> 0
    \<and> (\<forall>m \<in> set (rt_inflight_queue rt). inflight_ok m)
    \<and> distinct (map fst (rt_inbound_qos2 rt))
    \<and> (\<forall>i m. map_of (rt_inbound_qos2 rt) i = Some m \<longrightarrow> inbound_ok i m)"

definition saved_inflight_ok :: "PersistedInflightMessage \<Rightarrow> bool" where
  "saved_inflight_ok m \<longleftrightarrow> pi_packet_id m \<noteq> 0
    \<and> (case pi_qos2_state m of
         None \<Rightarrow> pi_qos m = StoredAtLeastOnce
       | Some _ \<Rightarrow> pi_qos m = StoredExactlyOnce)"

definition saved_ok :: "saved_session \<Rightarrow> bool" where
  "saved_ok v \<longleftrightarrow> ps_next_packet_id (sv_session v) \<noteq> 0
    \<and> (\<forall>m \<in> set (sv_inflight v). saved_inflight_ok m)"

text \<open>
  \<open>row_ok\<close>: a session's row of the subscription table leads to its own mailbox.
\<close>

definition row_ok :: "Runtime \<Rightarrow> ('st, 'q, 'k, 'w, 'r) world \<Rightarrow> bool" where
  "row_ok rt w \<longleftrightarrow> (\<forall>f m q. subscription_of (b_router (w_broker w)) (rt_id rt) f = Some (m, q)
    \<longrightarrow> m = rt_message_tx rt)"

definition other_rows :: "rstring \<Rightarrow> ('st, 'q, 'k, 'w, 'r) world \<Rightarrow> ('st, 'q, 'k, 'w, 'r) world \<Rightarrow> bool"
where
  "other_rows sid w w' \<longleftrightarrow> (\<forall>s. s \<noteq> sid \<longrightarrow>
    subscription_of (b_router (w_broker w')) s = subscription_of (b_router (w_broker w)) s)"

text \<open>What handlers do to the mailboxes: they send to any of them.\<close>

inductive mail_sends :: "('m, 'q) chan_ops \<Rightarrow> 'q \<Rightarrow> 'q \<Rightarrow> bool" for C where
  stay: "mail_sends C q q"
| send: "mail_sends C q q' \<Longrightarrow> mail_sends C q (snd (ch_send C c m q'))"

declare mail_sends.stay [simp]

lemma mail_sends_send: "mail_sends C q (snd (ch_send C c m q))"
  by (rule mail_sends.send) (rule mail_sends.stay)

lemma mail_sends_trans: "mail_sends C q' q'' \<Longrightarrow> mail_sends C q q' \<Longrightarrow> mail_sends C q q''"
  by (induction rule: mail_sends.induct) (auto intro: mail_sends.send)

lemma send_all_sends: "mail_sends C q (snd (send_all C p es q))"
proof (induction es arbitrary: q)
  case (Cons e es)
  obtain res q1 where call: "ch_send C (fst (snd (snd e))) (Publish (forward_packet p (snd (snd (snd e))))) q = (res, q1)"
    by (rule prod.exhaust)
  have "mail_sends C q q1"
    using mail_sends_send [of C q "fst (snd (snd e))"] call by (metis snd_conv)
  then show ?case
    using call Cons.IH [of q1] by (cases e; cases res) (auto intro: mail_sends_trans)
qed simp

lemma Router_route_sends: "mail_sends C (snd s) (snd (snd (Router_route S C now r p s)))"
  using send_all_sends [of C "snd s" p]
  by (cases s) (simp add: Router_route_def Let_def route_filters_send_all case_prod_beta)

locale broker_state = storage "e_storage E" st_inv saved retained
  for E :: "('st, 'q, 'k, 'w, 'b, 'r, 'c) env" and st_inv saved retained
begin

definition world_inv :: "('st, 'q, 'k, 'w, 'r) world \<Rightarrow> bool" where
  "world_inv w \<longleftrightarrow> st_inv (w_storage w) \<and> router_inv (b_router (w_broker w))
    \<and> (\<forall>cid v. saved (w_storage w) cid = Some v \<longrightarrow> saved_ok v)"

definition session_inv :: "('st, 'q, 'k, 'w, 'r) sstate \<Rightarrow> bool" where
  "session_inv = (\<lambda>(rt, w). runtime_inv rt \<and> world_inv w \<and> row_ok rt w)"

text \<open>
  What every step of a session guarantees: the invariant is kept, the session keeps its identity and its
  channels, and no other session's subscriptions change.  The handlers change the mailboxes only by sends;
  a message is taken out by the loop itself.
\<close>

definition fair :: "('st, 'q, 'k, 'w, 'r) sstate \<Rightarrow> ('st, 'q, 'k, 'w, 'r) sstate \<Rightarrow> bool" where
  "fair s s' \<longleftrightarrow> session_inv s \<longrightarrow> session_inv s'
    \<and> rt_id (fst s') = rt_id (fst s) \<and> rt_message_tx (fst s') = rt_message_tx (fst s)
    \<and> rt_command_rx (fst s') = rt_command_rx (fst s) \<and> rt_message_rx (fst s') = rt_message_rx (fst s)
    \<and> b_config (w_broker (snd s')) = b_config (w_broker (snd s))
    \<and> other_rows (rt_id (fst s)) (snd s) (snd s')"

definition good :: "('st, 'q, 'k, 'w, 'r) sstate \<Rightarrow> ('st, 'q, 'k, 'w, 'r) sstate \<Rightarrow> bool" where
  "good s s' \<longleftrightarrow> fair s s' \<and> mail_sends (e_mail E) (w_mail (snd s)) (w_mail (snd s'))"

lemma good_fair: "good s s' \<Longrightarrow> fair s s'"
  by (simp add: good_def)

lemma fair_trans: "fair s s' \<Longrightarrow> fair s' s'' \<Longrightarrow> fair s s''"
  by (clarsimp simp: fair_def other_rows_def)

lemma good_refl: "good s s"
  by (simp add: good_def fair_def other_rows_def)

lemma good_trans: "good s s' \<Longrightarrow> good s' s'' \<Longrightarrow> good s s''"
  by (simp add: good_def fair_trans [of s s' s''] mail_sends_trans [of "e_mail E" "w_mail (snd s')"])

lemma good_qmark:
  assumes "good s (snd x)" "\<And>a. fst x = Ok a \<Longrightarrow> good (snd x) (snd (f a (snd x)))"
  shows "good s (snd (qmark x f))"
proof -
  obtain r s1 where x: "x = (r, s1)"
    by (rule prod.exhaust)
  show ?thesis
    using assms x by (cases r) (auto intro: good_trans)
qed

text \<open>Changes of the runtime alone, and of the fields of the world that carry no invariant.\<close>

lemma good_runtime:
  assumes "runtime_inv rt \<Longrightarrow> runtime_inv rt'" "rt_id rt' = rt_id rt"
    "rt_message_tx rt' = rt_message_tx rt" "rt_command_rx rt' = rt_command_rx rt"
    "rt_message_rx rt' = rt_message_rx rt"
  shows "good (rt, w) (rt', w)"
  using assms by (auto simp: good_def fair_def session_inv_def other_rows_def row_ok_def)

lemma good_runtime_world:
  assumes "runtime_inv rt \<Longrightarrow> world_inv w \<Longrightarrow> runtime_inv rt'" "rt_id rt' = rt_id rt"
    "rt_message_tx rt' = rt_message_tx rt" "rt_command_rx rt' = rt_command_rx rt"
    "rt_message_rx rt' = rt_message_rx rt"
  shows "good (rt, w) (rt', w)"
  using assms by (auto simp: good_def fair_def session_inv_def other_rows_def row_ok_def)

lemma good_world:
  assumes "b_router (w_broker w') = b_router (w_broker w)" "w_mail w' = w_mail w"
    "b_config (w_broker w') = b_config (w_broker w)"
    "world_inv w \<Longrightarrow> st_inv (w_storage w') \<and> (\<forall>cid v. saved (w_storage w') cid = Some v \<longrightarrow> saved_ok v)"
  shows "good (rt, w) (rt, w')"
  using assms by (auto simp: good_def fair_def session_inv_def other_rows_def row_ok_def world_inv_def)

lemma good_world_plain:
  assumes "b_router (w_broker w') = b_router (w_broker w)" "w_mail w' = w_mail w"
    "b_config (w_broker w') = b_config (w_broker w)" "w_storage w' = w_storage w"
  shows "good (rt, w) (rt, w')"
  using assms by (intro good_world) (auto simp: world_inv_def)

lemma good_mail:
  assumes "mail_sends (e_mail E) (w_mail w) q"
  shows "good (rt, w) (rt, w\<lparr>w_mail := q\<rparr>)"
  using assms by (simp add: good_def fair_def session_inv_def other_rows_def row_ok_def world_inv_def)

lemma good_send_packet: "good s (snd (send_packet p wr E s))"
proof -
  obtain rt w where s: "s = (rt, w)"
    by (cases s)
  obtain res s' where call: "send_packet p wr E (rt, w) = (res, s')"
    by (rule prod.exhaust)
  then obtain out where "s' = (rt, w\<lparr>w_out := out\<rparr>)"
    by (rule send_packet_frame)
  then show ?thesis
    using s call by (simp add: good_world_plain)
qed

lemma good_mailbox_send: "good s (snd (mailbox_send p E s))"
proof -
  obtain rt w where s: "s = (rt, w)"
    by (cases s)
  show ?thesis
    using good_mail [OF mail_sends_send] s by (simp add: mailbox_send_def case_prod_beta)
qed

lemma good_then:
  assumes "good s (snd x)" "\<And>a s. good s (snd (f a s))"
  shows "good s (snd (qmark x f))"
  using assms by (intro good_qmark)

lemma good_send_then_True: "good s (snd (qmark (send_packet p wr E s) (\<lambda>_ s. (Ok b, s))))"
  by (rule good_then [OF good_send_packet]) (simp only: snd_conv good_refl)

lemma good_send_retained: "good s (snd (send_retained ps E s))"
proof (induction ps arbitrary: s)
  case (Cons p ps)
  show ?case
    unfolding send_retained.simps by (rule good_then [OF good_mailbox_send Cons.IH])
qed (simp add: good_refl)

lemma good_resend_publishes: "good s (snd (resend_publishes ps E s))"
proof (induction ps arbitrary: s)
  case (Cons p ps)
  show ?case
    unfolding resend_publishes.simps by (rule good_then [OF good_mailbox_send Cons.IH])
qed (simp add: good_refl)

lemma good_resend_pubrels: "good s (snd (resend_pubrels ids wr E s))"
proof (induction ids arbitrary: s)
  case (Cons i ids)
  show ?case
    unfolding resend_pubrels.simps by (rule good_then [OF good_send_packet Cons.IH])
qed (simp add: good_refl)

lemma save_retained_keeps:
  assumes "st_inv st"
  shows "st_inv (snd (save_retained_message (e_storage E) m st))
    \<and> saved (snd (save_retained_message (e_storage E) m st)) = saved st"
  using save_retained_ok [OF assms, of m] save_retained_fail [OF assms, of m]
  by (cases "save_retained_message (e_storage E) m st"; cases "fst (save_retained_message (e_storage E) m st)")
    auto

lemma delete_retained_keeps:
  assumes "st_inv st"
  shows "st_inv (snd (delete_retained_message (e_storage E) t st))
    \<and> saved (snd (delete_retained_message (e_storage E) t st)) = saved st"
  using delete_retained_ok [OF assms, of t] delete_retained_fail [OF assms, of t]
  by (cases "delete_retained_message (e_storage E) t st"; cases "fst (delete_retained_message (e_storage E) t st)")
    auto

lemma handle_retained_keeps:
  "st_inv st \<Longrightarrow> st_inv (handle_retained_message (e_storage E) limit now p st)
    \<and> saved (handle_retained_message (e_storage E) limit now p st) = saved st"
  using save_retained_keeps delete_retained_keeps
  by (simp add: handle_retained_message_def Let_def)

lemma delete_session_keeps:
  assumes "st_inv st"
  shows "st_inv (snd (delete_session (e_storage E) cid st))"
    and "saved (snd (delete_session (e_storage E) cid st)) c = Some v \<Longrightarrow> saved st c = Some v"
  using delete_session_ok [OF assms, of cid] delete_session_fail [OF assms, of cid]
  by (cases "delete_session (e_storage E) cid st"; cases "fst (delete_session (e_storage E) cid st)";
      auto split: if_splits)+

lemma route_keeps_storage:
  assumes "Broker_route E p w = (res, w')" "st_inv (w_storage w)"
  shows "st_inv (w_storage w') \<and> saved (w_storage w') = saved (w_storage w)"
  using assms handle_retained_keeps
  by (auto simp: Broker_route_def Router_route_def Let_def split: prod.splits if_splits)

lemma good_route: "good s (snd (session_route p E s))"
proof -
  obtain rt w where s: "s = (rt, w)"
    by (cases s)
  obtain res w' where call: "Broker_route E p w = (res, w')"
    by (rule prod.exhaust)
  then obtain st q where w': "w' = w\<lparr>w_storage := st, w_mail := q\<rparr>"
    by (rule Broker_route_frame)
  have "mail_sends (e_mail E) (w_mail w) q"
    using Router_route_sends [of "e_mail E" "(w_storage w, w_mail w)"
        "e_storage E" "w_utc w" "b_router (w_broker w)" p] arg_cong [OF call, of "\<lambda>x. w_mail (snd x)"] w'
    by (simp add: Broker_route_def case_prod_beta)
  moreover have "good (rt, w) (rt, w\<lparr>w_storage := st\<rparr>)"
    using route_keeps_storage [OF call] w' by (intro good_world) (auto simp: world_inv_def)
  ultimately have "good (rt, w) (rt, w')"
    using good_trans [OF _ good_mail [of "w\<lparr>w_storage := st\<rparr>" q rt]] w' by simp
  then show ?thesis
    using s call by (simp add: session_route_def)
qed

lemma good_route_authorized: "good s (snd (route_authorized p E s))"
proof -
  obtain rt w where s: "s = (rt, w)"
    by (cases s)
  have "good s (snd (qmark (session_route p E s) (\<lambda>_ s. (Ok True, s))))"
    by (rule good_qmark) (simp_all add: good_route good_refl)
  then show ?thesis
    using s by (cases "authorize_publish (e_authorizer E) (client_name rt) (pp_topic p)")
      (simp_all add: route_authorized_def good_refl)
qed

subsection \<open>Handlers\<close>

lemma runtime_inv_next_packet_id:
  assumes "runtime_inv rt" "next_packet_id rt = (i, rt')"
  shows "i \<noteq> 0 \<and> runtime_inv rt'"
proof -
  have "rt_next_packet_id rt + 1 \<noteq> 0" if "rt_next_packet_id rt \<noteq> 65535"
  proof -
    have "(65535 :: u16) = - 1"
      by simp
    then show ?thesis
      using that by (metis eq_neg_iff_add_eq_0)
  qed
  then have "(if rt_next_packet_id rt = 65535 then 1 else rt_next_packet_id rt + 1) \<noteq> 0"
    by simp
  then show ?thesis
    using assms by (auto simp: next_packet_id_def runtime_inv_def Let_def simp del: map_of_eq_Some_iff)
qed

lemma good_send_new_message:
  assumes "case st of None \<Rightarrow> pp_qos p = AtLeastOnce | Some _ \<Rightarrow> pp_qos p = ExactlyOnce"
  shows "good s (snd (send_new_message p st wr E s))"
proof -
  obtain rt w where s: "s = (rt, w)"
    by (cases s)
  obtain i rt1 where pid: "next_packet_id rt = (i, rt1)"
    by (rule prod.exhaust)
  have frame: "rt_id rt1 = rt_id rt" "rt_message_tx rt1 = rt_message_tx rt"
    "rt_command_rx rt1 = rt_command_rx rt" "rt_message_rx rt1 = rt_message_rx rt" "rt_inflight_queue rt1 = rt_inflight_queue rt"
    using pid by (auto simp: next_packet_id_def Let_def)
  let ?p = "p\<lparr>pp_packet_id := Some i\<rparr>"
  let ?m = "\<lambda>w. \<lparr>im_packet = ?p\<lparr>pp_dup := True\<rparr>, im_timestamp = w_instant w, im_retry_count = 0,
    im_qos2_state = st\<rparr>"
  obtain res s1 where call: "send_packet (Publish ?p) wr E (rt1, w) = (res, s1)"
    by (rule prod.exhaust)
  then obtain out where s1: "s1 = (rt1, w\<lparr>w_out := out\<rparr>)"
    by (rule send_packet_frame)
  have inv: "runtime_inv rt1" "i \<noteq> 0" if "runtime_inv rt"
    using runtime_inv_next_packet_id [OF that pid] by simp_all
  have "inflight_ok (?m w)" if "i \<noteq> 0" for w
    using assms that by (simp add: inflight_ok_def split: option.splits)
  then have "runtime_inv (rt1\<lparr>rt_inflight_queue := rt_inflight_queue rt1 @ [?m w']\<rparr>)"
    if "runtime_inv rt" for w'
    using inv [OF that] by (auto simp: runtime_inv_def)
  then have "good (rt, w) (rt1, w\<lparr>w_out := out\<rparr>)"
    "good (rt, w) (rt1\<lparr>rt_inflight_queue := rt_inflight_queue rt1 @ [?m w']\<rparr>, w\<lparr>w_out := out\<rparr>)" for w'
    using inv frame
    by (auto intro!: good_trans [OF good_runtime [of rt _ w] good_world_plain [of "w\<lparr>w_out := out\<rparr>" w]])
  then show ?thesis
    using s pid call s1 by (cases res) (simp_all add: send_new_message_def Let_def)
qed

lemma good_on_message: "good s (snd (on_message message wr E s))"
  by (auto simp: on_message_def good_refl good_send_packet intro!: good_send_new_message
      split: Packet.split QoS.split)

lemma runtime_inv_filter:
  "runtime_inv rt \<Longrightarrow> set q \<subseteq> set (rt_inflight_queue rt) \<Longrightarrow> runtime_inv (rt\<lparr>rt_inflight_queue := q\<rparr>)"
  by (auto simp: runtime_inv_def)

lemma mark_pubrec_ok:
  "\<forall>m \<in> set q. inflight_ok m \<Longrightarrow> \<forall>m \<in> set (mark_pubrec i now q). inflight_ok m"
proof (induction q)
  case (Cons m q)
  have "inflight_ok (m\<lparr>im_qos2_state := Some AwaitingPubComp, im_timestamp := now, im_retry_count := 0\<rparr>)"
    if "im_qos2_state m = Some AwaitingPubRec"
    using Cons.prems that by (simp add: inflight_ok_def)
  then show ?case
    using Cons by simp
qed simp

lemma good_on_puback: "good s (snd (on_puback p E s))"
  by (cases s) (auto simp: on_puback_def retain_other_def intro!: good_runtime runtime_inv_filter)

lemma good_on_pubcomp: "good s (snd (on_pubcomp p E s))"
  by (cases s) (auto simp: on_pubcomp_def retain_other_def intro!: good_runtime runtime_inv_filter)

lemma good_on_pubrec: "good s (snd (on_pubrec p wr E s))"
proof -
  obtain rt w where s: "s = (rt, w)"
    by (cases s)
  have "good (rt, w) (rt\<lparr>rt_inflight_queue :=
      mark_pubrec (prec_packet_id p) (w_instant w) (rt_inflight_queue rt)\<rparr>, w)"
    using mark_pubrec_ok by (intro good_runtime) (auto simp: runtime_inv_def)
  from good_trans [OF this good_send_then_True] show ?thesis
    using s by (simp add: on_pubrec_def Let_def)
qed

lemma runtime_inv_delete_inbound:
  "runtime_inv rt \<Longrightarrow> runtime_inv (rt\<lparr>rt_inbound_qos2 := AList.delete i (rt_inbound_qos2 rt)\<rparr>)"
  by (auto simp: runtime_inv_def map_of_delete distinct_delete simp del: map_of_eq_Some_iff
      split: if_splits)

lemma runtime_inv_update_inbound:
  "runtime_inv rt \<Longrightarrow> inbound_ok i m \<Longrightarrow>
    runtime_inv (rt\<lparr>rt_inbound_qos2 := AList.update i m (rt_inbound_qos2 rt)\<rparr>)"
  by (auto simp: runtime_inv_def map_of_update distinct_update simp del: map_of_eq_Some_iff
      split: if_splits)

lemma good_on_pubrel: "good s (snd (on_pubrel p wr E s))"
  unfolding on_pubrel_def
proof (rule good_then [OF good_send_packet])
  fix a :: unit and s :: "('st, 'q, 'k, 'w, 'r) sstate"
  obtain rt w where s: "s = (rt, w)"
    by (cases s)
  have "good (rt, w) (rt\<lparr>rt_inbound_qos2 := AList.delete (prel_packet_id p) (rt_inbound_qos2 rt)\<rparr>, w)"
    by (intro good_runtime runtime_inv_delete_inbound) simp_all
  from good_trans [OF this good_route_authorized]
  show "good s (snd (case s of (rt, w) \<Rightarrow>
      case map_of (rt_inbound_qos2 rt) (prel_packet_id p) of
        None \<Rightarrow> (Ok True, (rt, w))
      | Some received \<Rightarrow> route_authorized (rq_packet received) E
          (rt\<lparr>rt_inbound_qos2 := AList.delete (prel_packet_id p) (rt_inbound_qos2 rt)\<rparr>, w)))"
    using s by (simp add: good_refl split: option.split)
qed

lemma good_router:
  assumes "router_inv r \<Longrightarrow> router_inv r'" "r = b_router (w_broker w)"
    and "\<And>s. router_inv r \<Longrightarrow> s \<noteq> rt_id rt \<Longrightarrow> subscription_of r' s = subscription_of r s"
    and "\<And>f m q. router_inv r \<Longrightarrow> subscription_of r' (rt_id rt) f = Some (m, q) \<Longrightarrow>
      m = rt_message_tx rt \<or> subscription_of r (rt_id rt) f = Some (m, q)"
  shows "good (rt, w) (rt, w\<lparr>w_broker := (w_broker w)\<lparr>b_router := r'\<rparr>\<rparr>)"
  using assms unfolding good_def fair_def session_inv_def other_rows_def row_ok_def world_inv_def
  by (simp add: case_prod_beta) blast

lemma good_subscribe:
  "good (rt, w) (rt, snd (Broker_subscribe E (rt_id rt) (rt_message_tx rt) fs w))"
proof -
  have "snd (Broker_subscribe E (rt_id rt) (rt_message_tx rt) fs w) =
      w\<lparr>w_broker := (w_broker w)\<lparr>b_router :=
        index_subscribe (rt_id rt) (rt_message_tx rt) fs (b_router (w_broker w))\<rparr>\<rparr>"
    using Router_subscribe_index [of "e_storage E" "w_storage w" "rt_id rt" "rt_message_tx rt" fs
        "b_router (w_broker w)"]
    by (auto simp: Broker_subscribe_def split: prod.split)
  then show ?thesis
    by (auto intro!: good_router router_inv_subscribe
        simp: subscription_of_subscribe fun_eq_iff split: if_splits)
qed

lemma good_unsubscribe: "good (rt, w) (rt, Broker_unsubscribe (rt_id rt) fs w)"
  unfolding Broker_unsubscribe_def
  by (auto intro!: good_router index.inv_unsubscribe simp: subscription_of_unsubscribe fun_eq_iff
      split: if_splits)

lemma good_unsubscribe_all: "good (rt, w) (rt, Broker_unsubscribe_all (rt_id rt) w)"
  unfolding Broker_unsubscribe_all_def
  by (auto intro!: good_router index.inv_unsubscribe_all simp: index.table_unsubscribe_all
      split: if_splits)

lemma good_delete_session:
  "good (rt, w) (rt, w\<lparr>w_storage := snd (delete_session (e_storage E) cid (w_storage w))\<rparr>)"
proof (rule good_world)
  assume inv: "world_inv w"
  then have "st_inv (w_storage w)"
    by (simp add: world_inv_def)
  note keeps = delete_session_keeps [OF this, of cid]
  show "st_inv (w_storage (w\<lparr>w_storage := snd (delete_session (e_storage E) cid (w_storage w))\<rparr>))
      \<and> (\<forall>c v. saved (w_storage (w\<lparr>w_storage := snd (delete_session (e_storage E) cid (w_storage w))\<rparr>)) c
          = Some v \<longrightarrow> saved_ok v)"
    using keeps inv by (simp add: world_inv_def) blast
qed simp_all

lemma good_on_publish: "good s (snd (on_publish p wr E s))"
proof -
  obtain rt w where s: "s = (rt, w)"
    by (cases s)
  have qos1: "good s (snd (qmark (send_packet q wr E s) (\<lambda>_ s.
      if pp_dup p then (Ok True, s) else route_authorized p E s)))" for q
    by (rule good_then [OF good_send_packet]) (simp add: good_refl good_route_authorized del: split_paired_All)
  have qos2: "good (rt, w)
      (snd (qmark (send_packet q wr E (rt\<lparr>rt_inbound_qos2 :=
        AList.update i \<lparr>rq_packet = p\<rparr> (rt_inbound_qos2 rt)\<rparr>, w)) (\<lambda>_ s. (Ok True, s))))"
    if "pp_qos p = ExactlyOnce" "pp_packet_id p = Some i" for q i
    using that
    by (intro good_trans [OF good_runtime good_send_then_True] runtime_inv_update_inbound)
      (simp_all add: inbound_ok_def)
  show ?thesis
  proof (cases "pp_qos p")
    case AtMostOnce
    then show ?thesis
      using s good_route_authorized by (simp add: on_publish_def)
  next
    case AtLeastOnce
    then show ?thesis
      using s qos1 by (cases "pp_packet_id p") (simp_all add: on_publish_def good_refl)
  next
    case ExactlyOnce
    then show ?thesis
      using s qos2
      by (cases "pp_packet_id p")
        (simp_all add: on_publish_def good_refl Let_def good_send_then_True)
  qed
qed

lemma good_answer_subscribe:
  "good s (snd (qmark (send_packet q wr E s)
    (\<lambda>_ s. qmark (send_retained ms E s) (\<lambda>_ s. (Ok True, s)))))"
proof (rule good_then [OF good_send_packet])
  show "good s (snd (qmark (send_retained ms E s) (\<lambda>_ s. (Ok True, s))))" for s
    by (rule good_then [OF good_send_retained]) (simp only: snd_conv good_refl)
qed

lemma good_on_subscribe: "good s (snd (on_subscribe p wr E s))"
proof -
  obtain rt w where s: "s = (rt, w)"
    by (cases s)
  show ?thesis
  proof (cases "check_filters (e_authorizer E) (client_name rt) 0 (sp_topic_filters p) [] []")
    case (Ok a)
    obtain fs den where a: "a = (fs, den)"
      by (cases a)
    obtain codes ms w1 where sub:
      "(if fs \<noteq> [] then Broker_subscribe E (rt_id rt) (rt_message_tx rt) fs w else (([], []), w))
        = ((codes, ms), w1)"
      by (metis prod.exhaust)
    have step: "good (rt, w) (rt, w1)"
      using good_subscribe [of rt w fs] sub by (auto simp: good_refl split: if_splits)
    have "good (rt, w) (snd (qmark (rebuild_codes den codes (length (sp_topic_filters p)) 0 0 [], (rt, w1))
        (\<lambda>return_codes s.
          qmark (send_packet (SubAck \<lparr>sa_packet_id = sp_packet_id p, sa_return_codes = return_codes\<rparr>)
              wr E s) (\<lambda>_ s. qmark (send_retained ms E s) (\<lambda>_ s. (Ok True, s))))))"
      by (rule good_qmark) (simp_all only: snd_conv step good_answer_subscribe)
    then show ?thesis
      using s Ok a sub by (simp add: on_subscribe_def)
  qed (simp_all add: s on_subscribe_def good_refl)
qed

lemma good_on_unsubscribe: "good s (snd (on_unsubscribe p wr E s))"
  using good_trans [OF good_unsubscribe good_send_then_True]
  by (cases s) (simp add: on_unsubscribe_def Let_def)

lemma good_on_pingreq: "good s (snd (on_pingreq wr E s))"
  unfolding on_pingreq_def by (rule good_send_then_True)

lemma good_on_disconnect: "good s (snd (on_disconnect E s))"
  by (cases s) (auto simp: on_disconnect_def runtime_inv_def intro!: good_runtime)

lemma good_on_packet: "good s (snd (on_packet p wr E s))"
  by (simp add: on_packet_def good_refl good_on_publish good_on_puback good_on_pubrec good_on_pubrel
      good_on_pubcomp good_on_subscribe good_on_unsubscribe good_on_pingreq good_on_disconnect
      split: Packet.split)

subsection \<open>Timers, the will and persistence\<close>

lemma retransmit_scan_ok:
  "retransmit_scan interval limit now q = (kept, ps, is) \<Longrightarrow> \<forall>m \<in> set q. inflight_ok m \<Longrightarrow>
    \<forall>m \<in> set kept. inflight_ok m"
proof (induction q arbitrary: kept ps "is")
  case (Cons m q)
  obtain kept1 ps1 is1 where rec: "retransmit_scan interval limit now q = (kept1, ps1, is1)"
    by (metis prod.exhaust)
  have "inflight_ok (m\<lparr>im_retry_count := c, im_timestamp := now\<rparr>)" for c
    using Cons.prems(2) by (simp add: inflight_ok_def split: option.splits)
  then have "set kept \<subseteq> insert m (insert (m\<lparr>im_retry_count := im_retry_count m + 1, im_timestamp := now\<rparr>)
      (set kept1))"
    using Cons.prems(1) rec
    by (auto simp: Let_def split: if_splits option.splits Qos2State.splits)
  moreover have "\<forall>m \<in> set kept1. inflight_ok m"
    using Cons.IH [OF rec] Cons.prems(2) by simp
  ultimately show ?case
    using Cons.prems(2) \<open>\<And>c. inflight_ok (m\<lparr>im_retry_count := c, im_timestamp := now\<rparr>)\<close> by auto
qed simp

lemma good_on_retransmit: "good s (snd (on_retransmit wr E s))"
proof -
  obtain rt w where s: "s = (rt, w)"
    by (cases s)
  define interval where "interval = get_retransmission_interval_ms (b_config (w_broker w))"
  obtain kept ps ids where scan: "retransmit_scan interval
      (cfg_max_retransmission_limit (b_config (w_broker w))) (w_instant w) (rt_inflight_queue rt)
      = (kept, ps, ids)"
    by (metis prod.exhaust)
  have "good (rt, w) (rt\<lparr>rt_inflight_queue := kept\<rparr>, w)"
    using retransmit_scan_ok [OF scan] by (intro good_runtime) (auto simp: runtime_inv_def)
  then have "good (rt, w) (snd (qmark (resend_publishes ps E (rt\<lparr>rt_inflight_queue := kept\<rparr>, w))
      (\<lambda>_ s. resend_pubrels ids wr E s)))"
    by (rule good_trans) (rule good_then [OF good_resend_publishes good_resend_pubrels])
  then show ?thesis
    using s scan by (simp add: on_retransmit_def good_refl interval_def Let_def)
qed

lemma good_publish_will: "good s (snd (publish_will E s))"
proof -
  obtain rt w where s: "s = (rt, w)"
    by (cases s)
  have "good (rt, w) (rt\<lparr>rt_will_message := None\<rparr>, w)"
    by (intro good_runtime) (simp_all add: runtime_inv_def)
  from good_trans [OF this good_route] show ?thesis
    using s by (simp add: publish_will_def good_refl split: option.split)
qed

lemma persist_inflight_ok: "inflight_ok m \<Longrightarrow> saved_inflight_ok (persist_inflight cid now m)"
  by (auto simp: inflight_ok_def saved_inflight_ok_def persist_inflight_def split: option.splits)

lemma restore_inflight_ok: "saved_inflight_ok m \<Longrightarrow> inflight_ok (restore_inflight now m)"
  by (auto simp: inflight_ok_def saved_inflight_ok_def restore_inflight_def split: option.splits)

lemma saved_session_ok:
  assumes "stores v ses subs (map (persist_inflight cid now) q) inb"
    and "ps_next_packet_id ses \<noteq> 0" "\<forall>m \<in> set q. inflight_ok m"
  shows "saved_ok v"
proof -
  have "set (sv_inflight v) = persist_inflight cid now ` set q"
    using assms(1) unfolding stores_def by (metis set_map set_mset_mset)
  moreover have "ps_next_packet_id (sv_session v) \<noteq> 0"
    using assms(1,2) same_session_fields(2) [of "sv_session v" ses] by (simp add: stores_def)
  ultimately show ?thesis
    using assms(3) by (auto simp: saved_ok_def persist_inflight_ok)
qed

lemma save_session_keeps:
  assumes "st_inv st" "\<forall>c v. saved st c = Some v \<longrightarrow> saved_ok v"
    and "ps_next_packet_id ses \<noteq> 0" "\<forall>m \<in> set q. inflight_ok m"
    and "owned ses subs (map (persist_inflight cid now) q) inb"
    and "st' = snd (save_session (e_storage E) ses subs (map (persist_inflight cid now) q) inb st)"
  shows "st_inv st' \<and> (\<forall>c v. saved st' c = Some v \<longrightarrow> saved_ok v)"
proof -
  obtain res st1 where call:
    "save_session (e_storage E) ses subs (map (persist_inflight cid now) q) inb st = (res, st1)"
    by (rule prod.exhaust)
  then have st': "st' = st1"
    using assms(6) by simp
  show ?thesis
  proof (cases res)
    case (Inl e)
    then show ?thesis
      using save_session_fail [OF assms(1) call [unfolded Inl]] assms(2) st' by simp
  next
    case (Inr u)
    then have ok: "save_session (e_storage E) ses subs (map (persist_inflight cid now) q) inb st
        = (Inr (), st1)"
      using call by simp
    from save_session_ok [OF assms(1,5) ok] obtain v where v: "st_inv st1"
      "saved st1 = (saved st)(ps_client_id ses \<mapsto> v)"
      "stores v ses subs (map (persist_inflight cid now) q) inb"
      by blast
    then show ?thesis
      using assms(2) saved_session_ok [OF v(3) assms(3,4)] st' by auto
  qed
qed

lemma good_save_to_storage: "good s (save_to_storage E s)"
proof -
  obtain rt w where s: "s = (rt, w)"
    by (cases s)
  show ?thesis
  proof (cases "rt_client_id rt")
    case (Some cid)
    define ses where "ses = \<lparr>ps_client_id = cid, ps_next_packet_id = rt_next_packet_id rt,
      ps_keep_alive = rt_keep_alive rt, ps_will_message = map_option persist_will (rt_will_message rt),
      ps_created_at = w_utc w, ps_updated_at = w_utc w\<rparr>"
    define st' where "st' = snd (save_session (e_storage E) ses
      (map (persist_subscription cid) (Broker_get_subscriptions (rt_id rt) w))
      (map (persist_inflight cid (w_utc w)) (rt_inflight_queue rt))
      (map (persist_inbound cid (w_utc w)) (rt_inbound_qos2 rt)) (w_storage w))"
    have "save_to_storage E s = (rt, w\<lparr>w_storage := st'\<rparr>)"
      using s Some by (simp add: save_to_storage_def ses_def st'_def Let_def)
    moreover have "st_inv st' \<and> (\<forall>c v. saved st' c = Some v \<longrightarrow> saved_ok v)"
      if "runtime_inv rt" "world_inv w"
      using that by (intro save_session_keeps [OF _ _ _ _ _ st'_def])
        (auto simp: world_inv_def runtime_inv_def ses_def owned_def persist_subscription_def
          persist_inflight_def persist_inbound_def)
    ultimately show ?thesis
      using s by (simp add: good_def fair_def session_inv_def world_inv_def row_ok_def other_rows_def)
  qed (simp add: s save_to_storage_def good_refl)
qed

lemma inbound_fold_ok:
  "runtime_inv rt \<Longrightarrow> runtime_inv (rt\<lparr>rt_inbound_qos2 :=
    fold (\<lambda>m. AList.update (pb_packet_id m) (restore_inbound m)) ms (rt_inbound_qos2 rt)\<rparr>)"
proof (induction ms arbitrary: rt)
  case (Cons m ms)
  have "inbound_ok (pb_packet_id m) (restore_inbound m)"
    by (simp add: inbound_ok_def restore_inbound_def)
  from Cons.IH [OF runtime_inv_update_inbound [OF Cons.prems this]] show ?case
    by simp
qed simp

text \<open>The runtime part of \<open>restore_from_storage\<close>, and its effect on the world.\<close>

definition restored :: "nat \<Rightarrow> PersistedSession \<Rightarrow> PersistedInflightMessage list
    \<Rightarrow> PersistedInboundQos2Message list \<Rightarrow> Runtime \<Rightarrow> Runtime" where
  "restored now ps infl inb rt =
    rt\<lparr>rt_next_packet_id := ps_next_packet_id ps, rt_keep_alive := ps_keep_alive ps,
       rt_will_message := map_option restore_will (ps_will_message ps),
       rt_inflight_queue := rt_inflight_queue rt @ map (restore_inflight now) infl,
       rt_inbound_qos2 := fold (\<lambda>m. AList.update (pb_packet_id m) (restore_inbound m)) inb
         (rt_inbound_qos2 rt)\<rparr>"

lemma restored_inv:
  assumes "runtime_inv rt" "ps_next_packet_id ps \<noteq> 0" "\<forall>m \<in> set infl. saved_inflight_ok m"
  shows "runtime_inv (restored now ps infl inb rt)"
proof -
  have "runtime_inv (rt\<lparr>rt_next_packet_id := ps_next_packet_id ps, rt_keep_alive := ps_keep_alive ps,
       rt_will_message := map_option restore_will (ps_will_message ps),
       rt_inflight_queue := rt_inflight_queue rt @ map (restore_inflight now) infl\<rparr>)"
    using assms by (auto simp: runtime_inv_def restore_inflight_ok)
  from inbound_fold_ok [OF this, of inb] show ?thesis
    by (simp add: restored_def)
qed

lemma restored_frame:
  "rt_id (restored now ps infl inb rt) = rt_id rt"
  "rt_message_tx (restored now ps infl inb rt) = rt_message_tx rt"
  "rt_command_rx (restored now ps infl inb rt) = rt_command_rx rt"
  "rt_message_rx (restored now ps infl inb rt) = rt_message_rx rt"
  by (simp_all add: restored_def)

lemma Broker_subscribe_instant: "w_instant (snd (Broker_subscribe E sid m fs w)) = w_instant w"
  by (simp add: Broker_subscribe_def split: prod.split)

lemma Broker_subscribe_storage: "w_storage (snd (Broker_subscribe E sid m fs w)) = w_storage w"
  by (simp add: Broker_subscribe_def split: prod.split)

lemma restore_from_storage_eq:
  assumes "load_session (e_storage E) cid (w_storage w) = Inr (Some ps)"
    and "fs = map restore_subscription (or_empty (load_subscriptions (e_storage E) cid (w_storage w)))"
    and "w1 = (if fs = [] then w else snd (Broker_subscribe E (rt_id rt) (rt_message_tx rt) fs w))"
  shows "restore_from_storage cid E (rt, w) =
    (True, (restored (w_instant w) ps (or_empty (load_inflight_messages (e_storage E) cid (w_storage w)))
       (or_empty (load_inbound_qos2_messages (e_storage E) cid (w_storage w))) rt,
     w1\<lparr>w_storage := snd (delete_session (e_storage E) cid (w_storage w1))\<rparr>))"
  using assms(1) unfolding assms(2,3)
  by (simp add: restore_from_storage_def restored_def Let_def Broker_subscribe_instant)

lemma good_restore_from_storage: "good s (snd (restore_from_storage cid E s))"
proof -
  obtain rt w where s: "s = (rt, w)"
    by (cases s)
  consider (none) "restore_from_storage cid E (rt, w) = (False, (rt, w))"
    | (some) ps where "load_session (e_storage E) cid (w_storage w) = Inr (Some ps)"
    by (cases "load_session (e_storage E) cid (w_storage w)";
        cases "projr (load_session (e_storage E) cid (w_storage w))")
      (simp_all add: restore_from_storage_def)
  then show ?thesis
  proof cases
    case some
    let ?infl = "or_empty (load_inflight_messages (e_storage E) cid (w_storage w))"
    let ?inb = "or_empty (load_inbound_qos2_messages (e_storage E) cid (w_storage w))"
    let ?rt = "restored (w_instant w) ps ?infl ?inb rt"
    have "ps_next_packet_id ps \<noteq> 0 \<and> (\<forall>m \<in> set ?infl. saved_inflight_ok m)" if inv: "world_inv w"
    proof -
      have st: "st_inv (w_storage w)"
        using inv by (simp add: world_inv_def)
      obtain v where v: "saved (w_storage w) cid = Some v" "ps = sv_session v"
        using load_session_saved [OF st some] by (cases "saved (w_storage w) cid") auto
      have "set ?infl \<subseteq> set (sv_inflight v)"
        using load_inflight_saved [OF st, of cid, THEN mset_eq_setD] v(1)
        by (cases "load_inflight_messages (e_storage E) cid (w_storage w)") (simp_all add: or_empty_def)
      then show ?thesis
        using inv v by (auto simp: world_inv_def saved_ok_def)
    qed
    then have 1: "good (rt, w) (?rt, w)"
      by (intro good_runtime_world) (simp_all add: restored_inv restored_frame)
    have 2: "good (?rt, w) (?rt, if fs = [] then w
        else snd (Broker_subscribe E (rt_id rt) (rt_message_tx rt) fs w))" for fs
      using good_subscribe [of ?rt w fs] by (simp add: good_refl restored_frame)
    show ?thesis
      unfolding s restore_from_storage_eq [OF some refl refl] snd_conv
      by (rule good_trans [OF good_trans [OF 1 2] good_delete_session])
  qed (simp add: s good_refl)
qed

subsection \<open>Connecting, taking over, and the main loop\<close>

lemma good_on_takeover: "good s (snd (on_takeover str c k E s))"
proof -
  obtain rt w where s: "s = (rt, w)"
    by (cases s)
  obtain res s1 where call: "send_packet (ConnAck \<lparr>ca_session_present = \<not> c,
      ca_return_code = ACCEPTED\<rparr>) str E (rt, w) = (res, s1)"
    by (rule prod.exhaust)
  then obtain out where s1: "s1 = (rt, w\<lparr>w_out := out\<rparr>)"
    by (rule send_packet_frame)
  let ?rt = "rt\<lparr>rt_clean_session := c, rt_keep_alive := k\<rparr>"
  let ?w = "w\<lparr>w_out := out\<rparr>"
  have 0: "good (rt, w) (rt, ?w)"
    by (simp add: good_world_plain)
  have "good (rt, ?w) (?rt, ?w)"
    by (rule good_runtime) (auto simp: runtime_inv_def)
  note 1 = good_trans [OF 0 this]
  have "good (?rt, ?w) (?rt, Broker_unsubscribe_all (rt_id rt) ?w)"
    using good_unsubscribe_all [of ?rt ?w] by simp
  note 2 = good_trans [OF 1 this]
  have 3: "good (?rt, w') (?rt\<lparr>rt_inflight_queue := []\<rparr>, w')" for w'
    by (rule good_runtime) (auto simp: runtime_inv_def)
  show ?thesis
    using s call s1 0 1 good_trans [OF good_trans [OF 2 good_delete_session] 3] good_trans [OF 2 3]
    by (cases res; cases c; cases "rt_client_id rt") (simp_all add: on_takeover_def Let_def)
qed

lemma good_accept_connect: "good s (snd (accept_connect str b E s))"
  unfolding accept_connect_def
proof (rule good_then [OF good_send_packet])
  fix s :: "('st, 'q, 'k, 'w, 'r) sstate"
  show "good s (snd (case s of (rt, w) \<Rightarrow> (Ok Processing, rt\<lparr>rt_stream := Some str\<rparr>, w)))"
    by (cases s) (auto simp: runtime_inv_def intro!: good_runtime)
qed

lemma good_refuse: "good s (snd (refuse str c E s))"
  unfolding refuse_def send_connack_error_def
  by (rule good_then [OF good_send_packet]) (simp only: snd_conv good_refl)

lemma good_connect_identified: "good s (snd (connect_identified connect str E s))"
proof -
  obtain rt w where s: "s = (rt, w)"
    by (cases s)
  let ?rt = "rt\<lparr>rt_client_id := Some (cp_client_id connect)\<rparr>"
  have 1: "good (rt, w) (?rt, w)"
    by (rule good_runtime) (auto simp: runtime_inv_def)
  have 2: "good (?rt, w) (?rt, w\<lparr>w_broker := b, w_cmd := k\<rparr>)" "good (?rt, w) (?rt, w\<lparr>w_broker := b\<rparr>)"
    if "Broker_has_collision (cp_client_id connect) a (w_broker w) = (x, b)" for x b a k
    using that by (auto intro!: good_world_plain simp: Broker_has_collision_def split: option.splits)
  obtain x b where coll:
    "Broker_has_collision (cp_client_id connect) (rt_takeover rt) (w_broker w) = (x, b)"
    by (rule prod.exhaust)
  note keep = good_trans [OF 1 2(1) [OF coll]] good_trans [OF 1 2(2) [OF coll]]
  show ?thesis
  proof (cases x)
    case None
    obtain p s2 where rest: "restore_from_storage (cp_client_id connect) E (?rt, w\<lparr>w_broker := b\<rparr>) = (p, s2)"
      by (rule prod.exhaust)
    have "good (?rt, w\<lparr>w_broker := b\<rparr>) s2"
      using good_restore_from_storage [of "(?rt, w\<lparr>w_broker := b\<rparr>)" "cp_client_id connect"] rest by simp
    note restore = good_trans [OF good_trans [OF keep(2) this] good_accept_connect]
    note clean = good_trans [OF good_trans [OF keep(2) good_delete_session [of _ _ "cp_client_id connect"]]
        good_accept_connect]
    show ?thesis
      using s coll None rest restore clean
      by (simp add: connect_identified_def Let_def)
  next
    case (Some takeover)
    obtain res k where run: "run_takeover (e_cmd E) takeover str (cp_clean_session connect)
        (cp_keep_alive connect) (w_cmd w) = (res, k)"
      by (rule prod.exhaust)
    show ?thesis
      using s coll Some run keep(1) by (cases res) (simp_all add: connect_identified_def Let_def)
  qed
qed

lemma good_on_connect: "good s (snd (on_connect connect str E s))"
proof -
  obtain rt w where s: "s = (rt, w)"
    by (cases s)
  let ?rt = "connect_will connect (rt\<lparr>rt_clean_session := cp_clean_session connect,
    rt_keep_alive := cp_keep_alive connect\<rparr>)"
  have 1: "good (rt, w) (?rt, w)"
    by (rule good_runtime) (auto simp: runtime_inv_def connect_will_def split: option.split)
  note steps = good_trans [OF 1 good_connect_identified] good_trans [OF 1 good_accept_connect]
  show ?thesis
    using s steps good_refuse
    by (simp add: on_connect_def Let_def good_refl split: sum.split outcome.split AuthError.split)
qed

lemma good_catch_err: "good s (snd x) \<Longrightarrow> good s (snd (catch_err d x))"
  by (cases "(d, x)" rule: catch_err.cases) simp_all

lemma good_continue_if: "good s (snd x) \<Longrightarrow> good s (snd (continue_if x))"
  by (cases x rule: continue_if.cases) (simp_all add: break_off_def)

lemma good_decode_from: "decode_from str E w = (pack, w') \<Longrightarrow> good (rt, w) (rt, w')"
  by (auto simp: decode_from_def intro!: good_world_plain split: prod.splits)

lemma good_drop_decode: "good (rt, w) (rt, drop_decode polled str E w)"
proof -
  obtain pack w' where call: "decode_from str E w = (pack, w')"
    by (rule prod.exhaust)
  then show ?thesis
    using good_decode_from [OF call] by (cases pack) (simp_all add: drop_decode_def good_refl)
qed

lemma good_recv_command: "good s (snd (recv_command E s))"
  by (cases s) (auto simp: recv_command_def intro!: good_world_plain split: prod.split outcome.split)

lemma recv_message_frame:
  "snd (recv_message E (rt, w)) = (rt, w\<lparr>w_mail := snd (ch_recv (e_mail E) (rt_message_rx rt) (w_mail w))\<rparr>)"
  by (simp add: recv_message_def split: prod.split outcome.split option.split)

lemma fair_recv_message: "fair s (snd (recv_message E s))"
  by (cases s) (simp add: recv_message_frame fair_def session_inv_def other_rows_def row_ok_def world_inv_def)

lemma good_do_waiting: "good s (snd (do_waiting ev E s))"
proof -
  obtain rt w where s: "s = (rt, w)"
    by (cases s)
  show ?thesis
  proof (cases "rt_stream rt")
    case (Some str)
    let ?rt = "rt\<lparr>rt_stream := None\<rparr>"
    have 1: "good (rt, w) (?rt, w)"
      by (rule good_runtime) (auto simp: runtime_inv_def)
    obtain pack w' where call: "decode_from str E w = (pack, w')"
      by (rule prod.exhaust)
    note 2 = good_trans [OF 1 good_decode_from [OF call]]
    note conn = good_trans [OF 2 good_catch_err [OF good_on_connect]]
    have "good (?rt, drop_decode polled str E w)
        (snd (qmark (recv_command E (?rt, drop_decode polled str E w)) (\<lambda>_ s. (Ok Cleanup, s))))" for polled
      by (rule good_then [OF good_recv_command]) (simp only: snd_conv good_refl)
    note cmd = good_trans [OF good_trans [OF 1 good_drop_decode] this]
    show ?thesis
      using s Some 1 2 call conn cmd
      by (simp add: do_waiting_def Let_def split: loop_event.split outcome.split Packet.split)
  qed (simp add: s do_waiting_def good_refl)
qed

lemma good_start_processing: "good s (snd (start_processing s))"
  by (cases s)
    (auto simp: start_processing_def runtime_inv_def good_refl intro!: good_runtime split: option.split)

lemma good_resume: "good s (rt, w) \<Longrightarrow> good s (rt\<lparr>rt_stream := x\<rparr>, w)"
  by (rule good_trans, assumption) (auto simp: runtime_inv_def intro!: good_runtime)

lemma good_after_takeover:
  "good s (snd (case on_takeover str c k E s of
      (Ok _, rt, w) \<Rightarrow> (Ok a, rt\<lparr>rt_stream := Some str\<rparr>, w)
    | (Err e, s) \<Rightarrow> (Ok b, s) | (Panic, s) \<Rightarrow> (Panic, s) | (Pending, s) \<Rightarrow> (Pending, s)))"
proof -
  obtain res s1 where call: "on_takeover str c k E s = (res, s1)"
    by (rule prod.exhaust)
  then have "good s s1"
    using good_on_takeover [of s str c k] by simp
  then show ?thesis
    using call good_resume by (cases res; cases s1) simp_all
qed

lemma good_processing_takeover: "good s (snd (processing_takeover params str E s))"
  unfolding processing_takeover_def
  by (rule good_then [OF good_catch_err [OF good_send_packet] good_after_takeover])

lemma good_then_True: "good s (snd x) \<Longrightarrow> good s (snd (continue_if (qmark x (\<lambda>_ s. (Ok True, s)))))"
  by (rule good_continue_if, rule good_then) (simp_all only: snd_conv good_refl)

text \<open>Every event of the loop but the receipt of a message is good; that one is fair.\<close>

lemma good_processing_event:
  assumes "\<And>polled. ev \<noteq> EvMessage polled"
  shows "good s (snd (processing_event ev str ka E s))"
proof -
  obtain rt w where s: "s = (rt, w)"
    by (cases s)
  obtain pack w' where call: "decode_from str E w = (pack, w')"
    by (rule prod.exhaust)
  note dec = good_decode_from [OF call, of rt]
  note pack = good_trans [OF dec good_continue_if [OF good_on_packet]]
  have cmd: "good s (snd (qmark (recv_command E s) (\<lambda>command s. case command of
      Some (Takeover params) \<Rightarrow> processing_takeover params str E s | _ \<Rightarrow> (Ok (Break Cleanup), s))))" for s
    by (rule good_then [OF good_recv_command])
      (simp add: good_processing_takeover good_refl split: option.split Command.split del: split_paired_All)
  note after = good_trans [OF good_drop_decode]
  show ?thesis
    using assms s call dec pack after [OF cmd] after [OF good_then_True [OF good_on_retransmit]] good_drop_decode
    by (simp add: processing_event_def Let_def break_off_def split: loop_event.split outcome.split)
qed

lemma message_event:
  assumes "processing_event (EvMessage polled) str ka E (rt, w) = (Ok r, s')"
  obtains m q s1 where "recv_message E (rt, drop_decode polled str E w) = (Ok m, s1)" "good s1 s'"
    "s1 = (rt, (drop_decode polled str E w)\<lparr>w_mail := q\<rparr>)" "ch_recv (e_mail E) (rt_message_rx rt) (w_mail w) = (Ok (Some m), q)"
proof -
  let ?w = "drop_decode polled str E w"
  have mail: "w_mail ?w = w_mail w"
    by (auto simp: drop_decode_def decode_from_def split: prod.split outcome.split)
  obtain m q where m: "recv_message E (rt, ?w) = (Ok m, (rt, ?w\<lparr>w_mail := q\<rparr>))"
      "ch_recv (e_mail E) (rt_message_rx rt) (w_mail w) = (Ok (Some m), q)"
    using assms mail by (auto simp: processing_event_def recv_message_def split: prod.splits outcome.splits option.splits)
  have "good (rt, ?w\<lparr>w_mail := q\<rparr>) s'"
    using assms m(1) good_then_True [OF good_on_message [of "(rt, ?w\<lparr>w_mail := q\<rparr>)" m str]]
    by (simp add: processing_event_def)
  then show thesis
    using m that by blast
qed

lemma fair_processing_event:
  assumes "processing_event ev str ka E s = (Ok r, s')"
  shows "fair s s'"
proof (cases "\<exists>polled. ev = EvMessage polled")
  case True
  then obtain polled where ev: "ev = EvMessage polled"
    by blast
  obtain rt w where s: "s = (rt, w)"
    by (cases s)
  obtain m q s1 where m: "recv_message E (rt, drop_decode polled str E w) = (Ok m, s1)" "good s1 s'"
    by (rule message_event [OF assms [unfolded ev s]])
  have "fair (rt, drop_decode polled str E w) s1"
    using fair_recv_message [of "(rt, drop_decode polled str E w)"] m(1) by simp
  from fair_trans [OF fair_trans [OF good_fair [OF good_drop_decode] this] good_fair [OF m(2)]] show ?thesis
    by (simp add: s)
next
  case False
  then show ?thesis
    using good_fair [OF good_processing_event, of ev s str ka] assms by auto
qed

lemma good_pending_command: "good s (snd (pending_command E s))"
  unfolding pending_command_def
  by (rule good_then [OF good_recv_command])
    (simp add: good_refl good_after_takeover split: option.split Command.split del: split_paired_All)

lemma good_remove_session:
  "good (rt, w) (rt, w\<lparr>w_broker := Broker_remove_session (rt_id rt) cid (w_broker w)\<rparr>)"
proof -
  have "good (rt, w) (rt, w\<lparr>w_broker := (w_broker w)\<lparr>b_router :=
      Router_unsubscribe_all (rt_id rt) (b_router (w_broker w))\<rparr>\<rparr>)"
    using good_unsubscribe_all [of rt w] by (simp add: Broker_unsubscribe_all_def)
  then show ?thesis
    by (rule good_trans)
      (auto intro!: good_world_plain simp: Broker_remove_session_def Let_def split: option.split)
qed

lemma good_cleanup: "good s (snd (cleanup E s))"
  unfolding cleanup_def
proof (rule good_then [OF good_publish_will])
  fix a :: unit and s :: "('st, 'q, 'k, 'w, 'r) sstate"
  show "good s (snd (case s of (rt, w) \<Rightarrow> (Ok (), rt, w\<lparr>w_broker :=
      Broker_remove_session (rt_id rt) (rt_client_id rt) (w_broker w)\<rparr>)))"
    by (cases s) (simp add: good_remove_session)
qed

end

section \<open>The session as a step relation\<close>

text \<open>
  \<open>run\<close>: the state of the main loop, the inside of the \<open>do_processing\<close> loop, and \<open>do_pending\<close>
  after saving.  A handler is one step, taken when it can complete: a step that would wait is
  not enabled.
\<close>

datatype control = InState State | InLoop stream u16 | InPending | Done

inductive session_step :: "('st, 'q, 'k, 'w, 'b, 'r, 'c) env \<Rightarrow> control \<times> ('st, 'q, 'k, 'w, 'r) sstate
    \<Rightarrow> control \<times> ('st, 'q, 'k, 'w, 'r) sstate \<Rightarrow> bool" for E where
  waiting: "do_waiting ev E s = (Ok st, s') \<Longrightarrow>
    session_step E (InState Waiting, s) (InState st, s')"
| start: "start_processing s = (Ok (Some (str, ka)), s') \<Longrightarrow>
    session_step E (InState Processing, s) (InLoop str ka, s')"
| no_stream: "start_processing s = (Ok None, s') \<Longrightarrow>
    session_step E (InState Processing, s) (InState Cleanup, s')"
| loop: "processing_event ev str ka E s = (Ok Continue, s') \<Longrightarrow>
    session_step E (InLoop str ka, s) (InLoop str ka, s')"
| leave: "processing_event ev str ka E s = (Ok (Break st), s') \<Longrightarrow>
    session_step E (InLoop str ka, s) (InState st, s')"
| save: "session_step E (InState PendingState, s) (InPending, save_to_storage E s)"
| command: "pending_command E s = (Ok st, s') \<Longrightarrow>
    session_step E (InPending, s) (InState st, s')"
| finish: "cleanup E s = (Ok (), s') \<Longrightarrow> session_step E (InState Cleanup, s) (Done, s')"

inductive_cases session_step_DoneE: "session_step E (Done, s) x"

context broker_state
begin

lemma good_session_step:
  assumes "session_step E (c, s) (c', s')" "\<And>str ka. c \<noteq> InLoop str ka"
  shows "good s s'"
  using assms
proof (induction "(c, s)" "(c', s')" arbitrary: c s c' s' rule: session_step.induct)
  case (waiting ev s st s')
  then show ?case using good_do_waiting [of s ev] by simp
next
  case (start s str ka s')
  then show ?case using good_start_processing [of s] by simp
next
  case (no_stream s s')
  then show ?case using good_start_processing [of s] by simp
next
  case (save s)
  then show ?case using good_save_to_storage by blast
next
  case (command s st s')
  then show ?case using good_pending_command [of s] by simp
next
  case (finish s s')
  then show ?case using good_cleanup [of s] by simp
qed blast+

lemma fair_session_step:
  assumes "session_step E (c, s) (c', s')"
  shows "fair s s'"
  using assms
proof cases
  case (loop ev str ka)
  then show ?thesis by (blast intro: fair_processing_event)
next
  case (leave ev str ka st)
  then show ?thesis by (blast intro: fair_processing_event)
qed (use good_fair [OF good_session_step [OF assms]] in blast)+

end

end
