(* ===== verification/System.thy ===== *)
theory System
  imports Session_Inv
begin

text \<open>
  The running broker: session tasks interleaved over the shared state, as \<^verbatim>\<open>src/server.rs\<close> polls
  them.  A step is a step of one session, an accepted connection with fresh channels, or a
  change of what the broker does not control: the clocks, the clients' input, the output that
  was taken, and the channels, whose contents the invariants do not mention.
\<close>

section \<open>Steps\<close>

type_synonym ('st, 'q, 'k, 'w, 'r) system =
  "(rstring \<Rightarrow> (control \<times> Runtime) option) \<times> ('st, 'q, 'k, 'w, 'r) world"

inductive system_step :: "('st, 'q, 'k, 'w, 'b, 'r, 'c) env \<Rightarrow> ('st, 'q, 'k, 'w, 'r) system
    \<Rightarrow> ('st, 'q, 'k, 'w, 'r) system \<Rightarrow> bool" for E where
  task: "tasks sid = Some (c, rt) \<Longrightarrow> session_step E (c, (rt, w)) (c', (rt', w')) \<Longrightarrow>
    system_step E (tasks, w) (tasks(sid \<mapsto> (c', rt')), w')"
| accept: "tasks sid = None \<Longrightarrow>
    (\<forall>s c rt. tasks s = Some (c, rt) \<longrightarrow> rt_message_tx rt \<noteq> mch \<and> rt_command_rx rt \<noteq> cch) \<Longrightarrow>
    Session_new sid cch mch str = (handle, rt) \<Longrightarrow>
    system_step E (tasks, w) (tasks(sid \<mapsto> (InState Waiting, rt)),
      w\<lparr>w_broker := Broker_add_client handle (w_broker w), w_mail := q, w_cmd := k\<rparr>)"
| environment: "system_step E (tasks, w)
    (tasks, w\<lparr>w_mail := q, w_cmd := k, w_out := out, w_in := inp, w_instant := t, w_utc := u\<rparr>)"

definition start_world :: "Config \<Rightarrow> ('st, 'q, 'k, 'w, 'r) world \<Rightarrow> bool" where
  "start_world config w \<longleftrightarrow> w_broker w = Broker_new config"

section \<open>Invariant\<close>

text \<open>
  Every subscription belongs to a live session and leads to that session's own mailbox, and
  different sessions have different mailboxes.
\<close>

definition subscriptions_live :: "('st, 'q, 'k, 'w, 'r) system \<Rightarrow> bool" where
  "subscriptions_live = (\<lambda>(tasks, w). \<forall>s f m q.
    subscription_of (b_router (w_broker w)) s f = Some (m, q) \<longrightarrow>
      (\<exists>c rt. tasks s = Some (c, rt) \<and> c \<noteq> Done \<and> rt_message_tx rt = m))"

definition mailboxes_distinct :: "('st, 'q, 'k, 'w, 'r) system \<Rightarrow> bool" where
  "mailboxes_distinct = (\<lambda>(tasks, w). \<forall>s s' c c' rt rt'.
    tasks s = Some (c, rt) \<longrightarrow> tasks s' = Some (c', rt') \<longrightarrow>
    rt_message_tx rt = rt_message_tx rt' \<longrightarrow> s = s')"

context broker_state
begin

definition system_inv :: "('st, 'q, 'k, 'w, 'r) system \<Rightarrow> bool" where
  "system_inv sys \<longleftrightarrow> world_inv (snd sys)
    \<and> (\<forall>sid c rt. fst sys sid = Some (c, rt) \<longrightarrow> rt_id rt = sid \<and> runtime_inv rt
      \<and> rt_message_rx rt = rt_message_tx rt)
    \<and> mailboxes_distinct sys \<and> subscriptions_live sys"

lemma cleanup_row:
  assumes "cleanup E (rt, w) = (Ok (), (rt', w'))" "session_inv (rt, w)"
  shows "subscription_of (b_router (w_broker w')) (rt_id rt) = (\<lambda>_. None)"
proof -
  obtain res s1 where will: "publish_will E (rt, w) = (res, s1)"
    by (rule prod.exhaust)
  obtain rt1 w1 where s1: "s1 = (rt1, w1)"
    by (cases s1)
  have res: "res = Ok ()"
    using assms(1) will by (cases res) (simp_all add: cleanup_def)
  have "good (rt, w) (rt1, w1)"
    using good_publish_will [of "(rt, w)"] will s1 by simp
  then have "router_inv (b_router (w_broker w1))" "rt_id rt1 = rt_id rt"
    using assms(2) by (simp_all add: good_def fair_def session_inv_def world_inv_def)
  moreover have "w' = w1\<lparr>w_broker := Broker_remove_session (rt_id rt1) (rt_client_id rt1) (w_broker w1)\<rparr>"
    using assms(1) will s1 res by (auto simp: cleanup_def)
  ultimately show ?thesis
    by (simp add: Broker_remove_session_def Let_def index.table_unsubscribe_all split: option.split)
qed

lemma session_step_Done_row:
  assumes "session_step E (c, (rt, w)) (Done, (rt', w'))" "session_inv (rt, w)"
  shows "subscription_of (b_router (w_broker w')) (rt_id rt) = (\<lambda>_. None)"
  using assms by (cases rule: session_step.cases) (auto intro: cleanup_row)

lemma system_session:
  assumes "system_inv (tasks, w)" "tasks sid = Some (c, rt)"
  shows "session_inv (rt, w)" "rt_id rt = sid" "rt_message_rx rt = rt_message_tx rt"
proof -
  have inv: "world_inv w" "rt_id rt = sid" "runtime_inv rt" "subscriptions_live (tasks, w)"
    and rx: "rt_message_rx rt = rt_message_tx rt"
    using assms by (auto simp: system_inv_def)
  have "row_ok rt w"
    using inv assms(2) by (force simp: row_ok_def subscriptions_live_def)
  then show "session_inv (rt, w)" "rt_id rt = sid" "rt_message_rx rt = rt_message_tx rt"
    using inv rx by (simp_all add: session_inv_def)
qed

text \<open>
  Any fair change by one session keeps the invariant, unless the session ends and leaves subscriptions behind.
\<close>

lemma system_inv_fair:
  assumes "system_inv (tasks, w)" "tasks sid = Some (c, rt)" "fair (rt, w) (rt', w')"
    and row: "c' = Done \<Longrightarrow> subscription_of (b_router (w_broker w')) sid = (\<lambda>_. None)"
  shows "system_inv (tasks(sid \<mapsto> (c', rt')), w')"
proof -
  have inv: "mailboxes_distinct (tasks, w)" "subscriptions_live (tasks, w)"
    using assms(1,2) by (auto simp: system_inv_def)
  note ses = system_session [OF assms(1,2)]
  have good: "session_inv (rt', w')" "rt_id rt' = sid" "rt_message_tx rt' = rt_message_tx rt"
    "rt_message_rx rt' = rt_message_tx rt'" "other_rows sid w w'"
    using assms(3) ses by (simp_all add: fair_def)
  have live: "subscriptions_live (tasks(sid \<mapsto> (c', rt')), w')"
    unfolding subscriptions_live_def prod.case
  proof (intro allI impI)
    fix s f m q
    assume sub: "subscription_of (b_router (w_broker w')) s f = Some (m, q)"
    show "\<exists>c rt. (tasks(sid \<mapsto> (c', rt'))) s = Some (c, rt) \<and> c \<noteq> Done \<and> rt_message_tx rt = m"
    proof (cases "s = sid")
      case True
      then show ?thesis
        using row good(1,2) sub by (auto simp: session_inv_def row_ok_def)
    next
      case False
      then show ?thesis
        using sub good(5) inv(2) unfolding other_rows_def subscriptions_live_def by simp blast
    qed
  qed
  have "mailboxes_distinct (tasks(sid \<mapsto> (c', rt')), w')"
    using inv(1) assms(2) good(3) unfolding mailboxes_distinct_def by (auto split: if_splits)
  with live show ?thesis
    using assms(1) good by (auto simp: system_inv_def session_inv_def)
qed

lemma system_inv_task:
  assumes "system_inv (tasks, w)" "tasks sid = Some (c, rt)"
    and step: "session_step E (c, (rt, w)) (c', (rt', w'))"
  shows "system_inv (tasks(sid \<mapsto> (c', rt')), w')"
proof (rule system_inv_fair [OF assms(1,2) fair_session_step [OF step]])
  show "subscription_of (b_router (w_broker w')) sid = (\<lambda>_. None)" if "c' = Done"
    using session_step_Done_row [of c rt w rt' w'] step that system_session [OF assms(1,2)] by simp
qed

lemma system_inv_step:
  assumes "system_step E sys sys'" "system_inv sys"
  shows "system_inv sys'"
  using assms
proof (induction rule: system_step.induct)
  case (task tasks sid c rt w c' rt' w')
  then show ?case by (intro system_inv_task)
next
  case (accept tasks sid mch cch str handle rt w k q)
  let ?w = "w\<lparr>w_broker := Broker_add_client handle (w_broker w), w_mail := q, w_cmd := k\<rparr>"
  have rt: "rt_id rt = sid" "rt_message_tx rt = mch" "runtime_inv rt" "rt_message_rx rt = rt_message_tx rt"
    using accept(3) by (auto simp: Session_new_def runtime_inv_def)
  have "world_inv ?w"
    using accept(4) by (simp add: system_inv_def world_inv_def Broker_add_client_def)
  moreover have "mailboxes_distinct (tasks(sid \<mapsto> (InState Waiting, rt)), ?w)"
    using accept(2,4) rt(2) unfolding system_inv_def mailboxes_distinct_def prod.case fun_upd_apply
    by (metis (no_types, lifting) fst_conv option.inject prod.inject)
  moreover have "subscriptions_live (tasks(sid \<mapsto> (InState Waiting, rt)), ?w)"
    using accept(1,4) unfolding system_inv_def subscriptions_live_def
    by (simp add: Broker_add_client_def) (metis option.distinct(1))
  ultimately show ?case
    using accept(4) rt by (auto simp: system_inv_def)
next
  case (environment tasks w q k out inp t u)
  then show ?case
    by (simp add: system_inv_def world_inv_def subscriptions_live_def mailboxes_distinct_def)
qed

lemma system_inv_start:
  assumes "start_world config w" "st_inv (w_storage w)"
    and "\<forall>cid v. saved (w_storage w) cid = Some v \<longrightarrow> saved_ok v"
  shows "system_inv (\<lambda>_. None, w)"
proof -
  have "router_inv (b_router (w_broker w))" "subscription_of (b_router (w_broker w)) = (\<lambda>_ _. None)"
    using assms(1) router_inv_new [of "cfg_retained_message_limit config"]
    by (simp_all add: start_world_def Broker_new_def Let_def subscription_of_def Router_new_def fun_eq_iff)
  then show ?thesis
    using assms(2,3)
    by (simp add: system_inv_def world_inv_def mailboxes_distinct_def subscriptions_live_def)
qed

lemma system_inv_reachable:
  assumes "rtranclp (system_step E) sys sys'" "system_inv sys"
  shows "system_inv sys'"
  using assms by (induction rule: rtranclp_induct) (auto intro: system_inv_step)

end

end
