(* ===== verification/Session_Props.thy ===== *)
theory Session_Props
  imports System
begin

text \<open>
  The properties of the session tasks: QoS 2 exactly once, authorization, connecting, takeover,
  subscriptions, retransmission, the will, persistence, and the invariant of the whole system.
  The environment \<open>local_env\<close> instantiates the parameters with the in-memory storage, channels of
  the source's capacities and in-memory streams; the contracts are interpreted on it.
\<close>

section \<open>A concrete environment\<close>

definition local_env :: "Authenticator \<Rightarrow> Authorizer
    \<Rightarrow> (memory, channel \<Rightarrow> Packet list option, channel \<Rightarrow> Command list option,
        stream \<Rightarrow> bytes option, bytes, bytes \<times> bool, bytes) env" where
  "local_env a z =
    \<lparr>e_storage = memory_ops, e_mail = bounded_chan 100, e_cmd = bounded_chan 10,
     e_writer = net_writer, e_buf = vec_bufmut, e_reader = pipe_reader, e_cursor = slice_buf,
     e_authenticator = a, e_authorizer = z\<rparr>"

lemma local_env_simps [simp]:
  "e_storage (local_env a z) = memory_ops" "e_mail (local_env a z) = bounded_chan 100"
  "e_cmd (local_env a z) = bounded_chan 10" "e_writer (local_env a z) = net_writer"
  "e_buf (local_env a z) = vec_bufmut" "e_reader (local_env a z) = pipe_reader"
  "e_cursor (local_env a z) = slice_buf" "e_authenticator (local_env a z) = a"
  "e_authorizer (local_env a z) = z"
  by (simp_all add: local_env_def)

interpretation io: session_io "local_env a z" net_sent "\<lambda>w s. w s \<noteq> None"
  unfolding session_io_def local_env_simps
  using net.stream_writer_axioms vec.buf_writer_axioms by blast

interpretation local_state: broker_state "local_env a z" memory_inv memory_saved memory_retained
  unfolding broker_state_def local_env_simps by (rule mem.storage_axioms)

abbreviation open_env :: "(memory, channel \<Rightarrow> Packet list option, channel \<Rightarrow> Command list option,
        stream \<Rightarrow> bytes option, bytes, bytes \<times> bool, bytes) env" where
  "open_env \<equiv> local_env allow_all_authenticate allow_all_authorizer"

definition start_state :: "(memory, channel \<Rightarrow> Packet list option, channel \<Rightarrow> Command list option,
        stream \<Rightarrow> bytes option, bytes \<times> bool) world" where
  "start_state =
    \<lparr>w_broker = Broker_new default_config, w_storage = memory_new, w_mail = [1 \<mapsto> []],
     w_cmd = [0 \<mapsto> []], w_out = [0 \<mapsto> [], 1 \<mapsto> []], w_in = (\<lambda>_. ([], False)), w_instant = 0, w_utc = 0\<rparr>"

text \<open>The same with a subscriber to \<open>a/#\<close> whose mailbox is channel 0.\<close>

definition busy_state :: "(memory, channel \<Rightarrow> Packet list option, channel \<Rightarrow> Command list option,
        stream \<Rightarrow> bytes option, bytes \<times> bool) world" where
  "busy_state = start_state\<lparr>w_broker := (w_broker start_state)\<lparr>b_router := example_router\<rparr>,
     w_mail := [0 \<mapsto> [], 1 \<mapsto> []]\<rparr>"

definition start_runtime :: Runtime where
  "start_runtime = snd (Session_new ''s'' 0 1 0)"

section \<open>QoS 2\<close>

text \<open>
  C7: QoS 2 delivers exactly once.  However often a client repeats the PUBLISH with one packet
  identifier before the first PUBREL, and however often it repeats the PUBREL, the message, as
  first received, is routed exactly once; every PUBLISH is answered by PUBREC and every PUBREL
  by PUBCOMP, and the identifier is free again afterwards.
\<close>

theorem qos2_exactly_once:
  assumes "session_io E sent up" "up (w_out w) wr"
    and "map_of (rt_inbound_qos2 rt) i = None"
    and "\<forall>p' \<in> set (p # ps). pp_qos p' = ExactlyOnce \<and> pp_packet_id p' = Some i"
    and "authorize_publish (e_authorizer E) (client_name rt) (pp_topic p) = Ok ()"
    and "Broker_route E p w = (Ok (), w1)"
  shows "\<exists>rt' w'. run_packets (map Publish (p # ps) @ replicate (Suc n) (PubRel \<lparr>prel_packet_id = i\<rparr>))
        wr E (rt, w) = (Ok True, (rt', w'))
    \<and> w_mail w' = w_mail w1 \<and> w_storage w' = w_storage w1 \<and> w_broker w' = w_broker w1
    \<and> map_of (rt_inbound_qos2 rt') = map_of (rt_inbound_qos2 rt)
    \<and> sent (w_out w') wr = sent (w_out w) wr
        @ concat (replicate (length (p # ps)) (mqtt_bytes (PubRec \<lparr>prec_packet_id = i\<rparr>)))
        @ concat (replicate (Suc n) (mqtt_bytes (PubComp \<lparr>pcomp_packet_id = i\<rparr>)))"
proof -
  obtain rt' w' where run: "run_packets (map Publish (p # ps)
        @ replicate (Suc n) (PubRel \<lparr>prel_packet_id = i\<rparr>)) wr E (rt, w)
      = (Ok True, (rt', w1\<lparr>w_out := w_out w'\<rparr>))"
    "map_of (rt_inbound_qos2 rt') = map_of (rt_inbound_qos2 rt)"
    "session_io.wrote sent up wr
      (concat (replicate (length (p # ps)) (mqtt_bytes (PubRec \<lparr>prec_packet_id = i\<rparr>)))
        @ concat (replicate (Suc n) (mqtt_bytes (PubComp \<lparr>pcomp_packet_id = i\<rparr>)))) w w'"
    using session_io.qos2_once [OF assms(1-6), of n] by blast
  then have "sent (w_out w') wr = sent (w_out w) wr
        @ concat (replicate (length (p # ps)) (mqtt_bytes (PubRec \<lparr>prec_packet_id = i\<rparr>)))
        @ concat (replicate (Suc n) (mqtt_bytes (PubComp \<lparr>pcomp_packet_id = i\<rparr>)))"
    unfolding session_io.wrote_def [OF assms(1)] by (simp del: replicate_Suc list.size)
  then show ?thesis
    using run(1,2) by (intro exI [of _ rt'] exI [of _ "w1\<lparr>w_out := w_out w'\<rparr>"]) simp
qed

definition message :: "QoS \<Rightarrow> bytes \<Rightarrow> PublishPacket" where
  "message qos payload =
    \<lparr>pp_topic = ''a/b'', pp_packet_id = Some 7, pp_payload = payload, pp_qos = qos,
     pp_retain = False, pp_dup = False\<rparr>"

lemma example_route:
  assumes "b_router (w_broker w) = example_router" "w_mail w = [0 \<mapsto> [], 1 \<mapsto> []]"
  shows "Broker_route (local_env a z) ((message qos bs)\<lparr>pp_packet_id := i\<rparr>) w =
    (Ok (), w\<lparr>w_mail := [0 \<mapsto> [Publish
      \<lparr>pp_topic = ''a/b'', pp_packet_id = None, pp_payload = bs, pp_qos = min qos AtLeastOnce,
       pp_retain = False, pp_dup = False\<rparr>], 1 \<mapsto> []]\<rparr>)"
proof -
  let ?p = "(message qos bs)\<lparr>pp_packet_id := i\<rparr>"
  have send: "send_all (bounded_chan 100) ?p (matching (pp_topic ?p) example_router) (w_mail w)
    = (Ok (), [0 \<mapsto> [Publish
      \<lparr>pp_topic = ''a/b'', pp_packet_id = None, pp_payload = bs, pp_qos = min qos AtLeastOnce,
       pp_retain = False, pp_dup = False\<rparr>], 1 \<mapsto> []])"
    using example_matching
    by (simp add: example_message_def message_def bounded_chan_def assms(2)
        forward_packet_def min_qos_min fun_eq_iff)
  have valid: "validate_publish_topic (pp_topic ?p)" and "\<not> pp_retain ?p"
    by (simp_all add: message_def validate_publish_topic_def str_contains_def)
  then show ?thesis
    using Router_route_eq [OF valid send, of memory_ops "w_utc w" "w_storage w"] assms(1)
    by (simp add: Broker_route_def)
qed

lemma busy_route:
  "Broker_route (local_env a z) (message qos bs) busy_state =
    (Ok (), busy_state\<lparr>w_mail := [0 \<mapsto> [Publish
      \<lparr>pp_topic = ''a/b'', pp_packet_id = None, pp_payload = bs, pp_qos = min qos AtLeastOnce,
       pp_retain = False, pp_dup = False\<rparr>], 1 \<mapsto> []]\<rparr>)"
  using example_route [of busy_state a z "Some 7" qos bs] by (simp add: busy_state_def message_def)

lemma min_qos_simps [simp]:
  "min ExactlyOnce AtLeastOnce = AtLeastOnce" "min AtMostOnce q = AtMostOnce" "min (q :: QoS) q = q"
  by (cases q; simp add: min_def less_eq_QoS_def)+

theorem qos2_exactly_once_witness:
  "\<exists>rt' w'. run_packets (map Publish [message ExactlyOnce [1], message ExactlyOnce [2]]
        @ replicate 2 (PubRel \<lparr>prel_packet_id = 7\<rparr>)) 0 open_env (start_runtime, busy_state)
      = (Ok True, (rt', w'))
    \<and> w_mail w' = [0 \<mapsto> [Publish
      \<lparr>pp_topic = ''a/b'', pp_packet_id = None, pp_payload = [1], pp_qos = AtLeastOnce,
       pp_retain = False, pp_dup = False\<rparr>], 1 \<mapsto> []]"
proof -
  have "\<forall>p' \<in> set [message ExactlyOnce [1], message ExactlyOnce [2]].
      pp_qos p' = ExactlyOnce \<and> pp_packet_id p' = Some 7"
    by (simp add: message_def)
  moreover have "map_of (rt_inbound_qos2 start_runtime) 7 = None" "w_out busy_state 0 \<noteq> None"
    by (simp_all add: start_runtime_def Session_new_def busy_state_def start_state_def)
  moreover have "authorize_publish (e_authorizer open_env) (client_name start_runtime)
      (pp_topic (message ExactlyOnce [1])) = Ok ()"
    by (simp add: allow_all_authorizer_def)
  ultimately show ?thesis
    using qos2_exactly_once [OF io.session_io_axioms, of busy_state 0 start_runtime 7
        "message ExactlyOnce [1]" "[message ExactlyOnce [2]]" allow_all_authenticate allow_all_authorizer
        _ 1, OF _ _ _ _ busy_route]
    by (simp add: numeral_2_eq_2 del: run_packets.simps) blast
qed

section \<open>Publishing\<close>

lemma route_authorized_cases:
  assumes "route_authorized p E (rt, w) = (res, (rt', w'))"
  shows "rt' = rt \<and> (w' = w \<or> w' = snd (Broker_route E p w)
    \<and> authorize_publish (e_authorizer E) (client_name rt) (pp_topic p) = Ok ())"
proof -
  obtain r w1 where call: "Broker_route E p w = (r, w1)"
    by (rule prod.exhaust)
  show ?thesis
  proof (cases "authorize_publish (e_authorizer E) (client_name rt) (pp_topic p)")
    case (Ok u)
    then show ?thesis
      using assms call by (cases r) (auto simp: route_authorized_def session_route_def)
  qed (use assms in \<open>auto simp: route_authorized_def\<close>)
qed

lemma send_then_route_cases:
  assumes "qmark (send_packet a wr E (rt, w)) (\<lambda>_. f) = (res, (rt', w'))"
    and "\<And>w1 res rt' w'. f (rt, w1) = (res, (rt', w')) \<Longrightarrow> w' = w1 \<or> w' = snd (Broker_route E p w1) \<and> P"
  shows "same_but_out w w' \<or> (P \<and> same_but_out (snd (Broker_route E p w)) w')"
proof -
  obtain r s1 where call: "send_packet a wr E (rt, w) = (r, s1)"
    by (rule prod.exhaust)
  then obtain out where s1: "s1 = (rt, w\<lparr>w_out := out\<rparr>)"
    by (rule send_packet_frame)
  show ?thesis
  proof (cases r)
    case (Ok u)
    then show ?thesis
      using assms(1) call s1 assms(2) [of "w\<lparr>w_out := out\<rparr>" res rt' w']
      by (auto simp: Broker_route_out)
  qed (use assms(1) call s1 in auto)
qed

lemma send_then_answer_cases:
  assumes "qmark (send_packet a wr E (rt, w)) (\<lambda>_ s. (r, s)) = (res, (rt', w'))"
  shows "rt' = rt \<and> same_but_out w w'"
proof -
  obtain x s1 where call: "send_packet a wr E (rt, w) = (x, s1)"
    by (rule prod.exhaust)
  then obtain out where s1: "s1 = (rt, w\<lparr>w_out := out\<rparr>)"
    by (rule send_packet_frame)
  then show ?thesis
    using assms call by (cases x) auto
qed

lemma publish_cases:
  assumes "on_publish p wr E (rt, w) = (res, (rt', w'))"
  shows "same_but_out w w' \<or> (pp_qos p \<noteq> ExactlyOnce
    \<and> authorize_publish (e_authorizer E) (client_name rt) (pp_topic p) = Ok ())
      \<and> same_but_out (snd (Broker_route E p w)) w'"
proof (cases "pp_qos p")
  case AtMostOnce
  then show ?thesis
    using assms route_authorized_cases [of p E rt w res rt' w'] by (auto simp: on_publish_def)
next
  case AtLeastOnce
  show ?thesis
  proof (cases "pp_packet_id p")
    case None
    then show ?thesis
      using assms AtLeastOnce by (auto simp: on_publish_def)
  next
    case (Some i)
    have "qmark (send_packet (PubAck \<lparr>pa_packet_id = i\<rparr>) wr E (rt, w))
        (\<lambda>_ s. if pp_dup p then (Ok True, s) else route_authorized p E s) = (res, (rt', w'))"
      using assms AtLeastOnce Some by (simp add: on_publish_def)
    then show ?thesis
      using AtLeastOnce
      by (intro send_then_route_cases [where p = p]) (auto split: if_splits dest: route_authorized_cases)
  qed
next
  case ExactlyOnce
  then show ?thesis
    using assms send_then_answer_cases [of _ wr E _ w "Ok True" res rt' w']
    by (auto simp: on_publish_def Let_def split: option.splits if_splits)
qed

lemma pubrel_cases:
  assumes "on_pubrel p wr E (rt, w) = (res, (rt', w'))"
  shows "same_but_out w w' \<or> (\<exists>q. map_of (rt_inbound_qos2 rt) (prel_packet_id p) = Some \<lparr>rq_packet = q\<rparr>
    \<and> authorize_publish (e_authorizer E) (client_name rt) (pp_topic q) = Ok ()
    \<and> same_but_out (snd (Broker_route E q w)) w')"
proof (cases "map_of (rt_inbound_qos2 rt) (prel_packet_id p)")
  case None
  then have "qmark (send_packet (PubComp \<lparr>pcomp_packet_id = prel_packet_id p\<rparr>) wr E (rt, w))
      (\<lambda>_ (rt, w). case map_of (rt_inbound_qos2 rt) (prel_packet_id p) of
          None \<Rightarrow> (Ok True, (rt, w))
        | Some m \<Rightarrow> route_authorized (rq_packet m) E
            (rt\<lparr>rt_inbound_qos2 := AList.delete (prel_packet_id p) (rt_inbound_qos2 rt)\<rparr>, w)) = (res, (rt', w'))"
    using assms by (simp add: on_pubrel_def)
  from send_then_route_cases [OF this, of _ False] show ?thesis
    using None by auto
next
  case (Some m)
  let ?P = "authorize_publish (e_authorizer E) (client_name rt) (pp_topic (rq_packet m)) = Ok ()"
  have name: "client_name (rt\<lparr>rt_inbound_qos2 := x\<rparr>) = client_name rt" for x
    by (simp add: client_name_def)
  have "same_but_out w w' \<or> (?P \<and> same_but_out (snd (Broker_route E (rq_packet m) w)) w')"
    by (rule send_then_route_cases [OF assms [unfolded on_pubrel_def]])
      (auto simp: Some name dest: route_authorized_cases)
  with Some show ?thesis
    by (cases m) auto
qed

text \<open>
  C8: only authorized messages reach the router.  Whatever packet other than SUBSCRIBE a client sends,
  and whatever the handler's result, either no mailbox and no stored state changes, or the packet
  is a PUBLISH of QoS 0 or 1, or a PUBREL that releases a stored QoS 2 message, the authorizer
  grants this client the topic of that message, and the change is that of routing the message.
\<close>

theorem publish_authorized:
  assumes "on_packet pack wr E (rt, w) = (res, (rt', w'))" "\<forall>sp. pack \<noteq> Subscribe sp"
  shows "(w_mail w' = w_mail w \<and> w_storage w' = w_storage w)
    \<or> (\<exists>p. (pack = Publish p \<and> pp_qos p \<noteq> ExactlyOnce
          \<or> (\<exists>i. pack = PubRel \<lparr>prel_packet_id = i\<rparr>
               \<and> map_of (rt_inbound_qos2 rt) i = Some \<lparr>rq_packet = p\<rparr>))
        \<and> authorize_publish (e_authorizer E) (client_name rt) (pp_topic p) = Ok ()
        \<and> same_but_out (snd (Broker_route E p w)) w')"
proof (cases pack)
  case (Publish p)
  then show ?thesis
    using assms(1) publish_cases [of p wr E rt w res rt' w'] same_but_out_fields [of w w']
    by (simp add: on_packet_def) blast
next
  case (PubRel p)
  obtain i where "p = \<lparr>prel_packet_id = i\<rparr>"
    by (cases p)
  then show ?thesis
    using PubRel assms(1) pubrel_cases [of p wr E rt w res rt' w'] same_but_out_fields [of w w']
    by (simp add: on_packet_def) blast
next
  case (PubRec p)
  then show ?thesis
    using assms(1) same_but_out_fields [of w w']
    by (auto simp: on_packet_def on_pubrec_def Let_def dest: send_then_answer_cases)
next
  case (Unsubscribe p)
  then have "same_but_out (Broker_unsubscribe (rt_id rt) (up_topic_filters p) w) w'"
    using assms(1) by (auto simp: on_packet_def on_unsubscribe_def Let_def dest: send_then_answer_cases)
  then show ?thesis
    using same_but_out_fields [of _ w'] by (simp add: Broker_unsubscribe_def)
next
  case PingReq
  then show ?thesis
    using assms(1) same_but_out_fields [of w w']
    by (auto simp: on_packet_def on_pingreq_def dest: send_then_answer_cases)
qed (use assms in \<open>auto simp: on_packet_def on_puback_def on_pubcomp_def on_disconnect_def\<close>)

theorem publish_authorized_witness:
  "\<exists>res rt' w'. on_packet (Publish (message AtMostOnce [1])) 0 open_env
      (start_runtime, busy_state) = (res, (rt', w')) \<and> w_mail w' \<noteq> w_mail busy_state
    \<and> same_but_out (snd (Broker_route open_env (message AtMostOnce [1]) busy_state)) w'"
proof -
  let ?p = "message AtMostOnce [1]"
  obtain res rt' w' where run: "on_packet (Publish ?p) 0 open_env (start_runtime, busy_state) = (res, (rt', w'))"
    by (metis prod.collapse)
  have "pp_qos ?p = AtMostOnce"
    by (simp add: message_def)
  then have "w' = snd (Broker_route open_env ?p busy_state)"
    using run by (simp add: on_packet_def on_publish_def route_authorized_def session_route_def
        allow_all_authorizer_def busy_route)
  then have "w_mail w' 0 \<noteq> w_mail busy_state 0"
    by (simp add: busy_route) (simp add: busy_state_def)
  then have "w_mail w' \<noteq> w_mail busy_state"
    by metis
  moreover have "same_but_out (snd (Broker_route open_env ?p busy_state)) w'"
    using publish_authorized [OF run] calculation by (simp del: local_env_simps)
  ultimately show ?thesis
    using run by blast
qed

text \<open>
  C9: PUBLISH of QoS 0 and 1.  The message is routed exactly if the client may publish to the topic
  and it is not a QoS 1 repetition; a QoS 1 message is acknowledged by PUBACK whether or not it is
  routed, so neither a refusal nor a dropped repetition is visible to the sender.
\<close>

theorem publish_handled:
  assumes "session_io E sent up" "up (w_out w) wr" "Broker_route E p w = (Ok (), w1)"
    and "pp_qos p = AtMostOnce \<or> pp_qos p = AtLeastOnce \<and> pp_packet_id p = Some i"
    and "authorize_publish (e_authorizer E) (client_name rt) (pp_topic p) = ans" "ans = Ok () \<or> (\<exists>e. ans = Err e)"
  shows "\<exists>w'. on_packet (Publish p) wr E (rt, w) = (Ok True, (rt, w'))
    \<and> same_but_out (if ans = Ok () \<and> \<not> (pp_qos p = AtLeastOnce \<and> pp_dup p) then w1 else w) w'
    \<and> sent (w_out w') wr = sent (w_out w) wr
        @ (if pp_qos p = AtLeastOnce then mqtt_bytes (PubAck \<lparr>pa_packet_id = i\<rparr>) else [])"
proof -
  have out1: "w_out w1 = w_out w"
    using Broker_route_frame [OF assms(3)] by (metis world.select_convs(5) world.surjective world.update_convs(2,3))
  obtain w2 where w2: "send_packet (PubAck \<lparr>pa_packet_id = i\<rparr>) wr E (rt, w) = (Ok (), (rt, w2))"
    "session_io.wrote sent up wr (mqtt_bytes (PubAck \<lparr>pa_packet_id = i\<rparr>)) w w2"
    using session_io.send_ok [OF assms(1,2), of "PubAck \<lparr>pa_packet_id = i\<rparr>" rt] by auto
  then have ack: "w2 = w\<lparr>w_out := w_out w2\<rparr>" "sent (w_out w2) wr = sent (w_out w) wr
      @ mqtt_bytes (PubAck \<lparr>pa_packet_id = i\<rparr>)"
    unfolding session_io.wrote_def [OF assms(1)] by (simp_all add: same_but_out_def)
  then have "Broker_route E p w2 = (Ok (), w1\<lparr>w_out := w_out w2\<rparr>)"
    using Broker_route_out [of E p "w_out w2" w] assms(3) by simp
  then show ?thesis
    using assms(3-6) w2(1) ack out1
    by (cases ans) (auto simp: on_packet_def on_publish_def route_authorized_def session_route_def
        same_but_out_def)
qed

theorem publish_handled_witness:
  "\<exists>w'. on_packet (Publish (message AtLeastOnce [1])) 0 open_env (start_runtime, busy_state)
      = (Ok True, (start_runtime, w'))
    \<and> w_mail w' = [0 \<mapsto> [Publish ((message AtLeastOnce [1])\<lparr>pp_packet_id := None\<rparr>)], 1 \<mapsto> []]
    \<and> net_sent (w_out w') 0 = mqtt_bytes (PubAck \<lparr>pa_packet_id = 7\<rparr>)"
proof -
  let ?p = "message AtLeastOnce [1]"
  have "pp_qos ?p = AtMostOnce \<or> pp_qos ?p = AtLeastOnce \<and> pp_packet_id ?p = Some 7" "\<not> pp_dup ?p"
    by (simp_all add: message_def)
  moreover have "w_out busy_state 0 = Some []"
    by (simp add: busy_state_def start_state_def)
  moreover have "authorize_publish (e_authorizer open_env) (client_name start_runtime) (pp_topic ?p) = Ok ()"
    by (simp add: allow_all_authorizer_def)
  ultimately show ?thesis
    using publish_handled [where E = open_env and wr = 0 and p = ?p and i = 7 and rt = start_runtime and ans = "Ok ()",
        OF io.session_io_axioms _ busy_route]
    by (simp add: net_sent_def) (fastforce simp: message_def dest: same_but_out_fields(3))
qed

end
