(* ===== verification/Session_Lifecycle.thy ===== *)
theory Session_Lifecycle
  imports Session_Props
begin

text \<open>
  The life of a session: connecting, being taken over, the will and the end of the session.
\<close>

section \<open>Connecting\<close>

text \<open>
  What MQTT 3.1.1 asks of a CONNECT, and the return code of the answer: 0 accepts, 1 is a wrong
  protocol, 2 a bad client identifier, 4 bad credentials, 5 any other refusal.
\<close>

definition connect_code :: "Authenticator \<Rightarrow> ConnectPacket \<Rightarrow> u8" where
  "connect_code A c =
    (if cp_protocol_name c \<noteq> ''MQTT'' \<or> cp_protocol_level c \<noteq> 4 then 1
     else if (if cp_client_id c = [] then \<not> cp_clean_session c
              else \<not> (length (cp_client_id c) \<le> 23 \<and> (\<forall>x \<in> set (cp_client_id c). ascii_alphanumeric x)))
     then 2
     else case A \<lparr>cred_username = cp_username c, cred_password = cp_password c,
                  cred_client_id = cp_client_id c\<rparr> of
       Ok _ \<Rightarrow> 0
     | Err InvalidCredentials \<Rightarrow> 4
     | _ \<Rightarrow> 5)"

definition answers :: "Authenticator \<Rightarrow> bool" where
  "answers A \<longleftrightarrow> (\<forall>c. (\<exists>u. A c = Ok u) \<or> (\<exists>e. A c = Err e))"

lemma on_connect_by_code:
  assumes "answers (e_authenticator E)"
  shows "on_connect c str E (rt, w) =
    (if connect_code (e_authenticator E) c = 0 then
       (let rt = connect_will c (rt\<lparr>rt_clean_session := cp_clean_session c,
                                   rt_keep_alive := cp_keep_alive c\<rparr>) in
        if cp_client_id c \<noteq> [] then connect_identified c str E (rt, w)
        else accept_connect str False E (rt, w))
     else refuse str (connect_code (e_authenticator E) c) E (rt, w))"
proof -
  let ?a = "e_authenticator E \<lparr>cred_username = cp_username c, cred_password = cp_password c,
    cred_client_id = cp_client_id c\<rparr>"
  have "(\<exists>u. ?a = Ok u) \<or> (\<exists>e. ?a = Err e)"
    using assms by (simp add: answers_def)
  moreover have "list_all ascii_alphanumeric (cp_client_id c) \<longleftrightarrow> (\<forall>x \<in> set (cp_client_id c). ascii_alphanumeric x)"
    by (simp add: list_all_iff)
  ultimately show ?thesis
    by (elim disjE exE)
      (auto simp: on_connect_def connect_code_def validate_client_id_def Let_def
        PROTOCOL_NAME_def PROTOCOL_LEVEL_def UNACCEPTABLE_PROTOCOL_VERSION_def IDENTIFIER_REJECTED_def
        BAD_USERNAME_OR_PASSWORD_def NOT_AUTHORIZED_def split: AuthError.split)
qed

text \<open>
  C10: refused connections.  A CONNECT that asks for another protocol, has a bad client identifier or fails
  authentication is answered by exactly one CONNACK with the return code of the standard, the
  session ends, and neither its state nor anything shared changes.
\<close>

theorem connect_refused:
  assumes "session_io E sent up" "up (w_out w) str" "answers (e_authenticator E)"
    and "connect_code (e_authenticator E) c = code" "code \<noteq> 0"
  shows "\<exists>w'. on_connect c str E (rt, w) = (Ok Cleanup, (rt, w')) \<and> same_but_out w w'
    \<and> sent (w_out w') = (sent (w_out w))(str := sent (w_out w) str
        @ mqtt_bytes (ConnAck \<lparr>ca_session_present = False, ca_return_code = code\<rparr>))"
proof -
  obtain w' where w': "send_packet (ConnAck \<lparr>ca_session_present = False, ca_return_code = code\<rparr>) str E (rt, w)
      = (Ok (), (rt, w'))"
    "session_io.wrote sent up str (mqtt_bytes (ConnAck \<lparr>ca_session_present = False, ca_return_code = code\<rparr>)) w w'"
    using session_io.send_ok [OF assms(1,2), of "ConnAck \<lparr>ca_session_present = False, ca_return_code = code\<rparr>" rt]
    by auto
  show ?thesis
    using w'(1) w'(2) [unfolded session_io.wrote_def [OF assms(1)]] assms(5)
    by (intro exI [of _ w'])
      (simp add: on_connect_by_code [OF assms(3)] assms(4) refuse_def send_connack_error_def)
qed

lemma Broker_subscribe_frame:
  assumes "Broker_subscribe E sid m fs w = (x, w')"
  shows "w_out w' = w_out w" "b_named_clients (w_broker w') = b_named_clients (w_broker w)"
    "w_storage w' = w_storage w" "b_sessions (w_broker w') = b_sessions (w_broker w)"
  using assms by (auto simp: Broker_subscribe_def split: prod.splits)

lemma restore_effects:
  assumes "reliable_storage (e_storage E) st_inv saved retained" "st_inv (w_storage w)"
    and "restore_from_storage cid E (rt, w) = (b, (rt', w'))"
  shows "b \<longleftrightarrow> saved (w_storage w) cid \<noteq> None"
    "st_inv (w_storage w')" "saved (w_storage w') = (saved (w_storage w))(cid := None)"
    "w_out w' = w_out w" "b_named_clients (w_broker w') = b_named_clients (w_broker w)"
    "rt_clean_session rt' = rt_clean_session rt" "rt_client_id rt' = rt_client_id rt"
proof -
  have load: "load_session (e_storage E) cid (w_storage w) = Inr (map_option sv_session (saved (w_storage w) cid))"
    by (rule reliable_storage.reliable_loads(1) [OF assms(1,2)])
  have all: "(b \<longleftrightarrow> saved (w_storage w) cid \<noteq> None) \<and> st_inv (w_storage w')
    \<and> saved (w_storage w') = (saved (w_storage w))(cid := None) \<and> w_out w' = w_out w
    \<and> b_named_clients (w_broker w') = b_named_clients (w_broker w)
    \<and> rt_clean_session rt' = rt_clean_session rt \<and> rt_client_id rt' = rt_client_id rt"
  proof (cases "saved (w_storage w) cid")
    case None
    then show ?thesis
      using load assms(2,3) by (auto simp: restore_from_storage_def)
  next
    case (Some v)
    define fs where "fs = map restore_subscription (or_empty (load_subscriptions (e_storage E) cid (w_storage w)))"
    define w1 where "w1 = (if fs = [] then w else snd (Broker_subscribe E (rt_id rt) (rt_message_tx rt) fs w))"
    have state: "broker_state E st_inv saved retained"
      unfolding broker_state_def using assms(1) by (simp add: reliable_storage_def)
    have w1: "w_storage w1 = w_storage w" "w_out w1 = w_out w"
      "b_named_clients (w_broker w1) = b_named_clients (w_broker w)"
      using Broker_subscribe_frame [of E "rt_id rt" "rt_message_tx rt" fs w]
      by (auto simp: w1_def) (metis prod.collapse)+
    obtain st where del: "delete_session (e_storage E) cid (w_storage w) = (Inr (), st)" "st_inv st"
      "saved st = (saved (w_storage w))(cid := None)"
      using reliable_storage.reliable_delete_session [OF assms(1,2)] by metis
    show ?thesis
      using assms(3) w1 del Some load
        broker_state.restore_from_storage_eq [OF state _ fs_def w1_def, of "sv_session v"]
      by (auto simp: broker_state.restored_def [OF state])
  qed
  then show "b \<longleftrightarrow> saved (w_storage w) cid \<noteq> None"
    "st_inv (w_storage w')" "saved (w_storage w') = (saved (w_storage w))(cid := None)"
    "w_out w' = w_out w" "b_named_clients (w_broker w') = b_named_clients (w_broker w)"
    "rt_clean_session rt' = rt_clean_session rt" "rt_client_id rt' = rt_client_id rt"
    by simp_all
qed

lemma accept_connect_sends:
  assumes "session_io E sent up" "up (w_out w) str"
  obtains w' where "accept_connect str b E (rt, w) = (Ok Processing, (rt\<lparr>rt_stream := Some str\<rparr>, w'))"
    "same_but_out w w'" "sent (w_out w') str = sent (w_out w) str
      @ mqtt_bytes (ConnAck \<lparr>ca_session_present = b, ca_return_code = 0\<rparr>)"
proof -
  let ?ack = "ConnAck \<lparr>ca_session_present = b, ca_return_code = 0\<rparr>"
  obtain w' where "send_packet ?ack str E (rt, w) = (Ok (), (rt, w'))"
    "session_io.wrote sent up str (mqtt_bytes ?ack) w w'"
    using session_io.send_ok [OF assms, of ?ack rt] by auto
  then show thesis
    unfolding session_io.wrote_def [OF assms(1)]
    by (intro that [of w']) (simp_all add: accept_connect_def ACCEPTED_def)
qed

lemma connect_will_frame:
  "rt_client_id (connect_will c rt) = rt_client_id rt" "rt_takeover (connect_will c rt) = rt_takeover rt"
  "rt_clean_session (connect_will c rt) = rt_clean_session rt"
  by (simp_all add: connect_will_def split: option.split)

lemma connect_identified_free:
  assumes "reliable_storage (e_storage E) st_inv saved retained" "session_io E sent up"
    and "st_inv (w_storage w)" "up (w_out w) str"
    and "map_of (b_named_clients (w_broker w)) (cp_client_id c) = None"
  shows "\<exists>rt' w'. connect_identified c str E (rt, w) = (Ok Processing, (rt', w'))
    \<and> rt_stream rt' = Some str \<and> rt_clean_session rt' = rt_clean_session rt
    \<and> rt_client_id rt' = Some (cp_client_id c)
    \<and> map_of (b_named_clients (w_broker w')) = (map_of (b_named_clients (w_broker w)))(cp_client_id c \<mapsto> rt_takeover rt)
    \<and> saved (w_storage w') = (saved (w_storage w))(cp_client_id c := None)
    \<and> sent (w_out w') str = sent (w_out w) str @ mqtt_bytes (ConnAck
        \<lparr>ca_session_present = \<not> cp_clean_session c \<and> saved (w_storage w) (cp_client_id c) \<noteq> None, ca_return_code = 0\<rparr>)"
proof -
  let ?cid = "cp_client_id c"
  let ?rt = "rt\<lparr>rt_client_id := Some ?cid\<rparr>"
  let ?b = "(w_broker w)\<lparr>b_named_clients := AList.update ?cid (rt_takeover rt) (b_named_clients (w_broker w))\<rparr>"
  let ?w = "w\<lparr>w_broker := ?b\<rparr>"
  have coll: "Broker_has_collision ?cid (rt_takeover rt) (w_broker w) = (None, ?b)"
    using assms(5) by (simp add: Broker_has_collision_def)
  show ?thesis
  proof (cases "cp_clean_session c")
    case True
    obtain st where "delete_session (e_storage E) ?cid (w_storage w) = (Inr (), st)"
      "saved st = (saved (w_storage w))(?cid := None)"
      using reliable_storage.reliable_delete_session [OF assms(1,3)] by metis
    moreover obtain w' where "accept_connect str False E (?rt, ?w\<lparr>w_storage := st\<rparr>)
        = (Ok Processing, (?rt\<lparr>rt_stream := Some str\<rparr>, w'))" "same_but_out (?w\<lparr>w_storage := st\<rparr>) w'"
      "sent (w_out w') str = sent (w_out w) str @ mqtt_bytes (ConnAck \<lparr>ca_session_present = False, ca_return_code = 0\<rparr>)"
      using accept_connect_sends [OF assms(2), of "?w\<lparr>w_storage := st\<rparr>" str False ?rt] assms(4) by auto
    ultimately show ?thesis
      using True coll same_but_out_fields(1,2) [of "?w\<lparr>w_storage := st\<rparr>" w']
      by (simp add: connect_identified_def map_of_update)
  next
    case False
    obtain b rt1 w1 where rest: "restore_from_storage ?cid E (?rt, ?w) = (b, (rt1, w1))"
      by (metis prod.collapse)
    have inv: "st_inv (w_storage ?w)"
      using assms(3) by simp
    note eff = restore_effects [OF assms(1) inv rest]
    obtain w' where "accept_connect str b E (rt1, w1) = (Ok Processing, (rt1\<lparr>rt_stream := Some str\<rparr>, w'))"
      "same_but_out w1 w'" "sent (w_out w') str = sent (w_out w1) str
        @ mqtt_bytes (ConnAck \<lparr>ca_session_present = b, ca_return_code = 0\<rparr>)"
      using accept_connect_sends [OF assms(2), of w1 str b rt1] assms(4) eff(4) by auto
    then show ?thesis
      using False coll rest eff same_but_out_fields(1,2) [of w1 w']
      by (simp add: connect_identified_def map_of_update)
  qed
qed

text \<open>
  C11: accepted connections.  A valid CONNECT whose client identifier is not connected leads to the
  processing loop with the session's stream, flags and identifier set and the client registered
  under it; the answer is one CONNACK that reports a present session exactly if one was saved and
  a clean session was not asked for; and the saved copy is gone, so it is resumed at most once.
\<close>

theorem connect_accepted:
  assumes "reliable_storage (e_storage E) st_inv saved retained" "session_io E sent up"
    and "st_inv (w_storage w)" "up (w_out w) str"
    and "answers (e_authenticator E)" "connect_code (e_authenticator E) c = 0"
    and "cp_client_id c \<noteq> []" "map_of (b_named_clients (w_broker w)) (cp_client_id c) = None"
  shows "\<exists>rt' w'. on_connect c str E (rt, w) = (Ok Processing, (rt', w'))
    \<and> rt_stream rt' = Some str \<and> rt_clean_session rt' = cp_clean_session c
    \<and> rt_client_id rt' = Some (cp_client_id c)
    \<and> map_of (b_named_clients (w_broker w')) = (map_of (b_named_clients (w_broker w)))(cp_client_id c \<mapsto> rt_takeover rt)
    \<and> saved (w_storage w') = (saved (w_storage w))(cp_client_id c := None)
    \<and> sent (w_out w') str = sent (w_out w) str @ mqtt_bytes (ConnAck
        \<lparr>ca_session_present = \<not> cp_clean_session c \<and> saved (w_storage w) (cp_client_id c) \<noteq> None, ca_return_code = 0\<rparr>)"
  using connect_identified_free [OF assms(1-4,8), of "connect_will c (rt\<lparr>rt_clean_session := cp_clean_session c,
      rt_keep_alive := cp_keep_alive c\<rparr>)"] assms(6,7)
  by (simp add: on_connect_by_code [OF assms(5)] connect_will_frame)

definition client_connect :: ConnectPacket where
  "client_connect =
    \<lparr>cp_protocol_name = ''MQTT'', cp_protocol_level = 4, cp_clean_session = False, cp_keep_alive = 60,
     cp_client_id = ''c1'', cp_will_flag = True, cp_will_qos = AtMostOnce, cp_will_retain = False,
     cp_will_topic = Some ''a/b'', cp_will_payload = Some [1], cp_username = None, cp_password = None\<rparr>"

lemma answers_allow_all: "answers allow_all_authenticate"
  by (simp add: answers_def allow_all_authenticate_def)

lemma client_connect_code:
  "connect_code allow_all_authenticate client_connect = 0"
  "connect_code allow_all_authenticate (client_connect\<lparr>cp_protocol_level := 3\<rparr>) = 1"
  by (simp_all add: connect_code_def client_connect_def allow_all_authenticate_def ascii_alphanumeric_def)

theorem connect_refused_witness:
  "\<exists>w'. on_connect (client_connect\<lparr>cp_protocol_level := 3\<rparr>) 0 open_env (start_runtime, start_state)
      = (Ok Cleanup, (start_runtime, w')) \<and> same_but_out start_state w'
    \<and> net_sent (w_out w') 0 = mqtt_bytes (ConnAck \<lparr>ca_session_present = False, ca_return_code = 1\<rparr>)"
proof -
  have "w_out start_state 0 \<noteq> None" "net_sent (w_out start_state) 0 = []"
    by (simp_all add: start_state_def net_sent_def)
  then show ?thesis
    using connect_refused [where E = open_env and w = start_state and str = 0 and rt = start_runtime
        and c = "client_connect\<lparr>cp_protocol_level := 3\<rparr>" and code = 1, OF io.session_io_axioms]
    by (fastforce simp: answers_allow_all client_connect_code)
qed

theorem connect_accepted_witness:
  "\<exists>rt' w'. on_connect client_connect 0 open_env (start_runtime, start_state) = (Ok Processing, (rt', w'))
    \<and> rt_client_id rt' = Some ''c1'' \<and> map_of (b_named_clients (w_broker w')) = [''c1'' \<mapsto> 0]
    \<and> net_sent (w_out w') 0 = mqtt_bytes (ConnAck \<lparr>ca_session_present = False, ca_return_code = 0\<rparr>)"
proof -
  have "reliable_storage (e_storage open_env) memory_inv memory_saved memory_retained"
    using mem.reliable_storage_axioms by simp
  moreover have start: "w_out start_state 0 \<noteq> None" "net_sent (w_out start_state) 0 = []"
    "b_named_clients (w_broker start_state) = []" "memory_inv (w_storage start_state)"
    "memory_saved (w_storage start_state) ''c1'' = None" "rt_takeover start_runtime = 0"
    "cp_client_id client_connect = ''c1''"
    by (simp_all add: start_state_def net_sent_def Broker_new_def Let_def
        memory_inv_new [unfolded memory_new_def] memory_saved_def memory_new_def start_runtime_def Session_new_def client_connect_def)
  ultimately show ?thesis
    using connect_accepted [where E = open_env and w = start_state and str = 0 and rt = start_runtime
        and c = client_connect, OF _ io.session_io_axioms]
    by (simp add: answers_allow_all client_connect_code) fastforce
qed

section \<open>Takeover\<close>

text \<open>
  C12: a connection that is handed over forgets the client.  A CONNECT whose client identifier is in
  use sends the stream to the session that has it and ends its own session; but ending it removes
  the identifier from the client map, so the next CONNECT with it is not seen as a collision, and
  it publishes the will of the client that has just connected.
\<close>

theorem takeover_forgets_client:
  assumes "answers (e_authenticator E)" "connect_code (e_authenticator E) c = 0"
    and "cp_client_id c \<noteq> []" "map_of (b_named_clients (w_broker w)) (cp_client_id c) = Some other"
    and "ch_send (e_cmd E) other (Takeover \<lparr>tp_stream = str, tp_clean_session = cp_clean_session c,
        tp_keep_alive = cp_keep_alive c\<rparr>) (w_cmd w) = (Ok (), k)"
    and "cp_will_flag c" "cp_will_topic c = Some t" "cp_will_payload c = Some bs"
    and "Broker_route E \<lparr>pp_topic = t, pp_packet_id = None, pp_payload = bs, pp_qos = AtMostOnce,
        pp_retain = cp_will_retain c, pp_dup = False\<rparr> (w\<lparr>w_cmd := k\<rparr>) = (Ok (), w2)"
  shows "\<exists>rt1 w1 rt' w'. on_connect c str E (rt, w) = (Ok Cleanup, (rt1, w1))
    \<and> w_cmd w1 = k \<and> w_mail w1 = w_mail w \<and> w_out w1 = w_out w
    \<and> cleanup E (rt1, w1) = (Ok (), (rt', w')) \<and> w_mail w' = w_mail w2 \<and> w_storage w' = w_storage w2
    \<and> fst (Broker_has_collision (cp_client_id c) takeover (w_broker w')) = None"
proof -
  let ?rt = "connect_will c (rt\<lparr>rt_clean_session := cp_clean_session c, rt_keep_alive := cp_keep_alive c\<rparr>)"
  let ?rt1 = "?rt\<lparr>rt_client_id := Some (cp_client_id c)\<rparr>"
  let ?w1 = "w\<lparr>w_cmd := k\<rparr>"
  have "Broker_has_collision (cp_client_id c) a (w_broker w) = (Some other, w_broker w)" for a
    using assms(4) by (simp add: Broker_has_collision_def)
  then have conn: "on_connect c str E (rt, w) = (Ok Cleanup, (?rt1, ?w1))"
    using assms(2,3,5)
    by (simp add: on_connect_by_code [OF assms(1)] connect_identified_def run_takeover_def Let_def)
  have will: "rt_will_message ?rt1 = Some \<lparr>wm_topic = t, wm_payload = bs, wm_qos = cp_will_qos c,
      wm_retain = cp_will_retain c\<rparr>"
    using assms(6-8) by (simp add: connect_will_def)
  have clean: "cleanup E (?rt1, ?w1) = (Ok (), (?rt1\<lparr>rt_will_message := None\<rparr>,
      w2\<lparr>w_broker := Broker_remove_session (rt_id ?rt1) (Some (cp_client_id c)) (w_broker w2)\<rparr>))"
    using will assms(9)
    by (simp add: cleanup_def publish_will_def session_route_def will_packet_def)
  have "fst (Broker_has_collision (cp_client_id c) takeover
      (Broker_remove_session sid (Some (cp_client_id c)) b)) = None" for sid b
    by (simp add: Broker_has_collision_def Broker_remove_session_def Let_def map_of_delete)
  then show ?thesis
    using conn clean by (intro exI conjI) (assumption | simp)+
qed

definition taken_state :: "(memory, channel \<Rightarrow> Packet list option, channel \<Rightarrow> Command list option,
        stream \<Rightarrow> bytes option, bytes \<times> bool) world" where
  "taken_state = busy_state\<lparr>w_broker := (w_broker busy_state)\<lparr>b_named_clients := [(''c1'', 0)]\<rparr>\<rparr>"

theorem takeover_forgets_client_witness:
  "\<exists>rt1 w1 rt' w'. on_connect client_connect 5 open_env (start_runtime, taken_state) = (Ok Cleanup, (rt1, w1))
    \<and> w_cmd w1 0 = Some [Takeover \<lparr>tp_stream = 5, tp_clean_session = False, tp_keep_alive = 60\<rparr>]
    \<and> cleanup open_env (rt1, w1) = (Ok (), (rt', w'))
    \<and> w_mail w' 0 = Some [Publish ((message AtMostOnce [1])\<lparr>pp_packet_id := None\<rparr>)]
    \<and> fst (Broker_has_collision ''c1'' 9 (w_broker w')) = None"
proof -
  let ?k = "[0 \<mapsto> [Takeover \<lparr>tp_stream = 5, tp_clean_session = False, tp_keep_alive = 60\<rparr>]]"
  have c: "cp_client_id client_connect = ''c1''" "cp_clean_session client_connect = False"
    "cp_keep_alive client_connect = 60" "cp_will_flag client_connect" "cp_will_retain client_connect = False"
    "cp_will_topic client_connect = Some ''a/b''" "cp_will_payload client_connect = Some [1]"
    by (simp_all add: client_connect_def)
  have w: "map_of (b_named_clients (w_broker taken_state)) ''c1'' = Some 0" "w_cmd taken_state = [0 \<mapsto> []]"
    by (simp_all add: taken_state_def busy_state_def start_state_def)
  have send: "ch_send (e_cmd open_env) 0 (Takeover \<lparr>tp_stream = 5, tp_clean_session = False,
      tp_keep_alive = 60\<rparr>) (w_cmd taken_state) = (Ok (), ?k)"
    by (simp add: w bounded_chan_def fun_eq_iff)
  have route: "Broker_route open_env \<lparr>pp_topic = ''a/b'', pp_packet_id = None, pp_payload = [1],
      pp_qos = AtMostOnce, pp_retain = False, pp_dup = False\<rparr> (taken_state\<lparr>w_cmd := ?k\<rparr>)
    = (Ok (), taken_state\<lparr>w_cmd := ?k, w_mail := [0 \<mapsto> [Publish
        ((message AtMostOnce [1])\<lparr>pp_packet_id := None\<rparr>)], 1 \<mapsto> []]\<rparr>)"
    using example_route [of "taken_state\<lparr>w_cmd := ?k\<rparr>" allow_all_authenticate allow_all_authorizer
        None AtMostOnce "[1]"]
    by (simp add: taken_state_def busy_state_def message_def)
  have pre: "answers (e_authenticator open_env)" "connect_code (e_authenticator open_env) client_connect = 0"
    "''c1'' \<noteq> []"
    by (simp_all add: answers_allow_all client_connect_code)
  obtain rt1 w1 rt' w' where "on_connect client_connect 5 open_env (start_runtime, taken_state)
      = (Ok Cleanup, (rt1, w1))" "w_cmd w1 = ?k" "cleanup open_env (rt1, w1) = (Ok (), (rt', w'))"
    "w_mail w' = w_mail (taken_state\<lparr>w_cmd := ?k, w_mail := [0 \<mapsto> [Publish
        ((message AtMostOnce [1])\<lparr>pp_packet_id := None\<rparr>)], 1 \<mapsto> []]\<rparr>)"
    "fst (Broker_has_collision ''c1'' 9 (w_broker w')) = None"
    using takeover_forgets_client [where E = open_env and c = client_connect and w = taken_state
        and str = 5 and rt = start_runtime and takeover = 9, unfolded c(1-3,5-7),
        OF pre w(1) send c(4) refl refl route] by blast
  then show ?thesis
    by (intro exI [of _ rt1] exI [of _ w1] exI [of _ rt'] exI [of _ w']) simp
qed

section \<open>The will\<close>

text \<open>A handler that leaves the will and the kind of the session as they are.\<close>

definition keeps_will :: "('st, 'q, 'k, 'w, 'r) sstate \<Rightarrow> ('a, 'e) outcome \<times> ('st, 'q, 'k, 'w, 'r) sstate \<Rightarrow> bool" where
  "keeps_will s x \<longleftrightarrow> rt_will_message (fst (snd x)) = rt_will_message (fst s)
    \<and> rt_clean_session (fst (snd x)) = rt_clean_session (fst s)"

named_theorems will_kept

lemma keeps_will_plain [will_kept]: "keeps_will s (res, s)"
  by (simp add: keeps_will_def)

lemma keeps_will_qmark:
  assumes "keeps_will s x" "\<And>a s. keeps_will s (f a s)"
  shows "keeps_will s (qmark x f)"
  using assms by (cases "(x, f)" rule: qmark.cases) (auto simp: keeps_will_def)

lemma keeps_will_send_packet [will_kept]: "keeps_will s (send_packet p wr E s)"
  by (cases s) (simp add: keeps_will_def send_packet_def Let_def case_prod_beta)

lemma keeps_will_mailbox_send [will_kept]: "keeps_will s (mailbox_send p E s)"
  by (cases s) (simp add: keeps_will_def mailbox_send_def case_prod_beta)

lemma keeps_will_route [will_kept]: "keeps_will s (session_route p E s)"
  by (cases s) (simp add: keeps_will_def session_route_def case_prod_beta)

lemma keeps_will_runtime:
  assumes "keeps_will (rt', w') x" "rt_will_message rt' = rt_will_message rt" "rt_clean_session rt' = rt_clean_session rt"
  shows "keeps_will (rt, w) x"
  using assms by (simp add: keeps_will_def)

lemma keeps_will_then [will_kept]: "keeps_will s x \<Longrightarrow> keeps_will s (qmark x (\<lambda>_ s. (res, s)))"
  by (erule keeps_will_qmark) (rule keeps_will_plain)

lemma keeps_will_send_new_message [will_kept]: "keeps_will s (send_new_message p st wr E s)"
proof -
  obtain rt w where s: "s = (rt, w)"
    by (cases s)
  obtain i rt1 where pid: "next_packet_id rt = (i, rt1)"
    by (rule prod.exhaust)
  then have rt1: "rt_will_message rt1 = rt_will_message rt" "rt_clean_session rt1 = rt_clean_session rt"
    by (auto simp: next_packet_id_def Let_def)
  show ?thesis
    unfolding s send_new_message_def prod.case pid Let_def
    by (rule keeps_will_runtime [OF keeps_will_qmark [OF keeps_will_send_packet] rt1])
      (simp add: keeps_will_def case_prod_beta)
qed



lemma keeps_will_send_retained [will_kept]: "keeps_will s (send_retained ps E s)"
  by (induction ps arbitrary: s) (simp_all add: keeps_will_plain keeps_will_qmark [OF keeps_will_mailbox_send])



lemma keeps_will_route_authorized [will_kept]: "keeps_will s (route_authorized p E s)"
proof -
  obtain rt w where s: "s = (rt, w)"
    by (cases s)
  show ?thesis
    unfolding s by (cases "authorize_publish (e_authorizer E) (client_name rt) (pp_topic p)")
      (simp_all add: route_authorized_def will_kept)
qed

lemma keeps_will_on_publish [will_kept]: "keeps_will s (on_publish p wr E s)"
proof -
  obtain rt w where s: "s = (rt, w)"
    by (cases s)
  have 1: "keeps_will (rt, w) (qmark (send_packet q wr E (rt, w)) (\<lambda>_ s. if b then (Ok True, s) else route_authorized p E s))" for q b
    by (rule keeps_will_qmark [OF keeps_will_send_packet]) (simp add: will_kept)
  have 2: "keeps_will (rt, w) (qmark (send_packet q wr E (rt\<lparr>rt_inbound_qos2 := x\<rparr>, w)) (\<lambda>_ s. (Ok True, s)))" for q x
    by (rule keeps_will_runtime [OF keeps_will_then [OF keeps_will_send_packet]]) simp_all
  show ?thesis
    using 1 2 by (simp add: s on_publish_def Let_def will_kept split: QoS.split option.split)
qed

lemma keeps_will_on_pubrec [will_kept]: "keeps_will s (on_pubrec p wr E s)"
  by (cases s) (auto simp: on_pubrec_def Let_def
      intro!: keeps_will_runtime [OF keeps_will_then [OF keeps_will_send_packet]])

lemma keeps_will_on_pubrel [will_kept]: "keeps_will s (on_pubrel p wr E s)"
  unfolding on_pubrel_def
proof (rule keeps_will_qmark [OF keeps_will_send_packet])
  fix s :: "('a, 'b, 'c, 'd, 'e) sstate"
  obtain rt w where s: "s = (rt, w)"
    by (cases s)
  show "keeps_will s (case s of (rt, w) \<Rightarrow> case map_of (rt_inbound_qos2 rt) (prel_packet_id p) of
      None \<Rightarrow> (Ok True, rt, w)
    | Some received \<Rightarrow> route_authorized (rq_packet received) E
        (rt\<lparr>rt_inbound_qos2 := AList.delete (prel_packet_id p) (rt_inbound_qos2 rt)\<rparr>, w))"
    by (simp add: s will_kept keeps_will_runtime [OF keeps_will_route_authorized] split: option.split)
qed

lemma keeps_will_on_subscribe [will_kept]: "keeps_will s (on_subscribe p wr E s)"
proof -
  have 1: "keeps_will s (qmark (send_packet q wr E s) (\<lambda>_ s. qmark (send_retained ms E s) (\<lambda>_ s. (Ok True, s))))"
    for q ms and s :: "('a, 'b, 'c, 'd, 'e) sstate"
    by (rule keeps_will_qmark [OF keeps_will_send_packet]) (rule keeps_will_then [OF keeps_will_send_retained])
  have 2: "keeps_will (rt, w) (qmark (res, (rt, w')) (\<lambda>codes s. qmark (send_packet (q codes) wr E s)
      (\<lambda>_ s. qmark (send_retained ms E s) (\<lambda>_ s. (Ok True, s)))))"
    for res q ms rt and w w' :: "('a, 'b, 'c, 'd, 'e) world"
    by (rule keeps_will_runtime [OF keeps_will_qmark [OF keeps_will_plain 1] refl refl])
  show ?thesis
    unfolding on_subscribe_def
    by (cases s) (auto simp only: prod.case Let_def case_prod_beta fst_conv snd_conv intro!: keeps_will_qmark [OF keeps_will_plain] 2)
qed

lemma keeps_will_on_unsubscribe [will_kept]: "keeps_will s (on_unsubscribe p wr E s)"
  by (cases s) (auto simp: on_unsubscribe_def Let_def
      intro!: keeps_will_runtime [OF keeps_will_then [OF keeps_will_send_packet]])












end
