(* ===== verification/Session_Persistence.thy ===== *)
theory Session_Persistence
  imports Session_Lifecycle
begin

text \<open>
  Saving a session when its connection is lost and restoring it when the client returns: what is
  written and read back, through any storage that honours the contract and does not fail.
\<close>

section \<open>Records\<close>

lemma restore_persist_will: "map_option restore_will (map_option persist_will x) = x"
  by (cases x) (simp_all add: restore_will_def persist_will_def)

lemma restore_persist_subscriptions:
  "map restore_subscription (map (persist_subscription cid) fs) = fs"
  by (induction fs) (auto simp: restore_subscription_def persist_subscription_def)

lemma restore_persist_inflight:
  assumes "inflight_ok m"
  shows "restore_inflight now (persist_inflight cid t m) = m\<lparr>im_timestamp := now\<rparr>"
proof -
  have "restore_qos2 (persist_qos2 s) = s" for s
    by (cases s) simp_all
  then have "map_option restore_qos2 (map_option persist_qos2 x) = x" for x
    by (cases x) simp_all
  then show ?thesis
    using assms by (cases m; cases "im_packet m")
      (auto simp: inflight_ok_def restore_inflight_def persist_inflight_def)
qed

lemma restore_persist_inbound:
  assumes "inbound_ok i m"
  shows "restore_inbound (persist_inbound cid t (i, m)) = \<lparr>rq_packet = (rq_packet m)\<lparr>pp_dup := False\<rparr>\<rparr>"
  using assms by (cases m; cases "rq_packet m")
    (auto simp: inbound_ok_def restore_inbound_def persist_inbound_def)

section \<open>Save and restore\<close>

lemma map_of_fold_update:
  "distinct (map k ms) \<Longrightarrow>
    map_of (fold (\<lambda>m. AList.update (k m) (g m)) ms al) = map_of al ++ map_of (map (\<lambda>m. (k m, g m)) ms)"
proof (induction ms arbitrary: al)
  case (Cons m ms)
  then have "k m \<notin> dom (map_of (map (\<lambda>m. (k m, g m)) ms))"
    by (auto simp: dom_map_of_conv_image_fst)
  with Cons show ?case
    by (auto simp: map_of_update map_add_def fun_eq_iff split: option.split)
qed simp

lemma map_of_mset_eq:
  assumes "mset xs = mset ys" "distinct (map fst xs)"
  shows "map_of xs = map_of ys"
proof -
  have "distinct (map fst ys)"
    using assms by (metis mset_map mset_eq_imp_distinct_iff)
  then show ?thesis
    using assms mset_eq_setD [OF assms(1)] by (simp add: map_of_inject_set)
qed

lemma restored_inbound:
  assumes "mset ms = mset (map (persist_inbound cid t) al)" "distinct (map fst al)"
    and "\<forall>i m. map_of al i = Some m \<longrightarrow> inbound_ok i m"
  shows "map_of (fold (\<lambda>m. AList.update (pb_packet_id m) (restore_inbound m)) ms []) i =
    map_option (\<lambda>m. \<lparr>rq_packet = (rq_packet m)\<lparr>pp_dup := False\<rparr>\<rparr>) (map_of al i)"
proof -
  let ?g = "\<lambda>m. (pb_packet_id m, restore_inbound m)"
  have "map_of al i = Some m" if "(i, m) \<in> set al" for i m
    using that assms(2) by simp
  then have pairs: "map ?g (map (persist_inbound cid t) al)
      = map (\<lambda>(i, m). (i, \<lparr>rq_packet = (rq_packet m)\<lparr>pp_dup := False\<rparr>\<rparr>)) al"
    using assms(3) by (auto simp: restore_persist_inbound) (auto simp: persist_inbound_def)
  then have "map fst (map ?g (map (persist_inbound cid t) al)) = map fst al"
    by (simp add: case_prod_beta o_def)
  then have dist: "distinct (map fst (map ?g (map (persist_inbound cid t) al)))"
    using assms(2) by (simp only:)
  have perm: "mset (map ?g (map (persist_inbound cid t) al)) = mset (map ?g ms)"
    using assms(1) by (simp only: mset_map)
  then have "mset (map fst (map ?g (map (persist_inbound cid t) al))) = mset (map fst (map ?g ms))"
    by (simp only: mset_map)
  from mset_eq_imp_distinct_iff [OF this] dist have "distinct (map fst (map ?g ms))"
    by blast
  then have "distinct (map pb_packet_id ms)"
    by (simp add: o_def)
  then have "map_of (fold (\<lambda>m. AList.update (pb_packet_id m) (restore_inbound m)) ms []) = map_of (map ?g ms)"
    by (simp add: map_of_fold_update)
  also have "\<dots> = map_of (map ?g (map (persist_inbound cid t) al))"
    by (rule map_of_mset_eq [OF perm dist, symmetric])
  finally show ?thesis
    unfolding pairs by (simp only: map_of_map o_apply)
qed

lemma restored_inflight:
  assumes "mset ms = mset (map (persist_inflight cid t) q)" "\<forall>m \<in> set q. inflight_ok m"
  shows "mset (map (restore_inflight now) ms) = mset (map (\<lambda>m. m\<lparr>im_timestamp := now\<rparr>) q)"
proof -
  have "mset (map (restore_inflight now) ms)
      = mset (map (restore_inflight now) (map (persist_inflight cid t) q))"
    using assms(1) by (simp only: mset_map)
  also have "map (restore_inflight now) (map (persist_inflight cid t) q) = map (\<lambda>m. m\<lparr>im_timestamp := now\<rparr>) q"
    using assms(2) by (simp add: restore_persist_inflight)
  finally show ?thesis .
qed

text \<open>The subscriptions of a client that had none in the new broker.\<close>

lemma restored_subscriptions:
  assumes "router_inv (b_router (w_broker w))" "router_inv (b_router (w_broker w'))"
    and "subscription_of (b_router (w_broker w')) sid' = (\<lambda>_. None)"
    and "mset fs = mset (Broker_get_subscriptions sid w)"
    and "w1 = (if fs = [] then w' else snd (Broker_subscribe E sid' m fs w'))"
  shows "subscription_of (b_router (w_broker w1)) sid' f
    = map_option (\<lambda>(_, q). (m, q)) (subscription_of (b_router (w_broker w)) sid f)"
proof -
  let ?sub = "\<lambda>fs. snd (Router_subscribe (e_storage E) (w_storage w') sid' m fs (b_router (w_broker w')))"
  have "subscription_of (b_router (w_broker w1)) = subscription_of (?sub fs)"
  proof (cases "fs = []")
    case True
    then show ?thesis
      using assms(5) index.table_subscribe [OF assms(2), of "e_storage E" "w_storage w'" sid' m "[]"] by simp
  next
    case False
    then show ?thesis
      using assms(5) by (simp add: Broker_subscribe_def split: prod.split)
  qed
  moreover have "mset fs = mset (Router_get_subscriptions sid (b_router (w_broker w)))"
    using assms(4) by (simp add: Broker_get_subscriptions_def)
  ultimately show ?thesis
    using index.resubscribe [OF assms(1,2,3)] by simp
qed

lemma save_effects:
  assumes "reliable_storage (e_storage E) st_inv saved retained" "st_inv (w_storage w)"
    and "rt_client_id rt = Some cid" "save_to_storage E (rt, w) = (rt1, w1)"
  obtains v where "st_inv (w_storage w1)" "retained (w_storage w1) = retained (w_storage w)"
    "saved (w_storage w1) = (saved (w_storage w))(cid \<mapsto> v)"
    "stores v \<lparr>ps_client_id = cid, ps_next_packet_id = rt_next_packet_id rt,
        ps_keep_alive = rt_keep_alive rt, ps_will_message = map_option persist_will (rt_will_message rt),
        ps_created_at = w_utc w, ps_updated_at = w_utc w\<rparr>
      (map (persist_subscription cid) (Broker_get_subscriptions (rt_id rt) w))
      (map (persist_inflight cid (w_utc w)) (rt_inflight_queue rt))
      (map (persist_inbound cid (w_utc w)) (rt_inbound_qos2 rt))"
proof -
  let ?ses = "\<lparr>ps_client_id = cid, ps_next_packet_id = rt_next_packet_id rt,
    ps_keep_alive = rt_keep_alive rt, ps_will_message = map_option persist_will (rt_will_message rt),
    ps_created_at = w_utc w, ps_updated_at = w_utc w\<rparr>"
  let ?subs = "map (persist_subscription cid) (Broker_get_subscriptions (rt_id rt) w)"
  let ?infl = "map (persist_inflight cid (w_utc w)) (rt_inflight_queue rt)"
  let ?inb = "map (persist_inbound cid (w_utc w)) (rt_inbound_qos2 rt)"
  obtain st v where st: "save_session (e_storage E) ?ses ?subs ?infl ?inb (w_storage w) = (Inr (), st)"
    "st_inv st" "retained st = retained (w_storage w)"
    "saved st = (saved (w_storage w))(ps_client_id ?ses \<mapsto> v)" "stores v ?ses ?subs ?infl ?inb"
    by (rule reliable_storage.reliable_save_session [OF assms(1,2), of ?ses ?subs ?infl ?inb])
      (auto simp: owned_def persist_subscription_def persist_inflight_def persist_inbound_def)
  have "w_storage w1 = st"
    using assms(3,4) st(1) by (auto simp: save_to_storage_def Let_def)
  then show thesis
    using st that [of v] by simp
qed

text \<open>
  C21: a persistent session survives.  Saved when the connection is lost and restored by a later session of the
  same client, possibly in another process with the same storage, it has its packet identifier
  counter, keep alive, will, unacknowledged messages (in some order, with fresh time stamps),
  unreleased QoS 2 messages and subscriptions, the latter leading to the new session's mailbox;
  the saved copy is then deleted, and other clients' sessions and the retained messages are kept.
\<close>

theorem session_survives:
  assumes "reliable_storage (e_storage E) st_inv saved retained"
    and "st_inv (w_storage w)" "router_inv (b_router (w_broker w))" "runtime_inv rt" "rt_client_id rt = Some cid"
    and "save_to_storage E (rt, w) = (rt1, w1)"
    and "w_storage w2 = w_storage w1" "router_inv (b_router (w_broker w2))"
    and "subscription_of (b_router (w_broker w2)) (rt_id rt2) = (\<lambda>_. None)"
    and "rt_inflight_queue rt2 = []" "rt_inbound_qos2 rt2 = []"
  shows "\<exists>rt3 w3. restore_from_storage cid E (rt2, w2) = (True, (rt3, w3))
    \<and> rt_next_packet_id rt3 = rt_next_packet_id rt \<and> rt_keep_alive rt3 = rt_keep_alive rt
    \<and> rt_will_message rt3 = rt_will_message rt
    \<and> mset (rt_inflight_queue rt3) = mset (map (\<lambda>m. m\<lparr>im_timestamp := w_instant w2\<rparr>) (rt_inflight_queue rt))
    \<and> (\<forall>i. map_of (rt_inbound_qos2 rt3) i =
        map_option (\<lambda>m. \<lparr>rq_packet = (rq_packet m)\<lparr>pp_dup := False\<rparr>\<rparr>) (map_of (rt_inbound_qos2 rt) i))
    \<and> (\<forall>f. subscription_of (b_router (w_broker w3)) (rt_id rt2) f =
        map_option (\<lambda>(_, q). (rt_message_tx rt2, q)) (subscription_of (b_router (w_broker w)) (rt_id rt) f))
    \<and> saved (w_storage w3) = (saved (w_storage w))(cid := None)
    \<and> retained (w_storage w3) = retained (w_storage w)"
proof -
  obtain v where st: "st_inv (w_storage w2)" "retained (w_storage w2) = retained (w_storage w)"
    "saved (w_storage w2) = (saved (w_storage w))(cid \<mapsto> v)"
    and v: "same_session (sv_session v) \<lparr>ps_client_id = cid, ps_next_packet_id = rt_next_packet_id rt,
        ps_keep_alive = rt_keep_alive rt, ps_will_message = map_option persist_will (rt_will_message rt),
        ps_created_at = w_utc w, ps_updated_at = w_utc w\<rparr>"
      "mset (sv_subscriptions v) = mset (map (persist_subscription cid) (Broker_get_subscriptions (rt_id rt) w))"
      "mset (sv_inflight v) = mset (map (persist_inflight cid (w_utc w)) (rt_inflight_queue rt))"
      "mset (sv_inbound v) = mset (map (persist_inbound cid (w_utc w)) (rt_inbound_qos2 rt))"
    using save_effects [OF assms(1,2,5,6)] assms(7) unfolding stores_def by metis
  have saved: "saved (w_storage w2) cid = Some v"
    using st(3) by simp
  obtain xs ms bs where rows: "load_subscriptions (e_storage E) cid (w_storage w2) = Inr xs"
    "mset xs = mset (sv_subscriptions v)" "load_inflight_messages (e_storage E) cid (w_storage w2) = Inr ms"
    "mset ms = mset (sv_inflight v)" "load_inbound_qos2_messages (e_storage E) cid (w_storage w2) = Inr bs"
    "mset bs = mset (sv_inbound v)"
    by (rule reliable_storage.reliable_rows [OF assms(1) st(1) saved])
  note load = reliable_storage.reliable_loads(1) [OF assms(1) st(1), of cid, unfolded saved option.map]
  define fs where "fs = map restore_subscription (or_empty (load_subscriptions (e_storage E) cid (w_storage w2)))"
  define w3 where "w3 = (if fs = [] then w2 else snd (Broker_subscribe E (rt_id rt2) (rt_message_tx rt2) fs w2))"
  have state: "broker_state E st_inv saved retained"
    unfolding broker_state_def using assms(1) by (simp add: reliable_storage_def)
  note restore = broker_state.restore_from_storage_eq [OF state load fs_def w3_def]
  have "mset fs = mset (map restore_subscription (map (persist_subscription cid) (Broker_get_subscriptions (rt_id rt) w)))"
    using v(2) rows(2) by (simp only: fs_def rows(1) or_empty_def sum.case mset_map)
  then have "mset fs = mset (Broker_get_subscriptions (rt_id rt) w)"
    unfolding restore_persist_subscriptions .
  note subs = restored_subscriptions [OF assms(3,8,9) this w3_def]
  have w3: "w_storage w3 = w_storage w2"
    by (simp add: w3_def broker_state.Broker_subscribe_storage [OF state])
  obtain st' where del: "delete_session (e_storage E) cid (w_storage w2) = (Inr (), st')"
    "retained st' = retained (w_storage w2)" "saved st' = (saved (w_storage w2))(cid := None)"
    using reliable_storage.reliable_delete_session [OF assms(1) st(1)] by metis
  have rt: "\<forall>m \<in> set (rt_inflight_queue rt). inflight_ok m" "distinct (map fst (rt_inbound_qos2 rt))"
    "\<forall>i m. map_of (rt_inbound_qos2 rt) i = Some m \<longrightarrow> inbound_ok i m"
    using assms(4) by (simp_all add: runtime_inv_def)
  note fields = same_session_fields [OF v(1)]
  show ?thesis
    unfolding restore
    using subs w3 del st fields restored_inflight [OF rows(4) [THEN trans, OF v(3)] rt(1), of "w_instant w2"]
      restored_inbound [OF rows(6) [THEN trans, OF v(4)] rt(2,3)] restore_persist_will [of "rt_will_message rt"]
    by (simp add: broker_state.restored_def [OF state] rows(1,3,5) or_empty_def assms(10,11) del: mset_map)
qed

definition saved_runtime :: Runtime where
  "saved_runtime = start_runtime\<lparr>rt_client_id := Some ''c1'', rt_clean_session := False,
     rt_next_packet_id := 8,
     rt_inflight_queue := [\<lparr>im_packet = (message ExactlyOnce [1])\<lparr>pp_dup := True\<rparr>, im_timestamp = 3,
       im_retry_count = 2, im_qos2_state = Some AwaitingPubComp\<rparr>]\<rparr>"

theorem session_survives_witness:
  "\<exists>rt1 w1 rt3 w3. save_to_storage open_env (saved_runtime, busy_state) = (rt1, w1)
    \<and> restore_from_storage ''c1'' open_env (start_runtime\<lparr>rt_id := ''t''\<rparr>, w1) = (True, (rt3, w3))
    \<and> rt_next_packet_id rt3 = 8 \<and> rt_inflight_queue rt3 = [\<lparr>im_packet = (message ExactlyOnce [1])\<lparr>pp_dup := True\<rparr>,
        im_timestamp = 0, im_retry_count = 2, im_qos2_state = Some AwaitingPubComp\<rparr>]
    \<and> subscription_of (b_router (w_broker w3)) ''t'' ''a/#'' = Some (1, AtLeastOnce)"
proof -
  let ?rt2 = "start_runtime\<lparr>rt_id := ''t''\<rparr>"
  obtain rt1 w1 where sav: "save_to_storage open_env (saved_runtime, busy_state) = (rt1, w1)"
    by (rule prod.exhaust)
  then have w1: "w_broker w1 = w_broker busy_state" "w_instant w1 = 0"
    by (auto simp: save_to_storage_def saved_runtime_def Let_def busy_state_def start_state_def)
  have rel: "reliable_storage (e_storage open_env) memory_inv memory_saved memory_retained"
    using mem.reliable_storage_axioms by simp
  have busy: "b_router (w_broker busy_state) = example_router" "w_storage busy_state = memory_new"
    by (simp_all add: busy_state_def start_state_def)
  have rt: "runtime_inv saved_runtime" "rt_client_id saved_runtime = Some ''c1''"
    "rt_id saved_runtime = ''s''" "rt_next_packet_id saved_runtime = 8"
    "rt_inflight_queue ?rt2 = []" "rt_inbound_qos2 ?rt2 = []" "rt_message_tx ?rt2 = 1"
    by (simp_all add: saved_runtime_def runtime_inv_def start_runtime_def Session_new_def inflight_ok_def
        message_def)
  have none: "subscription_of (b_router (w_broker w1)) (rt_id ?rt2) = (\<lambda>_. None)"
    "subscription_of example_router ''s'' ''a/#'' = Some (0, AtLeastOnce)"
    by (simp_all add: w1 busy example_router_eq subscription_of_def fun_eq_iff)
  obtain rt3 w3 where r: "restore_from_storage ''c1'' open_env (?rt2, w1) = (True, (rt3, w3))"
    "rt_next_packet_id rt3 = 8"
    "mset (rt_inflight_queue rt3) = mset (map (\<lambda>m. m\<lparr>im_timestamp := w_instant w1\<rparr>) (rt_inflight_queue saved_runtime))"
    "subscription_of (b_router (w_broker w3)) (rt_id ?rt2) ''a/#'' =
      map_option (\<lambda>(_, q). (rt_message_tx ?rt2, q)) (subscription_of example_router ''s'' ''a/#'')"
    using session_survives [OF rel _ _ rt(1,2) sav refl _ none(1) rt(5,6)] memory_inv_new example_inv rt(3,4)
    unfolding busy w1 by metis
  then show ?thesis
    using sav none(2) w1(2)
    by (intro exI [of _ rt1] exI [of _ w1] exI [of _ rt3] exI [of _ w3])
      (simp add: rt(7) saved_runtime_def)
qed

end
