(* ===== verification/Session_Delivery.thy ===== *)
theory Session_Delivery
  imports Session_Props
begin

text \<open>
  Delivery to the client: packet identifiers, the QoS 1 and 2 handshakes of outgoing messages,
  retransmission and its bound, and the timers.
\<close>

section \<open>Packet identifiers\<close>

fun take_ids :: "nat \<Rightarrow> Runtime \<Rightarrow> u16 list" where
  "take_ids 0 rt = []"
| "take_ids (Suc n) rt = (case next_packet_id rt of (i, rt') \<Rightarrow> i # take_ids n rt')"

lemma unat_next_packet_id:
  assumes "next_packet_id rt = (i, rt')" "rt_next_packet_id rt \<noteq> 0"
  shows "i = rt_next_packet_id rt" "rt_next_packet_id rt' \<noteq> 0"
    "unat (rt_next_packet_id rt') - 1 = unat (rt_next_packet_id rt) mod 65535"
proof -
  let ?i = "rt_next_packet_id rt"
  have next': "rt_next_packet_id rt' = (if ?i = 65535 then 1 else ?i + 1)"
    using assms(1) by (auto simp: next_packet_id_def Let_def)
  have step: "unat (?i + 1) = unat ?i + 1 \<and> unat ?i < 65535" if "?i \<noteq> 65535"
  proof -
    have "unat ?i \<noteq> unat (65535 :: u16)"
      using that unsigned_word_eqI by blast
    then have "unat ?i < 65535"
      using unat_u16_less [of ?i] by simp
    then show ?thesis
      by (simp add: unat_word_ariths)
  qed
  show "i = ?i"
    using assms(1) by (auto simp: next_packet_id_def Let_def)
  show "rt_next_packet_id rt' \<noteq> 0"
    using next' step by (auto simp: unat_eq_0 [symmetric])
  show "unat (rt_next_packet_id rt') - 1 = unat ?i mod 65535"
    using next' step by (auto split: if_splits)
qed

lemma take_ids_eq:
  assumes "rt_next_packet_id rt \<noteq> 0"
  shows "map unat (take_ids n rt) =
    map (\<lambda>k. (unat (rt_next_packet_id rt) - 1 + k) mod 65535 + 1) [0..<n]"
  using assms
proof (induction n arbitrary: rt)
  case (Suc n)
  obtain i rt' where ids: "next_packet_id rt = (i, rt')"
    by (rule prod.exhaust)
  let ?i = "rt_next_packet_id rt"
  note facts = unat_next_packet_id [OF ids Suc.prems]
  have pos: "0 < unat ?i" "unat ?i < 65536"
    using Suc.prems unat_u16_less by (simp_all add: unat_gt_0)
  have "(unat (rt_next_packet_id rt') - 1 + k) mod 65535 = (unat ?i - 1 + Suc k) mod 65535" for k
    using pos unfolding facts(3) by (simp add: mod_add_left_eq)
  then have "map unat (take_ids (Suc n) rt) = unat ?i # map (\<lambda>k. (unat ?i - 1 + Suc k) mod 65535 + 1) [0..<n]"
    using Suc.IH [OF facts(2)] ids facts(1) by simp
  also have "\<dots> = map (\<lambda>k. (unat ?i - 1 + k) mod 65535 + 1) (0 # map Suc [0..<n])"
    using pos by (simp add: o_def)
  also have "0 # map Suc [0..<n] = [0..<Suc n]"
    by (simp add: map_Suc_upt upt_conv_Cons)
  finally show ?case .
qed simp

text \<open>
  Packet identifiers.  Any 65535 identifiers taken one after another are distinct and none is zero, across
  the wrap from 65535 to 1.
\<close>

theorem packet_ids_distinct:
  assumes "rt_next_packet_id rt \<noteq> 0" "n \<le> 65535"
  shows "distinct (take_ids n rt) \<and> 0 \<notin> set (take_ids n rt) \<and> length (take_ids n rt) = n"
proof -
  let ?a = "unat (rt_next_packet_id rt) - 1"
  have less: False if "(?a + k) mod 65535 = (?a + k') mod 65535" "k < k'" "k' < n" for k k'
  proof -
    have "65535 dvd (?a + k') - (?a + k)"
      using that(1,2) mod_eq_dvd_iff_nat [of "?a + k" "?a + k'" 65535] by simp
    then show False
      using that(2,3) assms(2) by (auto dest: dvd_imp_le)
  qed
  have "k = k'" if "(?a + k) mod 65535 = (?a + k') mod 65535" "k < n" "k' < n" for k k'
    using that less [of k k'] less [of k' k] by (metis linorder_neqE_nat)
  then have "inj_on (\<lambda>k. (?a + k) mod 65535 + 1) (set [0..<n])"
    unfolding inj_on_def add_right_cancel set_upt by (meson atLeastLessThan_iff)
  then have "distinct (map unat (take_ids n rt))"
    unfolding take_ids_eq [OF assms(1)] by (simp add: distinct_map)
  moreover have "0 \<notin> set (map unat (take_ids n rt))"
    unfolding take_ids_eq [OF assms(1)] by auto
  moreover have "length (map unat (take_ids n rt)) = n"
    unfolding take_ids_eq [OF assms(1)] by simp
  ultimately show ?thesis
    by (auto simp: distinct_map) (metis imageI unat_0)
qed

theorem packet_ids_distinct_witness:
  "distinct (take_ids 65535 start_runtime) \<and> 0 \<notin> set (take_ids 65535 start_runtime)
    \<and> length (take_ids 65535 start_runtime) = 65535"
  by (rule packet_ids_distinct) (simp_all add: start_runtime_def Session_new_def)

section \<open>Outgoing messages\<close>

text \<open>What the client answers to a message of each level: PUBACK, or PUBREC and then PUBCOMP.\<close>

definition client_acks :: "QoS \<Rightarrow> u16 \<Rightarrow> Packet list" where
  "client_acks qos i =
    (if qos = AtLeastOnce then [PubAck \<lparr>pa_packet_id = i\<rparr>]
     else [PubRec \<lparr>prec_packet_id = i\<rparr>, PubComp \<lparr>pcomp_packet_id = i\<rparr>])"

lemma retain_other_append:
  "retain_other i (q @ q') = retain_other i q @ retain_other i q'"
  by (simp add: retain_other_def)

lemma retain_other_idle:
  "\<forall>m \<in> set q. pp_packet_id (im_packet m) \<noteq> Some i \<Longrightarrow> retain_other i q = q"
  by (simp add: retain_other_def)

lemma mark_pubrec_ids:
  "map (\<lambda>m. pp_packet_id (im_packet m)) (mark_pubrec i now q) = map (\<lambda>m. pp_packet_id (im_packet m)) q"
  by (induction q) auto

lemma mark_pubrec_idle:
  "\<forall>m \<in> set q. pp_packet_id (im_packet m) \<noteq> Some i \<Longrightarrow> mark_pubrec i now (q @ q') = q @ mark_pubrec i now q'"
  by (induction q) auto

lemma send_new_message_ok:
  assumes "session_io E sent up" "up (w_out w) wr" "i = rt_next_packet_id rt"
    and "wf_publish (p\<lparr>pp_packet_id := Some i\<rparr>)"
  obtains w1 where "send_new_message p st wr E (rt, w) =
      (Ok (), ((snd (next_packet_id rt))\<lparr>rt_inflight_queue := rt_inflight_queue rt @
        [\<lparr>im_packet = p\<lparr>pp_packet_id := Some i, pp_dup := True\<rparr>, im_timestamp = w_instant w,
          im_retry_count = 0, im_qos2_state = st\<rparr>]\<rparr>, w1))"
    "same_but_out w w1" "up (w_out w1) = up (w_out w)"
    "sent (w_out w1) wr = sent (w_out w) wr @ mqtt_bytes (Publish (p\<lparr>pp_packet_id := Some i\<rparr>))"
proof -
  let ?p = "Publish (p\<lparr>pp_packet_id := Some i\<rparr>)"
  obtain rt1 where ids: "next_packet_id rt = (i, rt1)" "rt_inflight_queue rt1 = rt_inflight_queue rt"
    using assms(3) by (simp add: next_packet_id_def Let_def)
  obtain w1 where "send_packet ?p wr E (rt1, w) = (Ok (), (rt1, w1))"
    "session_io.wrote sent up wr (mqtt_bytes ?p) w w1"
    using session_io.send_ok [OF assms(1,2), of ?p rt1] assms(4) by auto
  then show thesis
    using ids same_but_out_fields(6) [of w w1] unfolding session_io.wrote_def [OF assms(1)]
    by (intro that [of w1]) (simp_all add: send_new_message_def)
qed

lemma pubrec_ok:
  assumes "session_io E sent up" "up (w_out w) wr"
  obtains w1 where "on_packet (PubRec \<lparr>prec_packet_id = i\<rparr>) wr E (rt, w) =
      (Ok True, (rt\<lparr>rt_inflight_queue := mark_pubrec i (w_instant w) (rt_inflight_queue rt)\<rparr>, w1))"
    "same_but_out w w1" "sent (w_out w1) wr = sent (w_out w) wr @ mqtt_bytes (PubRel \<lparr>prel_packet_id = i\<rparr>)"
proof -
  let ?rt = "rt\<lparr>rt_inflight_queue := mark_pubrec i (w_instant w) (rt_inflight_queue rt)\<rparr>"
  obtain w1 where "send_packet (PubRel \<lparr>prel_packet_id = i\<rparr>) wr E (?rt, w) = (Ok (), (?rt, w1))"
    "session_io.wrote sent up wr (mqtt_bytes (PubRel \<lparr>prel_packet_id = i\<rparr>)) w w1"
    using session_io.send_ok [OF assms, of "PubRel \<lparr>prel_packet_id = i\<rparr>" ?rt] by auto
  then show thesis
    unfolding session_io.wrote_def [OF assms(1)]
    by (intro that [of w1]) (simp_all add: on_packet_def on_pubrec_def)
qed

text \<open>
  C28: a QoS 1 or 2 message taken from the mailbox is sent with the next packet identifier and kept for
  retransmission until the client has acknowledged it: PUBACK, or PUBREC (answered by PUBREL) and
  then PUBCOMP, leave the queue as it was before.
\<close>

theorem outbound_acknowledged:
  assumes "session_io E sent up" "up (w_out w) wr"
    and "pp_qos p \<noteq> AtMostOnce" "\<not> pp_dup p" "wf_publish (p\<lparr>pp_packet_id := Some i\<rparr>)"
    and "i = rt_next_packet_id rt" "\<forall>m \<in> set (rt_inflight_queue rt). pp_packet_id (im_packet m) \<noteq> Some i"
  shows "\<exists>rt1 m w1 w2. on_message (Publish p) wr E (rt, w) = (Ok (), (rt1, w1))
    \<and> rt_inflight_queue rt1 = rt_inflight_queue rt @ [m]
    \<and> im_packet m = p\<lparr>pp_packet_id := Some i, pp_dup := True\<rparr>
    \<and> run_packets (client_acks (pp_qos p) i) wr E (rt1, w1)
        = (Ok True, (rt1\<lparr>rt_inflight_queue := rt_inflight_queue rt\<rparr>, w2))
    \<and> same_but_out w w2
    \<and> sent (w_out w2) wr = sent (w_out w) wr @ mqtt_bytes (Publish (p\<lparr>pp_packet_id := Some i\<rparr>))
        @ (if pp_qos p = ExactlyOnce then mqtt_bytes (PubRel \<lparr>prel_packet_id = i\<rparr>) else [])"
proof -
  define st where "st = (if pp_qos p = AtLeastOnce then None else Some AwaitingPubRec)"
  define m where "m = \<lparr>im_packet = p\<lparr>pp_packet_id := Some i, pp_dup := True\<rparr>, im_timestamp = w_instant w,
    im_retry_count = 0, im_qos2_state = st\<rparr>"
  define rt1 where "rt1 = (snd (next_packet_id rt))\<lparr>rt_inflight_queue := rt_inflight_queue rt @ [m]\<rparr>"
  obtain w1 where w1: "send_new_message p st wr E (rt, w) = (Ok (), (rt1, w1))" "same_but_out w w1"
    "up (w_out w1) = up (w_out w)"
    "sent (w_out w1) wr = sent (w_out w) wr @ mqtt_bytes (Publish (p\<lparr>pp_packet_id := Some i\<rparr>))"
    using send_new_message_ok [OF assms(1,2,6,5), of st] unfolding rt1_def m_def by metis
  have msg: "on_message (Publish p) wr E (rt, w) = (Ok (), (rt1, w1))"
    using w1(1) assms(3,4) by (cases "pp_qos p") (simp_all add: on_message_def st_def)
  have q: "rt_inflight_queue rt1 = rt_inflight_queue rt @ [m]" "im_packet m = p\<lparr>pp_packet_id := Some i, pp_dup := True\<rparr>"
    by (simp_all add: rt1_def m_def)
  have gone: "retain_other i (rt_inflight_queue rt @ [m']) = rt_inflight_queue rt"
    if "pp_packet_id (im_packet m') = Some i" for m'
    using retain_other_idle [OF assms(7)] that by (simp add: retain_other_append) (simp add: retain_other_def)
  show ?thesis
  proof (cases "pp_qos p = AtLeastOnce")
    case True
    have "run_packets (client_acks (pp_qos p) i) wr E (rt1, w1)
        = (Ok True, (rt1\<lparr>rt_inflight_queue := rt_inflight_queue rt\<rparr>, w1))"
      using True gone [of m] q by (simp add: client_acks_def on_packet_def on_puback_def)
    then show ?thesis
      using msg q w1(2,4) True by (intro exI [of _ rt1] exI [of _ m] exI [of _ w1] exI [of _ w1]) simp
  next
    case False
    obtain w2 where w2: "on_packet (PubRec \<lparr>prec_packet_id = i\<rparr>) wr E (rt1, w1) =
      (Ok True, (rt1\<lparr>rt_inflight_queue := mark_pubrec i (w_instant w1) (rt_inflight_queue rt1)\<rparr>, w2))"
      "same_but_out w1 w2" "sent (w_out w2) wr = sent (w_out w1) wr @ mqtt_bytes (PubRel \<lparr>prel_packet_id = i\<rparr>)"
      using pubrec_ok [OF assms(1), of w1 wr i rt1] assms(2) w1(3) by metis
    have "retain_other i (mark_pubrec i (w_instant w1) (rt_inflight_queue rt1)) = rt_inflight_queue rt"
      using gone q by (simp add: mark_pubrec_idle [OF assms(7)])
    then have "run_packets (client_acks (pp_qos p) i) wr E (rt1, w1)
        = (Ok True, (rt1\<lparr>rt_inflight_queue := rt_inflight_queue rt\<rparr>, w2))"
      using False w2(1) by (simp add: client_acks_def) (simp add: on_packet_def on_pubcomp_def)
    then show ?thesis
      using msg q same_but_out_trans [OF w1(2) w2(2)] w1(4) w2(3) False assms(3)
      by (intro exI [of _ rt1] exI [of _ m] exI [of _ w1] exI [of _ w2]) (cases "pp_qos p"; simp)
  qed
qed

theorem outbound_acknowledged_witness:
  "\<exists>rt1 m w1 w2. on_message (Publish ((message ExactlyOnce [1])\<lparr>pp_packet_id := None\<rparr>)) 0 open_env
      (start_runtime, busy_state) = (Ok (), (rt1, w1))
    \<and> rt_inflight_queue rt1 = [m]
    \<and> run_packets [PubRec \<lparr>prec_packet_id = 1\<rparr>, PubComp \<lparr>pcomp_packet_id = 1\<rparr>] 0 open_env (rt1, w1)
        = (Ok True, (rt1\<lparr>rt_inflight_queue := []\<rparr>, w2))"
proof -
  let ?p = "(message ExactlyOnce [1])\<lparr>pp_packet_id := None\<rparr>"
  have rt: "rt_next_packet_id start_runtime = 1" "rt_inflight_queue start_runtime = []"
    by (simp_all add: start_runtime_def Session_new_def)
  have p: "pp_qos ?p = ExactlyOnce" "\<not> pp_dup ?p"
    by (simp_all add: message_def)
  have wf: "wf_publish (?p\<lparr>pp_packet_id := Some 1\<rparr>)"
    by (simp add: wf_publish_def wf_field_def message_def in_range_def mqtt_publish_body_def
        str_field_def max_remaining_length_def)
  have "w_out busy_state 0 \<noteq> None"
    by (simp add: busy_state_def start_state_def)
  then show ?thesis
    using outbound_acknowledged [where E = open_env and w = busy_state and wr = 0 and p = ?p and i = 1
        and rt = start_runtime, OF io.session_io_axioms _ _ p(2) wf] p(1) rt
    by (simp add: client_acks_def del: run_packets.simps) blast
qed

section \<open>Retransmission\<close>

definition is_due :: "u64 \<Rightarrow> nat \<Rightarrow> InflightMessage \<Rightarrow> bool" where
  "is_due interval now m \<longleftrightarrow> interval \<le> elapsed_ms now (im_timestamp m)"

definition retried :: "nat \<Rightarrow> InflightMessage \<Rightarrow> InflightMessage" where
  "retried now m = m\<lparr>im_retry_count := im_retry_count m + 1, im_timestamp := now\<rparr>"

definition awaits_pubcomp :: "InflightMessage \<Rightarrow> bool" where
  "awaits_pubcomp m \<longleftrightarrow> im_qos2_state m = Some AwaitingPubComp"

text \<open>The scan as filters: what stays in the queue, what is sent again, and the PUBRELs.\<close>

lemma retransmit_scan_eq:
  assumes "\<forall>m \<in> set q. inflight_ok m"
  shows "retransmit_scan interval limit now q =
    (map (\<lambda>m. if is_due interval now m then retried now m else m)
       (filter (\<lambda>m. is_due interval now m \<longrightarrow> im_retry_count m + 1 \<le> limit) q),
     map im_packet (filter (\<lambda>m. is_due interval now m \<and> im_retry_count m + 1 \<le> limit \<and> \<not> awaits_pubcomp m) q),
     map (\<lambda>m. the (pp_packet_id (im_packet m)))
       (filter (\<lambda>m. is_due interval now m \<and> im_retry_count m + 1 \<le> limit \<and> awaits_pubcomp m) q))"
  using assms
proof (induction q)
  case (Cons m q)
  obtain i where "pp_packet_id (im_packet m) = Some i"
    using Cons.prems by (auto simp: inflight_ok_def)
  with Cons show ?case
    by (auto simp: Let_def is_due_def retried_def awaits_pubcomp_def not_less
        split: option.split Qos2State.split)
qed simp

fun scans :: "u64 \<Rightarrow> u32 \<Rightarrow> nat list \<Rightarrow> InflightMessage list \<Rightarrow> InflightMessage list" where
  "scans interval limit [] q = q"
| "scans interval limit (now # ts) q =
    scans interval limit ts (fst (retransmit_scan interval limit now q))"

text \<open>Times at least an interval apart, starting when every message of the queue is due.\<close>

fun apart :: "u64 \<Rightarrow> nat list \<Rightarrow> bool" where
  "apart interval (t # t' # ts) \<longleftrightarrow> interval \<le> elapsed_ms t' t \<and> apart interval (t' # ts)"
| "apart interval _ \<longleftrightarrow> True"

lemma unat_retry:
  assumes "(m :: u32) \<le> limit" "unat limit < 4294967295"
  shows "unat (m + 1) = unat m + 1"
  using assms by (simp add: word_le_nat_alt unat_word_ariths)

lemma scan_all_due:
  assumes "\<forall>m \<in> set q. inflight_ok m" "\<forall>m \<in> set q. is_due interval now m" "unat limit < 4294967295"
    and "\<forall>m \<in> set q. c \<le> unat (im_retry_count m) \<and> im_retry_count m \<le> limit"
    and "m \<in> set (fst (retransmit_scan interval limit now q))"
  shows "inflight_ok m \<and> im_timestamp m = now \<and> Suc c \<le> unat (im_retry_count m) \<and> im_retry_count m \<le> limit"
proof -
  obtain m0 where m0: "m0 \<in> set q" "m = retried now m0" "im_retry_count m0 + 1 \<le> limit"
    using assms(2,5) unfolding retransmit_scan_eq [OF assms(1)] by auto
  have "unat (im_retry_count m0 + 1) = unat (im_retry_count m0) + 1"
    using assms(3,4) m0(1) by (intro unat_retry [of _ limit]) simp_all
  then show ?thesis
    using m0 assms(1,4) by (auto simp: retried_def inflight_ok_def split: option.splits)
qed

lemma scans_bounded:
  assumes "\<forall>m \<in> set q. inflight_ok m" "ts = [] \<or> (\<forall>m \<in> set q. is_due interval (hd ts) m)"
      "apart interval ts"
    and "unat limit < 4294967295"
    and "\<forall>m \<in> set q. c \<le> unat (im_retry_count m) \<and> im_retry_count m \<le> limit"
  shows "\<forall>m \<in> set (scans interval limit ts q).
    c + length ts \<le> unat (im_retry_count m) \<and> im_retry_count m \<le> limit"
  using assms
proof (induction ts arbitrary: q c)
  case (Cons now ts)
  let ?q = "fst (retransmit_scan interval limit now q)"
  have new: "inflight_ok m \<and> im_timestamp m = now \<and> Suc c \<le> unat (im_retry_count m) \<and> im_retry_count m \<le> limit"
    if "m \<in> set ?q" for m
    using scan_all_due [OF Cons.prems(1) _ Cons.prems(4,5) that] Cons.prems(2) by simp
  have "\<forall>m \<in> set (scans interval limit ts ?q).
      Suc c + length ts \<le> unat (im_retry_count m) \<and> im_retry_count m \<le> limit"
  proof (rule Cons.IH)
    show "ts = [] \<or> (\<forall>m \<in> set ?q. is_due interval (hd ts) m)"
      using new Cons.prems(3) by (cases ts) (simp_all add: is_due_def)
    show "apart interval ts"
      using Cons.prems(3) by (cases ts) simp_all
  qed (use new Cons.prems(4) in auto)
  then show ?case
    by simp
qed simp

text \<open>
  C30: retransmission is bounded.  A message that is never acknowledged is retried at most \<open>limit\<close>
  times: after more than \<open>limit\<close> scans, each at least an interval after the one before, the queue is
  empty.  The hypothesis on the limit excludes the largest \<open>u32\<close>, where the counter wraps first.
\<close>

theorem retransmission_bounded:
  assumes "\<forall>m \<in> set q. inflight_ok m \<and> im_retry_count m \<le> limit"
    and "\<forall>m \<in> set q. interval \<le> elapsed_ms (hd ts) (im_timestamp m)" "apart interval ts"
    and "unat limit < 4294967295" "unat limit < length ts"
  shows "scans interval limit ts q = []"
proof -
  have "\<forall>m \<in> set (scans interval limit ts q). length ts \<le> unat (im_retry_count m) \<and> im_retry_count m \<le> limit"
    using scans_bounded [of q ts interval limit 0] assms(1-4) by (simp add: is_due_def)
  then have "m \<notin> set (scans interval limit ts q)" for m
    using assms(5) by (auto simp: word_le_nat_alt)
  then show ?thesis
    by (metis list.set_intros(1) neq_Nil_conv)
qed

definition stale :: "u16 \<Rightarrow> InflightMessage" where
  "stale i = \<lparr>im_packet = (message AtLeastOnce [1])\<lparr>pp_packet_id := Some i, pp_dup := True\<rparr>, im_timestamp = 0,
    im_retry_count = 0, im_qos2_state = None\<rparr>"

theorem retransmission_bounded_witness:
  "scans 500 1 [500000000, 1000000000] [stale 1, stale 2] = []"
  by (rule retransmission_bounded) (simp_all add: stale_def inflight_ok_def message_def elapsed_ms_def)

text \<open>Sending to the own mailbox and repeating PUBRELs.\<close>

lemma resend_publishes_ok:
  assumes "mpsc (e_mail E) queue open_rx cap" "open_rx (w_mail w) (rt_message_tx rt)"
    and "length (queue (w_mail w) (rt_message_tx rt)) + length ps \<le> cap (rt_message_tx rt)"
  shows "\<exists>q. resend_publishes ps E (rt, w) = (Ok (), (rt, w\<lparr>w_mail := q\<rparr>))
    \<and> queue q = (queue (w_mail w))(rt_message_tx rt := queue (w_mail w) (rt_message_tx rt) @ map Publish ps)"
  using assms(2,3)
proof (induction ps arbitrary: w)
  case Nil
  then show ?case
    by (intro exI [of _ "w_mail w"]) simp
next
  case (Cons p ps)
  let ?c = "rt_message_tx rt"
  obtain res q1 where call: "ch_send (e_mail E) ?c (Publish p) (w_mail w) = (res, q1)"
    by (rule prod.exhaust)
  have q1: "res = Ok ()" "queue q1 = (queue (w_mail w))(?c := queue (w_mail w) ?c @ [Publish p])" "open_rx q1 ?c"
    using mpsc.send_room [OF assms(1) Cons.prems(1), of "Publish p"] Cons.prems call by simp_all
  let ?w = "w\<lparr>w_mail := q1\<rparr>"
  have "open_rx (w_mail ?w) ?c" "length (queue (w_mail ?w) ?c) + length ps \<le> cap ?c"
    using q1 Cons.prems(2) by simp_all
  from Cons.IH [OF this] obtain q where q: "resend_publishes ps E (rt, ?w) = (Ok (), (rt, ?w\<lparr>w_mail := q\<rparr>))"
    "queue q = (queue (w_mail ?w))(?c := queue (w_mail ?w) ?c @ map Publish ps)"
    by blast
  show ?case
    using call q1(1) q(1) by (intro exI [of _ q]) (simp add: mailbox_send_def q(2) q1(2))
qed

lemma resend_pubrels_ok:
  assumes "session_io E sent up" "up (w_out w) wr"
  shows "\<exists>w'. resend_pubrels ids wr E (rt, w) = (Ok (), (rt, w')) \<and> same_but_out w w'
    \<and> sent (w_out w') wr = sent (w_out w) wr
        @ concat (map (\<lambda>i. mqtt_bytes (PubRel \<lparr>prel_packet_id = i\<rparr>)) ids)"
  using assms(2)
proof (induction ids arbitrary: w)
  case (Cons i ids)
  obtain w1 where w1: "send_packet (PubRel \<lparr>prel_packet_id = i\<rparr>) wr E (rt, w) = (Ok (), (rt, w1))"
    "session_io.wrote sent up wr (mqtt_bytes (PubRel \<lparr>prel_packet_id = i\<rparr>)) w w1"
    using session_io.send_ok [OF assms(1) Cons.prems, of "PubRel \<lparr>prel_packet_id = i\<rparr>" rt] by auto
  then have out: "same_but_out w w1" "up (w_out w1) wr"
    "sent (w_out w1) wr = sent (w_out w) wr @ mqtt_bytes (PubRel \<lparr>prel_packet_id = i\<rparr>)"
    using Cons.prems unfolding session_io.wrote_def [OF assms(1)] by simp_all
  obtain w' where "resend_pubrels ids wr E (rt, w1) = (Ok (), (rt, w'))" "same_but_out w1 w'"
    "sent (w_out w') wr = sent (w_out w1) wr @ concat (map (\<lambda>i. mqtt_bytes (PubRel \<lparr>prel_packet_id = i\<rparr>)) ids)"
    using Cons.IH [OF out(2)] by blast
  then show ?case
    using w1(1) out same_but_out_trans by (intro exI [of _ w']) (auto simp del: mqtt_bytes.simps)
qed simp

text \<open>
  C29: one run of the retransmission timer.  The messages that have waited an interval and have retries left are
  counted and sent again, as DUP through the session's own mailbox, or as PUBREL once PUBREC has
  arrived; those without retries left are dropped, and messages that are not due stay untouched.
\<close>

theorem retransmit_handled:
  assumes "session_io E sent up" "up (w_out w) wr"
    and "mpsc (e_mail E) queue open_rx cap" "open_rx (w_mail w) (rt_message_tx rt)" "runtime_inv rt"
    and "interval = get_retransmission_interval_ms (b_config (w_broker w))" "interval \<noteq> 0"
    and "limit = cfg_max_retransmission_limit (b_config (w_broker w))"
    and "old = rt_inflight_queue rt" "again = filter (\<lambda>m. is_due interval (w_instant w) m \<and> im_retry_count m + 1 \<le> limit) old"
    and "length (queue (w_mail w) (rt_message_tx rt)) + length again \<le> cap (rt_message_tx rt)"
  shows "\<exists>w'. on_retransmit wr E (rt, w) = (Ok (), (rt\<lparr>rt_inflight_queue :=
        map (\<lambda>m. if is_due interval (w_instant w) m then retried (w_instant w) m else m)
          (filter (\<lambda>m. is_due interval (w_instant w) m \<longrightarrow> im_retry_count m + 1 \<le> limit) old)\<rparr>, w'))
    \<and> queue (w_mail w') = (queue (w_mail w))(rt_message_tx rt := queue (w_mail w) (rt_message_tx rt)
        @ map (\<lambda>m. Publish (im_packet m)) (filter (\<lambda>m. \<not> awaits_pubcomp m) again))
    \<and> sent (w_out w') wr = sent (w_out w) wr
        @ concat (map (\<lambda>m. mqtt_bytes (PubRel \<lparr>prel_packet_id = the (pp_packet_id (im_packet m))\<rparr>))
            (filter awaits_pubcomp again))"
proof -
  let ?now = "w_instant w"
  have ok: "\<forall>m \<in> set old. inflight_ok m"
    using assms(5,9) by (simp add: runtime_inv_def)
  define kept where "kept = map (\<lambda>m. if is_due interval ?now m then retried ?now m else m)
    (filter (\<lambda>m. is_due interval ?now m \<longrightarrow> im_retry_count m + 1 \<le> limit) old)"
  define ps where "ps = map im_packet (filter (\<lambda>m. \<not> awaits_pubcomp m) again)"
  define ids where "ids = map (\<lambda>m. the (pp_packet_id (im_packet m))) (filter awaits_pubcomp again)"
  have scan: "retransmit_scan interval limit ?now old = (kept, ps, ids)"
    unfolding retransmit_scan_eq [OF ok] kept_def ps_def ids_def assms(10) filter_filter
    by (simp add: conj_commute conj_left_commute)
  let ?rt = "rt\<lparr>rt_inflight_queue := kept\<rparr>"
  have "length ps \<le> length again"
    by (simp add: ps_def)
  then obtain q where q: "resend_publishes ps E (?rt, w) = (Ok (), (?rt, w\<lparr>w_mail := q\<rparr>))"
    "queue q = (queue (w_mail w))(rt_message_tx rt := queue (w_mail w) (rt_message_tx rt) @ map Publish ps)"
    using resend_publishes_ok [OF assms(3), of w ?rt ps] assms(4,11) by auto
  obtain w' where w': "resend_pubrels ids wr E (?rt, w\<lparr>w_mail := q\<rparr>) = (Ok (), (?rt, w'))"
    "same_but_out (w\<lparr>w_mail := q\<rparr>) w'"
    "sent (w_out w') wr = sent (w_out w) wr @ concat (map (\<lambda>i. mqtt_bytes (PubRel \<lparr>prel_packet_id = i\<rparr>)) ids)"
    using resend_pubrels_ok [OF assms(1), of "w\<lparr>w_mail := q\<rparr>" wr ids ?rt] assms(2) by auto
  have "on_retransmit wr E (rt, w) = (Ok (), (?rt, w'))"
    using scan q(1) w'(1) assms(6-9) by (simp add: on_retransmit_def Let_def)
  then show ?thesis
    using q(2) w'(3) same_but_out_fields(3) [OF w'(2)]
    by (intro exI [of _ w']) (simp add: kept_def ps_def ids_def o_def del: mqtt_bytes.simps)
qed

theorem retransmit_handled_witness:
  "\<exists>w'. on_retransmit 0 open_env (start_runtime\<lparr>rt_inflight_queue := [stale 1]\<rparr>, busy_state\<lparr>w_instant := 10 ^ 10\<rparr>)
      = (Ok (), (start_runtime\<lparr>rt_inflight_queue := [retried (10 ^ 10) (stale 1)]\<rparr>, w'))
    \<and> chan_queue (w_mail w') 1 = [Publish (im_packet (stale 1))]"
proof -
  let ?rt = "start_runtime\<lparr>rt_inflight_queue := [stale 1]\<rparr>"
  let ?w = "busy_state\<lparr>w_instant := 10 ^ 10\<rparr>"
  have cfg: "get_retransmission_interval_ms (b_config (w_broker ?w)) = 5000"
    "cfg_max_retransmission_limit (b_config (w_broker ?w)) = 10"
    by (simp_all add: busy_state_def start_state_def Broker_new_def Let_def default_config_def
        get_retransmission_interval_ms_def default_retransmission_interval_ms_def
        default_max_retransmission_limit_def)
  have m: "is_due 5000 (10 ^ 10) (stale 1)" "im_retry_count (stale 1) = 0" "\<not> awaits_pubcomp (stale 1)"
    by (simp_all add: is_due_def stale_def elapsed_ms_def awaits_pubcomp_def)
  have rt: "runtime_inv ?rt" "rt_message_tx ?rt = 1"
    by (simp_all add: runtime_inv_def start_runtime_def Session_new_def inflight_ok_def stale_def message_def)
  have w: "w_out ?w 0 \<noteq> None" "w_mail ?w 1 = Some []"
    by (simp_all add: busy_state_def start_state_def)
  have queue: "chan_queue (w_mail ?w) 1 = []"
    by (simp only: chan_queue_def w(2)) simp
  have again: "[stale 1] = filter (\<lambda>m. is_due 5000 (w_instant ?w) m \<and> im_retry_count m + 1 \<le> 10) [stale 1]"
    using m by simp
  have room: "length (chan_queue (w_mail ?w) (rt_message_tx ?rt)) + length [stale 1] \<le> 100"
    by (simp only: rt(2) chan_queue_def w(2)) simp
  have "w_mail ?w (rt_message_tx ?rt) \<noteq> None" "[stale 1] = rt_inflight_queue ?rt" "(5000 :: u64) \<noteq> 0"
    by (simp_all only: rt(2) w(2)) simp_all
  from retransmit_handled [OF io.session_io_axioms, where w = ?w and wr = 0 and rt = ?rt and queue = chan_queue
      and cap = "\<lambda>_. 100", unfolded local_env_simps, OF w(1) bounded.mpsc_axioms this(1) rt(1)
      cfg(1) [symmetric] this(3) cfg(2) [symmetric] this(2) again room]
  show ?thesis
    using m rt(2) queue by simp (metis fun_upd_same)
qed

section \<open>Timers\<close>

lemma keep_alive_timeout_unat:
  "unat (keep_alive_timeout k) = (if k = 0 then 31536000000 else 1500 * unat k)"
proof -
  have "unat (ucast k :: u64) = unat k"
    using unat_u16_less [of k] by (simp add: unsigned_ucast_eq take_bit_nat_eq_self)
  then show ?thesis
    using unat_u16_less [of k] by (simp add: keep_alive_timeout_def unat_word_ariths word_gt_0)
qed

lemma timer_interval_unat:
  "unat (timer_interval config) =
    (if cfg_retransmission_interval_ms config = 0 then 86400000
     else max (unat (cfg_retransmission_interval_ms config)) 500 div 2)"
  by (simp add: timer_interval_def get_retransmission_interval_ms_def Let_def unat_div max_def
      word_le_nat_alt word_gt_0)

lemma timers_nonzero: "keep_alive_timeout k \<noteq> 0" "timer_interval config \<noteq> 0"
  using keep_alive_timeout_unat [of k] timer_interval_unat [of config]
  by (auto simp: unat_eq_0 [symmetric] split: if_splits)

text \<open>
  Starting the processing loop never panics: whatever the configuration and the keep alive, both timers
  have a period.  The keep-alive timer is one and a half times the client's interval, computed without
  overflow, and the period of the retransmission timer is half the interval, never below 250
  milliseconds, and a day when retransmission is off.
\<close>

theorem timers_have_periods:
  "fst (start_processing (rt, w)) \<noteq> Panic
    \<and> unat (keep_alive_timeout k) = (if k = 0 then 31536000000 else 1500 * unat k)
    \<and> unat (timer_interval config) =
        (if cfg_retransmission_interval_ms config = 0 then 86400000
         else max (unat (cfg_retransmission_interval_ms config)) 500 div 2)"
  using keep_alive_timeout_unat timer_interval_unat timers_nonzero
  by (simp add: start_processing_def split: option.split)

end
