(* ===== verification/Session_Subscribe.thy ===== *)
theory Session_Subscribe
  imports Session_Delivery
begin

text \<open>
  The SUBSCRIBE handler: authorization of each filter, the return codes put together from the
  router's answer, and the retained messages sent to the session's own mailbox.
\<close>

section \<open>The two loops\<close>

definition may_subscribe :: "Authorizer \<Rightarrow> rstring \<Rightarrow> rstring \<times> QoS \<Rightarrow> bool" where
  "may_subscribe A client_id = (\<lambda>(f, _). authorize_subscribe A client_id f = Ok ())"

definition subscribe_answers_all :: "Authorizer \<Rightarrow> rstring \<Rightarrow> bool" where
  "subscribe_answers_all A client_id \<longleftrightarrow>
    (\<forall>f. authorize_subscribe A client_id f = Ok () \<or> (\<exists>e. authorize_subscribe A client_id f = Err e))"

lemma check_filters_eq:
  assumes "subscribe_answers_all A cid" "\<forall>j \<in> set den. j < i"
  shows "\<exists>den'. check_filters A cid i fs ok den = Ok (ok @ filter (may_subscribe A cid) fs, den')
    \<and> (\<forall>j < i. j \<in> set den' \<longleftrightarrow> j \<in> set den)
    \<and> (\<forall>k < length fs. i + k \<in> set den' \<longleftrightarrow> \<not> may_subscribe A cid (fs ! k))"
  using assms(2)
proof (induction fs arbitrary: i ok den)
  case (Cons fq fs)
  obtain f q where fq: "fq = (f, q)"
    by (cases fq)
  let ?ok = "if may_subscribe A cid fq then ok @ [fq] else ok"
  let ?den = "if may_subscribe A cid fq then den else den @ [i]"
  have step: "check_filters A cid i (fq # fs) ok den = check_filters A cid (i + 1) fs ?ok ?den"
    using assms(1) [unfolded subscribe_answers_all_def, rule_format, of f]
    by (auto simp: fq may_subscribe_def)
  have "\<forall>j \<in> set ?den. j < i + 1"
    using Cons.prems by (auto intro: less_SucI)
  from Cons.IH [OF this, of ?ok] obtain den' where den':
    "check_filters A cid (i + 1) fs ?ok ?den = Ok (?ok @ filter (may_subscribe A cid) fs, den')"
    "\<forall>j < i + 1. j \<in> set den' \<longleftrightarrow> j \<in> set ?den"
    "\<forall>k < length fs. i + 1 + k \<in> set den' \<longleftrightarrow> \<not> may_subscribe A cid (fs ! k)"
    by blast
  have "i + k \<in> set den' \<longleftrightarrow> \<not> may_subscribe A cid ((fq # fs) ! k)" if "k < length (fq # fs)" for k
  proof (cases k)
    case 0
    then show ?thesis
      using den'(2) [rule_format, of i] Cons.prems by (auto split: if_splits)
  next
    case (Suc k')
    then show ?thesis
      using den'(3) that by simp
  qed
  moreover have "\<forall>j < i. j \<in> set den' \<longleftrightarrow> j \<in> set den"
    using den'(2) by auto
  ultimately show ?case
    unfolding step den'(1) by (intro exI [of _ den']) auto
qed simp

lemma rebuild_codes_eq:
  assumes "\<forall>k < length fs. i + k \<in> set den \<longleftrightarrow> \<not> P (fs ! k)"
    and "drop idx codes = map g (filter P fs)"
  shows "rebuild_codes den codes (length fs) i idx acc = Ok (acc @ map (\<lambda>x. if P x then g x else FAILURE) fs)"
  using assms
proof (induction fs arbitrary: i idx acc)
  case (Cons x fs)
  have rest: "\<forall>k < length fs. (i + 1) + k \<in> set den \<longleftrightarrow> \<not> P (fs ! k)"
    using Cons.prems(1) by (auto dest: spec [of _ "Suc _"])
  have head: "i \<in> set den \<longleftrightarrow> \<not> P x"
    using Cons.prems(1) [rule_format, of 0] by simp
  show ?case
  proof (cases "P x")
    case True
    then have drop': "drop idx codes = g x # map g (filter P fs)"
      using Cons.prems(2) by simp
    then have "idx < length codes" "codes ! idx = g x" "drop (idx + 1) codes = map g (filter P fs)"
      by (metis drop_all list.distinct(1) not_le_imp_less,
          metis hd_drop_conv_nth drop_all list.distinct(1) list.sel(1) not_le_imp_less,
          metis drop_Suc tl_drop list.sel(3) Suc_eq_plus1)
    then show ?thesis
      using True head Cons.IH [OF rest, of "idx + 1"] by simp
  next
    case False
    then show ?thesis
      using head Cons.prems(2) Cons.IH [OF rest, of idx] by simp
  qed
qed simp

lemma send_retained_resend: "send_retained ps E = resend_publishes ps E"
  by (induction ps) (simp_all add: ext)

section \<open>The handler\<close>

lemma router_part:
  assumes "((codes, ms), w1) = (if fs \<noteq> [] then Broker_subscribe E sid m fs w else (([], []), w))"
  shows "codes = map grant fs" "ms = concat (map (retained_found (e_storage E) (w_storage w)) fs)"
    "w_mail w1 = w_mail w" "w_out w1 = w_out w" "w_storage w1 = w_storage w"
    "b_router (w_broker w1) = index_subscribe sid m fs (b_router (w_broker w))"
proof -
  have eq: "codes = map grant fs \<and> ms = concat (map (retained_found (e_storage E) (w_storage w)) fs)
    \<and> w_mail w1 = w_mail w \<and> w_out w1 = w_out w \<and> w_storage w1 = w_storage w
    \<and> b_router (w_broker w1) = index_subscribe sid m fs (b_router (w_broker w))"
  proof (cases "fs = []")
    case True
    then show ?thesis
      using assms by (simp add: index_subscribe_def)
  next
    case False
    obtain c ms' r where call: "Router_subscribe (e_storage E) (w_storage w) sid m fs (b_router (w_broker w)) = ((c, ms'), r)"
      by (metis prod.exhaust)
    then have "c = map grant fs" "ms' = concat (map (retained_found (e_storage E) (w_storage w)) fs)"
      "r = index_subscribe sid m fs (b_router (w_broker w))"
      using Router_subscribe_index [of "e_storage E" "w_storage w" sid m fs "b_router (w_broker w)"]
        Router_subscribe_retained [of "e_storage E" "w_storage w" sid m fs "b_router (w_broker w)"]
        subscribe_loop_index(2) [of "e_storage E" "w_storage w" sid m fs "[]" "([], None)" "b_router (w_broker w)"]
      by (auto simp: Router_subscribe_def)
    then show ?thesis
      using assms False call by (simp add: Broker_subscribe_def)
  qed
  then show "codes = map grant fs" "ms = concat (map (retained_found (e_storage E) (w_storage w)) fs)"
    "w_mail w1 = w_mail w" "w_out w1 = w_out w" "w_storage w1 = w_storage w"
    "b_router (w_broker w1) = index_subscribe sid m fs (b_router (w_broker w))"
    by simp_all
qed

text \<open>
  The handler up to the loop over the retained messages \<open>ms\<close>: the answer is written and the filters are entered.
\<close>

lemma subscribe_until_retained:
  assumes "session_io E sent up" "up (w_out w) wr"
    and "subscribe_answers_all (e_authorizer E) (client_name rt)"
    and "fs = filter (may_subscribe (e_authorizer E) (client_name rt)) (sp_topic_filters p)"
    and "ms = concat (map (retained_found (e_storage E) (w_storage w)) fs)"
    and "length (sp_topic_filters p) + 2 \<le> max_remaining_length"
  obtains w' where "on_packet (Subscribe p) wr E (rt, w) = qmark (send_retained ms E (rt, w')) (\<lambda>_ s. (Ok True, s))"
    and "sent (w_out w') wr = sent (w_out w) wr @ mqtt_bytes (SubAck \<lparr>sa_packet_id = sp_packet_id p,
        sa_return_codes = map (\<lambda>(f, q). if may_subscribe (e_authorizer E) (client_name rt) (f, q)
            \<and> validate_subscribe_filter f then qos_u8 q else FAILURE) (sp_topic_filters p)\<rparr>)"
    and "b_router (w_broker w') = index_subscribe (rt_id rt) (rt_message_tx rt) fs (b_router (w_broker w))"
    and "w_mail w' = w_mail w" "w_storage w' = w_storage w"
proof -
  let ?may = "may_subscribe (e_authorizer E) (client_name rt)"
  define ret where "ret = map (\<lambda>(f, q). if ?may (f, q) \<and> validate_subscribe_filter f then qos_u8 q else FAILURE)
    (sp_topic_filters p)"
  let ?ack = "SubAck \<lparr>sa_packet_id = sp_packet_id p, sa_return_codes = ret\<rparr>"
  obtain den where den: "check_filters (e_authorizer E) (client_name rt) 0 (sp_topic_filters p) [] [] = Ok (fs, den)"
    "\<forall>k < length (sp_topic_filters p). 0 + k \<in> set den \<longleftrightarrow> \<not> ?may (sp_topic_filters p ! k)"
    using check_filters_eq [OF assms(3), of "[]" 0 "sp_topic_filters p" "[]"] assms(4) by auto
  obtain codes ms' w1 where sub: "((codes, ms'), w1) =
      (if fs \<noteq> [] then Broker_subscribe E (rt_id rt) (rt_message_tx rt) fs w else (([], []), w))"
    by (metis prod.exhaust)
  note router = router_part [OF sub]
  have "rebuild_codes den codes (length (sp_topic_filters p)) 0 0 [] = Ok ret"
    using rebuild_codes_eq [OF den(2), of 0 codes grant "[]"] assms(4)
    by (simp add: router(1) ret_def grant_def case_prod_beta cong: if_cong)
  moreover obtain w2 where w2: "send_packet ?ack wr E (rt, w1) = (Ok (), (rt, w2))"
    "session_io.wrote sent up wr (mqtt_bytes ?ack) w1 w2"
    using session_io.send_ok [OF assms(1), of w1 wr ?ack rt] assms(2,6) router(4) by (auto simp: ret_def)
  note out = w2(2) [unfolded session_io.wrote_def [OF assms(1)]]
  have w12: "w_mail w2 = w_mail w" "w_broker w2 = w_broker w1" "w_storage w2 = w_storage w"
    using same_but_out_fields [of w1 w2] out router by simp_all
  ultimately have "on_packet (Subscribe p) wr E (rt, w) = qmark (send_retained ms E (rt, w2)) (\<lambda>_ s. (Ok True, s))"
    using den(1) w2(1) router(2) assms(5)
    by (simp add: on_packet_def on_subscribe_def sub [symmetric] split del: if_split)
  then show thesis
    using that [of w2] out router(4,6) w12 unfolding ret_def by simp
qed

text \<open>
  C24: SUBSCRIBE.  The handler does not panic and answers each filter, in order, with the requested QoS if the
  client may subscribe to it and it is valid, and with FAILURE otherwise; exactly those filters
  enter the subscription table, under this session and its mailbox, and the retained messages they
  match are put into that mailbox and into no other.
\<close>

theorem subscribe_handled:
  assumes "session_io E sent up" "up (w_out w) wr"
    and "mpsc (e_mail E) queue open_rx cap" "open_rx (w_mail w) (rt_message_tx rt)"
    and "subscribe_answers_all (e_authorizer E) (client_name rt)"
    and "fs = filter (may_subscribe (e_authorizer E) (client_name rt)) (sp_topic_filters p)"
    and "ms = concat (map (retained_found (e_storage E) (w_storage w)) fs)"
    and "length (queue (w_mail w) (rt_message_tx rt)) + length ms \<le> cap (rt_message_tx rt)"
    and "length (sp_topic_filters p) + 2 \<le> max_remaining_length"
  shows "\<exists>w'. on_packet (Subscribe p) wr E (rt, w) = (Ok True, (rt, w'))
    \<and> sent (w_out w') wr = sent (w_out w) wr @ mqtt_bytes (SubAck \<lparr>sa_packet_id = sp_packet_id p,
        sa_return_codes = map (\<lambda>(f, q). if may_subscribe (e_authorizer E) (client_name rt) (f, q)
            \<and> validate_subscribe_filter f then qos_u8 q else FAILURE) (sp_topic_filters p)\<rparr>)
    \<and> subscription_of (b_router (w_broker w')) = (\<lambda>s f.
        if s = rt_id rt \<and> validate_subscribe_filter f \<and> f \<in> fst ` set fs
        then Some (rt_message_tx rt, the (map_of (rev fs) f))
        else subscription_of (b_router (w_broker w)) s f)
    \<and> queue (w_mail w') = (queue (w_mail w))(rt_message_tx rt := queue (w_mail w) (rt_message_tx rt) @ map Publish ms)
    \<and> w_storage w' = w_storage w"
proof -
  obtain w1 where w1: "on_packet (Subscribe p) wr E (rt, w) = qmark (send_retained ms E (rt, w1)) (\<lambda>_ s. (Ok True, s))"
    "sent (w_out w1) wr = sent (w_out w) wr @ mqtt_bytes (SubAck \<lparr>sa_packet_id = sp_packet_id p,
        sa_return_codes = map (\<lambda>(f, q). if may_subscribe (e_authorizer E) (client_name rt) (f, q)
            \<and> validate_subscribe_filter f then qos_u8 q else FAILURE) (sp_topic_filters p)\<rparr>)"
    "b_router (w_broker w1) = index_subscribe (rt_id rt) (rt_message_tx rt) fs (b_router (w_broker w))"
    "w_mail w1 = w_mail w" "w_storage w1 = w_storage w"
    by (rule subscribe_until_retained [OF assms(1,2,5-7,9)])
  obtain q where "send_retained ms E (rt, w1) = (Ok (), (rt, w1\<lparr>w_mail := q\<rparr>))"
    "queue q = (queue (w_mail w))(rt_message_tx rt := queue (w_mail w) (rt_message_tx rt) @ map Publish ms)"
    using resend_publishes_ok [OF assms(3), of w1 rt ms] assms(4,8) unfolding send_retained_resend w1(4) by blast
  then show ?thesis
    using w1 by (intro exI [of _ "w1\<lparr>w_mail := q\<rparr>"]) (simp add: subscription_of_subscribe)
qed

theorem subscribe_handled_witness:
  "\<exists>w'. on_packet (Subscribe \<lparr>sp_packet_id = 3, sp_topic_filters = [(''a/#'', AtLeastOnce), (''a#'', ExactlyOnce)]\<rparr>)
      0 open_env (start_runtime, start_state) = (Ok True, (start_runtime, w'))
    \<and> net_sent (w_out w') 0 = mqtt_bytes (SubAck \<lparr>sa_packet_id = 3, sa_return_codes = [1, 128]\<rparr>)
    \<and> subscription_of (b_router (w_broker w')) ''s'' ''a/#'' = Some (1, AtLeastOnce)"
proof -
  let ?p = "\<lparr>sp_packet_id = 3, sp_topic_filters = [(''a/#'', AtLeastOnce), (''a#'', ExactlyOnce)]\<rparr>"
  have may: "may_subscribe (e_authorizer open_env) (client_name start_runtime) fq" for fq
    by (cases fq) (simp add: may_subscribe_def allow_all_authorizer_def)
  have all: "subscribe_answers_all (e_authorizer open_env) (client_name start_runtime)"
    by (simp add: subscribe_answers_all_def allow_all_authorizer_def)
  have st: "w_out start_state 0 = Some []" "w_mail start_state (rt_message_tx start_runtime) = Some []"
    "rt_message_tx start_runtime = 1" "rt_id start_runtime = ''s''" "w_storage start_state = memory_new"
    by (simp_all add: start_state_def start_runtime_def Session_new_def)
  have none: "retained_found memory_ops memory_new fq = []" for fq
    by (cases fq) (simp add: retained_found_def all_retained_messages_def memory_defs memory_new_def)
  have valid: "validate_subscribe_filter ''a/#''" "\<not> validate_subscribe_filter ''a#''"
    by (simp_all add: validate_subscribe_filter_def str_contains_def)
  let ?fs = "filter (may_subscribe allow_all_authorizer (client_name start_runtime)) (sp_topic_filters ?p)"
  have up: "w_out start_state 0 \<noteq> None" "w_mail start_state (rt_message_tx start_runtime) \<noteq> None"
    and room: "length (chan_queue (w_mail start_state) (rt_message_tx start_runtime))
      + length (concat (map (retained_found memory_ops (w_storage start_state)) ?fs)) \<le> 100"
    and len: "length (sp_topic_filters ?p) + 2 \<le> max_remaining_length"
    using st none by (simp_all add: chan_queue_def max_remaining_length_def)
  have fs: "?fs = sp_topic_filters ?p"
    using may by simp
  obtain w' where r: "on_packet (Subscribe ?p) 0 open_env (start_runtime, start_state) = (Ok True, (start_runtime, w'))"
    "net_sent (w_out w') 0 = net_sent (w_out start_state) 0 @ mqtt_bytes (SubAck \<lparr>sa_packet_id = sp_packet_id ?p,
        sa_return_codes = map (\<lambda>(f, q). if may_subscribe allow_all_authorizer (client_name start_runtime) (f, q)
            \<and> validate_subscribe_filter f then qos_u8 q else FAILURE) (sp_topic_filters ?p)\<rparr>)"
    "subscription_of (b_router (w_broker w')) = (\<lambda>s f.
        if s = rt_id start_runtime \<and> validate_subscribe_filter f \<and> f \<in> fst ` set ?fs
        then Some (rt_message_tx start_runtime, the (map_of (rev ?fs) f))
        else subscription_of (b_router (w_broker start_state)) s f)"
    using subscribe_handled [OF io.session_io_axioms [of allow_all_authenticate allow_all_authorizer],
      unfolded local_env_simps, OF up(1) bounded.mpsc_axioms up(2) all [unfolded local_env_simps] refl refl
      room len] by (elim exE conjE)
  have "net_sent (w_out w') 0 = mqtt_bytes (SubAck \<lparr>sa_packet_id = 3, sa_return_codes = [1, 128]\<rparr>)"
    unfolding r(2) using may valid st(1) by (simp add: net_sent_def FAILURE_def)
  moreover have "subscription_of (b_router (w_broker w')) ''s'' ''a/#'' = Some (1, AtLeastOnce)"
    unfolding r(3) fs using valid(1) st(3,4) by simp
  ultimately show ?thesis
    using r(1) by blast
qed

end
