(* ===== verification/System_Props.thy ===== *)
theory System_Props
  imports Session_Delivery
begin

text \<open>
  The whole broker: its invariant in every reachable state of any number of interleaved sessions,
  and the end of a session that is cancelled.
\<close>

section \<open>Reachable states\<close>

text \<open>
  C15: the invariant of the running broker.  In every state reachable from the start, with any interleaving of
  sessions, accepted connections and environment steps, and on any storage that honours the
  contract even if it fails: the two directions of the subscription index agree; every session has
  its own identifier, a nonzero packet identifier counter, well-formed unacknowledged and unreleased
  messages; saved sessions are well formed; every subscription belongs to a session that has not
  ended and leads to that session's mailbox; and no two sessions share a mailbox.
\<close>

theorem system_invariant:
  assumes "storage (e_storage E) st_inv saved retained"
    and "start_world config w0" "st_inv (w_storage w0)"
    and "\<forall>cid v. saved (w_storage w0) cid = Some v \<longrightarrow> saved_ok v"
    and "rtranclp (system_step E) (\<lambda>_. None, w0) (tasks, w)"
  shows "router_inv (b_router (w_broker w)) \<and> st_inv (w_storage w)
    \<and> (\<forall>cid v. saved (w_storage w) cid = Some v \<longrightarrow> saved_ok v)
    \<and> (\<forall>sid c rt. tasks sid = Some (c, rt) \<longrightarrow> rt_id rt = sid \<and> runtime_inv rt)
    \<and> (\<forall>s f m q. subscription_of (b_router (w_broker w)) s f = Some (m, q) \<longrightarrow>
        (\<exists>c rt. tasks s = Some (c, rt) \<and> c \<noteq> Done \<and> rt_message_tx rt = m))
    \<and> (\<forall>s s' c c' rt rt'. tasks s = Some (c, rt) \<longrightarrow> tasks s' = Some (c', rt') \<longrightarrow>
        rt_message_tx rt = rt_message_tx rt' \<longrightarrow> s = s')"
proof -
  have state: "broker_state E st_inv saved retained"
    unfolding broker_state_def by (rule assms(1))
  from broker_state.system_inv_reachable [OF state assms(5)
      broker_state.system_inv_start [OF state assms(2-4)]]
  show ?thesis
    unfolding broker_state.system_inv_def [OF state] broker_state.world_inv_def [OF state]
      mailboxes_distinct_def subscriptions_live_def by simp
qed

theorem system_invariant_witness:
  "\<exists>tasks w. rtranclp (system_step open_env) (\<lambda>_. None, start_state) (tasks, w)
    \<and> tasks ''s'' = Some (InState Waiting, start_runtime) \<and> router_inv (b_router (w_broker w))
    \<and> runtime_inv start_runtime"
proof -
  let ?tasks = "[''s'' \<mapsto> (InState Waiting, start_runtime)]"
  let ?w = "start_state\<lparr>w_broker := Broker_add_client (fst (Session_new ''s'' 0 1 0)) (w_broker start_state),
    w_mail := w_mail start_state, w_cmd := w_cmd start_state\<rparr>"
  have "system_step open_env (\<lambda>_. None, start_state) (?tasks, ?w)"
    by (rule system_step.accept) (auto simp: start_runtime_def)
  then have run: "rtranclp (system_step open_env) (\<lambda>_. None, start_state) (?tasks, ?w)"
    by (rule r_into_rtranclp)
  have st: "storage (e_storage open_env) memory_inv memory_saved memory_retained"
    using mem.storage_axioms by simp
  have start: "start_world default_config start_state" "memory_inv (w_storage start_state)"
    "\<forall>cid v. memory_saved (w_storage start_state) cid = Some v \<longrightarrow> saved_ok v"
    by (simp_all add: start_world_def start_state_def memory_inv_new [unfolded memory_new_def]
        memory_new_def memory_saved_def)
  note inv = system_invariant [OF st start run]
  have "router_inv (b_router (w_broker ?w))"
    using inv by (rule conjunct1)
  moreover have "\<forall>sid c rt. ?tasks sid = Some (c, rt) \<longrightarrow> rt_id rt = sid \<and> runtime_inv rt"
    using inv by (elim conjE)
  from this [rule_format, of "''s''" "InState Waiting" start_runtime] have "runtime_inv start_runtime"
    by simp
  ultimately show ?thesis
    using run by (intro exI [of _ ?tasks] exI [of _ ?w]) simp
qed

section \<open>Cancellation\<close>

lemma route_completes:
  assumes "mailboxes C queue open_rx cap" "router_inv r"
    and "\<forall>c. open_rx q c \<longrightarrow> length (queue q c) + card (due r (pp_topic p) c) \<le> cap c"
  shows "fst (Router_route S C now r p (st, q)) = Ok ()"
proof (cases "validate_publish_topic (pp_topic p)")
  case True
  have "\<forall>c. open_rx q c \<longrightarrow> length (queue q c) + length (copies c (matching (pp_topic p) r)) \<le> cap c"
    using assms(3) unfolding length_copies [OF assms(2)] .
  from mailboxes.send_all_delivers [OF assms(1) this, of p]
  obtain q' where "send_all C p (matching (pp_topic p) r) q = (Ok (), q')"
    by blast
  then show ?thesis
    using Router_route_eq [OF True, of C r q "Ok ()" q' S now st] by simp
qed (simp add: Router_route_def)

lemma cleanup_completes:
  assumes "mailboxes (e_mail E) queue open_rx cap" "router_inv (b_router (w_broker w))"
    and "\<forall>m c. rt_will_message rt = Some m \<longrightarrow> open_rx (w_mail w) c \<longrightarrow>
      length (queue (w_mail w) c) + card (due (b_router (w_broker w)) (wm_topic m) c) \<le> cap c"
  shows "\<exists>s'. cleanup E (rt, w) = (Ok (), s')"
proof (cases "rt_will_message rt")
  case None
  then show ?thesis
    by (simp add: cleanup_def publish_will_def)
next
  case (Some m)
  obtain res w1 where call: "Broker_route E (will_packet m) w = (res, w1)"
    by (rule prod.exhaust)
  have "fst (Router_route (e_storage E) (e_mail E) (w_utc w) (b_router (w_broker w)) (will_packet m)
      (w_storage w, w_mail w)) = Ok ()"
    using assms(3) Some by (intro route_completes [OF assms(1,2)]) (simp add: will_packet_def)
  then have "res = Ok ()"
    using call by (auto simp: Broker_route_def split: prod.splits)
  then show ?thesis
    using Some call by (simp add: cleanup_def publish_will_def session_route_def)
qed

lemma recv_cancel:
  assumes "mpsc (e_cmd E) queue open_rx cap" "queue (w_cmd w) (rt_command_rx rt) = Cancel # ks"
  obtains k where "recv_command E (rt, w) = (Ok (Some Cancel), (rt, w\<lparr>w_cmd := k\<rparr>))"
proof -
  obtain res k where "ch_recv (e_cmd E) (rt_command_rx rt) (w_cmd w) = (res, k)"
    by (rule prod.exhaust)
  then show thesis
    using mpsc.recv_ready [OF assms] by (intro that [of k]) (simp add: recv_command_def)
qed

abbreviation ends :: "('st, 'q, 'k, 'w, 'b, 'r, 'c) env \<Rightarrow> control \<Rightarrow> ('st, 'q, 'k, 'w, 'r) sstate \<Rightarrow> bool" where
  "ends E c s \<equiv> \<exists>s'. rtranclp (session_step E) (c, s) (Done, s')"

lemma ends_step: "session_step E (c, s) (c', s') \<Longrightarrow> ends E c' s' \<Longrightarrow> ends E c s"
  by (blast intro: converse_rtranclp_into_rtranclp)

text \<open>The will of the session has room in the mailboxes it goes to.\<close>

definition will_room :: "('q \<Rightarrow> channel \<Rightarrow> Packet list) \<Rightarrow> ('q \<Rightarrow> channel \<Rightarrow> bool) \<Rightarrow> (channel \<Rightarrow> nat)
    \<Rightarrow> Runtime \<Rightarrow> ('st, 'q, 'k, 'w, 'r) world \<Rightarrow> bool" where
  "will_room queue open_rx cap rt w \<longleftrightarrow> router_inv (b_router (w_broker w))
    \<and> (\<forall>m c. rt_will_message rt = Some m \<longrightarrow> open_rx (w_mail w) c \<longrightarrow>
      length (queue (w_mail w) c) + card (due (b_router (w_broker w)) (wm_topic m) c) \<le> cap c)"

lemma ends_cleanup:
  assumes "mailboxes (e_mail E) queue open_rx cap" "will_room queue open_rx cap rt w"
  shows "ends E (InState Cleanup) (rt, w)"
proof -
  obtain s' where "cleanup E (rt, w) = (Ok (), s')"
    using cleanup_completes [OF assms(1), of w rt] assms(2) unfolding will_room_def by blast
  then have "session_step E (InState Cleanup, (rt, w)) (Done, s')"
    by (rule session_step.finish)
  then show ?thesis
    by (blast intro: r_into_rtranclp)
qed

lemma ends_loop:
  assumes "mpsc (e_cmd E) kqueue kopen kcap" "kqueue (w_cmd w) (rt_command_rx rt) = Cancel # ks"
    and "mailboxes (e_mail E) queue open_rx cap" "will_room queue open_rx cap rt w"
  shows "ends E (InLoop str ka) (rt, w)"
proof -
  obtain k where k: "recv_command E (rt, w) = (Ok (Some Cancel), (rt, w\<lparr>w_cmd := k\<rparr>))"
    by (rule recv_cancel [OF assms(1,2)])
  then have "processing_event (EvCommand False) str ka E (rt, w) = (Ok (Break Cleanup), (rt, w\<lparr>w_cmd := k\<rparr>))"
    by (simp add: processing_event_def drop_decode_def)
  moreover have "ends E (InState Cleanup) (rt, w\<lparr>w_cmd := k\<rparr>)"
    using assms(4) by (intro ends_cleanup [OF assms(3)]) (simp add: will_room_def)
  ultimately show ?thesis
    by (rule ends_step [OF session_step.leave])
qed

lemma ends_pending:
  assumes "mpsc (e_cmd E) kqueue kopen kcap" "kqueue (w_cmd w) (rt_command_rx rt) = Cancel # ks"
    and "mailboxes (e_mail E) queue open_rx cap" "will_room queue open_rx cap rt w"
  shows "ends E InPending (rt, w)"
proof -
  obtain k where k: "recv_command E (rt, w) = (Ok (Some Cancel), (rt, w\<lparr>w_cmd := k\<rparr>))"
    by (rule recv_cancel [OF assms(1,2)])
  then have "pending_command E (rt, w) = (Ok Cleanup, (rt, w\<lparr>w_cmd := k\<rparr>))"
    by (simp add: pending_command_def)
  moreover have "ends E (InState Cleanup) (rt, w\<lparr>w_cmd := k\<rparr>)"
    using assms(4) by (intro ends_cleanup [OF assms(3)]) (simp add: will_room_def)
  ultimately show ?thesis
    by (rule ends_step [OF session_step.command])
qed

lemma ends_waiting:
  assumes "mpsc (e_cmd E) kqueue kopen kcap" "kqueue (w_cmd w) (rt_command_rx rt) = Cancel # ks"
    and "mailboxes (e_mail E) queue open_rx cap" "will_room queue open_rx cap rt w"
  shows "ends E (InState Waiting) (rt, w)"
proof (cases "rt_stream rt")
  case None
  then have "do_waiting (EvCommand False) E (rt, w) = (Ok Cleanup, (rt, w))"
    by (simp add: do_waiting_def)
  then show ?thesis
    using ends_cleanup [OF assms(3,4)] by (rule ends_step [OF session_step.waiting])
next
  case (Some str)
  let ?rt = "rt\<lparr>rt_stream := None\<rparr>"
  have "kqueue (w_cmd w) (rt_command_rx ?rt) = Cancel # ks"
    using assms(2) by simp
  then obtain k where "recv_command E (?rt, w) = (Ok (Some Cancel), (?rt, w\<lparr>w_cmd := k\<rparr>))"
    by (rule recv_cancel [OF assms(1)])
  then have "do_waiting (EvCommand False) E (rt, w) = (Ok Cleanup, (?rt, w\<lparr>w_cmd := k\<rparr>))"
    using Some by (simp add: do_waiting_def drop_decode_def)
  moreover have "ends E (InState Cleanup) (?rt, w\<lparr>w_cmd := k\<rparr>)"
    using assms(4) by (intro ends_cleanup [OF assms(3)]) (simp add: will_room_def)
  ultimately show ?thesis
    by (rule ends_step [OF session_step.waiting])
qed

lemma ends_processing:
  assumes "mpsc (e_cmd E) kqueue kopen kcap" "kqueue (w_cmd w) (rt_command_rx rt) = Cancel # ks"
    and "mailboxes (e_mail E) queue open_rx cap" "will_room queue open_rx cap rt w"
  shows "ends E (InState Processing) (rt, w)"
proof (cases "rt_stream rt")
  case None
  then have "start_processing (rt, w) = (Ok None, (rt, w))"
    by (simp add: start_processing_def)
  then show ?thesis
    using ends_cleanup [OF assms(3,4)] by (rule ends_step [OF session_step.no_stream])
next
  case (Some str)
  let ?rt = "rt\<lparr>rt_stream := None\<rparr>"
  have "start_processing (rt, w) = (Ok (Some (str, rt_keep_alive rt)), (?rt, w))"
    using Some timers_nonzero by (simp add: start_processing_def)
  moreover have "ends E (InLoop str (rt_keep_alive rt)) (?rt, w)"
    using assms(2,4) by (intro ends_loop [OF assms(1) _ assms(3)]) (simp_all add: will_room_def)
  ultimately show ?thesis
    by (rule ends_step [OF session_step.start])
qed

lemma save_to_storage_frame:
  obtains st where "save_to_storage E (rt, w) = (rt, w\<lparr>w_storage := st\<rparr>)"
  by (cases "rt_client_id rt") (auto simp: save_to_storage_def Let_def intro: that [of "w_storage w"] that)

text \<open>
  C25: a cancelled session ends.  From every point of its life, with \<open>Cancel\<close> next in its command channel and
  room in the mailboxes its will goes to, a session has a run to its end; it does not need its
  client, its network connection or any other session for it.
\<close>

theorem cancel_ends_session:
  assumes "mpsc (e_cmd E) kqueue kopen kcap" "kqueue (w_cmd w) (rt_command_rx rt) = Cancel # ks"
    and "mailboxes (e_mail E) queue open_rx cap" "router_inv (b_router (w_broker w))"
    and "\<forall>m c. rt_will_message rt = Some m \<longrightarrow> open_rx (w_mail w) c \<longrightarrow>
      length (queue (w_mail w) c) + card (due (b_router (w_broker w)) (wm_topic m) c) \<le> cap c"
  shows "\<exists>s'. rtranclp (session_step E) (c, (rt, w)) (Done, s')"
proof -
  have room: "will_room queue open_rx cap rt w"
    using assms(4,5) by (simp add: will_room_def)
  note facts = assms(1,2,3) room
  show ?thesis
  proof (cases c)
    case (InState st)
    show ?thesis
    proof (cases st)
      case Waiting
      then show ?thesis using InState ends_waiting [OF facts] by simp
    next
      case Processing
      then show ?thesis using InState ends_processing [OF facts] by simp
    next
      case PendingState
      obtain sto where "save_to_storage E (rt, w) = (rt, w\<lparr>w_storage := sto\<rparr>)"
        by (rule save_to_storage_frame)
      moreover have "ends E InPending (rt, w\<lparr>w_storage := sto\<rparr>)"
        using assms(2) room by (intro ends_pending [OF assms(1) _ assms(3)]) (simp_all add: will_room_def)
      ultimately show ?thesis
        using PendingState InState session_step.save [of E "(rt, w)"] by (metis ends_step)
    next
      case Cleanup
      then show ?thesis using InState ends_cleanup [OF assms(3) room] by simp
    qed
  next
    case (InLoop str ka)
    then show ?thesis using ends_loop [OF facts] by simp
  next
    case InPending
    then show ?thesis using ends_pending [OF facts] by simp
  next
    case Done
    then show ?thesis by blast
  qed
qed

theorem cancel_ends_session_witness:
  "\<exists>s'. rtranclp (session_step open_env) (InLoop 0 60, (start_runtime\<lparr>rt_will_message :=
      Some \<lparr>wm_topic = ''a/b'', wm_payload = [1], wm_qos = AtMostOnce, wm_retain = False\<rparr>\<rparr>,
      busy_state\<lparr>w_cmd := [0 \<mapsto> [Cancel]]\<rparr>)) (Done, s')"
proof -
  let ?rt = "start_runtime\<lparr>rt_will_message :=
      Some \<lparr>wm_topic = ''a/b'', wm_payload = [1], wm_qos = AtMostOnce, wm_retain = False\<rparr>\<rparr>"
  let ?w = "busy_state\<lparr>w_cmd := [0 \<mapsto> [Cancel]]\<rparr>"
  have cmd: "chan_queue (w_cmd ?w) (rt_command_rx ?rt) = Cancel # []"
    by (simp add: chan_queue_def start_runtime_def Session_new_def)
  have router: "b_router (w_broker ?w) = example_router"
    by (simp add: busy_state_def)
  have room: "\<forall>m c. rt_will_message ?rt = Some m \<longrightarrow> w_mail ?w c \<noteq> None \<longrightarrow>
      length (chan_queue (w_mail ?w) c) + card (due (b_router (w_broker ?w)) (wm_topic m) c) \<le> 100"
    using example_room unfolding router
    by (auto simp: example_message_def chan_queue_def busy_state_def split: if_splits)
  show ?thesis
    by (rule cancel_ends_session [where E = open_env, unfolded local_env_simps, OF bounded.mpsc_axioms cmd
          mail.mailboxes_axioms _ room]) (simp only: router example_inv)
qed

end
