(* ===== verification/Session_Timers.thy ===== *)
theory Session_Timers
  imports System_Props
begin

text \<open>
  The processing loop of \<^verbatim>\<open>src/session.rs\<close> with its clock: \<open>do_processing\<close> makes two tokio intervals, resets
  the keep-alive one after each packet and takes a timer branch of its \<open>select!\<close> only when that timer
  has fired.  \<open>timed_step\<close> adds them to \<open>session_step\<close>, in which a timer may fire at any time.
\<close>

section \<open>Intervals\<close>

text \<open>
  \<open>tokio::time::Interval\<close> with \<open>MissedTickBehavior::Delay\<close>, a parameter of the model; times and periods
  are nanoseconds, and \<open>interval_tick\<close> is a poll of \<open>tick\<close> at the given time.
\<close>

record 'i interval_ops =
  interval_new :: "nat \<Rightarrow> nat \<Rightarrow> 'i"
  interval_reset :: "nat \<Rightarrow> 'i \<Rightarrow> 'i"
  interval_tick :: "nat \<Rightarrow> 'i \<Rightarrow> (unit, unit) outcome \<times> 'i"

text \<open>
  The documented behaviour: the first tick completes at once; a tick completes when its deadline has
  passed and puts the next one a period after the deadline, or after the present when the tick
  was late; \<open>reset\<close> puts it a period after the present.
\<close>

locale interval_timer =
  fixes I :: "'i interval_ops"
    and deadline :: "'i \<Rightarrow> nat"
    and period :: "'i \<Rightarrow> nat"
  assumes interval_new: "deadline (interval_new I p now) = now \<and> period (interval_new I p now) = p"
    and tick_ready: "deadline i \<le> now \<Longrightarrow> fst (interval_tick I now i) = Ok ()
      \<and> period (snd (interval_tick I now i)) = period i
      \<and> deadline i + period i \<le> deadline (snd (interval_tick I now i))
      \<and> deadline (snd (interval_tick I now i)) \<le> now + period i"
    and tick_wait: "now < deadline i \<Longrightarrow> interval_tick I now i = (Pending, i)"
    and reset: "deadline (interval_reset I now i) = now + period i
      \<and> period (interval_reset I now i) = period i"

text \<open>An instance: the deadline and the period, late by more than five milliseconds.\<close>

definition delay_interval :: "(nat \<times> nat) interval_ops" where
  "delay_interval =
    \<lparr>interval_new = (\<lambda>p now. (now, p)),
     interval_reset = (\<lambda>now (d, p). (now + p, p)),
     interval_tick = (\<lambda>now (d, p). if now < d then (Pending, (d, p))
       else (Ok (), (if d + 5000000 < now then now + p else d + p, p)))\<rparr>"

interpretation delay: interval_timer delay_interval fst snd
  by unfold_locales (auto simp: delay_interval_def)

section \<open>Timed steps\<close>

record 'i timers =
  tm_keep_alive :: 'i
  tm_retransmit :: 'i

definition millis :: "u64 \<Rightarrow> nat" where
  "millis ms = unat ms * 1000000"

text \<open>An interval with its first tick skipped, and the two of \<open>do_processing\<close>.\<close>

definition skipped_interval :: "'i interval_ops \<Rightarrow> nat \<Rightarrow> u64 \<Rightarrow> (unit, unit) outcome \<times> 'i" where
  "skipped_interval I now ms = interval_tick I now (interval_new I (millis ms) now)"

definition start_timers :: "'i interval_ops \<Rightarrow> nat \<Rightarrow> u16 \<Rightarrow> Config \<Rightarrow> (unit, unit) outcome \<times> 'i timers" where
  "start_timers I now keep_alive_secs config =
    (let (res, keep_alive_interval) = skipped_interval I now (keep_alive_timeout keep_alive_secs);
         (res', retransmit_interval) = skipped_interval I now (timer_interval config)
     in (outcome_bind res (\<lambda>_. res'),
         \<lparr>tm_keep_alive = keep_alive_interval, tm_retransmit = retransmit_interval\<rparr>))"

text \<open>
  What a poll of the timers does before the branch of an event runs: only a timer that has fired
  is taken, and a packet resets the keep-alive timer.
\<close>

definition poll_timers :: "'i interval_ops \<Rightarrow> loop_event \<Rightarrow> nat \<Rightarrow> 'i timers \<Rightarrow> (unit, unit) outcome \<times> 'i timers" where
  "poll_timers I ev now tm =
    (case ev of
       EvPacket \<Rightarrow> (Ok (), tm\<lparr>tm_keep_alive := interval_reset I now (tm_keep_alive tm)\<rparr>)
     | EvKeepAlive _ \<Rightarrow> (case interval_tick I now (tm_keep_alive tm) of
         (res, i) \<Rightarrow> (res, tm\<lparr>tm_keep_alive := i\<rparr>))
     | EvRetransmit _ \<Rightarrow> (case interval_tick I now (tm_retransmit tm) of
         (res, i) \<Rightarrow> (res, tm\<lparr>tm_retransmit := i\<rparr>))
     | _ \<Rightarrow> (Ok (), tm))"

fun after_event :: "stream \<Rightarrow> u16 \<Rightarrow> loop_result \<Rightarrow> control" where
  "after_event str ka Continue = InLoop str ka"
| "after_event str ka (Break st) = InState st"

text \<open>
  Steps of one session with its timers: an event of the loop, the start of the loop, a step outside
  it, and steps of others during which time passes.
\<close>

type_synonym ('st, 'q, 'k, 'w, 'r, 'i) timed = "control \<times> ('st, 'q, 'k, 'w, 'r) sstate \<times> 'i timers option"

inductive timed_step :: "'i interval_ops \<Rightarrow> ('st, 'q, 'k, 'w, 'b, 'r, 'c) env
    \<Rightarrow> loop_event option \<Rightarrow> ('st, 'q, 'k, 'w, 'r, 'i) timed \<Rightarrow> ('st, 'q, 'k, 'w, 'r, 'i) timed \<Rightarrow> bool" for I E where
  event: "poll_timers I ev (w_instant w) tm = (Ok (), tm') \<Longrightarrow>
    processing_event ev str ka E (rt, w) = (Ok res, s') \<Longrightarrow>
    timed_step I E (Some ev) (InLoop str ka, (rt, w), Some tm)
      (after_event str ka res, s', if res = Continue then Some tm' else None)"
| enter: "start_processing (rt, w) = (Ok (Some (str, ka)), s') \<Longrightarrow>
    start_timers I (w_instant w) ka (b_config (w_broker w)) = (Ok (), tm) \<Longrightarrow>
    timed_step I E None (InState Processing, (rt, w), None) (InLoop str ka, s', Some tm)"
| outside: "session_step E (c, s) (c', s') \<Longrightarrow> (\<forall>str ka. c \<noteq> InLoop str ka \<and> c' \<noteq> InLoop str ka) \<Longrightarrow>
    timed_step I E None (c, s, None) (c', s', None)"
| elapse: "w_instant w \<le> w_instant w' \<Longrightarrow> timed_step I E None (c, (rt, w), tm) (c, (rt, w'), tm)"

inductive_cases timed_event_cases: "timed_step I E (Some ev) x y"
inductive_cases timed_start_cases: "timed_step I E None (InState Processing, s, None) (InLoop str ka, s', Some tm)"
inductive_cases timed_quiet_cases: "timed_step I E None (InLoop str ka, s, Some tm) y"

text \<open>
  The states of one run of the loop, each with the time of the last packet, or of the start of the
  loop when none has arrived yet.
\<close>

inductive in_loop :: "'i interval_ops \<Rightarrow> ('st, 'q, 'k, 'w, 'b, 'r, 'c) env \<Rightarrow> stream \<Rightarrow> u16
    \<Rightarrow> nat \<Rightarrow> ('st, 'q, 'k, 'w, 'r) sstate \<Rightarrow> 'i timers \<Rightarrow> bool" for I E str ka where
  entered: "timed_step I E None (InState Processing, (rt, w), None) (InLoop str ka, s', Some tm) \<Longrightarrow>
    in_loop I E str ka (w_instant w) s' tm"
| packet: "in_loop I E str ka t (rt, w) tm \<Longrightarrow>
    timed_step I E (Some EvPacket) (InLoop str ka, (rt, w), Some tm) (InLoop str ka, s', Some tm') \<Longrightarrow>
    in_loop I E str ka (w_instant w) s' tm'"
| quiet: "in_loop I E str ka t s tm \<Longrightarrow>
    timed_step I E ev (InLoop str ka, s, Some tm) (InLoop str ka, s', Some tm') \<Longrightarrow> ev \<noteq> Some EvPacket \<Longrightarrow>
    in_loop I E str ka t s' tm'"

section \<open>Keep alive\<close>

lemma keep_alive_event:
  "processing_event (EvKeepAlive b) str ka E (rt, w) =
    (if 0 < ka then break_off (rt, drop_decode b str E w) else (Ok Continue, (rt, drop_decode b str E w)))"
  by (simp add: processing_event_def Let_def)

context interval_timer
begin

lemma skipped:
  assumes "skipped_interval I now ms = (res, i)"
  shows "res = Ok () \<and> deadline i = now + millis ms \<and> period i = millis ms"
  using assms interval_new [of "millis ms" now] tick_ready [of "interval_new I (millis ms) now" now]
  by (auto simp: skipped_interval_def)

lemma tick_iff: "fst (interval_tick I now i) = Ok () \<longleftrightarrow> deadline i \<le> now"
  using tick_ready [of i now] tick_wait [of now i] by (cases "deadline i \<le> now") auto

lemma tick_period: "period (snd (interval_tick I now i)) = period i"
  using tick_ready [of i now] tick_wait [of now i] by (cases "deadline i \<le> now") auto

lemma quiet_keeps_timer:
  assumes "timed_step I E ev (InLoop str ka, s, Some tm) (InLoop str ka, s', Some tm')" "ev \<noteq> Some EvPacket"
  shows "period (tm_keep_alive tm') = period (tm_keep_alive tm)
    \<and> (0 < ka \<longrightarrow> tm_keep_alive tm' = tm_keep_alive tm)"
proof (cases ev)
  case None
  then show ?thesis
    using assms(1) by (auto elim: timed_quiet_cases)
next
  case (Some e)
  show ?thesis
    using assms(1) [unfolded Some]
  proof cases
    case (event w tm2 rt res)
    have res: "res = Continue"
      using event(2) by (cases res) simp_all
    then have "tm' = tm2"
      using event(3) by simp
    have "e \<noteq> EvKeepAlive b" if "0 < ka" for b
      using event(5) res that by (auto simp: keep_alive_event break_off_def)
    moreover obtain r i where "interval_tick I (w_instant w) (tm_keep_alive tm) = (r, i)"
      by (rule prod.exhaust)
    moreover obtain r' i' where "interval_tick I (w_instant w) (tm_retransmit tm) = (r', i')"
      by (rule prod.exhaust)
    ultimately show ?thesis
      using event(4) \<open>tm' = tm2\<close> assms(2) Some tick_period [of "w_instant w" "tm_keep_alive tm"]
      by (cases e) (auto simp: poll_timers_def)
  qed
qed

lemma keep_alive_deadline:
  assumes "in_loop I E str ka t s tm"
  shows "period (tm_keep_alive tm) = millis (keep_alive_timeout ka)
    \<and> (0 < ka \<longrightarrow> deadline (tm_keep_alive tm) = t + millis (keep_alive_timeout ka))"
  using assms
proof induction
  case (entered rt w s' tm)
  then show ?case
    by (auto elim!: timed_start_cases dest!: skipped simp: start_timers_def Let_def split: prod.splits)
next
  case (packet t rt w tm s' tm')
  then show ?case
    using reset [of "w_instant w" "tm_keep_alive tm"]
    by (auto elim!: timed_event_cases simp: poll_timers_def split: if_splits)
next
  case (quiet t s tm ev s' tm')
  then show ?case
    using quiet_keeps_timer [OF quiet(2,3)] by simp
qed

text \<open>The keep-alive branch is taken exactly when the timer has fired.\<close>

lemma keep_alive_step:
  "timed_step I E (Some (EvKeepAlive b)) (InLoop str ka, (rt, w), Some tm) (c', s', tm') \<longleftrightarrow>
    deadline (tm_keep_alive tm) \<le> w_instant w \<and> s' = (rt, drop_decode b str E w)
    \<and> (if 0 < ka then c' = InState (after_failure (rt_clean_session rt)) \<and> tm' = None
       else c' = InLoop str ka \<and> tm' = Some (tm\<lparr>tm_keep_alive := snd (interval_tick I (w_instant w) (tm_keep_alive tm))\<rparr>))"
  (is "?step \<longleftrightarrow> ?fires")
proof
  assume ?step
  then show ?fires
    using tick_iff [of "w_instant w" "tm_keep_alive tm"]
    by (auto elim!: timed_event_cases simp: poll_timers_def keep_alive_event break_off_def split: prod.splits)
next
  let ?tick = "interval_tick I (w_instant w) (tm_keep_alive tm)"
  assume fires: ?fires
  then have "poll_timers I (EvKeepAlive b) (w_instant w) tm = (Ok (), tm\<lparr>tm_keep_alive := snd ?tick\<rparr>)"
    using tick_iff [of "w_instant w" "tm_keep_alive tm"] by (auto simp: poll_timers_def split: prod.splits)
  then have "timed_step I E (Some (EvKeepAlive b)) (InLoop str ka, (rt, w), Some tm) (after_event str ka res, s2,
      if res = Continue then Some (tm\<lparr>tm_keep_alive := snd ?tick\<rparr>) else None)"
    if "processing_event (EvKeepAlive b) str ka E (rt, w) = (Ok res, s2)" for res s2
    using that by (rule timed_step.event)
  moreover have "processing_event (EvKeepAlive b) str ka E (rt, w) =
      (Ok (if 0 < ka then Break (after_failure (rt_clean_session rt)) else Continue), (rt, drop_decode b str E w))"
    by (simp add: keep_alive_event break_off_def)
  ultimately show ?step
    using fires by (cases "0 < ka") fastforce+
qed

end

text \<open>
  C14: the keep-alive limit.  A client that announced a keep alive is disconnected by the timer exactly when no
  packet has arrived for one and a half times that interval, counted from its last packet or from
  the start of the loop; whatever the mailbox, the commands, the retransmission timer and the other
  sessions did in between.  A persistent session then waits for its client, another one ends.  Without a keep
  alive the timer never ends the loop.
\<close>

theorem keep_alive_enforced:
  assumes "interval_timer I deadline period" "in_loop I E str ka t (rt, w) tm"
  shows "((\<exists>b c' s' tm'. timed_step I E (Some (EvKeepAlive b)) (InLoop str ka, (rt, w), Some tm) (c', s', tm')
        \<and> c' \<noteq> InLoop str ka) \<longleftrightarrow> 0 < ka \<and> t + 1500000000 * unat ka \<le> w_instant w)
    \<and> (\<forall>b c' s' tm'. timed_step I E (Some (EvKeepAlive b)) (InLoop str ka, (rt, w), Some tm) (c', s', tm')
        \<and> c' \<noteq> InLoop str ka \<longrightarrow> fst s' = rt \<and> c' = InState (if rt_clean_session rt then Cleanup else PendingState))"
proof -
  have "0 < ka \<Longrightarrow> deadline (tm_keep_alive tm) = t + 1500000000 * unat ka"
    using interval_timer.keep_alive_deadline [OF assms] by (simp add: millis_def keep_alive_timeout_unat word_gt_0)
  then show ?thesis
    unfolding interval_timer.keep_alive_step [OF assms(1)] by (cases "0 < ka") (simp_all add: after_failure_def)
qed

theorem keep_alive_enforced_witness:
  "\<exists>rt w tm b s'. in_loop delay_interval open_env 0 60 0 (rt, w) tm \<and> w_instant w = 90000000000
    \<and> timed_step delay_interval open_env (Some (EvKeepAlive b)) (InLoop 0 60, (rt, w), Some tm) (InState Cleanup, s', None)"
proof -
  let ?rt = "start_runtime\<lparr>rt_keep_alive := 60, rt_stream := None\<rparr>"
  let ?w = "start_state\<lparr>w_instant := 90000000000\<rparr>"
  let ?tm = "snd (start_timers delay_interval 0 60 (b_config (w_broker start_state)))"
  have "start_processing (start_runtime\<lparr>rt_keep_alive := 60\<rparr>, start_state) = (Ok (Some (0, 60)), (?rt, start_state))"
    using timers_nonzero by (simp add: start_processing_def start_runtime_def Session_new_def)
  moreover have "start_timers delay_interval (w_instant start_state) 60 (b_config (w_broker start_state)) = (Ok (), ?tm)"
    by (simp add: start_timers_def skipped_interval_def delay_interval_def start_state_def)
  ultimately have "timed_step delay_interval open_env None (InState Processing, (start_runtime\<lparr>rt_keep_alive := 60\<rparr>, start_state), None)
      (InLoop 0 60, (?rt, start_state), Some ?tm)"
    by (rule timed_step.enter)
  then have "in_loop delay_interval open_env 0 60 (w_instant start_state) (?rt, start_state) ?tm"
    by (rule in_loop.entered)
  moreover have "timed_step delay_interval open_env None (InLoop 0 60, (?rt, start_state), Some ?tm) (InLoop 0 60, (?rt, ?w), Some ?tm)"
    by (rule timed_step.elapse) (simp add: start_state_def)
  ultimately have run: "in_loop delay_interval open_env 0 60 (w_instant start_state) (?rt, ?w) ?tm"
    by (rule in_loop.quiet) simp
  have t: "w_instant start_state = 0" "rt_clean_session ?rt"
    by (simp_all add: start_state_def start_runtime_def Session_new_def)
  note enforced = keep_alive_enforced [OF delay.interval_timer_axioms run]
  have "0 < (60 :: u16) \<and> w_instant start_state + 1500000000 * unat (60 :: u16) \<le> w_instant ?w"
    by (simp add: t(1))
  then obtain b c' s' tm' where step: "timed_step delay_interval open_env (Some (EvKeepAlive b)) (InLoop 0 60, (?rt, ?w), Some ?tm) (c', s', tm')"
    "c' \<noteq> InLoop 0 60"
    using enforced by blast
  then have "c' = InState Cleanup"
    using conjunct2 [OF enforced, rule_format, of b c' s' tm'] t(2) by simp
  moreover have "tm' = None"
    using step(1) unfolding delay.keep_alive_step by simp
  moreover have "w_instant ?w = 90000000000"
    by simp
  ultimately show ?thesis
    using run step t(1) by metis
qed

end
