(* ===== verification/System_Delivery.thy ===== *)
theory System_Delivery
  imports System_Props
begin

text \<open>
  Delivery through the whole broker: the bytes of a PUBLISH on one connection become the bytes of
  the same message on the connection of a subscriber.  The parts are composed as the program
  composes them: the decoder, the handler of the publishing session, the router, the mailbox of the
  subscribing session, its handler and the encoder.
\<close>

section \<open>Runs\<close>

lemma system_run:
  assumes "rtranclp (session_step E) (c, (rt, w)) (c', (rt', w'))" "tasks sid = Some (c, rt)"
  shows "rtranclp (system_step E) (tasks, w) (tasks(sid \<mapsto> (c', rt')), w')"
  using assms(1)
proof (induction "(c', (rt', w'))" arbitrary: c' rt' w' rule: rtranclp_induct)
  case base
  then show ?case
    using assms(2) by (simp add: fun_upd_idem)
next
  case (step y)
  obtain c1 rt1 w1 where y: "y = (c1, (rt1, w1))"
    by (cases y) auto
  have "system_step E (tasks(sid \<mapsto> (c1, rt1)), w1) ((tasks(sid \<mapsto> (c1, rt1)))(sid \<mapsto> (c', rt')), w')"
    using step(2) y by (intro system_step.task) simp_all
  then show ?case
    using step(3) [OF y] by (simp add: rtranclp.rtrancl_into_rtrancl)
qed

section \<open>The subscriber\<close>

text \<open>
  What a session makes of a message from its mailbox: the packet it writes, with the next packet
  identifier if it has none yet, and the runtime afterwards, which keeps a copy until it is
  acknowledged.
\<close>

definition needs_id :: "PublishPacket \<Rightarrow> bool" where
  "needs_id p \<longleftrightarrow> pp_qos p \<noteq> AtMostOnce \<and> \<not> pp_dup p"

definition numbered :: "Runtime \<Rightarrow> PublishPacket \<Rightarrow> PublishPacket" where
  "numbered rt p = (if needs_id p then p\<lparr>pp_packet_id := Some (rt_next_packet_id rt)\<rparr> else p)"

definition kept_copy :: "nat \<Rightarrow> Runtime \<Rightarrow> PublishPacket \<Rightarrow> InflightMessage" where
  "kept_copy now rt p = \<lparr>im_packet = (numbered rt p)\<lparr>pp_dup := True\<rparr>, im_timestamp = now, im_retry_count = 0,
    im_qos2_state = (if pp_qos p = ExactlyOnce then Some AwaitingPubRec else None)\<rparr>"

definition after_message :: "nat \<Rightarrow> PublishPacket \<Rightarrow> Runtime \<Rightarrow> Runtime" where
  "after_message now p rt = (if needs_id p
    then (snd (next_packet_id rt))\<lparr>rt_inflight_queue := rt_inflight_queue rt @ [kept_copy now rt p]\<rparr> else rt)"

fun written :: "nat \<Rightarrow> PublishPacket list \<Rightarrow> Runtime \<Rightarrow> Packet list" where
  "written now [] rt = []"
| "written now (p # ps) rt = Publish (numbered rt p) # written now ps (after_message now p rt)"

definition mqtt_stream :: "Packet list \<Rightarrow> bytes" where
  "mqtt_stream ps = concat (map mqtt_bytes ps)"

lemma mqtt_stream_simps [simp]:
  "mqtt_stream [] = []" "mqtt_stream (p # ps) = mqtt_bytes p @ mqtt_stream ps"
  by (simp_all add: mqtt_stream_def)

lemma after_message_frame [simp]:
  "rt_message_rx (after_message now p rt) = rt_message_rx rt"
  "rt_next_packet_id rt \<noteq> 0 \<Longrightarrow> rt_next_packet_id (after_message now p rt) \<noteq> 0"
  using unat_next_packet_id(2) [of rt "fst (next_packet_id rt)" "snd (next_packet_id rt)"]
  by (auto simp: after_message_def next_packet_id_def Let_def)

text \<open>A message that can be written whatever identifier it gets.\<close>

definition deliverable :: "PublishPacket \<Rightarrow> bool" where
  "deliverable p \<longleftrightarrow> (\<forall>i. wf_publish (if needs_id p then p\<lparr>pp_packet_id := Some i\<rparr> else p))"

lemma deliverable_numbered: "deliverable p \<Longrightarrow> wf_publish (numbered rt p)"
  by (auto simp: deliverable_def numbered_def)

context session_io
begin

lemma on_message_delivers:
  assumes "up (w_out w) wr" "deliverable p"
  shows "\<exists>w'. on_message (Publish p) wr E (rt, w) = (Ok (), (after_message (w_instant w) p rt, w'))
    \<and> wrote wr (mqtt_bytes (Publish (numbered rt p))) w w'"
proof (cases "needs_id p")
  case True
  define st where "st = (if pp_qos p = ExactlyOnce then Some AwaitingPubRec else None)"
  obtain rt1 where ids: "next_packet_id rt = (rt_next_packet_id rt, rt1)" "rt_inflight_queue rt1 = rt_inflight_queue rt"
    by (simp add: next_packet_id_def Let_def)
  obtain w' where w': "send_packet (Publish (numbered rt p)) wr E (rt1, w) = (Ok (), (rt1, w'))"
    "wrote wr (mqtt_bytes (Publish (numbered rt p))) w w'"
    using send_ok [OF assms(1), of "Publish (numbered rt p)" rt1] deliverable_numbered [OF assms(2)] by auto
  have "send_new_message p st wr E (rt, w) = (Ok (), (after_message (w_instant w) p rt, w'))"
    using True ids w' by (simp add: send_new_message_def after_message_def numbered_def kept_copy_def st_def
        wrote_def same_but_out_fields(6))
  then show ?thesis
    using True w'(2) by (cases "pp_qos p") (simp_all add: on_message_def needs_id_def st_def)
next
  case False
  then have "on_message (Publish p) wr E (rt, w) = send_packet (Publish p) wr E (rt, w)"
    by (cases "pp_qos p") (simp_all add: on_message_def needs_id_def)
  then show ?thesis
    using False send_ok [OF assms(1), of "Publish p" rt] deliverable_numbered [OF assms(2), of rt]
    by (simp add: numbered_def after_message_def)
qed

end

lemma mailbox_event:
  assumes "session_io E sent up" "mpsc (e_mail E) queue open_rx cap"
    and "queue (w_mail w) (rt_message_rx rt) = Publish p # ms" "up (w_out w) str" "deliverable p"
  obtains w' where
    "processing_event (EvMessage False) str ka E (rt, w) = (Ok Continue, (after_message (w_instant w) p rt, w'))"
    "queue (w_mail w') = (queue (w_mail w))(rt_message_rx rt := ms)" "w_instant w' = w_instant w"
    "up (w_out w') = up (w_out w)"
    "sent (w_out w') = (sent (w_out w))(str := sent (w_out w) str @ mqtt_bytes (Publish (numbered rt p)))"
proof -
  obtain res q where recv: "ch_recv (e_mail E) (rt_message_rx rt) (w_mail w) = (res, q)"
    by (rule prod.exhaust)
  have q: "res = Ok (Some (Publish p))" "queue q = (queue (w_mail w))(rt_message_rx rt := ms)"
    using mpsc.recv_ready [OF assms(2,3)] recv by simp_all
  let ?w = "w\<lparr>w_mail := q\<rparr>"
  have up: "up (w_out ?w) str"
    using assms(4) by simp
  obtain w' where w': "on_message (Publish p) str E (rt, ?w) = (Ok (), (after_message (w_instant ?w) p rt, w'))"
    "session_io.wrote sent up str (mqtt_bytes (Publish (numbered rt p))) ?w w'"
    using session_io.on_message_delivers [OF assms(1) up assms(5), of rt] by blast
  have "processing_event (EvMessage False) str ka E (rt, w) = (Ok Continue, (after_message (w_instant w) p rt, w'))"
    using recv q(1) w'(1) by (simp add: processing_event_def recv_message_def drop_decode_def)
  moreover have "w_mail w' = q" "w_instant w' = w_instant w" "up (w_out w') = up (w_out w)"
    "sent (w_out w') = (sent (w_out w))(str := sent (w_out w) str @ mqtt_bytes (Publish (numbered rt p)))"
    using w'(2) same_but_out_fields [of ?w w'] unfolding session_io.wrote_def [OF assms(1)] by simp_all
  ultimately show thesis
    using that q(2) by metis
qed

lemma mailbox_step:
  assumes "session_io E sent up" "mpsc (e_mail E) queue open_rx cap"
    and "queue (w_mail w) (rt_message_rx rt) = Publish p # ms" "up (w_out w) str" "deliverable p"
  obtains w' where
    "session_step E (InLoop str ka, (rt, w)) (InLoop str ka, (after_message (w_instant w) p rt, w'))"
    "queue (w_mail w') = (queue (w_mail w))(rt_message_rx rt := ms)" "w_instant w' = w_instant w"
    "up (w_out w') = up (w_out w)"
    "sent (w_out w') = (sent (w_out w))(str := sent (w_out w) str @ mqtt_bytes (Publish (numbered rt p)))"
  by (rule mailbox_event [OF assms, of ka]) (rule that, rule session_step.loop)

lemma mailbox_drained:
  assumes "session_io E sent up" "mpsc (e_mail E) queue open_rx cap"
    and "queue (w_mail w) (rt_message_rx rt) = map Publish ps" "up (w_out w) str" "\<forall>p \<in> set ps. deliverable p"
  shows "\<exists>w'. rtranclp (session_step E) (InLoop str ka, (rt, w))
      (InLoop str ka, (fold (after_message (w_instant w)) ps rt, w'))
    \<and> queue (w_mail w') (rt_message_rx rt) = []
    \<and> sent (w_out w') = (sent (w_out w))(str := sent (w_out w) str @ mqtt_stream (written (w_instant w) ps rt))"
  using assms(3-5)
proof (induction ps arbitrary: rt w)
  case Nil
  then show ?case
    by (intro exI [of _ w]) simp
next
  case (Cons p ps)
  have "queue (w_mail w) (rt_message_rx rt) = Publish p # map Publish ps" "deliverable p"
    using Cons.prems by simp_all
  then obtain w1 where w1:
    "session_step E (InLoop str ka, (rt, w)) (InLoop str ka, (after_message (w_instant w) p rt, w1))"
    "queue (w_mail w1) = (queue (w_mail w))(rt_message_rx rt := map Publish ps)" "w_instant w1 = w_instant w"
    "up (w_out w1) = up (w_out w)"
    "sent (w_out w1) = (sent (w_out w))(str := sent (w_out w) str @ mqtt_bytes (Publish (numbered rt p)))"
    using mailbox_step [OF assms(1,2) _ Cons.prems(2)] by metis
  let ?rt = "after_message (w_instant w) p rt"
  have "queue (w_mail w1) (rt_message_rx ?rt) = map Publish ps" "up (w_out w1) str" "\<forall>p \<in> set ps. deliverable p"
    using Cons.prems(2,3) w1(2,4) by simp_all
  from Cons.IH [OF this] obtain w' where w': "rtranclp (session_step E) (InLoop str ka, (?rt, w1))
      (InLoop str ka, (fold (after_message (w_instant w)) ps ?rt, w'))"
    "queue (w_mail w') (rt_message_rx rt) = []"
    "sent (w_out w') = (sent (w_out w1))(str := sent (w_out w1) str @ mqtt_stream (written (w_instant w) ps ?rt))"
    unfolding w1(3) after_message_frame by blast
  have "rtranclp (session_step E) (InLoop str ka, (rt, w))
      (InLoop str ka, (fold (after_message (w_instant w)) (p # ps) rt, w'))"
    using w1(1) w'(1) by (simp add: converse_rtranclp_into_rtranclp)
  then show ?case
    using w'(2,3) w1(5) by (intro exI [of _ w']) (simp del: mqtt_bytes.simps)
qed

section \<open>The publisher\<close>

text \<open>
  What a client sends to publish a message, and the answers it gets: nothing, PUBACK, or PUBREC and
  PUBCOMP.
\<close>

definition publishing :: "PublishPacket \<Rightarrow> Packet list" where
  "publishing p = Publish p # (if pp_qos p = ExactlyOnce
    then [PubRel \<lparr>prel_packet_id = the (pp_packet_id p)\<rparr>] else [])"

definition publish_answers :: "PublishPacket \<Rightarrow> Packet list" where
  "publish_answers p = (case pp_qos p of
      AtMostOnce \<Rightarrow> []
    | AtLeastOnce \<Rightarrow> [PubAck \<lparr>pa_packet_id = the (pp_packet_id p)\<rparr>]
    | ExactlyOnce \<Rightarrow> [PubRec \<lparr>prec_packet_id = the (pp_packet_id p)\<rparr>,
                     PubComp \<lparr>pcomp_packet_id = the (pp_packet_id p)\<rparr>])"

text \<open>The packet branch of the loop on bytes laid out as the standard prescribes.\<close>

lemma packet_step:
  assumes "async_reader (e_reader E) avail eof" "buf_reader (e_cursor E) adv view"
    and "avail (w_in w str) = mqtt_bytes pack @ rest" "inbound pack" "wf_packet pack"
    and "\<And>r. \<exists>w'. on_packet pack str E (rt, w\<lparr>w_in := (w_in w)(str := r)\<rparr>) = (Ok True, (rt', w'))
      \<and> w_in w' str = r \<and> P w'"
  shows "\<exists>w'. session_step E (InLoop str ka, (rt, w)) (InLoop str ka, (rt', w')) \<and> avail (w_in w' str) = rest \<and> P w'"
proof -
  have codec: "codec (e_reader E) avail eof (e_cursor E) adv view"
    using assms(1,2) by (rule codec.intro)
  obtain r where r: "Packet_decode (e_reader E) (e_cursor E) (w_in w str) = (Ok pack, r)" "avail r = rest"
    using codec.packet_decode_mqtt_bytes [OF codec assms(3-5)] by blast
  obtain w' where w': "on_packet pack str E (rt, w\<lparr>w_in := (w_in w)(str := r)\<rparr>) = (Ok True, (rt', w'))"
    "w_in w' str = r" "P w'"
    using assms(6) [of r] by blast
  have "processing_event EvPacket str ka E (rt, w) = (Ok Continue, (rt', w'))"
    using r(1) w'(1) by (simp add: processing_event_def decode_from_def)
  then show ?thesis
    using session_step.loop r(2) w'(2,3) by metis
qed

lemma Broker_route_world:
  assumes "Broker_route E p w = (res, w1)" "w_broker w2 = w_broker w" "w_storage w2 = w_storage w"
    "w_mail w2 = w_mail w" "w_utc w2 = w_utc w"
  shows "Broker_route E p w2 = (res, w2\<lparr>w_storage := w_storage w1, w_mail := w_mail w1\<rparr>)"
  using assms by (auto simp: Broker_route_def split: prod.splits)

text \<open>The state after the messages of a client were routed and answered on its stream.\<close>

definition routed_on :: "('w \<Rightarrow> stream \<Rightarrow> bytes) \<Rightarrow> ('w \<Rightarrow> stream \<Rightarrow> bool) \<Rightarrow> stream \<Rightarrow> bytes
    \<Rightarrow> ('st, 'q, 'k, 'w, 'r) world \<Rightarrow> 'q \<Rightarrow> ('st, 'q, 'k, 'w, 'r) world \<Rightarrow> bool" where
  "routed_on sent up str answers w q w' \<longleftrightarrow> w_broker w' = w_broker w \<and> w_mail w' = q
    \<and> w_instant w' = w_instant w \<and> up (w_out w') = up (w_out w)
    \<and> sent (w_out w') = (sent (w_out w))(str := sent (w_out w) str @ answers)"

context session_io
begin

lemma publish_routed:
  assumes "up (w_out w) wr" "wf_publish p" "pp_qos p \<noteq> ExactlyOnce" "\<not> (pp_qos p = AtLeastOnce \<and> pp_dup p)"
    and "authorize_publish (e_authorizer E) (client_name rt) (pp_topic p) = Ok ()"
    and "Broker_route E p w = (Ok (), w1)"
  shows "\<exists>w'. on_packet (Publish p) wr E (rt, w) = (Ok True, (rt, w'))
    \<and> routed_on sent up wr (mqtt_stream (publish_answers p)) w (w_mail w1) w' \<and> w_in w' = w_in w"
proof (cases "pp_qos p")
  case AtMostOnce
  obtain st q where "w1 = w\<lparr>w_storage := st, w_mail := q\<rparr>"
    using assms(6) by (rule Broker_route_frame)
  then show ?thesis
    using AtMostOnce assms(5,6)
    by (simp add: on_packet_def on_publish_def route_authorized_def session_route_def routed_on_def
        publish_answers_def)
next
  case AtLeastOnce
  then obtain i where i: "pp_packet_id p = Some i"
    using assms(2) by (auto simp: wf_publish_def)
  obtain w2 where w2: "send_packet (PubAck \<lparr>pa_packet_id = i\<rparr>) wr E (rt, w) = (Ok (), (rt, w2))"
    "wrote wr (mqtt_bytes (PubAck \<lparr>pa_packet_id = i\<rparr>)) w w2"
    using send_ok [OF assms(1), of "PubAck \<lparr>pa_packet_id = i\<rparr>" rt] by auto
  note same = same_but_out_fields [of w w2]
  have "Broker_route E p w2 = (Ok (), w2\<lparr>w_storage := w_storage w1, w_mail := w_mail w1\<rparr>)"
    using w2(2) same by (intro Broker_route_world [OF assms(6)]) (simp_all add: wrote_def)
  then show ?thesis
    using AtLeastOnce i assms(4,5) w2 same
    by (simp add: on_packet_def on_publish_def route_authorized_def session_route_def routed_on_def
        publish_answers_def wrote_def del: mqtt_bytes.simps)
qed (use assms(3) in simp)

lemma publish_stored:
  assumes "up (w_out w) wr" "pp_qos p = ExactlyOnce" "pp_packet_id p = Some i"
    and "map_of (rt_inbound_qos2 rt) i = None"
  shows "\<exists>w'. on_packet (Publish p) wr E (rt, w) = (Ok True, (rt\<lparr>rt_inbound_qos2 :=
        AList.update i \<lparr>rq_packet = p\<rparr> (rt_inbound_qos2 rt)\<rparr>, w'))
    \<and> routed_on sent up wr (mqtt_bytes (PubRec \<lparr>prec_packet_id = i\<rparr>)) w (w_mail w) w'
    \<and> w_in w' = w_in w \<and> w_storage w' = w_storage w \<and> w_utc w' = w_utc w"
proof -
  obtain w' where "on_packet (Publish p) wr E (rt, w) = (Ok True, (rt\<lparr>rt_inbound_qos2 :=
        AList.update i \<lparr>rq_packet = p\<rparr> (rt_inbound_qos2 rt)\<rparr>, w'))"
    "wrote wr (mqtt_bytes (PubRec \<lparr>prec_packet_id = i\<rparr>)) w w'"
    using publish_qos2 [OF assms(1-3), of rt] assms(4) by auto
  then show ?thesis
    using same_but_out_fields [of w w'] by (auto simp: routed_on_def wrote_def)
qed

lemma pubrel_routed:
  assumes "up (w_out w) wr" "map_of (rt_inbound_qos2 rt) i = Some \<lparr>rq_packet = p\<rparr>"
    and "authorize_publish (e_authorizer E) (client_name rt) (pp_topic p) = Ok ()"
    and "Broker_route E p w = (Ok (), w1)"
  shows "\<exists>w'. on_packet (PubRel \<lparr>prel_packet_id = i\<rparr>) wr E (rt, w)
      = (Ok True, (rt\<lparr>rt_inbound_qos2 := AList.delete i (rt_inbound_qos2 rt)\<rparr>, w'))
    \<and> routed_on sent up wr (mqtt_bytes (PubComp \<lparr>pcomp_packet_id = i\<rparr>)) w (w_mail w1) w' \<and> w_in w' = w_in w"
proof -
  obtain w2 where w2: "on_packet (PubRel \<lparr>prel_packet_id = i\<rparr>) wr E (rt, w)
      = (Ok True, (rt\<lparr>rt_inbound_qos2 := AList.delete i (rt_inbound_qos2 rt)\<rparr>, w1\<lparr>w_out := w_out w2\<rparr>))"
    "wrote wr (mqtt_bytes (PubComp \<lparr>pcomp_packet_id = i\<rparr>)) w w2"
    using pubrel_pending [OF assms] by blast
  obtain st q where "w1 = w\<lparr>w_storage := st, w_mail := q\<rparr>"
    using assms(4) by (rule Broker_route_frame)
  then show ?thesis
    using w2 by (auto simp: routed_on_def wrote_def)
qed

end

lemma publish_step:
  assumes io: "session_io E sent up" and reader: "async_reader (e_reader E) avail eof" "buf_reader (e_cursor E) adv view"
    and bytes: "avail (w_in w str) = mqtt_bytes (Publish p) @ rest" "wf_publish p" "up (w_out w) str"
    and fresh: "pp_qos p \<noteq> ExactlyOnce" "\<not> (pp_qos p = AtLeastOnce \<and> pp_dup p)"
    and auth: "authorize_publish (e_authorizer E) (client_name rt) (pp_topic p) = Ok ()"
    and route: "Broker_route E p w = (Ok (), w1)"
  shows "\<exists>w'. session_step E (InLoop str ka, (rt, w)) (InLoop str ka, (rt, w')) \<and> avail (w_in w' str) = rest
    \<and> routed_on sent up str (mqtt_stream (publish_answers p)) w (w_mail w1) w'"
proof (rule packet_step [OF reader bytes(1)])
  fix r
  let ?w = "w\<lparr>w_in := (w_in w)(str := r)\<rparr>"
  have route': "Broker_route E p ?w = (Ok (), ?w\<lparr>w_storage := w_storage w1, w_mail := w_mail w1\<rparr>)"
    by (rule Broker_route_world [OF route]) simp_all
  have "up (w_out ?w) str"
    using bytes(3) by simp
  from session_io.publish_routed [OF io this bytes(2) fresh auth route']
  show "\<exists>w'. on_packet (Publish p) str E (rt, ?w) = (Ok True, (rt, w')) \<and> w_in w' str = r
      \<and> routed_on sent up str (mqtt_stream (publish_answers p)) w (w_mail w1) w'"
    by (auto simp: routed_on_def)
qed (use bytes(2) in simp_all)

lemma store_step:
  assumes io: "session_io E sent up" and reader: "async_reader (e_reader E) avail eof" "buf_reader (e_cursor E) adv view"
    and bytes: "avail (w_in w str) = mqtt_bytes (Publish p) @ rest" "wf_publish p" "up (w_out w) str"
    and fresh: "pp_qos p = ExactlyOnce" "pp_packet_id p = Some i" "map_of (rt_inbound_qos2 rt) i = None"
  shows "\<exists>w'. session_step E (InLoop str ka, (rt, w))
      (InLoop str ka, (rt\<lparr>rt_inbound_qos2 := AList.update i \<lparr>rq_packet = p\<rparr> (rt_inbound_qos2 rt)\<rparr>, w'))
    \<and> avail (w_in w' str) = rest
    \<and> routed_on sent up str (mqtt_bytes (PubRec \<lparr>prec_packet_id = i\<rparr>)) w (w_mail w) w'
    \<and> w_storage w' = w_storage w \<and> w_utc w' = w_utc w"
proof (rule packet_step [OF reader bytes(1)])
  fix r
  let ?w = "w\<lparr>w_in := (w_in w)(str := r)\<rparr>"
  have "up (w_out ?w) str"
    using bytes(3) by simp
  from session_io.publish_stored [OF io this fresh]
  show "\<exists>w'. on_packet (Publish p) str E (rt, ?w) = (Ok True,
        (rt\<lparr>rt_inbound_qos2 := AList.update i \<lparr>rq_packet = p\<rparr> (rt_inbound_qos2 rt)\<rparr>, w'))
      \<and> w_in w' str = r \<and> routed_on sent up str (mqtt_bytes (PubRec \<lparr>prec_packet_id = i\<rparr>)) w (w_mail w) w'
      \<and> w_storage w' = w_storage w \<and> w_utc w' = w_utc w"
    by (auto simp: routed_on_def)
qed (use bytes(2) in simp_all)

lemma release_step:
  assumes io: "session_io E sent up" and reader: "async_reader (e_reader E) avail eof" "buf_reader (e_cursor E) adv view"
    and bytes: "avail (w_in w str) = mqtt_bytes (PubRel \<lparr>prel_packet_id = i\<rparr>) @ rest" "up (w_out w) str"
    and stored: "map_of (rt_inbound_qos2 rt) i = Some \<lparr>rq_packet = p\<rparr>"
    and auth: "authorize_publish (e_authorizer E) (client_name rt) (pp_topic p) = Ok ()"
    and route: "Broker_route E p w = (Ok (), w1)"
  shows "\<exists>w'. session_step E (InLoop str ka, (rt, w))
      (InLoop str ka, (rt\<lparr>rt_inbound_qos2 := AList.delete i (rt_inbound_qos2 rt)\<rparr>, w'))
    \<and> avail (w_in w' str) = rest
    \<and> routed_on sent up str (mqtt_bytes (PubComp \<lparr>pcomp_packet_id = i\<rparr>)) w (w_mail w1) w'"
proof (rule packet_step [OF reader bytes(1)])
  fix r
  let ?w = "w\<lparr>w_in := (w_in w)(str := r)\<rparr>"
  have route': "Broker_route E p ?w = (Ok (), ?w\<lparr>w_storage := w_storage w1, w_mail := w_mail w1\<rparr>)"
    by (rule Broker_route_world [OF route]) simp_all
  have "up (w_out ?w) str"
    using bytes(2) by simp
  from session_io.pubrel_routed [OF io this stored auth route']
  show "\<exists>w'. on_packet (PubRel \<lparr>prel_packet_id = i\<rparr>) str E (rt, ?w) = (Ok True,
        (rt\<lparr>rt_inbound_qos2 := AList.delete i (rt_inbound_qos2 rt)\<rparr>, w'))
      \<and> w_in w' str = r \<and> routed_on sent up str (mqtt_bytes (PubComp \<lparr>pcomp_packet_id = i\<rparr>)) w (w_mail w1) w'"
    by (auto simp: routed_on_def)
qed simp_all

lemma publisher_run:
  assumes io: "session_io E sent up" and reader: "async_reader (e_reader E) avail eof" "buf_reader (e_cursor E) adv view"
    and bytes: "avail (w_in w str) = mqtt_stream (publishing p) @ rest" "wf_publish p" "up (w_out w) str"
    and fresh: "\<not> (pp_qos p = AtLeastOnce \<and> pp_dup p)"
      "pp_qos p = ExactlyOnce \<longrightarrow> map_of (rt_inbound_qos2 rt) (the (pp_packet_id p)) = None"
    and auth: "authorize_publish (e_authorizer E) (client_name rt) (pp_topic p) = Ok ()"
    and route: "Broker_route E p w = (Ok (), w1)"
  shows "\<exists>rt' w'. rtranclp (session_step E) (InLoop str ka, (rt, w)) (InLoop str ka, (rt', w'))
    \<and> routed_on sent up str (mqtt_stream (publish_answers p)) w (w_mail w1) w' \<and> avail (w_in w' str) = rest"
proof (cases "pp_qos p = ExactlyOnce")
  case False
  then have "avail (w_in w str) = mqtt_bytes (Publish p) @ rest"
    using bytes(1) by (simp add: publishing_def)
  from publish_step [OF io reader this bytes(2,3) False fresh(1) auth route] show ?thesis
    by blast
next
  case True
  then obtain i where i: "pp_packet_id p = Some i"
    using bytes(2) by (auto simp: wf_publish_def)
  let ?rt = "rt\<lparr>rt_inbound_qos2 := AList.update i \<lparr>rq_packet = p\<rparr> (rt_inbound_qos2 rt)\<rparr>"
  let ?rt' = "?rt\<lparr>rt_inbound_qos2 := AList.delete i (rt_inbound_qos2 ?rt)\<rparr>"
  have "avail (w_in w str) = mqtt_bytes (Publish p) @ mqtt_bytes (PubRel \<lparr>prel_packet_id = i\<rparr>) @ rest"
    "map_of (rt_inbound_qos2 rt) i = None"
    using bytes(1) True i fresh(2) by (simp_all add: publishing_def)
  from store_step [OF io reader this(1) bytes(2,3) True i this(2)] obtain wa where wa:
    "session_step E (InLoop str ka, (rt, w)) (InLoop str ka, (?rt, wa))"
    "avail (w_in wa str) = mqtt_bytes (PubRel \<lparr>prel_packet_id = i\<rparr>) @ rest"
    "routed_on sent up str (mqtt_bytes (PubRec \<lparr>prec_packet_id = i\<rparr>)) w (w_mail w) wa"
    "w_storage wa = w_storage w" "w_utc wa = w_utc w"
    by blast
  have route': "Broker_route E p wa = (Ok (), wa\<lparr>w_storage := w_storage w1, w_mail := w_mail w1\<rparr>)"
    using wa(3-5) by (intro Broker_route_world [OF route]) (simp_all add: routed_on_def)
  have held: "map_of (rt_inbound_qos2 ?rt) i = Some \<lparr>rq_packet = p\<rparr>" "up (w_out wa) str"
    "authorize_publish (e_authorizer E) (client_name ?rt) (pp_topic p) = Ok ()"
    using wa(3) bytes(3) auth by (simp_all add: client_name_def map_of_update routed_on_def)
  from release_step [OF io reader wa(2) held(2,1,3) route'] obtain w' where w':
    "session_step E (InLoop str ka, (?rt, wa)) (InLoop str ka, (?rt', w'))" "avail (w_in w' str) = rest"
    "routed_on sent up str (mqtt_bytes (PubComp \<lparr>pcomp_packet_id = i\<rparr>)) wa (w_mail w1) w'"
    by auto
  have "rtranclp (session_step E) (InLoop str ka, (rt, w)) (InLoop str ka, (?rt', w'))"
    using wa(1) w'(1) by (meson converse_rtranclp_into_rtranclp r_into_rtranclp)
  moreover have "routed_on sent up str (mqtt_stream (publish_answers p)) w (w_mail w1) w'"
    using wa(3) w'(3) True i by (simp add: routed_on_def publish_answers_def del: mqtt_bytes.simps)
  ultimately show ?thesis
    using w'(2) by blast
qed

section \<open>From publisher to subscriber\<close>

lemma forward_deliverable:
  assumes "wf_publish p"
  shows "deliverable (forward_packet p q)"
  using assms
  by (auto simp: deliverable_def forward_packet_def min_qos_min needs_id_def wf_publish_def
      mqtt_publish_body_def be16_bytes_def min_def less_eq_QoS_def split: option.splits if_splits)

lemma route_queued:
  assumes "mailboxes (e_mail E) queue open_rx cap" "router_inv (b_router (w_broker w))"
    and "validate_publish_topic (pp_topic p)" "open_rx (w_mail w) c"
    and "\<forall>c. open_rx (w_mail w) c \<longrightarrow>
      length (queue (w_mail w) c) + card (due (b_router (w_broker w)) (pp_topic p) c) \<le> cap c"
  obtains w1 xs where "Broker_route E p w = (Ok (), w1)" "distinct xs"
    "set xs = due (b_router (w_broker w)) (pp_topic p) c"
    "queue (w_mail w1) c = queue (w_mail w) c @ map (\<lambda>(s, f, qos). Publish (forward_packet p qos)) xs"
proof -
  let ?r = "b_router (w_broker w)"
  have "\<forall>c. open_rx (w_mail w) c \<longrightarrow>
      length (queue (w_mail w) c) + length (copies c (matching (pp_topic p) ?r)) \<le> cap c"
    using assms(5) unfolding length_copies [OF assms(2)] .
  from mailboxes.send_all_delivers [OF assms(1) this, of p] obtain q where q:
    "send_all (e_mail E) p (matching (pp_topic p) ?r) (w_mail w) = (Ok (), q)"
    "\<forall>c. queue q c = queue (w_mail w) c @ (if open_rx (w_mail w) c
      then map (\<lambda>qos. Publish (forward_packet p qos)) (copies c (matching (pp_topic p) ?r)) else [])"
    by blast
  obtain st where route: "Router_route (e_storage E) (e_mail E) (w_utc w) ?r p (w_storage w, w_mail w)
      = (Ok (), (st, q))"
    using Router_route_eq [OF assms(3) q(1), of "e_storage E" "w_utc w" "w_storage w"] by blast
  obtain xs where "distinct xs" "set xs = due ?r (pp_topic p) c"
    "copies c (matching (pp_topic p) ?r) = map (\<lambda>(s, f, q). q) xs"
    unfolding due_def by (rule matching_copies [OF assms(2)])
  then show thesis
    using that [of "w\<lparr>w_storage := st, w_mail := q\<rparr>" xs] route q(2) assms(4)
    by (simp add: Broker_route_def o_def case_prod_beta)
qed

text \<open>
  C3: from publisher to subscriber.  The bytes of a PUBLISH of any QoS level on the connection of an
  authorized client (followed by its PUBREL at QoS 2) lead, by steps of the running broker, to the bytes
  of that message on the connection of a subscriber, after the messages that were already queued for it:
  one copy for each of its matching subscriptions, at the smaller of the two QoS levels, with the next
  packet identifiers where the level asks for one; those copies are kept by the subscriber's
  session for retransmission.  The publisher is answered as its QoS level prescribes.
\<close>

theorem message_delivered:
  assumes "session_io E sent up" "async_reader (e_reader E) avail eof" "buf_reader (e_cursor E) adv view"
    and "mailboxes (e_mail E) queue open_rx cap" "router_inv (b_router (w_broker w))"
    and "tasks a = Some (InLoop sa ka, rta)" "tasks b = Some (InLoop sb kb, rtb)" "a \<noteq> b" "sa \<noteq> sb"
    and "up (w_out w) sa" "up (w_out w) sb"
    and "avail (w_in w sa) = mqtt_stream (publishing p) @ rest" "wf_publish p" "validate_publish_topic (pp_topic p)"
    and "\<not> (pp_qos p = AtLeastOnce \<and> pp_dup p)"
    and "pp_qos p = ExactlyOnce \<longrightarrow> map_of (rt_inbound_qos2 rta) (the (pp_packet_id p)) = None"
    and "authorize_publish (e_authorizer E) (client_name rta) (pp_topic p) = Ok ()"
    and "\<forall>c. open_rx (w_mail w) c \<longrightarrow>
      length (queue (w_mail w) c) + card (due (b_router (w_broker w)) (pp_topic p) c) \<le> cap c"
    and "open_rx (w_mail w) (rt_message_rx rtb)" "queue (w_mail w) (rt_message_rx rtb) = map Publish ms"
    and "\<forall>m \<in> set ms. deliverable m"
  shows "\<exists>tasks' w' xs ms'. rtranclp (system_step E) (tasks, w) (tasks', w')
    \<and> distinct xs \<and> set xs = {(s, f, q). subscription_of (b_router (w_broker w)) s f = Some (rt_message_rx rtb, q)
        \<and> topic_matches (pp_topic p) f}
    \<and> ms' = ms @ map (\<lambda>(s, f, q). \<lparr>pp_topic = pp_topic p, pp_packet_id = None, pp_payload = pp_payload p,
        pp_qos = min (pp_qos p) q, pp_retain = False, pp_dup = False\<rparr>) xs
    \<and> sent (w_out w') sb = sent (w_out w) sb @ mqtt_stream (written (w_instant w) ms' rtb)
    \<and> sent (w_out w') sa = sent (w_out w) sa @ mqtt_stream (publish_answers p)
    \<and> tasks' b = Some (InLoop sb kb, fold (after_message (w_instant w)) ms' rtb)"
proof -
  let ?c = "rt_message_rx rtb"
  obtain w1 xs where route: "Broker_route E p w = (Ok (), w1)" "distinct xs"
    "set xs = due (b_router (w_broker w)) (pp_topic p) ?c"
    "queue (w_mail w1) ?c = map Publish ms @ map (\<lambda>(s, f, qos). Publish (forward_packet p qos)) xs"
    using route_queued [OF assms(4,5,14,19,18)] assms(20) by metis
  define ms' where "ms' = ms @ map (\<lambda>(s, f, q). forward_packet p q) xs"
  have queued: "queue (w_mail w1) ?c = map Publish ms'" "\<forall>m \<in> set ms'. deliverable m"
    using route(4) assms(21) forward_deliverable [OF assms(13)] by (auto simp: ms'_def)
  obtain rta' w2 where run1: "rtranclp (session_step E) (InLoop sa ka, (rta, w)) (InLoop sa ka, (rta', w2))"
    "routed_on sent up sa (mqtt_stream (publish_answers p)) w (w_mail w1) w2"
    using publisher_run [OF assms(1-3,12,13,10,15-17) route(1)] by blast
  have mpsc: "mpsc (e_mail E) queue open_rx cap"
    using assms(4) by (simp add: mailboxes_def)
  have "queue (w_mail w2) ?c = map Publish ms'" "up (w_out w2) sb" and now: "w_instant w2 = w_instant w"
    using run1(2) queued(1) assms(11) by (simp_all add: routed_on_def)
  from mailbox_drained [OF assms(1) mpsc this(1,2) queued(2), unfolded now] obtain w' where run2:
    "rtranclp (session_step E) (InLoop sb kb, (rtb, w2)) (InLoop sb kb, (fold (after_message (w_instant w)) ms' rtb, w'))"
    "sent (w_out w') = (sent (w_out w2))(sb := sent (w_out w2) sb @ mqtt_stream (written (w_instant w) ms' rtb))"
    by blast
  let ?tasks1 = "tasks(a \<mapsto> (InLoop sa ka, rta'))"
  let ?tasks2 = "?tasks1(b \<mapsto> (InLoop sb kb, fold (after_message (w_instant w)) ms' rtb))"
  have "rtranclp (system_step E) (?tasks1, w2) (?tasks2, w')"
    using assms(7,8) by (intro system_run [OF run2(1)]) simp
  moreover have "rtranclp (system_step E) (tasks, w) (?tasks1, w2)"
    by (rule system_run [OF run1(1)]) (rule assms(6))
  ultimately have "rtranclp (system_step E) (tasks, w) (?tasks2, w')"
    by (rule rtranclp_trans [rotated])
  moreover have "ms' = ms @ map (\<lambda>(s, f, q). \<lparr>pp_topic = pp_topic p, pp_packet_id = None, pp_payload = pp_payload p,
        pp_qos = min (pp_qos p) q, pp_retain = False, pp_dup = False\<rparr>) xs"
    unfolding ms'_def forward_packet_def min_qos_min ..
  ultimately show ?thesis
    using route(2,3) run1(2) run2(2) assms(9) unfolding due_def routed_on_def
    by (intro exI [of _ ?tasks2] exI [of _ w'] exI [of _ xs] exI [of _ ms']) simp
qed

text \<open>A publisher on stream 0, and the subscriber of \<open>example_router\<close> on stream 1 with mailbox 0.\<close>

definition pair_tasks :: "rstring \<Rightarrow> (control \<times> Runtime) option" where
  "pair_tasks = [''p'' \<mapsto> (InLoop 0 60, snd (Session_new ''p'' 0 1 0)), ''s'' \<mapsto> (InLoop 1 60, snd (Session_new ''s'' 2 0 1))]"

lemma example_due: "due example_router ''a/b'' 0 = {(''s'', ''a/#'', AtLeastOnce)}"
proof -
  have "card (due example_router ''a/b'' 0) = 1"
    using example_room [of 0] by (simp add: example_message_def)
  moreover have "(''s'', ''a/#'', AtLeastOnce) \<in> due example_router ''a/b'' 0"
    by (simp add: due_def example_router_eq subscription_of_def topic_matches_def match_parts_levels level_ok_def)
  ultimately show ?thesis
    by (metis card_1_singletonE singletonD)
qed

theorem message_delivered_witness:
  "\<exists>tasks' w'. rtranclp (system_step open_env) (pair_tasks,
      busy_state\<lparr>w_in := (\<lambda>_. (mqtt_stream (publishing (message ExactlyOnce [1])), False))\<rparr>) (tasks', w')
    \<and> net_sent (w_out w') 1 = mqtt_bytes (Publish ((message AtLeastOnce [1])\<lparr>pp_packet_id := Some 1\<rparr>))
    \<and> net_sent (w_out w') 0 = mqtt_stream [PubRec \<lparr>prec_packet_id = 7\<rparr>, PubComp \<lparr>pcomp_packet_id = 7\<rparr>]"
proof -
  let ?p = "message ExactlyOnce [1]"
  let ?w = "busy_state\<lparr>w_in := (\<lambda>_. (mqtt_stream (publishing ?p), False))\<rparr>"
  let ?a = "snd (Session_new ''p'' 0 1 0)" and ?b = "snd (Session_new ''s'' 2 0 1)"
  have p: "pp_qos ?p = ExactlyOnce" "pp_packet_id ?p = Some 7" "\<not> pp_dup ?p" "pp_topic ?p = ''a/b''" "pp_payload ?p = [1]"
    by (simp_all add: message_def)
  have wf: "wf_publish ?p" "validate_publish_topic (pp_topic ?p)"
    by (simp_all add: wf_publish_def wf_field_def message_def in_range_def mqtt_publish_body_def str_field_def
        max_remaining_length_def validate_publish_topic_def str_contains_def)
  have w: "w_out ?w = [0 \<mapsto> [], 1 \<mapsto> []]" "w_mail ?w = [0 \<mapsto> [], 1 \<mapsto> []]" "b_router (w_broker ?w) = example_router"
    by (simp_all add: busy_state_def start_state_def)
  have tasks: "pair_tasks ''p'' = Some (InLoop 0 60, ?a)" "pair_tasks ''s'' = Some (InLoop 1 60, ?b)"
    by (simp_all add: pair_tasks_def)
  have room: "\<forall>c. w_mail ?w c \<noteq> None \<longrightarrow> length (chan_queue (w_mail ?w) c)
      + card (due (b_router (w_broker ?w)) (pp_topic ?p) c) \<le> 100"
    using example_room unfolding w by (auto simp: example_message_def message_def chan_queue_def)
  obtain tasks' w' xs where run: "rtranclp (system_step open_env) (pair_tasks, ?w) (tasks', w')" "distinct xs"
    "set xs = due example_router ''a/b'' 0"
    "net_sent (w_out w') 1 = mqtt_stream (written (w_instant ?w) (map (\<lambda>(s, f, q). \<lparr>pp_topic = ''a/b'',
        pp_packet_id = None, pp_payload = [1], pp_qos = min ExactlyOnce q, pp_retain = False, pp_dup = False\<rparr>) xs) ?b)"
    "net_sent (w_out w') 0 = mqtt_stream (publish_answers ?p)"
    using message_delivered [where E = open_env and w = ?w and p = ?p and tasks = pair_tasks and ms = "[]" and rest = "[]"
        and a = "''p''" and b = "''s''" and sa = 0 and sb = 1, unfolded local_env_simps, OF io.session_io_axioms
        pipe.async_reader_axioms slice.buf_reader_axioms mail.mailboxes_axioms _ tasks _ _ _ _ _ wf _ _ _ room]
      p w example_inv
    by (auto simp: Session_new_def chan_queue_def net_sent_def due_def allow_all_authorizer_def)
  have "xs = [(''s'', ''a/#'', AtLeastOnce)]"
    using run(2,3) unfolding example_due by (cases xs; cases "tl xs") auto
  then show ?thesis
    using run p by (auto simp: numbered_def needs_id_def publish_answers_def message_def Session_new_def)
qed

end
