(* ===== verification/System_Mailboxes.thy ===== *)
theory System_Mailboxes
  imports System_Delivery Session_Subscribe
begin

text \<open>
  The mailboxes of the interleaved sessions: who adds to a mailbox, who takes messages out and in which
  order, and what follows for a session that waits for room in its own mailbox.
\<close>

section \<open>One session\<close>

text \<open>The message that an event of the processing loop takes out of the session's mailbox, and where the loop goes.\<close>

definition taken_message :: "loop_event \<Rightarrow> stream \<Rightarrow> ('st, 'q, 'k, 'w, 'b, 'r, 'c) env
    \<Rightarrow> ('st, 'q, 'k, 'w, 'r) sstate \<Rightarrow> Packet list" where
  "taken_message ev str E = (\<lambda>(rt, w).
    case ev of
      EvMessage polled \<Rightarrow>
        (case recv_message E (rt, drop_decode polled str E w) of (Ok m, _) \<Rightarrow> [m] | _ \<Rightarrow> [])
    | _ \<Rightarrow> [])"

fun loop_control :: "stream \<Rightarrow> u16 \<Rightarrow> loop_result \<Rightarrow> control" where
  "loop_control str ka Continue = InLoop str ka"
| "loop_control str ka (Break st) = InState st"

lemma loop_control_step:
  "processing_event ev str ka E s = (Ok r, s') \<Longrightarrow> session_step E (InLoop str ka, s) (loop_control str ka r, s')"
  by (cases r) (auto intro: session_step.loop session_step.leave)

lemma session_step_event:
  assumes "session_step E (InLoop str ka, s) (c', s')"
  obtains ev r where "processing_event ev str ka E s = (Ok r, s')" "c' = loop_control str ka r"
  using assms by cases auto

text \<open>Sends add to the end of a mailbox; the receipt of a message takes it from the front of the session's own.\<close>

context mpsc
begin

lemma mail_sends_queue: "mail_sends C q q' \<Longrightarrow> open_rx q' = open_rx q \<and> (\<exists>ms. queue q' c = queue q c @ ms)"
proof (induction rule: mail_sends.induct)
  case (send q q' d m)
  then show ?case
    by (cases rule: send_cases [of q' d m]) (auto simp: fun_upd_def)
qed simp

lemma recv_front:
  assumes "ch_recv C rx q = (Ok (Some m), q')"
  shows "queue q rx = m # queue q' rx \<and> (c \<noteq> rx \<longrightarrow> queue q' c = queue q c) \<and> open_rx q' = open_rx q"
  using assms recv_wait [of q rx] recv_ready [of q rx] by (cases "queue q rx") auto

end

section \<open>The whole broker\<close>

text \<open>
  Runs of the interleaved sessions, with the sessions that made a step in their order; in the steps
  that are not made by a session the mailboxes of the running sessions stay as they are.
\<close>

inductive mailbox_run :: "('q \<Rightarrow> channel \<Rightarrow> Packet list) \<Rightarrow> ('q \<Rightarrow> channel \<Rightarrow> bool) \<Rightarrow> ('st, 'q, 'k, 'w, 'b, 'r, 'c) env
    \<Rightarrow> rstring list \<Rightarrow> ('st, 'q, 'k, 'w, 'r) system \<Rightarrow> ('st, 'q, 'k, 'w, 'r) system \<Rightarrow> bool" for queue open_rx E where
  stay: "mailbox_run queue open_rx E [] x x"
| task: "mailbox_run queue open_rx E sids x (tasks, w) \<Longrightarrow> tasks sid = Some (c, rt) \<Longrightarrow>
    session_step E (c, (rt, w)) (c', (rt', w')) \<Longrightarrow>
    mailbox_run queue open_rx E (sids @ [sid]) x (tasks(sid \<mapsto> (c', rt')), w')"
| other: "mailbox_run queue open_rx E sids x (tasks, w) \<Longrightarrow> system_step E (tasks, w) (tasks', w') \<Longrightarrow>
    (\<forall>sid c rt. tasks sid = Some (c, rt) \<longrightarrow> tasks' sid = Some (c, rt)) \<Longrightarrow>
    (\<forall>sid c rt. tasks sid = Some (c, rt) \<and> c \<noteq> Done \<longrightarrow> queue (w_mail w') (rt_message_tx rt) = queue (w_mail w) (rt_message_tx rt)
      \<and> open_rx (w_mail w') (rt_message_tx rt) = open_rx (w_mail w) (rt_message_tx rt)) \<Longrightarrow>
    mailbox_run queue open_rx E sids x (tasks', w')"

lemma mailbox_run_system:
  assumes "mailbox_run queue open_rx E sids x y"
  shows "rtranclp (system_step E) x y"
  using assms
proof induction
  case (task sids x tasks w sid c rt c' rt' w')
  then show ?case
    using system_step.task [of tasks sid c rt E w c' rt' w'] by (meson rtranclp.rtrancl_into_rtrancl)
next
  case (other sids x tasks w tasks' w')
  then show ?case
    by (meson rtranclp.rtrancl_into_rtrancl)
qed simp

text \<open>
  The same runs, with what happens to one mailbox \<open>ch\<close>: for every step of a session, the messages that the session
  took out of its own mailbox in this step, and those that have come to stand behind the messages left in \<open>ch\<close>.
\<close>

definition arrived_in :: "('q \<Rightarrow> channel \<Rightarrow> Packet list) \<Rightarrow> channel \<Rightarrow> nat \<Rightarrow> 'q \<Rightarrow> 'q \<Rightarrow> Packet list" where
  "arrived_in queue ch taken q q' = drop (length (queue q ch) - taken) (queue q' ch)"

inductive mailbox_trace :: "('q \<Rightarrow> channel \<Rightarrow> Packet list) \<Rightarrow> ('q \<Rightarrow> channel \<Rightarrow> bool) \<Rightarrow> ('st, 'q, 'k, 'w, 'b, 'r, 'c) env
    \<Rightarrow> channel \<Rightarrow> (rstring \<times> Packet list \<times> Packet list) list
    \<Rightarrow> ('st, 'q, 'k, 'w, 'r) system \<Rightarrow> ('st, 'q, 'k, 'w, 'r) system \<Rightarrow> bool" for queue open_rx E ch where
  stay: "mailbox_trace queue open_rx E ch [] x x"
| event: "mailbox_trace queue open_rx E ch log x (tasks, w) \<Longrightarrow> tasks sid = Some (InLoop str ka, rt) \<Longrightarrow>
    processing_event ev str ka E (rt, w) = (Ok r, (rt', w')) \<Longrightarrow> ms = taken_message ev str E (rt, w) \<Longrightarrow>
    mailbox_trace queue open_rx E ch
      (log @ [(sid, ms, arrived_in queue ch (if rt_message_rx rt = ch then length ms else 0) (w_mail w) (w_mail w'))])
      x (tasks(sid \<mapsto> (loop_control str ka r, rt')), w')"
| task: "mailbox_trace queue open_rx E ch log x (tasks, w) \<Longrightarrow> tasks sid = Some (c, rt) \<Longrightarrow>
    (\<forall>str ka. c \<noteq> InLoop str ka) \<Longrightarrow> session_step E (c, (rt, w)) (c', (rt', w')) \<Longrightarrow>
    mailbox_trace queue open_rx E ch (log @ [(sid, [], arrived_in queue ch 0 (w_mail w) (w_mail w'))])
      x (tasks(sid \<mapsto> (c', rt')), w')"
| other: "mailbox_trace queue open_rx E ch log x (tasks, w) \<Longrightarrow> system_step E (tasks, w) (tasks', w') \<Longrightarrow>
    (\<forall>sid c rt. tasks sid = Some (c, rt) \<longrightarrow> tasks' sid = Some (c, rt)) \<Longrightarrow>
    (\<forall>sid c rt. tasks sid = Some (c, rt) \<and> c \<noteq> Done \<longrightarrow> queue (w_mail w') (rt_message_tx rt) = queue (w_mail w) (rt_message_tx rt)
      \<and> open_rx (w_mail w') (rt_message_tx rt) = open_rx (w_mail w) (rt_message_tx rt)) \<Longrightarrow>
    mailbox_trace queue open_rx E ch log x (tasks', w')"

definition taken_by :: "rstring \<Rightarrow> (rstring \<times> Packet list \<times> Packet list) list \<Rightarrow> Packet list" where
  "taken_by b log = concat (map (\<lambda>(sid, taken, _). if sid = b then taken else []) log)"

definition arrived :: "(rstring \<times> Packet list \<times> Packet list) list \<Rightarrow> Packet list" where
  "arrived log = concat (map (\<lambda>(_, _, new). new) log)"

lemma log_simps [simp]:
  "taken_by b [] = []" "taken_by b (log @ [(sid, ms, new)]) = taken_by b log @ (if sid = b then ms else [])"
  "arrived [] = []" "arrived (log @ [(sid, ms, new)]) = arrived log @ new"
  by (simp_all add: taken_by_def arrived_def)

lemma taken_by_others: "b \<notin> fst ` set log \<Longrightarrow> taken_by b log = []"
  by (force simp: taken_by_def)

lemma mailbox_trace_system:
  assumes "mailbox_trace queue open_rx E ch log x y"
  shows "rtranclp (system_step E) x y"
  using assms
proof induction
  case (event log x tasks w sid str ka rt ev r rt' w' ms)
  then show ?case
    using system_step.task [of tasks sid "InLoop str ka" rt E w "loop_control str ka r" rt' w'] loop_control_step [OF event(3)]
    by (meson rtranclp.rtrancl_into_rtrancl)
next
  case (task log x tasks w sid c rt c' rt' w')
  then show ?case
    using system_step.task [of tasks sid c rt E w c' rt' w'] by (meson rtranclp.rtrancl_into_rtrancl)
next
  case (other log x tasks w tasks' w')
  then show ?case
    by (meson rtranclp.rtrancl_into_rtrancl)
qed simp

text \<open>Every run has such a trace.\<close>

lemma mailbox_run_trace:
  assumes "mailbox_run queue open_rx E sids x y"
  shows "\<exists>log. map fst log = sids \<and> mailbox_trace queue open_rx E ch log x y"
  using assms
proof induction
  case (task sids x tasks w sid c rt c' rt' w')
  then obtain log where log: "map fst log = sids" "mailbox_trace queue open_rx E ch log x (tasks, w)"
    by blast
  show ?case
  proof (cases "\<exists>str ka. c = InLoop str ka")
    case True
    then obtain str ka where c: "c = InLoop str ka"
      by blast
    obtain ev r where ev: "processing_event ev str ka E (rt, w) = (Ok r, (rt', w'))" "c' = loop_control str ka r"
      by (rule session_step_event [OF task(3) [unfolded c]])
    show ?thesis
      unfolding ev(2) by (rule exI, rule conjI [OF _ mailbox_trace.event [OF log(2) task(2) [unfolded c] ev(1) refl]]) (simp add: log(1))
  next
    case False
    then show ?thesis
      by (intro exI conjI, rule_tac [2] mailbox_trace.task [OF log(2) task(2) _ task(3)]) (simp_all add: log(1))
  qed
next
  case (other sids x tasks w tasks' w')
  then show ?case
    using mailbox_trace.other by blast
qed (auto intro: mailbox_trace.stay)

locale mailbox_system = broker_state E st_inv saved retained + mpsc "e_mail E" queue open_rx cap
  for E :: "('st, 'q, 'k, 'w, 'b, 'r, 'c) env" and st_inv saved retained queue open_rx cap
begin

text \<open>
  How a session and its mailbox may change when \<open>taken\<close> is taken out and \<open>new\<close> arrives; \<open>own\<close> says whether the
  session itself made a step.
\<close>

definition fifo :: "bool \<Rightarrow> Packet list \<Rightarrow> Packet list \<Rightarrow> control \<times> Runtime \<Rightarrow> ('st, 'q, 'k, 'w, 'r) world
    \<Rightarrow> control \<times> Runtime \<Rightarrow> ('st, 'q, 'k, 'w, 'r) world \<Rightarrow> bool" where
  "fifo own taken new = (\<lambda>(c, rt) w (c', rt') w'. rt_message_tx rt' = rt_message_tx rt \<and> (c = Done \<longrightarrow> c' = Done)
    \<and> (\<not> own \<longrightarrow> c' = c \<and> rt' = rt)
    \<and> (c' \<noteq> Done \<longrightarrow> open_rx (w_mail w') (rt_message_tx rt) = open_rx (w_mail w) (rt_message_tx rt)
      \<and> queue (w_mail w) (rt_message_tx rt) @ new = taken @ queue (w_mail w') (rt_message_tx rt)))"

lemma fifo_refl: "fifo False [] [] x w x w"
  by (cases x) (simp add: fifo_def)

lemma fifo_trans:
  assumes "fifo own taken new x w x1 w1" "fifo own' taken' new' x1 w1 x2 w2"
  shows "fifo (own \<or> own') (taken @ taken') (new @ new') x w x2 w2"
proof -
  obtain c rt c1 rt1 c2 rt2 where x: "x = (c, rt)" "x1 = (c1, rt1)" "x2 = (c2, rt2)"
    by (cases x; cases x1; cases x2)
  note 1 = assms(1) [unfolded x fifo_def prod.case] and 2 = assms(2) [unfolded x fifo_def prod.case]
  have "queue (w_mail w) (rt_message_tx rt) @ new @ new' = taken @ taken' @ queue (w_mail w2) (rt_message_tx rt)"
    if "c2 \<noteq> Done"
    using 1 2 that by (metis append.assoc)
  then show ?thesis
    unfolding x fifo_def prod.case append.assoc using 1 2 by metis
qed

text \<open>One step of a session, seen from a mailbox: what it took was in front, what is new is behind.\<close>

definition shifts :: "channel \<Rightarrow> Packet list \<Rightarrow> 'q \<Rightarrow> 'q \<Rightarrow> bool" where
  "shifts ch ms q q' \<longleftrightarrow> open_rx q' = open_rx q \<and> (\<exists>rest new. queue q ch = ms @ rest \<and> queue q' ch = rest @ new)"

lemma shifts_sends: "mail_sends (e_mail E) q q' \<Longrightarrow> shifts ch [] q q'"
  using mail_sends_queue [of q q' ch] by (auto simp: shifts_def)

lemma event_shifts:
  assumes "processing_event ev str ka E (rt, w) = (Ok r, (rt', w'))"
  shows "shifts ch (if rt_message_rx rt = ch then taken_message ev str E (rt, w) else []) (w_mail w) (w_mail w')"
proof (cases "\<exists>polled. ev = EvMessage polled")
  case True
  then obtain polled where ev: "ev = EvMessage polled"
    by blast
  obtain m q s1 where m: "recv_message E (rt, drop_decode polled str E w) = (Ok m, s1)" "good s1 (rt', w')"
      "s1 = (rt, (drop_decode polled str E w)\<lparr>w_mail := q\<rparr>)" "ch_recv (e_mail E) (rt_message_rx rt) (w_mail w) = (Ok (Some m), q)"
    by (rule message_event [OF assms [unfolded ev]])
  have "taken_message ev str E (rt, w) = [m]"
    using m(1) by (simp add: taken_message_def ev)
  moreover have "mail_sends (e_mail E) q (w_mail w')"
    using m(2,3) by (simp add: good_def)
  ultimately show ?thesis
    using recv_front [OF m(4), of ch] mail_sends_queue [of q "w_mail w'" ch] by (auto simp: shifts_def)
next
  case False
  then have "mail_sends (e_mail E) (w_mail w) (w_mail w')"
    using good_processing_event [of ev "(rt, w)" str ka] assms by (auto simp: good_def)
  moreover have "taken_message ev str E (rt, w) = []"
    using False by (cases ev) (simp_all add: taken_message_def)
  ultimately show ?thesis
    by (simp add: shifts_sends)
qed

lemma session_step_fifo:
  assumes "system_inv (tasks, w)" "tasks sid = Some (c, rt)" "session_step E (c, (rt, w)) (c', (rt', w'))"
    and "tasks b = Some x" "rt_message_tx (snd x) = ch"
    and "shifts ch (if rt_message_rx rt = ch then ms else []) (w_mail w) (w_mail w')"
  shows "fifo (b = sid) (if sid = b then ms else [])
    (arrived_in queue ch (if rt_message_rx rt = ch then length ms else 0) (w_mail w) (w_mail w'))
    x w (if b = sid then (c', rt') else x) w'"
proof -
  obtain cb rtb where x: "x = (cb, rtb)"
    by (cases x)
  note ses = system_session [OF assms(1,2)]
  have tx: "rt_message_tx rt' = rt_message_tx rt"
    using fair_session_step [OF assms(3)] ses by (simp add: fair_def)
  have mine: "rt_message_rx rt = ch \<longleftrightarrow> b = sid"
    using assms(1,2,4,5) ses(3) x unfolding system_inv_def mailboxes_distinct_def by auto
  have "c \<noteq> Done"
    using assms(3) by (auto elim: session_step_DoneE)
  then show ?thesis
    using assms(2,4,5,6) x tx mine by (auto simp: fifo_def shifts_def arrived_in_def split: if_splits)
qed

lemma mailbox_trace_fifo:
  assumes "mailbox_trace queue open_rx E ch log (tasks, w) (tasks', w')" "system_inv (tasks, w)"
    and "tasks b = Some x" "rt_message_tx (snd x) = ch"
  shows "\<exists>x'. tasks' b = Some x' \<and> fifo (b \<in> fst ` set log) (taken_by b log) (arrived log) x w x' w'"
  using assms
proof (induction log "(tasks, w)" "(tasks', w')" arbitrary: tasks' w' rule: mailbox_trace.induct)
  case stay
  then show ?case
    using fifo_refl by simp
next
  case (event log tasks1 w1 sid str ka rt1 ev r rt2 w2 ms)
  have inv: "system_inv (tasks1, w1)"
    using system_inv_reachable [OF mailbox_trace_system [OF event(1)] event(6)] .
  obtain x1 where x1: "tasks1 b = Some x1" "fifo (b \<in> fst ` set log) (taken_by b log) (arrived log) x w x1 w1"
    using event(2,6-8) by blast
  have "rt_message_tx (snd x1) = ch"
    using x1(2) event(8) by (auto simp: fifo_def split: prod.splits)
  from fifo_trans [OF x1(2) session_step_fifo [OF inv event(3) loop_control_step [OF event(4)] x1(1) this
        event_shifts [OF event(4), of ch, folded event(5)]]]
  show ?case
    using x1(1) by (cases "b = sid") (auto simp: disj_commute)
next
  case (task log tasks1 w1 sid c1 rt1 c2 rt2 w2)
  have inv: "system_inv (tasks1, w1)"
    using system_inv_reachable [OF mailbox_trace_system [OF task(1)] task(6)] .
  obtain x1 where x1: "tasks1 b = Some x1" "fifo (b \<in> fst ` set log) (taken_by b log) (arrived log) x w x1 w1"
    using task(2,6-8) by blast
  have ch: "rt_message_tx (snd x1) = ch"
    using x1(2) task(8) by (auto simp: fifo_def split: prod.splits)
  have "shifts ch (if rt_message_rx rt1 = ch then [] else []) (w_mail w1) (w_mail w2)"
    using good_session_step [OF task(5)] task(4) by (simp add: good_def shifts_sends)
  from fifo_trans [OF x1(2) session_step_fifo [OF inv task(3) task(5) x1(1) ch this], unfolded list.size if_cancel] show ?case
    using x1(1) by (cases "b = sid") (auto simp: disj_commute)
next
  case (other log tasks1 w1 tasks2 w2)
  obtain x1 where x1: "tasks1 b = Some x1" "fifo (b \<in> fst ` set log) (taken_by b log) (arrived log) x w x1 w1"
    using other(2,6-8) by blast
  have "fifo False [] [] x1 w1 x1 w2"
    using x1(1) other(5) by (cases x1) (auto simp: fifo_def)
  from fifo_trans [OF x1(2) this] show ?case
    using x1(1) other(4) by (cases x1) auto
qed

text \<open>A full mailbox stays full until its own session takes a step.\<close>

lemma full_mailbox_blocks:
  assumes "system_inv (tasks, w)" "tasks b = Some (c, rt)" "c \<noteq> Done"
    and "open_rx (w_mail w) (rt_message_tx rt)" "cap (rt_message_tx rt) \<le> length (queue (w_mail w) (rt_message_tx rt))"
    and "mailbox_run queue open_rx E sids (tasks, w) (tasks', w')" "b \<notin> set sids"
  shows "tasks' b = tasks b \<and> fst (mailbox_send m E (rt, w')) = Pending"
proof -
  obtain log where log: "map fst log = sids" "mailbox_trace queue open_rx E (rt_message_tx rt) log (tasks, w) (tasks', w')"
    using mailbox_run_trace [OF assms(6)] by blast
  have b: "b \<notin> fst ` set log"
    using log(1) assms(7) by (metis set_map)
  obtain x where x: "tasks' b = Some x" "fifo False [] (arrived log) (c, rt) w x w'"
    using mailbox_trace_fifo [OF log(2) assms(1,2)] b by (auto simp: taken_by_others)
  then have full: "x = (c, rt)" "open_rx (w_mail w') (rt_message_tx rt)"
    "queue (w_mail w') (rt_message_tx rt) = queue (w_mail w) (rt_message_tx rt) @ arrived log"
    using assms(3,4) by (auto simp: fifo_def split: prod.splits)
  then show ?thesis
    using send_full [OF full(2), of m] x(1) assms(2,5) by (simp add: mailbox_send_def case_prod_beta)
qed

end

text \<open>
  C26: mailboxes are queues.  In every run of the interleaved sessions from a reachable state, the messages a
  running session took out of its mailbox, followed by those still in it, are exactly the messages that were in
  it, followed by those that arrived, in the order of their arrival: no message is lost, duplicated or
  overtaken, whoever sent it.  A session that makes no step has taken none and is as it was.
\<close>

theorem mailbox_fifo:
  assumes "storage (e_storage E) st_inv saved retained" "mpsc (e_mail E) queue open_rx cap"
    and "start_world config w0" "st_inv (w_storage w0)" "\<forall>cid v. saved (w_storage w0) cid = Some v \<longrightarrow> saved_ok v"
    and "rtranclp (system_step E) (\<lambda>_. None, w0) (tasks, w)" "tasks b = Some (c, rt)"
    and "mailbox_trace queue open_rx E (rt_message_rx rt) log (tasks, w) (tasks', w')" "tasks' b = Some (c', rt')" "c' \<noteq> Done"
  shows "queue (w_mail w) (rt_message_rx rt) @ arrived log = taken_by b log @ queue (w_mail w') (rt_message_rx rt')
    \<and> (b \<notin> fst ` set log \<longrightarrow> taken_by b log = [] \<and> c' = c \<and> rt' = rt)"
proof -
  have sys: "mailbox_system E st_inv saved retained queue open_rx cap"
    using assms(1,2) by (simp add: mailbox_system_def broker_state_def)
  note state = mailbox_system.axioms(1) [OF sys]
  note inv = broker_state.system_inv_reachable [OF state assms(6) broker_state.system_inv_start [OF state assms(3-5)]]
  note inv' = broker_state.system_inv_reachable [OF state mailbox_trace_system [OF assms(8)] inv]
  have rx: "rt_message_rx rt = rt_message_tx rt" "rt_message_rx rt' = rt_message_tx rt'"
    using broker_state.system_session(3) [OF state inv assms(7)] broker_state.system_session(3) [OF state inv' assms(9)] .
  have "mailbox_system.fifo queue open_rx (b \<in> fst ` set log) (taken_by b log) (arrived log) (c, rt) w (c', rt') w'"
    using mailbox_system.mailbox_trace_fifo [OF sys assms(8) inv assms(7)] assms(9) rx by simp
  then show ?thesis
    using assms(10) rx taken_by_others unfolding mailbox_system.fifo_def [OF sys] by auto
qed

section \<open>A session that waits for itself\<close>

text \<open>Sending more than fits: the mailbox is filled and the send waits.\<close>

lemma resend_publishes_full:
  assumes "mpsc (e_mail E) queue open_rx cap" "open_rx (w_mail w) (rt_message_tx rt)"
    and "length (queue (w_mail w) (rt_message_tx rt)) \<le> cap (rt_message_tx rt)"
    and "cap (rt_message_tx rt) < length (queue (w_mail w) (rt_message_tx rt)) + length ps"
  shows "\<exists>q. resend_publishes ps E (rt, w) = (Pending, (rt, w\<lparr>w_mail := q\<rparr>))
    \<and> length (queue q (rt_message_tx rt)) = cap (rt_message_tx rt) \<and> open_rx q (rt_message_tx rt)"
  using assms(2-4)
proof (induction ps arbitrary: w)
  case (Cons p ps)
  let ?c = "rt_message_tx rt"
  obtain res q1 where call: "ch_send (e_mail E) ?c (Publish p) (w_mail w) = (res, q1)"
    by (rule prod.exhaust)
  show ?case
  proof (cases "length (queue (w_mail w) ?c) < cap ?c")
    case True
    have q1: "res = Ok ()" "length (queue q1 ?c) = Suc (length (queue (w_mail w) ?c))" "open_rx q1 ?c"
      using mpsc.send_room [OF assms(1) Cons.prems(1) True, of "Publish p"] Cons.prems(1) call by simp_all
    have "\<exists>q. resend_publishes ps E (rt, w\<lparr>w_mail := q1\<rparr>) = (Pending, (rt, w\<lparr>w_mail := q1\<rparr>\<lparr>w_mail := q\<rparr>))
        \<and> length (queue q ?c) = cap ?c \<and> open_rx q ?c"
      using q1 True Cons.prems by (intro Cons.IH) simp_all
    then show ?thesis
      using call q1(1) by (auto simp: mailbox_send_def)
  next
    case False
    then have "res = Pending" "length (queue q1 ?c) = cap ?c" "open_rx q1 ?c"
      using mpsc.send_full [OF assms(1) Cons.prems(1), of "Publish p"] Cons.prems call by simp_all
    then show ?thesis
      using call by (auto simp: mailbox_send_def)
  qed
qed simp

text \<open>
  C27: a session can wait for itself forever.  A SUBSCRIBE whose retained messages do not fit into the session's
  own mailbox suspends its handler in the send, after the SUBACK was written; from then on, whatever the other
  sessions do and for as long as this one makes no step, the mailbox stays full, so that the send never
  completes: the session neither takes messages nor answers to its client or to a command.
\<close>

theorem subscribe_blocks:
  assumes "storage (e_storage E) st_inv saved retained" "mpsc (e_mail E) queue open_rx cap" "session_io E sent up"
    and "start_world config w0" "st_inv (w_storage w0)" "\<forall>cid v. saved (w_storage w0) cid = Some v \<longrightarrow> saved_ok v"
    and "rtranclp (system_step E) (\<lambda>_. None, w0) (tasks, w)" "tasks b = Some (InLoop str ka, rt)"
    and "up (w_out w) str" "open_rx (w_mail w) (rt_message_tx rt)"
    and "subscribe_answers_all (e_authorizer E) (client_name rt)"
    and "fs = filter (may_subscribe (e_authorizer E) (client_name rt)) (sp_topic_filters p)"
    and "ms = concat (map (retained_found (e_storage E) (w_storage w)) fs)"
    and "length (sp_topic_filters p) + 2 \<le> max_remaining_length"
    and "length (queue (w_mail w) (rt_message_tx rt)) \<le> cap (rt_message_tx rt)"
    and "cap (rt_message_tx rt) < length (queue (w_mail w) (rt_message_tx rt)) + length ms"
  shows "\<exists>w1. on_packet (Subscribe p) str E (rt, w) = (Pending, (rt, w1))
    \<and> (\<forall>sids tasks' w' m. mailbox_run queue open_rx E sids (tasks, w1) (tasks', w') \<and> b \<notin> set sids \<longrightarrow>
        tasks' b = tasks b \<and> fst (mailbox_send m E (rt, w')) = Pending)"
proof -
  have sys: "mailbox_system E st_inv saved retained queue open_rx cap"
    using assms(1,2) by (simp add: mailbox_system_def broker_state_def)
  note state = mailbox_system.axioms(1) [OF sys]
  note inv = broker_state.system_inv_reachable [OF state assms(7) broker_state.system_inv_start [OF state assms(4-6)]]
  let ?c = "rt_message_tx rt"
  obtain w1 where w1: "on_packet (Subscribe p) str E (rt, w) = qmark (send_retained ms E (rt, w1)) (\<lambda>_ s. (Ok True, s))"
    "w_mail w1 = w_mail w"
    by (rule subscribe_until_retained [OF assms(3,9,11-14)])
  obtain q where q: "send_retained ms E (rt, w1) = (Pending, (rt, w1\<lparr>w_mail := q\<rparr>))"
    "length (queue q ?c) = cap ?c" "open_rx q ?c"
    using resend_publishes_full [OF assms(2), of w1 rt ms] assms(10,15,16) unfolding send_retained_resend w1(2) by blast
  let ?w = "w1\<lparr>w_mail := q\<rparr>"
  have call: "on_packet (Subscribe p) str E (rt, w) = (Pending, (rt, ?w))"
    using w1(1) q(1) by simp
  have "broker_state.good E st_inv saved (rt, w) (rt, ?w)"
    using broker_state.good_on_packet [OF state, of "(rt, w)" "Subscribe p" str] call by simp
  then have "broker_state.system_inv st_inv saved (tasks(b \<mapsto> (InLoop str ka, rt)), ?w)"
    by (intro broker_state.system_inv_fair [OF state inv assms(8)] broker_state.good_fair [OF state]) simp_all
  then have inv1: "broker_state.system_inv st_inv saved (tasks, ?w)"
    using assms(8) by (simp add: fun_upd_idem)
  have "tasks' b = tasks b \<and> fst (mailbox_send m E (rt, w')) = Pending"
    if "mailbox_run queue open_rx E sids (tasks, ?w) (tasks', w')" "b \<notin> set sids" for sids tasks' w' m
    using that q(2,3) by (intro mailbox_system.full_mailbox_blocks [OF sys inv1 assms(8)]) simp_all
  then show ?thesis
    using call by blast
qed

text \<open>A client without an identifier that has connected, and one retained message.\<close>

interpretation local_mail: mailbox_system "local_env a z" memory_inv memory_saved memory_retained
  chan_queue "\<lambda>q c. q c \<noteq> None" "\<lambda>_. 100"
  unfolding mailbox_system_def broker_state_def local_env_simps
  using mem.storage_axioms bounded.mpsc_axioms by blast

definition anonymous_connect :: ConnectPacket where
  "anonymous_connect = \<lparr>cp_protocol_name = ''MQTT'', cp_protocol_level = 4, cp_clean_session = True, cp_keep_alive = 60,
     cp_client_id = [], cp_will_flag = False, cp_will_qos = AtMostOnce, cp_will_retain = False,
     cp_will_topic = None, cp_will_payload = None, cp_username = None, cp_password = None\<rparr>"

definition one_retained :: memory where
  "one_retained = memory_new\<lparr>mem_retained :=
    [(''a'', \<lparr>pr_topic = ''a'', pr_payload = [1], pr_qos = StoredAtMostOnce, pr_updated_at = 0\<rparr>)]\<rparr>"

definition anonymous_world :: "(memory, channel \<Rightarrow> Packet list option, channel \<Rightarrow> Command list option,
        stream \<Rightarrow> bytes option, bytes \<times> bool) world" where
  "anonymous_world = start_state\<lparr>w_storage := one_retained,
    w_in := (\<lambda>_. (mqtt_bytes (Connect anonymous_connect), False))\<rparr>"

definition anonymous_runtime :: Runtime where
  "anonymous_runtime = start_runtime\<lparr>rt_stream := None, rt_keep_alive := 60\<rparr>"

lemma anonymous_connect_wf: "wf_packet (Connect anonymous_connect)"
  by (simp add: wf_connect_def anonymous_connect_def wf_field_def in_range_def mqtt_connect_body_def
      str_field_def bin_field_def max_remaining_length_def)

lemma anonymous_run:
  "\<exists>w. rtranclp (system_step open_env) (\<lambda>_. None, anonymous_world) ([''s'' \<mapsto> (InLoop 0 60, anonymous_runtime)], w)
    \<and> w_storage w = one_retained \<and> w_out w 0 \<noteq> None \<and> w_mail w = q"
proof -
  let ?rt = "start_runtime" and ?rt' = "start_runtime\<lparr>rt_stream := None, rt_keep_alive := 60\<rparr>"
  let ?tasks = "\<lambda>c rt. [''s'' \<mapsto> (c, rt)]"
  let ?w = "anonymous_world\<lparr>w_broker := Broker_add_client (fst (Session_new ''s'' 0 1 0)) (w_broker anonymous_world),
    w_mail := q, w_cmd := w_cmd anonymous_world\<rparr>"
  let ?ack = "ConnAck \<lparr>ca_session_present = False, ca_return_code = ACCEPTED\<rparr>"
  have one: "system_step open_env (\<lambda>_. None, anonymous_world) (?tasks (InState Waiting) ?rt, ?w)"
    by (rule system_step.accept) (auto simp: start_runtime_def)
  have "codec pipe_reader fst snd slice_buf drop (\<lambda>c. c)"
    using pipe.async_reader_axioms slice.buf_reader_axioms by (rule codec.intro)
  from codec.packet_decode_mqtt_bytes [OF this, of "w_in ?w 0" "Connect anonymous_connect" "[]"] anonymous_connect_wf
  obtain r where r: "Packet_decode pipe_reader slice_buf (w_in ?w 0) = (Ok (Connect anonymous_connect), r)"
    by (auto simp: anonymous_world_def)
  let ?w1 = "?w\<lparr>w_in := (w_in ?w)(0 := r)\<rparr>"
  have up: "w_out ?w1 0 \<noteq> None"
    by (simp add: anonymous_world_def start_state_def)
  then obtain w' where w': "send_packet ?ack 0 open_env (?rt', ?w1) = (Ok (), (?rt', w'))"
      "session_io.wrote net_sent (\<lambda>w s. w s \<noteq> None) 0 (mqtt_bytes ?ack) ?w1 w'"
    using io.send_ok [of ?w1 0 ?ack allow_all_authenticate allow_all_authorizer ?rt'] by auto
  note frame = w'(2) [unfolded io.wrote_def]
  have "do_waiting EvPacket open_env (?rt, ?w) = (Ok Processing, (?rt'\<lparr>rt_stream := Some 0\<rparr>, w'))"
    using r w'(1)
    by (simp add: do_waiting_def decode_from_def start_runtime_def Session_new_def on_connect_def anonymous_connect_def
        PROTOCOL_LEVEL_def PROTOCOL_NAME_def validate_client_id_def allow_all_authenticate_def connect_will_def accept_connect_def)
  then have "session_step open_env (InState Waiting, (?rt, ?w)) (InState Processing, (?rt'\<lparr>rt_stream := Some 0\<rparr>, w'))"
    by (rule session_step.waiting)
  moreover have "start_processing (?rt'\<lparr>rt_stream := Some 0\<rparr>, w') = (Ok (Some (0, 60)), (?rt', w'))"
    using timers_nonzero by (simp add: start_processing_def)
  then have "session_step open_env (InState Processing, (?rt'\<lparr>rt_stream := Some 0\<rparr>, w')) (InLoop 0 60, (?rt', w'))"
    by (rule session_step.start)
  ultimately have "rtranclp (session_step open_env) (InState Waiting, (?rt, ?w)) (InLoop 0 60, (?rt', w'))"
    by (meson converse_rtranclp_into_rtranclp r_into_rtranclp)
  from system_run [OF this, of "?tasks (InState Waiting) ?rt" "''s''"]
  have "rtranclp (system_step open_env) (?tasks (InState Waiting) ?rt, ?w) (?tasks (InLoop 0 60) ?rt', w')"
    by simp
  then have "rtranclp (system_step open_env) (\<lambda>_. None, anonymous_world) (?tasks (InLoop 0 60) anonymous_runtime, w')"
    unfolding anonymous_runtime_def using one by (meson converse_rtranclp_into_rtranclp)
  moreover have "w_out w' 0 \<noteq> None"
    using conjunct1 [OF conjunct2 [OF frame], THEN fun_cong, of 0] up by simp
  ultimately show ?thesis
    using same_but_out_fields [OF conjunct1 [OF frame]] by (intro exI [of _ w']) (simp add: anonymous_world_def)
qed

lemma anonymous_start:
  "start_world default_config anonymous_world" "memory_inv (w_storage anonymous_world)"
  "\<forall>cid v. memory_saved (w_storage anonymous_world) cid = Some v \<longrightarrow> saved_ok v"
  by (simp_all add: anonymous_world_def start_world_def start_state_def one_retained_def memory_new_def memory_inv_def
      memory_saved_def)

definition letter :: "u8 \<Rightarrow> PublishPacket" where
  "letter i = (message AtMostOnce [i])\<lparr>pp_packet_id := None\<rparr>"

theorem mailbox_fifo_witness:
  "\<exists>w tasks' w'. rtranclp (system_step open_env) (\<lambda>_. None, anonymous_world)
        ([''s'' \<mapsto> (InLoop 0 60, anonymous_runtime)], w)
    \<and> chan_queue (w_mail w) 1 = [Publish (letter 1), Publish (letter 2)]
    \<and> mailbox_trace chan_queue (\<lambda>q c. q c \<noteq> None) open_env 1 [(''s'', [Publish (letter 1)], [])]
        ([''s'' \<mapsto> (InLoop 0 60, anonymous_runtime)], w) (tasks', w')
    \<and> chan_queue (w_mail w) 1 = Publish (letter 1) # chan_queue (w_mail w') 1"
proof -
  let ?rt = anonymous_runtime
  let ?tasks = "[''s'' \<mapsto> (InLoop 0 60, ?rt)]"
  obtain w where w: "rtranclp (system_step open_env) (\<lambda>_. None, anonymous_world) (?tasks, w)"
    "w_out w 0 \<noteq> None" "w_mail w = [1 \<mapsto> [Publish (letter 1), Publish (letter 2)]]"
    using anonymous_run by blast
  have q: "chan_queue (w_mail w) (rt_message_rx ?rt) = Publish (letter 1) # [Publish (letter 2)]" and rx: "rt_message_rx ?rt = 1"
    using w(3) by (simp_all add: chan_queue_def anonymous_runtime_def start_runtime_def Session_new_def)
  have ok: "deliverable (letter 1)"
    by (simp add: deliverable_def needs_id_def wf_publish_def wf_field_def letter_def message_def in_range_def
        mqtt_publish_body_def str_field_def max_remaining_length_def)
  let ?rt' = "after_message (w_instant w) (letter 1) ?rt" and ?log = "[(''s'', [Publish (letter 1)], [])]"
  obtain w' where step: "processing_event (EvMessage False) 0 60 open_env (?rt, w) = (Ok Continue, (?rt', w'))"
    "chan_queue (w_mail w') = (chan_queue (w_mail w))(rt_message_rx ?rt := [Publish (letter 2)])"
    by (rule mailbox_event [OF io.session_io_axioms [of allow_all_authenticate allow_all_authorizer],
      unfolded local_env_simps, OF bounded.mpsc_axioms q w(2) ok, where ka = 60])
  have "fst (ch_recv (bounded_chan 100) (rt_message_rx ?rt) (w_mail w)) = Ok (Some (Publish (letter 1)))"
    using bounded.recv_ready [OF q] by simp
  then have "taken_message (EvMessage False) 0 open_env (?rt, w) = [Publish (letter 1)]"
    by (auto simp: taken_message_def drop_decode_def recv_message_def split: prod.splits)
  moreover have "arrived_in chan_queue 1 1 (w_mail w) (w_mail w') = []"
    using q step(2) rx by (simp add: arrived_in_def)
  ultimately have trace: "mailbox_trace chan_queue (\<lambda>q c. q c \<noteq> None) open_env 1 ?log (?tasks, w) ([''s'' \<mapsto> (InLoop 0 60, ?rt')], w')"
    using mailbox_trace.event [OF mailbox_trace.stay, of ?tasks "''s''" 0 60 ?rt "EvMessage False" open_env w Continue ?rt' w'
        "[Publish (letter 1)]" chan_queue "\<lambda>q c. q c \<noteq> None" 1] step(1) rx by simp
  have "chan_queue (w_mail w) 1 @ arrived ?log = taken_by ''s'' ?log @ chan_queue (w_mail w') (rt_message_rx ?rt')"
    using mailbox_fifo [where E = open_env, unfolded local_env_simps, OF mem.storage_axioms bounded.mpsc_axioms
        anonymous_start w(1), of "''s''" "InLoop 0 60" ?rt ?log _ w' "InLoop 0 60" ?rt'] trace unfolding rx by simp
  then have "chan_queue (w_mail w) 1 = Publish (letter 1) # chan_queue (w_mail w') 1"
    unfolding after_message_frame rx by (simp add: arrived_def taken_by_def)
  then show ?thesis
    using w(1) trace q [unfolded rx] by blast
qed

theorem subscribe_blocks_witness:
  "\<exists>w w1. rtranclp (system_step open_env) (\<lambda>_. None, anonymous_world) ([''s'' \<mapsto> (InLoop 0 60, anonymous_runtime)], w)
    \<and> on_packet (Subscribe \<lparr>sp_packet_id = 3, sp_topic_filters = [(''a'', AtMostOnce)]\<rparr>) 0 open_env (anonymous_runtime, w)
      = (Pending, (anonymous_runtime, w1))
    \<and> fst (mailbox_send (Publish (letter 1)) open_env (anonymous_runtime, w1)) = Pending"
proof -
  let ?rt = anonymous_runtime and ?p = "\<lparr>sp_packet_id = 3, sp_topic_filters = [(''a'', AtMostOnce)]\<rparr>"
  let ?tasks = "[''s'' \<mapsto> (InLoop 0 60, ?rt)]"
  obtain w where w: "rtranclp (system_step open_env) (\<lambda>_. None, anonymous_world) (?tasks, w)"
    "w_storage w = one_retained" "w_out w 0 \<noteq> None" "w_mail w = [1 \<mapsto> replicate 100 (Publish (letter 1))]"
    using anonymous_run by blast
  have all: "subscribe_answers_all allow_all_authorizer (client_name ?rt)"
    and fs: "[(''a'', AtMostOnce)] = filter (may_subscribe allow_all_authorizer (client_name ?rt)) (sp_topic_filters ?p)"
    by (simp_all add: subscribe_answers_all_def may_subscribe_def allow_all_authorizer_def)
  have tx: "rt_message_tx ?rt = 1"
    by (simp add: anonymous_runtime_def start_runtime_def Session_new_def)
  have found: "length (concat (map (retained_found memory_ops (w_storage w)) [(''a'', AtMostOnce)])) = 1"
    using w(2) by (simp add: retained_found_def one_retained_def memory_defs validate_subscribe_filter_def str_contains_def
        has_wildcards_def)
  have "\<exists>w1. on_packet (Subscribe ?p) 0 open_env (?rt, w) = (Pending, (?rt, w1))
    \<and> (\<forall>sids tasks' w' m. mailbox_run chan_queue (\<lambda>q c. q c \<noteq> None) open_env sids (?tasks, w1) (tasks', w')
        \<and> ''s'' \<notin> set sids \<longrightarrow> tasks' ''s'' = ?tasks ''s'' \<and> fst (mailbox_send m open_env (?rt, w')) = Pending)"
    using w(3,4) found tx
    by (intro subscribe_blocks [where E = open_env, unfolded local_env_simps, OF mem.storage_axioms bounded.mpsc_axioms
        io.session_io_axioms anonymous_start w(1) _ _ _ all fs refl])
      (simp_all add: chan_queue_def max_remaining_length_def)
  then show ?thesis
    using w(1) mailbox_run.stay by fastforce
qed

end
