(* ===== verification/Codec_Types.thy ===== *)
theory Codec_Types
  imports Codec
begin

text \<open>
  What the decoder of \<open>Packet\<close> can return: for any reader, any cursor and any bytes a packet that is
  decoded is one a client may send and is well formed, with valid and bounded strings, packet
  identifiers where the QoS level asks for them, and lengths within the limit of the standard.
\<close>

section \<open>Fields\<close>

lemma field_lengths [simp]:
  "length (str_field s) = 2 + length s" "length (bin_field bs) = 2 + length bs" "length (be16_bytes i) = 2"
  by (simp_all add: str_field_def bin_field_def be16_bytes_def bytes_of_def)

definition opt_length :: "('a \<Rightarrow> nat) \<Rightarrow> 'a option \<Rightarrow> nat" where
  "opt_length f x = (case x of None \<Rightarrow> 0 | Some a \<Rightarrow> 2 + f a)"

lemma connect_body_length:
  "length (mqtt_connect_body p) = 8 + length (cp_protocol_name p) + length (cp_client_id p)
    + opt_length length (cp_will_topic p) + opt_length length (cp_will_payload p)
    + opt_length length (cp_username p) + opt_length length (cp_password p)"
  by (simp add: mqtt_connect_body_def opt_length_def split: option.split)

lemma publish_body_length:
  "length (mqtt_publish_body p) = 2 + length (pp_topic p) + (case pp_packet_id p of None \<Rightarrow> 0 | Some i \<Rightarrow> 2)
    + length (pp_payload p)"
  by (simp add: mqtt_publish_body_def split: option.split)

context buf_reader
begin

lemma decode_string_wf:
  assumes "decode_string B c = Ok (s, c')"
  shows "wf_field s \<and> length (view c) = 2 + length s + length (view c')"
proof -
  obtain len c1 where c1: "get_u16 B c = Some (len, c1)" "\<not> remaining B c < 2"
    using assms by (auto simp: decode_string_def outcome_bind_eq_Ok split: if_splits)
  obtain bs where bs: "copy_to_slice B (unat len) c1 = Some (bs, c')" "\<not> remaining B c1 < unat len"
      "utf8_valid bs" "s = str_of bs"
    using assms c1 by (auto simp: decode_string_def outcome_bind_eq_Ok split: if_splits)
  have "view c1 = drop 2 (view c)" "2 \<le> length (view c)"
    using c1 by (auto simp: get_u16_view remaining_view view_adv split: if_splits)
  moreover have "bs = take (unat len) (view c1)" "view c' = drop (unat len) (view c1)" "unat len \<le> length (view c1)"
    using bs by (auto simp: copy_view remaining_view view_adv split: if_splits)
  moreover have "length bs = unat len" "length s = length bs" "unat len < 65536"
    using calculation bs(4) unat_u16_less [of len] by (auto simp: str_of_def)
  ultimately show ?thesis
    using bs by (auto simp: wf_field_def)
qed

lemma get_u16_length: "get_u16 B c = Some (i, c') \<Longrightarrow> length (view c) = 2 + length (view c')"
  by (auto simp: get_u16_view view_adv split: if_splits)

lemma get_u8_length: "get_u8 B c = Some (b, c') \<Longrightarrow> length (view c) = Suc (length (view c'))"
  by (auto simp: get_u8_view view_adv split: if_splits)

lemma copy_length:
  "copy_to_slice B n c = Some (bs, c') \<Longrightarrow> length bs = n \<and> length (view c) = n + length (view c')"
  by (auto simp: copy_view view_adv split: if_splits)

lemma decode_will_wf:
  assumes "decode_will B flag c = Ok ((topic, payload), c')"
  shows "(flag \<longleftrightarrow> topic \<noteq> None) \<and> (flag \<longleftrightarrow> payload \<noteq> None) \<and> pred_option wf_field topic
    \<and> pred_option (\<lambda>b. length b < 65536) payload
    \<and> length (view c) = opt_length length topic + opt_length length payload + length (view c')"
  using assms
  by (auto simp: decode_will_def outcome_bind_eq_Ok opt_length_def unat_u16_less dest!: decode_string_wf get_u16_length copy_length
      split: if_splits)

lemma decode_username_wf:
  assumes "decode_username B flag c = Ok (username, c')"
  shows "(flag \<longleftrightarrow> username \<noteq> None) \<and> pred_option wf_field username
    \<and> length (view c) = opt_length length username + length (view c')"
  using assms
  by (auto simp: decode_username_def outcome_bind_eq_Ok opt_length_def dest!: decode_string_wf split: if_splits)

lemma decode_password_wf:
  assumes "decode_password B flag c = Ok (password, c')"
  shows "(flag \<longleftrightarrow> password \<noteq> None) \<and> pred_option (\<lambda>b. length b < 65536) password
    \<and> length (view c) = opt_length length password + length (view c')"
  using assms
  by (auto simp: decode_password_def outcome_bind_eq_Ok opt_length_def unat_u16_less dest!: get_u16_length copy_length
      split: if_splits)

section \<open>Packets\<close>

lemma decode_will_qos_unset:
  "decode_will_qos flags = Ok q \<Longrightarrow> flags AND 0x04 = 0 \<Longrightarrow> q = AtMostOnce"
  by (simp add: decode_will_qos_def)

lemma decode_connect_wf:
  assumes "decode_connect B c = Ok p" "length (view c) \<le> max_remaining_length"
  shows "wf_connect p"
proof -
  from assms(1) obtain name c1 level c2 flags c3 keep c4 cid c5 qos topic payload c6 user c7 pass c8 where
    steps: "decode_string B c = Ok (name, c1)" "get_u8 B c1 = Some (level, c2)" "get_u8 B c2 = Some (flags, c3)"
      "get_u16 B c3 = Some (keep, c4)" "decode_string B c4 = Ok (cid, c5)" "decode_will_qos flags = Ok qos"
      "\<not> (flags AND 0x40 \<noteq> 0 \<and> \<not> flags AND 0x80 \<noteq> 0)"
      "decode_will B (flags AND 0x04 \<noteq> 0) c5 = Ok ((topic, payload), c6)"
      "decode_username B (flags AND 0x80 \<noteq> 0) c6 = Ok (user, c7)"
      "decode_password B (flags AND 0x40 \<noteq> 0) c7 = Ok (pass, c8)"
    and p: "p = \<lparr>cp_protocol_name = name, cp_protocol_level = level, cp_clean_session = (flags AND 0x02 \<noteq> 0),
      cp_keep_alive = keep, cp_client_id = cid, cp_will_flag = (flags AND 0x04 \<noteq> 0), cp_will_qos = qos,
      cp_will_retain = (flags AND 0x20 \<noteq> 0), cp_will_topic = topic, cp_will_payload = payload,
      cp_username = user, cp_password = pass\<rparr>"
    by (auto simp: decode_connect_def outcome_bind_eq_Ok Let_def split: if_splits)
  note wf = decode_string_wf [OF steps(1)] decode_string_wf [OF steps(5)] decode_will_wf [OF steps(8)]
    decode_username_wf [OF steps(9)] decode_password_wf [OF steps(10)]
  have "length (mqtt_connect_body p) \<le> max_remaining_length"
    using assms(2) wf get_u8_length [OF steps(2)] get_u8_length [OF steps(3)] get_u16_length [OF steps(4)]
    unfolding connect_body_length p by simp
  moreover have "cp_will_flag p \<or> cp_will_qos p = AtMostOnce"
    using decode_will_qos_unset [OF steps(6)] unfolding p by auto
  moreover have "cp_password p \<noteq> None \<longrightarrow> cp_username p \<noteq> None"
    using steps(7) wf unfolding p by auto
  moreover have "wf_field name" "wf_field cid" "pred_option wf_field topic" "pred_option wf_field user"
      "pred_option (\<lambda>b. length b < 65536) payload" "pred_option (\<lambda>b. length b < 65536) pass"
      "cp_will_flag p \<longleftrightarrow> topic \<noteq> None" "cp_will_flag p \<longleftrightarrow> payload \<noteq> None"
    using wf unfolding p by auto
  ultimately show ?thesis
    unfolding wf_connect_def by (auto simp: p)
qed

lemma decode_publish_wf:
  assumes "decode_publish B c flags = Ok p" "length (view c) \<le> max_remaining_length"
  shows "wf_publish p"
proof -
  obtain topic c1 where c1: "decode_string B c = Ok (topic, c1)"
    using assms(1) unfolding decode_publish_def outcome_bind_eq_Ok by auto
  obtain qos where qos: "qos_of_bits (drop_bit 1 flags AND 0x03) = Some qos"
    using assms(1) c1 by (cases "qos_of_bits (drop_bit 1 flags AND 0x03)") (simp_all add: decode_publish_def)
  note decode = assms(1) [unfolded decode_publish_def c1 outcome_bind.simps prod.case qos option.case]
  show ?thesis
  proof (cases "qos = AtMostOnce")
    case True
    then obtain payload c3 where c3: "copy_to_slice B (remaining B c1) c1 = Some (payload, c3)"
        "pp_topic p = topic" "pp_packet_id p = None" "pp_payload p = payload" "pp_qos p = qos"
      using decode by (cases "copy_to_slice B (remaining B c1) c1") force+
    moreover have "length payload = length (view c1)"
      using copy_length [OF c3(1)] unfolding remaining_view ..
    ultimately show ?thesis
      using assms(2) decode_string_wf [OF c1] True by (simp add: wf_publish_def publish_body_length)
  next
    case False
    then have q: "qos = AtLeastOnce \<or> qos = ExactlyOnce"
      by (cases qos) simp_all
    then obtain i c2 where c2: "get_u16 B c1 = Some (i, c2)"
      using decode by (cases "get_u16 B c1") auto
    then obtain payload c3 where c3: "copy_to_slice B (remaining B c2) c2 = Some (payload, c3)"
        "pp_topic p = topic" "pp_packet_id p = Some i" "pp_payload p = payload" "pp_qos p = qos"
      using decode q by (cases "copy_to_slice B (remaining B c2) c2") force+
    moreover have "length payload = length (view c2)"
      using copy_length [OF c3(1)] unfolding remaining_view ..
    ultimately show ?thesis
      using assms(2) decode_string_wf [OF c1] get_u16_length [OF c2] False
      by (simp add: wf_publish_def publish_body_length)
  qed
qed

lemma decode_subscribe_loop_wf:
  assumes "decode_subscribe_loop B fuel c acc = Ok fs"
  shows "\<exists>new. fs = acc @ new \<and> (\<forall>(f, q) \<in> set new. wf_field f)
    \<and> length (concat (map (\<lambda>(f, q). str_field f @ [qos_u8 q]) new)) = length (view c)"
  using assms
proof (induction fuel arbitrary: c acc)
  case (Suc fuel)
  show ?case
  proof (cases "remaining B c > 0")
    case True
    then obtain f c1 b c2 q where steps: "decode_string B c = Ok (f, c1)" "get_u8 B c1 = Some (b, c2)"
        "decode_subscribe_loop B fuel c2 (acc @ [(f, q)]) = Ok fs"
      using Suc.prems by (auto simp: outcome_bind_eq_Ok split: option.splits)
    from Suc.IH [OF steps(3)] obtain new where "fs = (acc @ [(f, q)]) @ new" "\<forall>(f, q) \<in> set new. wf_field f"
        "length (concat (map (\<lambda>(f, q). str_field f @ [qos_u8 q]) new)) = length (view c2)"
      by blast
    then show ?thesis
      using decode_string_wf [OF steps(1)] get_u8_length [OF steps(2)]
      by (intro exI [of _ "(f, q) # new"]) auto
  next
    case False
    then show ?thesis
      using Suc.prems by (intro exI [of _ "[]"]) (simp add: remaining_view)
  qed
qed simp

lemma decode_unsubscribe_loop_wf:
  assumes "decode_unsubscribe_loop B fuel c acc = Ok fs"
  shows "\<exists>new. fs = acc @ new \<and> (\<forall>f \<in> set new. wf_field f)
    \<and> length (concat (map str_field new)) = length (view c)"
  using assms
proof (induction fuel arbitrary: c acc)
  case (Suc fuel)
  show ?case
  proof (cases "remaining B c > 0")
    case True
    then obtain f c1 where steps: "decode_string B c = Ok (f, c1)"
        "decode_unsubscribe_loop B fuel c1 (acc @ [f]) = Ok fs"
      using Suc.prems by (auto simp: outcome_bind_eq_Ok)
    from Suc.IH [OF steps(2)] obtain new where "fs = (acc @ [f]) @ new" "\<forall>f \<in> set new. wf_field f"
        "length (concat (map str_field new)) = length (view c1)"
      by blast
    then show ?thesis
      using decode_string_wf [OF steps(1)] by (intro exI [of _ "f # new"]) auto
  next
    case False
    then show ?thesis
      using Suc.prems by (intro exI [of _ "[]"]) (simp add: remaining_view)
  qed
qed simp


lemma decode_subscribe_wf:
  assumes "decode_subscribe B c = Ok p" "length (view c) \<le> max_remaining_length"
  shows "wf_packet (Subscribe p)"
proof -
  obtain i c1 fs where steps: "get_u16 B c = Some (i, c1)"
      "decode_subscribe_loop B (Suc (remaining B c1)) c1 [] = Ok fs"
      "p = \<lparr>sp_packet_id = i, sp_topic_filters = fs\<rparr>"
    using assms(1) by (auto simp: decode_subscribe_def outcome_bind_eq_Ok simp del: decode_subscribe_loop.simps)
  then show ?thesis
    using decode_subscribe_loop_wf [OF steps(2)] get_u16_length [OF steps(1)] assms(2)
    by (simp add: mqtt_subscribe_body_def)
qed

lemma decode_unsubscribe_wf:
  assumes "decode_unsubscribe B c = Ok p" "length (view c) \<le> max_remaining_length"
  shows "wf_packet (Unsubscribe p)"
proof -
  obtain i c1 fs where steps: "get_u16 B c = Some (i, c1)"
      "decode_unsubscribe_loop B (Suc (remaining B c1)) c1 [] = Ok fs"
      "p = \<lparr>up_packet_id = i, up_topic_filters = fs\<rparr>"
    using assms(1) by (auto simp: decode_unsubscribe_def outcome_bind_eq_Ok simp del: decode_unsubscribe_loop.simps)
  then show ?thesis
    using decode_unsubscribe_loop_wf [OF steps(2)] get_u16_length [OF steps(1)] assms(2)
    by (simp add: mqtt_unsubscribe_body_def)
qed

lemma decode_body_wf:
  assumes "decode_body B t flags n c = Ok p" "length (view c) \<le> max_remaining_length"
  shows "inbound p \<and> wf_packet p"
  using assms
  by (cases t) (auto simp: decode_body_def outcome_bind_eq_Ok decode_connect_wf decode_publish_wf
      dest: decode_subscribe_wf decode_unsubscribe_wf split: if_splits)

end

section \<open>The decoder\<close>

lemma rl_value_bound:
  assumes "unat (v :: u32) < 128 ^ k" "k < 4"
  shows "unat (v + ucast ((b :: u8) AND 0x7F) * 128 ^ k) < 128 ^ Suc k"
proof -
  let ?x = "ucast (b AND 0x7F) :: u32"
  have "k \<in> {0, 1, 2, 3}"
    using assms(2) by auto
  then have pow: "unat (128 ^ k :: u32) = 128 ^ k"
    by (auto simp: power2_eq_square power3_eq_cube)
  have x: "unat ?x < 128"
    by (simp add: ucast_u8_u32 unat_and_127 unat_word_of_nat_u32)
  have "unat (v + ?x * 128 ^ k) \<le> unat v + unat (?x * 128 ^ k)"
    by (simp add: unat_word_ariths(1))
  also have "unat (?x * 128 ^ k) \<le> unat ?x * 128 ^ k"
    by (simp add: unat_word_ariths(2) pow)
  also have "unat ?x * 128 ^ k \<le> 127 * 128 ^ k"
    using x by (intro mult_right_mono) simp_all
  finally show ?thesis
    using assms(1) by simp
qed

lemma decode_remaining_length_loop_bound:
  assumes "decode_remaining_length_loop R (128 ^ k) v k r = (Ok n, r')" "unat v < 128 ^ k" "k \<le> 4"
  shows "unat n < 128 ^ 4"
  using assms
proof (induction "4 - k" arbitrary: k v r)
  case 0
  then show ?case
    by (subst (asm) decode_remaining_length_loop.simps) simp
next
  case (Suc d)
  let ?v = "\<lambda>b. v + ucast ((b :: u8) AND 0x7F) * 128 ^ k"
  have k: "k < 4" "\<not> 4 \<le> k"
    using Suc.hyps(2) by simp_all
  obtain res r1 where read: "read_u8 R r = (res, r1)"
    by (rule prod.exhaust)
  note prems = Suc.prems(1) [unfolded decode_remaining_length_loop.simps [of R "128 ^ k" v k r] read]
  obtain b where b: "res = Ok b"
    using prems k by (cases res) simp_all
  have bound: "unat (?v b) < 128 ^ Suc k"
    by (rule rl_value_bound [OF Suc.prems(2) k(1)])
  have "Suc k \<le> 4" "d = 4 - Suc k"
    using k Suc.hyps(2) by simp_all
  with Suc.hyps(1) [OF this(2) _ bound this(1)] have more: "unat n < 128 ^ 4"
    if "decode_remaining_length_loop R (128 ^ Suc k) (?v b) (Suc k) r1 = (Ok n, r')"
    using that by blast
  have "(128 :: nat) ^ Suc k \<le> 128 ^ 4"
    using k(1) by (intro power_increasing) simp_all
  then show ?case
    using prems b k more bound by (simp add: Let_def mult.commute split: if_splits)
qed

context codec
begin

lemma packet_decode_wf:
  assumes "Packet_decode R B r = (Ok p, r')"
  shows "inbound p \<and> wf_packet p"
proof -
  obtain b r1 where r1: "read_u8 R r = (Ok b, r1)"
    using assms by (cases "read_u8 R r"; cases "fst (read_u8 R r)") (auto simp: Packet_decode_def)
  obtain t where t: "packet_type_try_from (drop_bit 4 b AND 0x0F) = Ok t"
    using assms r1 by (cases "packet_type_try_from (drop_bit 4 b AND 0x0F)") (auto simp: Packet_decode_def)
  obtain n r2 where r2: "decode_remaining_length_async R r1 = (Ok n, r2)"
    using assms r1 t
    by (cases "decode_remaining_length_async R r1"; cases "fst (decode_remaining_length_async R r1)")
      (auto simp: Packet_decode_def)
  obtain bs r3 where r3: "read_exact R (unat n) r2 = (Ok bs, r3)"
    using assms r1 t r2 by (cases "read_exact R (unat n) r2"; cases "fst (read_exact R (unat n) r2)")
      (auto simp: Packet_decode_def)
  have body: "decode_body B t (b AND 0x0F) n (cursor_new B bs) = Ok p"
    using assms r1 t r2 r3 by (simp add: Packet_decode_def)
  have "unat n < 128 ^ 4"
    using decode_remaining_length_loop_bound [of R 0 0 r1 n r2] r2 by (simp add: decode_remaining_length_async_def)
  moreover have "length bs = unat n"
    using r3 read_exact_ready [of "unat n" r2] read_exact_eof [of r2 "unat n"] read_exact_wait [of r2 "unat n"]
    by (cases "unat n \<le> length (avail r2)"; cases "eof r2") auto
  ultimately have "length (view (cursor_new B bs)) \<le> max_remaining_length"
    by (simp add: view_new max_remaining_length_def)
  with body show ?thesis
    by (rule decode_body_wf)
qed

end

text \<open>
  C5: what is decoded is well formed.  Whatever bytes a client sends, a packet the decoder returns is one a
  client may send, every string in it is valid UTF-8 and shorter than 65536 bytes, a PUBLISH has a
  packet identifier exactly if its QoS level is above zero, a CONNECT has will topic and payload exactly
  if its will flag is set and no password without a user name, and its standard encoding is within
  the limit of 268435455 bytes.  With the first property this says that the decoder returns exactly the
  well-formed packets.
\<close>

theorem packet_decode_well_formed:
  assumes "async_reader R avail eof" "buf_reader B adv view" "Packet_decode R B r = (Ok p, r')"
  shows "inbound p \<and> wf_packet p"
  using codec.packet_decode_wf [OF codec.intro [OF assms(1,2)] assms(3)] .

theorem packet_decode_well_formed_witness:
  "\<exists>p r'. Packet_decode pipe_reader slice_buf ([0x32, 0x87, 0, 0, 1, 97, 0, 5, 1, 2, 0xC0], False) = (Ok p, r')
    \<and> r' = ([0xC0], False) \<and> wf_packet p"
proof -
  let ?p = "Publish \<lparr>pp_topic = ''a'', pp_packet_id = Some 5, pp_payload = [1, 2], pp_qos = AtLeastOnce,
    pp_retain = False, pp_dup = False\<rparr>"
  have "Packet_decode pipe_reader slice_buf ([0x32, 0x87, 0, 0, 1, 97, 0, 5, 1, 2, 0xC0], False) = (Ok ?p, ([0xC0], False))"
    by code_simp
  from this packet_decode_well_formed [OF pipe.async_reader_axioms slice.buf_reader_axioms this] show ?thesis
    by blast
qed

end
