(* ===== verification/Codec_Panics.thy ===== *)
theory Codec_Panics
  imports Codec_Types
begin

text \<open>
  The packets that make the decoder of \<open>Packet\<close> panic.  \<open>decode_string\<close> and the password check how many bytes
  are left before they read; the other fields are read with \<open>get_u8\<close>, \<open>get_u16\<close> and \<open>copy_to_slice\<close>, which
  panic at the end of the buffer.  \<open>truncated\<close> says which bodies end there, and the decoder panics on
  exactly those.
\<close>

section \<open>Truncated bodies\<close>

text \<open>The body begins with a string and the rest is as given.\<close>

definition string_then :: "bytes \<Rightarrow> (bytes \<Rightarrow> bool) \<Rightarrow> bool" where
  "string_then bs P \<longleftrightarrow> (\<exists>s rest. wf_field s \<and> bs = str_field s @ rest \<and> P rest)"

text \<open>Will: the topic is there, and the payload is not or is shorter than its length says.\<close>

definition truncated_will :: "bytes \<Rightarrow> bool" where
  "truncated_will bs \<longleftrightarrow> string_then bs (\<lambda>rest. length rest < 2 \<or> length rest < 2 + unat (be16 (rest ! 0) (rest ! 1)))"

definition truncated_connect :: "bytes \<Rightarrow> bool" where
  "truncated_connect body \<longleftrightarrow> string_then body (\<lambda>rest. length rest < 4
    \<or> string_then (drop 4 rest) (\<lambda>rest'. let flags = rest ! 1 in flags AND 0x04 \<noteq> 0
        \<and> drop_bit 3 flags AND 0x03 \<noteq> 3 \<and> (flags AND 0x40 = 0 \<or> flags AND 0x80 \<noteq> 0) \<and> truncated_will rest'))"

definition truncated_publish :: "u8 \<Rightarrow> bytes \<Rightarrow> bool" where
  "truncated_publish flags body \<longleftrightarrow> drop_bit 1 flags AND 0x03 \<in> {1, 2} \<and> string_then body (\<lambda>rest. length rest < 2)"

text \<open>SUBSCRIBE: no packet identifier, or a last filter without its QoS level.\<close>

definition truncated_filters :: "bytes \<Rightarrow> bool" where
  "truncated_filters bs \<longleftrightarrow> (\<exists>filters s. (\<forall>(f, q) \<in> set filters. wf_field f) \<and> wf_field s
    \<and> bs = concat (map (\<lambda>(f, q). str_field f @ [qos_u8 q]) filters) @ str_field s)"

text \<open>The first byte has the packet type in its upper half and the flags in its lower half.\<close>

definition truncated :: "u8 \<Rightarrow> bytes \<Rightarrow> bool" where
  "truncated b body \<longleftrightarrow>
    (let t = drop_bit 4 b AND 0x0F in
     t = 1 \<and> truncated_connect body
     \<or> t = 3 \<and> truncated_publish (b AND 0x0F) body
     \<or> t = 8 \<and> (length body < 2 \<or> truncated_filters (drop 2 body))
     \<or> t = 10 \<and> length body < 2)"

section \<open>Reading\<close>

lemma qos_of_bits_Some: "qos_of_bits b = Some q \<longleftrightarrow> b = qos_u8 q"
  by (cases q) (auto simp: qos_of_bits_def)

lemma qos_bits_None: "qos_of_bits ((x :: u8) AND 3) = None \<longleftrightarrow> x AND 3 = 3"
proof -
  have "x AND 3 = take_bit 2 x"
    by (simp add: take_bit_eq_mask mask_eq_exp_minus_1)
  then have "unat (x AND 3) < 4"
    by (simp add: take_bit_eq_mod unat_mod)
  then have "unat (x AND 3) \<in> {0, 1, 2, 3}"
    by auto
  then have "x AND 3 \<in> {0, 1, 2, 3}"
    by (auto simp: word_unat_eq_iff)
  then show ?thesis
    by (auto simp: qos_of_bits_def)
qed

lemma truncated_filters_rec:
  "truncated_filters bs \<longleftrightarrow> string_then bs (\<lambda>rest. rest = []
    \<or> (\<exists>q. qos_of_bits (hd rest) = Some q \<and> truncated_filters (tl rest)))"
proof
  assume "truncated_filters bs"
  then obtain filters s where *: "\<forall>(f, q) \<in> set filters. wf_field f" "wf_field s"
    "bs = concat (map (\<lambda>(f, q). str_field f @ [qos_u8 q]) filters) @ str_field s"
    by (auto simp: truncated_filters_def)
  show "string_then bs (\<lambda>rest. rest = [] \<or> (\<exists>q. qos_of_bits (hd rest) = Some q \<and> truncated_filters (tl rest)))"
  proof (cases filters)
    case Nil
    then show ?thesis
      using * by (auto simp: string_then_def)
  next
    case (Cons x fs)
    obtain f q where x: "x = (f, q)"
      by (cases x)
    have "truncated_filters (concat (map (\<lambda>(f, q). str_field f @ [qos_u8 q]) fs) @ str_field s)"
      using * Cons unfolding truncated_filters_def by auto
    then show ?thesis
      using * Cons x unfolding string_then_def
      by (intro exI [of _ f] exI [of _ "qos_u8 q # concat (map (\<lambda>(f, q). str_field f @ [qos_u8 q]) fs) @ str_field s"])
        (auto simp: qos_of_bits_Some)
  qed
next
  assume "string_then bs (\<lambda>rest. rest = [] \<or> (\<exists>q. qos_of_bits (hd rest) = Some q \<and> truncated_filters (tl rest)))"
  then obtain f rest where f: "wf_field f" "bs = str_field f @ rest"
    and rest: "rest = [] \<or> (\<exists>q. qos_of_bits (hd rest) = Some q \<and> truncated_filters (tl rest))"
    by (auto simp: string_then_def)
  show "truncated_filters bs"
  proof (cases rest)
    case Nil
    then show ?thesis
      using f unfolding truncated_filters_def by (intro exI [of _ "[]"] exI [of _ f]) simp
  next
    case (Cons b bs')
    then obtain q filters s where "b = qos_u8 q" "\<forall>(f, q) \<in> set filters. wf_field f" "wf_field s"
      "bs' = concat (map (\<lambda>(f, q). str_field f @ [qos_u8 q]) filters) @ str_field s"
      using rest by (auto simp: truncated_filters_def qos_of_bits_Some)
    then show ?thesis
      using f Cons unfolding truncated_filters_def by (intro exI [of _ "(f, q) # filters"] exI [of _ s]) auto
  qed
qed

lemma unat_be16: "unat (be16 a b) = 256 * unat a + unat b"
proof -
  have "256 * unat a + unat b < 65536"
    using unat_u8_less [of a] unat_u8_less [of b] by simp
  then show ?thesis
    unfolding be16_def by (rule unat_word_of_nat_u16)
qed

lemma be16_bytes_be16: "be16_bytes (be16 a b) = [a, b]"
proof -
  have "(256 * unat a + unat b) div 256 = unat a" "(256 * unat a + unat b) mod 256 = unat b"
    using unat_u8_less [of b] by simp_all
  then show ?thesis
    by (simp add: be16_bytes_def unat_be16)
qed

context buf_reader
begin

lemma decode_string_no_Panic: "decode_string B c \<noteq> Panic"
  by (auto simp: decode_string_def get_u16_view remaining_view copy_view view_adv)

lemma decode_string_view:
  assumes "decode_string B c = Ok (s, c')"
  shows "wf_field s \<and> view c = str_field s @ view c'"
proof -
  obtain len c1 where c1: "get_u16 B c = Some (len, c1)"
    using assms by (auto simp: decode_string_def outcome_bind_eq_Ok split: if_splits)
  obtain bs where bs: "copy_to_slice B (unat len) c1 = Some (bs, c')" "s = str_of bs"
    using assms c1 by (auto simp: decode_string_def outcome_bind_eq_Ok split: if_splits)
  have len: "len = be16 (view c ! 0) (view c ! 1)" "view c1 = drop 2 (view c)" "2 \<le> length (view c)"
    using c1 by (auto simp: get_u16_view view_adv split: if_splits)
  then have "view c = be16_bytes len @ view c1"
    by (cases "view c"; cases "tl (view c)") (auto simp: be16_bytes_be16)
  moreover have "view c1 = bs @ view c'" "length bs = unat len"
    using bs(1) by (auto simp: copy_view view_adv split: if_splits)
  moreover have "word_of_nat (length s) = len"
    using calculation(3) bs(2) by (simp add: str_of_def)
  ultimately show ?thesis
    using decode_string_wf [OF assms] bs(2) by (simp add: str_field_def)
qed

text \<open>When reading a field and going on panics.\<close>

lemma string_Panic:
  assumes "\<And>s c'. decode_string B c = Ok (s, c') \<Longrightarrow> f s c' = Panic \<longleftrightarrow> P (view c')"
  shows "outcome_bind (decode_string B c) (\<lambda>(s, c). f s c) = Panic \<longleftrightarrow> string_then (view c) P"
proof
  assume "outcome_bind (decode_string B c) (\<lambda>(s, c). f s c) = Panic"
  then obtain s c' where "decode_string B c = Ok (s, c')" "f s c' = Panic"
    using decode_string_no_Panic [of c] by (auto simp: outcome_bind_eq_Panic)
  then show "string_then (view c) P"
    using decode_string_view [of c s c'] assms by (auto simp: string_then_def)
next
  assume "string_then (view c) P"
  then obtain s rest where s: "wf_field s" "view c = str_field s @ rest" "P rest"
    by (auto simp: string_then_def)
  then obtain c' where "decode_string B c = Ok (s, c')" "view c' = rest"
    by (auto elim: decode_string_reads)
  then show "outcome_bind (decode_string B c) (\<lambda>(s, c). f s c) = Panic"
    using s(3) assms by simp
qed

section \<open>Decoders\<close>

lemma decode_will_Panic: "decode_will B flag c = Panic \<longleftrightarrow> flag \<and> truncated_will (view c)"
proof (cases flag)
  case True
  have "outcome_bind (or_panic (get_u16 B c)) (\<lambda>(n, c). outcome_bind (or_panic (copy_to_slice B (unat n) c))
      (\<lambda>(payload, c). Ok ((Some topic, Some payload), c))) = Panic
      \<longleftrightarrow> length (view c) < 2 \<or> length (view c) < 2 + unat (be16 (view c ! 0) (view c ! 1))" for c and topic :: rstring
    by (auto simp: get_u16_view copy_view view_adv)
  from string_Panic [where f = "\<lambda>topic c. outcome_bind (or_panic (get_u16 B c)) (\<lambda>(n, c).
      outcome_bind (or_panic (copy_to_slice B (unat n) c)) (\<lambda>(payload, c). Ok ((Some topic, Some payload), c)))", OF this]
  show ?thesis
    using True by (simp add: decode_will_def truncated_will_def)
qed (simp add: decode_will_def)

lemma decode_auth_no_Panic: "decode_username B u c \<noteq> Panic" "decode_password B p c \<noteq> Panic" "decode_will_qos fl \<noteq> Panic"
  by (auto simp: decode_username_def decode_password_def decode_will_qos_def outcome_bind_eq_Panic decode_string_no_Panic
      get_u16_view remaining_view copy_view view_adv split: option.splits)

text \<open>\<open>decode_connect\<close> after the client identifier.\<close>

definition connect_tail :: "'c buf_ops \<Rightarrow> u8 \<Rightarrow> (QoS \<Rightarrow> rstring option \<Rightarrow> bytes option \<Rightarrow> rstring option \<Rightarrow> bytes option \<Rightarrow> ConnectPacket)
    \<Rightarrow> 'c \<Rightarrow> (ConnectPacket, PacketError) outcome" where
  "connect_tail B' flags g c = outcome_bind (decode_will_qos flags) (\<lambda>will_qos.
    if flags AND 0x40 \<noteq> 0 \<and> \<not> flags AND 0x80 \<noteq> 0 then Err InvalidPacketFlags
    else outcome_bind (decode_will B' (flags AND 0x04 \<noteq> 0) c) (\<lambda>((will_topic, will_payload), c).
      outcome_bind (decode_username B' (flags AND 0x80 \<noteq> 0) c) (\<lambda>(username, c).
      outcome_bind (decode_password B' (flags AND 0x40 \<noteq> 0) c) (\<lambda>(password, c).
        Ok (g will_qos will_topic will_payload username password)))))"

lemma connect_tail_Panic:
  "connect_tail B flags g c = Panic \<longleftrightarrow> flags AND 0x04 \<noteq> 0 \<and> drop_bit 3 flags AND 0x03 \<noteq> 3
    \<and> (flags AND 0x40 = 0 \<or> flags AND 0x80 \<noteq> 0) \<and> truncated_will (view c)"
proof (cases "decode_will_qos flags")
  case (Ok q)
  have "flags AND 0x04 \<noteq> 0 \<longrightarrow> drop_bit 3 flags AND 0x03 \<noteq> 3"
    using Ok qos_bits_None [of "drop_bit 3 flags"] by (auto simp: decode_will_qos_def split: option.splits if_splits)
  then show ?thesis
    using Ok by (auto simp: connect_tail_def outcome_bind_eq_Panic decode_auth_no_Panic decode_will_Panic split: prod.splits)
next
  case (Err e)
  then have "flags AND 0x04 \<noteq> 0 \<longrightarrow> drop_bit 3 flags AND 0x03 = 3"
    using qos_bits_None [of "drop_bit 3 flags"] by (auto simp: decode_will_qos_def split: option.splits if_splits)
  then show ?thesis
    using Err by (auto simp: connect_tail_def)
qed (use decode_auth_no_Panic(3) decode_fields_not_Pending(4) in simp_all)

lemma decode_connect_Panic: "decode_connect B c = Panic \<longleftrightarrow> truncated_connect (view c)"
  unfolding decode_connect_def truncated_connect_def
proof (rule string_Panic, goal_cases)
  case (1 name c)
  define c4 where "c4 = adv 2 (adv 1 (adv 1 c))"
  let ?flags = "view c ! 1"
  show ?case
  proof (cases "length (view c) < 4")
    case True
    then show ?thesis
      by (auto simp: get_u8_view get_u16_view view_adv)
  next
    case False
    define keep where "keep = be16 (view (adv 1 (adv 1 c)) ! 0) (view (adv 1 (adv 1 c)) ! 1)"
    have "view c \<noteq> []" "view (adv 1 c) \<noteq> []" "\<not> length (view (adv 1 (adv 1 c))) < 2" "hd (view (adv 1 c)) = ?flags"
      using False by (auto simp: view_adv hd_drop_conv_nth)
    then have read: "get_u8 B c = Some (hd (view c), adv 1 c)" "get_u8 B (adv 1 c) = Some (?flags, adv 1 (adv 1 c))"
      "get_u16 B (adv 1 (adv 1 c)) = Some (keep, c4)" "view c4 = drop 4 (view c)"
      by (simp_all only: get_u8_view get_u16_view if_False keep_def c4_def) (simp add: view_adv)
    have "outcome_bind (decode_string B c4) (\<lambda>(cid, c5). connect_tail B ?flags (g cid) c5) = Panic
        \<longleftrightarrow> string_then (drop 4 (view c)) (\<lambda>rest'. let flags = ?flags in flags AND 0x04 \<noteq> 0
          \<and> drop_bit 3 flags AND 0x03 \<noteq> 3 \<and> (flags AND 0x40 = 0 \<or> flags AND 0x80 \<noteq> 0) \<and> truncated_will rest')"
      for g :: "rstring \<Rightarrow> QoS \<Rightarrow> rstring option \<Rightarrow> bytes option \<Rightarrow> rstring option \<Rightarrow> bytes option \<Rightarrow> ConnectPacket"
      unfolding read(4) [symmetric] by (rule string_Panic) (simp add: connect_tail_Panic Let_def)
    from this [of "\<lambda>cid will_qos topic payload user pass. \<lparr>cp_protocol_name = name, cp_protocol_level = hd (view c),
        cp_clean_session = (?flags AND 0x02 \<noteq> 0), cp_keep_alive = keep, cp_client_id = cid, cp_will_flag = (?flags AND 0x04 \<noteq> 0),
        cp_will_qos = will_qos, cp_will_retain = (?flags AND 0x20 \<noteq> 0), cp_will_topic = topic, cp_will_payload = payload,
        cp_username = user, cp_password = pass\<rparr>"]
    show ?thesis
      using read False by (simp add: connect_tail_def Let_def)
  qed
qed

lemma decode_publish_Panic: "decode_publish B c flags = Panic \<longleftrightarrow> truncated_publish flags (view c)"
proof -
  let ?v = "drop_bit 1 flags AND 0x03"
  have "decode_publish B c flags = Panic \<longleftrightarrow> string_then (view c) (\<lambda>rest. ?v \<in> {1, 2} \<and> length rest < 2)"
    unfolding decode_publish_def
    by (rule string_Panic) (auto simp: qos_of_bits_def outcome_bind_eq_Panic get_u16_view copy_view remaining_view split: if_splits)
  then show ?thesis
    by (auto simp: truncated_publish_def string_then_def)
qed

lemma decode_subscribe_loop_Panic:
  "length (view c) < fuel \<Longrightarrow> decode_subscribe_loop B fuel c acc = Panic \<longleftrightarrow> truncated_filters (view c)"
proof (induction fuel arbitrary: c acc)
  case (Suc fuel)
  show ?case
  proof (cases "view c = []")
    case True
    then show ?thesis
      by (simp add: remaining_view truncated_filters_def str_field_def)
  next
    case False
    have "(outcome_bind (decode_string B c) (\<lambda>(topic, c). outcome_bind (or_panic (get_u8 B c)) (\<lambda>(qos_byte, c).
        case qos_of_bits qos_byte of None \<Rightarrow> Err (InvalidPacketType qos_byte)
        | Some qos \<Rightarrow> decode_subscribe_loop B fuel c (acc @ [(topic, qos)])))) = Panic
      \<longleftrightarrow> string_then (view c) (\<lambda>rest. rest = [] \<or> (\<exists>q. qos_of_bits (hd rest) = Some q \<and> truncated_filters (tl rest)))"
    proof (rule string_Panic)
      fix topic c'
      assume "decode_string B c = Ok (topic, c')"
      then have "length (view (adv 1 c')) < fuel"
        using decode_string_shorter Suc.prems by (fastforce simp: view_adv)
      from Suc.IH [OF this] show "outcome_bind (or_panic (get_u8 B c')) (\<lambda>(qos_byte, c).
          case qos_of_bits qos_byte of None \<Rightarrow> Err (InvalidPacketType qos_byte)
          | Some qos \<Rightarrow> decode_subscribe_loop B fuel c (acc @ [(topic, qos)])) = Panic
        \<longleftrightarrow> view c' = [] \<or> (\<exists>q. qos_of_bits (hd (view c')) = Some q \<and> truncated_filters (tl (view c')))"
        by (auto simp: get_u8_view view_adv drop_Suc split: option.split)
    qed
    then have "decode_subscribe_loop B (Suc fuel) c acc = Panic \<longleftrightarrow> string_then (view c) (\<lambda>rest. rest = []
        \<or> (\<exists>q. qos_of_bits (hd rest) = Some q \<and> truncated_filters (tl rest)))"
      using False by (simp add: remaining_view)
    then show ?thesis
      by (subst truncated_filters_rec)
  qed
qed simp

lemma decode_unsubscribe_loop_no_Panic: "decode_unsubscribe_loop B fuel c acc \<noteq> Panic"
  by (induction fuel arbitrary: c acc) (auto simp: outcome_bind_eq_Panic decode_string_no_Panic)

lemma decode_subscribe_Panic:
  "decode_subscribe B c = Panic \<longleftrightarrow> length (view c) < 2 \<or> truncated_filters (drop 2 (view c))"
  using decode_subscribe_loop_Panic [of "adv 2 c" "Suc (remaining B (adv 2 c))" "[]"]
  by (auto simp: decode_subscribe_def outcome_bind_eq_Panic get_u16_view remaining_view view_adv
      simp del: decode_subscribe_loop.simps)

lemma decode_unsubscribe_Panic: "decode_unsubscribe B c = Panic \<longleftrightarrow> length (view c) < 2"
  by (auto simp: decode_unsubscribe_def outcome_bind_eq_Panic get_u16_view decode_unsubscribe_loop_no_Panic
      simp del: decode_unsubscribe_loop.simps)

lemma decode_body_Panic:
  assumes "packet_type_try_from (drop_bit 4 b AND 0x0F) = Ok t" "length (view c) \<le> max_remaining_length"
  shows "decode_body B t (b AND 0x0F) (word_of_nat (length (view c))) c = Panic \<longleftrightarrow> truncated b (view c)"
proof -
  let ?v = "drop_bit 4 b AND 0x0F"
  have types: "?v = 1 \<longleftrightarrow> t = TConnect" "?v = 3 \<longleftrightarrow> t = TPublish" "?v = 8 \<longleftrightarrow> t = TSubscribe" "?v = 10 \<longleftrightarrow> t = TUnsubscribe"
    using assms(1) by (auto simp: packet_type_try_from_def split: if_splits)
  show ?thesis
  proof (cases "t \<in> {TConnect, TPublish, TSubscribe, TUnsubscribe}")
    case True
    then show ?thesis
      using types unfolding truncated_def Let_def
      by (auto simp: decode_body_def outcome_bind_eq_Panic decode_connect_Panic decode_publish_Panic decode_subscribe_Panic
          decode_unsubscribe_Panic)
  next
    case False
    then show ?thesis
      using types decode_body_no_Panic [OF False refl assms(2)] by (simp add: truncated_def)
  qed
qed

end

section \<open>Frames\<close>

text \<open>
  C6: which packets crash the decoder.  On a frame, whatever its first byte and its body, the decoder panics exactly
  when the body is truncated: a CONNECT that ends in the four bytes after the protocol name or in its will, a PUBLISH
  above QoS 0 or a SUBSCRIBE or UNSUBSCRIBE without a packet identifier, and a SUBSCRIBE whose last filter has no
  QoS level.  Every other body is decoded or refused with an error.
\<close>

theorem packet_decode_panics:
  assumes "async_reader R avail eof" "buf_reader B adv view"
    and "avail r = mqtt_frame b body @ rest" "length body \<le> max_remaining_length"
  shows "(fst (Packet_decode R B r) = Panic \<longleftrightarrow> truncated b body) \<and> fst (Packet_decode R B r) \<noteq> Pending"
proof -
  have codec: "codec R avail eof B adv view"
    using assms(1,2) by (rule codec.intro)
  have "avail r = b # rl_bytes (length body) @ body @ rest"
    using assms(3) by (simp add: mqtt_frame_def)
  then obtain r1 where r1: "read_u8 R r = (Ok b, r1)"
    by (rule async_reader.read_u8_Cons [OF assms(1)])
  show ?thesis
  proof (cases "packet_type_try_from (drop_bit 4 b AND 0x0F)")
    case (Ok t)
    have view: "view (cursor_new B body) = body"
      by (rule buf_reader.view_new [OF assms(2)])
    have "fst (Packet_decode R B r) = decode_body B t (b AND 0x0F) (word_of_nat (length body)) (cursor_new B body)"
      using codec.packet_decode_frame [OF codec assms(3,4) Ok] by (metis fst_conv)
    then show ?thesis
      using buf_reader.decode_body_Panic [OF assms(2) Ok, of "cursor_new B body"] assms(4)
        buf_reader.decode_body_not_Pending [OF assms(2)] unfolding view by simp
  next
    case (Err e)
    then show ?thesis
      using r1 by (auto simp: Packet_decode_def truncated_def packet_type_try_from_def Let_def)
  qed (simp_all add: packet_type_try_from_def split: if_splits)
qed

theorem packet_decode_panics_witness:
  "fst (Packet_decode pipe_reader slice_buf (mqtt_frame 0x10 (str_field ''MQTT'' @ [4, 2]), False)) = Panic
    \<and> fst (Packet_decode pipe_reader slice_buf (mqtt_frame 0x10 [0, 4], False)) \<notin> {Panic, Pending}"
proof -
  have "wf_field ''MQTT''"
    by (simp add: wf_field_def in_range_def)
  then have "truncated 0x10 (str_field ''MQTT'' @ [4, 2])"
    unfolding truncated_def truncated_connect_def string_then_def by force
  moreover have "\<not> truncated 0x10 [0, 4]"
    by (auto simp: truncated_def truncated_connect_def string_then_def str_field_def be16_bytes_def bytes_of_def)
  moreover note decode = packet_decode_panics [OF pipe.async_reader_axioms slice.buf_reader_axioms, where rest = "[]"]
  ultimately show ?thesis
    using decode [of "(mqtt_frame 0x10 (str_field ''MQTT'' @ [4, 2]), False)" "0x10"]
      decode [of "(mqtt_frame 0x10 [0, 4], False)" "0x10"] by (simp add: max_remaining_length_def)
qed

end
