(* ===== verification/Wire_Safety.thy ===== *)
theory Wire_Safety
  imports System_Delivery Codec_Types "HOL-Library.Sublist"
begin

text \<open>
  Everything the broker sends is well formed.  The messages a session holds, those queued in the
  mailboxes and those in the storage are kept in a shape that every QoS level and packet identifier
  can be written from; every handler keeps it, and writes packets of the standard, whole unless a
  write fails.  The messages come from the decoder, whose results are well formed by \<open>Codec_Types\<close>.
\<close>

section \<open>Well-formed data\<close>

text \<open>A topic and a payload that fit into a PUBLISH with \<open>n\<close> bytes for its packet identifier.\<close>

definition fits :: "rstring \<Rightarrow> bytes \<Rightarrow> nat \<Rightarrow> bool" where
  "fits topic payload n \<longleftrightarrow> wf_field topic \<and> 2 + length topic + n + length payload \<le> max_remaining_length"

definition id_bytes :: "QoS \<Rightarrow> nat" where
  "id_bytes qos = (if qos = AtMostOnce then 0 else 2)"

definition will_wf :: "rstring \<Rightarrow> bytes \<Rightarrow> bool" where
  "will_wf topic payload \<longleftrightarrow> wf_field topic \<and> length payload < 65536"

definition inflight_wf :: "InflightMessage \<Rightarrow> bool" where
  "inflight_wf m \<longleftrightarrow> wf_publish (im_packet m) \<and> pp_dup (im_packet m) \<and> pp_qos (im_packet m) \<noteq> AtMostOnce"

definition inbound_wf :: "(u16, ReceivedQos2Message) hash_map \<Rightarrow> bool" where
  "inbound_wf al \<longleftrightarrow> snd ` set al \<subseteq> {m. wf_publish (rq_packet m) \<and> pp_qos (rq_packet m) = ExactlyOnce}"

definition runtime_wf :: "Runtime \<Rightarrow> bool" where
  "runtime_wf rt \<longleftrightarrow> (\<forall>m \<in> set (rt_inflight_queue rt). inflight_wf m)
    \<and> inbound_wf (rt_inbound_qos2 rt)
    \<and> (\<forall>m. rt_will_message rt = Some m \<longrightarrow> will_wf (wm_topic m) (wm_payload m))"

definition retained_wf :: "PersistedRetainedMessage \<Rightarrow> bool" where
  "retained_wf m \<longleftrightarrow> fits (pr_topic m) (pr_payload m) (id_bytes (qos_from_stored_qos (pr_qos m)))"

definition saved_wf :: "saved_session \<Rightarrow> bool" where
  "saved_wf v \<longleftrightarrow> (\<forall>m \<in> set (sv_inflight v). fits (pi_topic m) (pi_payload m) 2 \<and> pi_qos m \<noteq> StoredAtMostOnce)
    \<and> (\<forall>m \<in> set (sv_inbound v). fits (pb_topic m) (pb_payload m) 2)
    \<and> (\<forall>m. ps_will_message (sv_session v) = Some m \<longrightarrow> will_wf (pw_topic m) (pw_payload m))"

definition message_wf :: "Packet \<Rightarrow> bool" where
  "message_wf m \<longleftrightarrow> (\<exists>p. m = Publish p \<and> deliverable p)"

lemma wf_publish_fits:
  "wf_publish p \<longleftrightarrow> fits (pp_topic p) (pp_payload p) (id_bytes (pp_qos p))
    \<and> (pp_packet_id p = None \<longleftrightarrow> pp_qos p = AtMostOnce)"
  by (auto simp: wf_publish_def fits_def id_bytes_def publish_body_length split: option.splits)

lemma deliverable_fits:
  "deliverable p \<longleftrightarrow> (if needs_id p then fits (pp_topic p) (pp_payload p) 2 else wf_publish p)"
  by (auto simp: deliverable_def wf_publish_fits needs_id_def id_bytes_def)

lemma fits_less: "fits t b n \<Longrightarrow> m \<le> n \<Longrightarrow> fits t b m"
  by (simp add: fits_def)

lemma will_wf_fits: "will_wf t b \<Longrightarrow> fits t b 0"
  by (simp add: will_wf_def fits_def wf_field_def max_remaining_length_def)

lemma inflight_wf_deliverable: "inflight_wf m \<Longrightarrow> deliverable (im_packet m)"
  by (simp add: inflight_wf_def deliverable_fits needs_id_def)

lemma retained_packet_deliverable:
  assumes "retained_wf m"
  shows "deliverable (retained_packet q m)"
proof -
  have "id_bytes (min (qos_from_stored_qos (pr_qos m)) q) \<le> id_bytes (qos_from_stored_qos (pr_qos m))"
    by (cases "qos_from_stored_qos (pr_qos m)"; cases q) (simp_all add: id_bytes_def min_def less_eq_QoS_def)
  with assms have "fits (pr_topic m) (pr_payload m) (id_bytes (min (qos_from_stored_qos (pr_qos m)) q))"
    unfolding retained_wf_def by (rule fits_less)
  then show ?thesis
    by (auto simp: deliverable_fits wf_publish_fits needs_id_def retained_packet_def min_qos_min id_bytes_def
        split: if_splits)
qed

lemma set_AList_update: "snd ` set (AList.update k v al) \<subseteq> insert v (snd ` set al)"
  by (induction al) auto

lemma inbound_wf_update:
  "inbound_wf al \<Longrightarrow> wf_publish (rq_packet m) \<Longrightarrow> pp_qos (rq_packet m) = ExactlyOnce \<Longrightarrow> inbound_wf (AList.update i m al)"
  using set_AList_update [of i m al] unfolding inbound_wf_def by (elim subset_trans) simp

lemma inbound_wf_delete: "inbound_wf al \<Longrightarrow> inbound_wf (AList.delete i al)"
  unfolding inbound_wf_def by (auto simp: AList.delete_eq)

lemma inbound_wf_lookup: "inbound_wf al \<Longrightarrow> map_of al i = Some m \<Longrightarrow> wf_publish (rq_packet m)"
  unfolding inbound_wf_def by (force dest!: map_of_SomeD)

lemma mark_pubrec_wf: "\<forall>m \<in> set q. inflight_wf m \<Longrightarrow> \<forall>m \<in> set (mark_pubrec i now q). inflight_wf m"
proof (induction q)
  case (Cons m q)
  have "inflight_wf (m\<lparr>im_qos2_state := x, im_timestamp := now, im_retry_count := 0\<rparr>)" for x
    using Cons.prems by (simp add: inflight_wf_def)
  then show ?case
    using Cons by simp
qed simp

lemma retransmit_scan_wf:
  "retransmit_scan interval limit now q = (kept, ps, ids) \<Longrightarrow> \<forall>m \<in> set q. inflight_wf m \<Longrightarrow>
    (\<forall>m \<in> set kept. inflight_wf m) \<and> (\<forall>p \<in> set ps. deliverable p)"
proof (induction q arbitrary: kept ps ids)
  case (Cons m q)
  obtain kept1 ps1 ids1 where rec: "retransmit_scan interval limit now q = (kept1, ps1, ids1)"
    by (metis prod.exhaust)
  have IH: "(\<forall>m \<in> set kept1. inflight_wf m) \<and> (\<forall>p \<in> set ps1. deliverable p)"
    using Cons.IH [OF rec] Cons.prems(2) by simp
  have m: "inflight_wf m" "inflight_wf (m\<lparr>im_retry_count := c, im_timestamp := now\<rparr>)" "deliverable (im_packet m)" for c
    using Cons.prems(2) inflight_wf_deliverable [of m] by (simp_all add: inflight_wf_def)
  have "set kept \<subseteq> insert m (insert (m\<lparr>im_retry_count := im_retry_count m + 1, im_timestamp := now\<rparr>) (set kept1))"
    "set ps \<subseteq> insert (im_packet m) (set ps1)"
    using Cons.prems(1) rec by (auto simp: Let_def split: if_splits option.splits Qos2State.splits)
  then show ?case
    using IH m by blast
qed simp

section \<open>What every handler keeps\<close>

locale wire = broker_state E st_inv saved retained + out: byte_writer "e_writer E" sent intact + enc: buf_writer "e_buf E"
  + mail: mailboxes "e_mail E" queue open_rx cap + codec "e_reader E" avail eof "e_cursor E" adv view
  for E :: "('st, 'q, 'k, 'w, 'b, 'r, 'c) env" and st_inv saved retained sent intact queue open_rx cap
    and avail eof adv view
begin

definition mail_wf :: "'q \<Rightarrow> bool" where
  "mail_wf q \<longleftrightarrow> (\<forall>c. \<forall>m \<in> set (queue q c). message_wf m)"

definition storage_wf :: "'st \<Rightarrow> bool" where
  "storage_wf st \<longleftrightarrow> st_inv st \<and> (\<forall>t m. retained st t = Some m \<longrightarrow> retained_wf m)
    \<and> (\<forall>cid v. saved st cid = Some v \<longrightarrow> saved_wf v)"

definition world_wf :: "('st, 'q, 'k, 'w, 'r) world \<Rightarrow> bool" where
  "world_wf w \<longleftrightarrow> mail_wf (w_mail w) \<and> storage_wf (w_storage w)"

definition state_wf :: "('st, 'q, 'k, 'w, 'r) sstate \<Rightarrow> bool" where
  "state_wf s \<longleftrightarrow> runtime_wf (fst s) \<and> world_wf (snd s)"

text \<open>
  Between two outputs every stream has taken well-formed packets that a server may send, one after the
  other, whole unless a write to the stream did not run to its end.
\<close>

definition out_wf :: "'w \<Rightarrow> 'w \<Rightarrow> bool" where
  "out_wf o1 o2 \<longleftrightarrow> (\<forall>str. (intact o2 str \<longrightarrow> intact o1 str) \<and> (\<exists>pieces.
    (\<forall>(p, bs) \<in> set pieces. outbound p \<and> wf_packet p \<and> prefix bs (mqtt_bytes p)
      \<and> (intact o2 str \<longrightarrow> bs = mqtt_bytes p))
    \<and> sent o2 str = sent o1 str @ concat (map snd pieces)))"

definition safe :: "('st, 'q, 'k, 'w, 'r) sstate \<Rightarrow> ('st, 'q, 'k, 'w, 'r) sstate \<Rightarrow> bool" where
  "safe s s' \<longleftrightarrow> state_wf s \<longrightarrow> state_wf s' \<and> out_wf (w_out (snd s)) (w_out (snd s'))"

lemma out_wf_same: "sent o2 = sent o1 \<Longrightarrow> \<forall>str. intact o2 str \<longrightarrow> intact o1 str \<Longrightarrow> out_wf o1 o2"
  unfolding out_wf_def by (auto intro: exI [of _ "[]"])

lemma out_wf_refl: "out_wf o1 o1"
  by (rule out_wf_same) simp_all

lemma out_wf_trans:
  assumes "out_wf o1 o2" "out_wf o2 o3"
  shows "out_wf o1 o3"
  unfolding out_wf_def
proof (intro allI conjI impI)
  fix str
  show "intact o1 str" if "intact o3 str"
    using assms that unfolding out_wf_def by blast
  have mono: "intact o3 str \<longrightarrow> intact o2 str"
    using assms(2) unfolding out_wf_def by blast
  obtain ps where ps: "\<forall>(p, bs) \<in> set ps. outbound p \<and> wf_packet p \<and> prefix bs (mqtt_bytes p)
      \<and> (intact o2 str \<longrightarrow> bs = mqtt_bytes p)" "sent o2 str = sent o1 str @ concat (map snd ps)"
    using assms(1) unfolding out_wf_def by blast
  obtain qs where qs: "\<forall>(p, bs) \<in> set qs. outbound p \<and> wf_packet p \<and> prefix bs (mqtt_bytes p)
      \<and> (intact o3 str \<longrightarrow> bs = mqtt_bytes p)" "sent o3 str = sent o2 str @ concat (map snd qs)"
    using assms(2) unfolding out_wf_def by blast
  have "\<forall>(p, bs) \<in> set (ps @ qs). outbound p \<and> wf_packet p \<and> prefix bs (mqtt_bytes p)
      \<and> (intact o3 str \<longrightarrow> bs = mqtt_bytes p)"
    using ps(1) qs(1) mono by fastforce
  then show "\<exists>pieces. (\<forall>(p, bs) \<in> set pieces. outbound p \<and> wf_packet p \<and> prefix bs (mqtt_bytes p)
      \<and> (intact o3 str \<longrightarrow> bs = mqtt_bytes p)) \<and> sent o3 str = sent o1 str @ concat (map snd pieces)"
    using ps(2) qs(2) by (intro exI [of _ "ps @ qs"]) simp
qed

lemma out_wf_piece:
  assumes "outbound p" "wf_packet p" "sent o2 = (sent o1)(wr := sent o1 wr @ take n (mqtt_bytes p))"
    and "\<forall>str. intact o2 str \<longrightarrow> intact o1 str" "intact o2 wr \<longrightarrow> take n (mqtt_bytes p) = mqtt_bytes p"
  shows "out_wf o1 o2"
  unfolding out_wf_def
proof (intro allI conjI)
  show "intact o2 str \<longrightarrow> intact o1 str" for str
    using assms(4) by blast
  show "\<exists>pieces. (\<forall>(p, bs) \<in> set pieces. outbound p \<and> wf_packet p \<and> prefix bs (mqtt_bytes p)
      \<and> (intact o2 str \<longrightarrow> bs = mqtt_bytes p)) \<and> sent o2 str = sent o1 str @ concat (map snd pieces)" for str
    using assms(1,2,3,5) by (intro exI [of _ "if str = wr then [(p, take n (mqtt_bytes p))] else []"])
      (simp add: take_is_prefix)
qed

lemma safe_refl: "safe s s"
  by (simp add: safe_def out_wf_refl)

lemma safe_trans: "safe s s' \<Longrightarrow> safe s' s'' \<Longrightarrow> safe s s''"
  unfolding safe_def by (blast intro: out_wf_trans)

lemma safe_qmark:
  assumes "safe s (snd x)" "\<And>a. fst x = Ok a \<Longrightarrow> safe (snd x) (snd (f a (snd x)))"
  shows "safe s (snd (qmark x f))"
proof -
  obtain r s1 where x: "x = (r, s1)"
    by (rule prod.exhaust)
  show ?thesis
    using assms x by (cases r) (auto intro: safe_trans)
qed

lemma safe_then: "safe s (snd x) \<Longrightarrow> (\<And>a s. safe s (snd (f a s))) \<Longrightarrow> safe s (snd (qmark x f))"
  by (intro safe_qmark)

text \<open>Changes that write nothing: of the runtime, of the fields no message is in, and of the storage.\<close>

lemma safe_silent:
  assumes "state_wf s \<Longrightarrow> runtime_wf (fst s')" "state_wf s \<Longrightarrow> world_wf (snd s')"
    and "w_out (snd s') = w_out (snd s)"
  shows "safe s s'"
  using assms by (simp add: safe_def state_wf_def out_wf_refl)

lemma safe_runtime: "(state_wf (rt, w) \<Longrightarrow> runtime_wf rt') \<Longrightarrow> safe (rt, w) (rt', w)"
  by (rule safe_silent) (simp_all add: state_wf_def)

lemma safe_world_plain:
  assumes "w_storage w' = w_storage w" "w_mail w' = w_mail w" "w_out w' = w_out w"
  shows "safe (rt, w) (rt, w')"
  by (rule safe_silent) (simp_all add: state_wf_def world_wf_def assms)

lemma safe_storage:
  assumes "state_wf (rt, w) \<Longrightarrow> storage_wf st"
  shows "safe (rt, w) (rt, w\<lparr>w_storage := st\<rparr>)"
  by (rule safe_silent) (simp_all add: state_wf_def world_wf_def assms)

subsection \<open>Sending\<close>

lemma safe_send_packet:
  assumes "outbound p" "wf_packet p"
  shows "safe s (snd (send_packet p wr E s))"
proof -
  obtain rt w where s: "s = (rt, w)"
    by (cases s)
  let ?bs = "bytesmut_deref (e_buf E) (Packet_encode (e_buf E) p (bytesmut_new (e_buf E)))"
  obtain res out where call: "write_all (e_writer E) wr ?bs (w_out w) = (res, out)"
    by fastforce
  have bs: "?bs = mqtt_bytes p"
    using enc.packet_encode_bytes [OF assms] by (simp add: enc.deref_new)
  have "\<exists>n. sent out = (sent (w_out w))(wr := sent (w_out w) wr @ take n (mqtt_bytes p))
      \<and> (\<forall>str. intact out str \<longrightarrow> intact (w_out w) str) \<and> (intact out wr \<longrightarrow> take n (mqtt_bytes p) = mqtt_bytes p)"
  proof (cases "res = Ok ()")
    case True
    with out.write_all_whole [of wr ?bs "w_out w" out] call bs show ?thesis
      by (intro exI [of _ "length (mqtt_bytes p)"]) simp
  next
    case False
    with out.write_all_part [OF call] bs show ?thesis
      by auto
  qed
  then have "out_wf (w_out w) out"
    using out_wf_piece [OF assms] by blast
  then show ?thesis
    using s call by (simp add: send_packet_def safe_def state_wf_def world_wf_def)
qed

lemma send_keeps_mail:
  assumes "mail_wf q" "message_wf m"
  shows "mail_wf (snd (ch_send (e_mail E) c m q))"
  using assms unfolding mail_wf_def
  by (cases rule: mail.send_cases [of q c m]) auto

lemma safe_mailbox_send:
  assumes "deliverable p"
  shows "safe s (snd (mailbox_send (Publish p) E s))"
proof -
  obtain rt w where s: "s = (rt, w)"
    by (cases s)
  obtain res q where call: "ch_send (e_mail E) (rt_message_tx rt) (Publish p) (w_mail w) = (res, q)"
    by (rule prod.exhaust)
  have "mail_wf q" if "mail_wf (w_mail w)"
    using send_keeps_mail [OF that, of "Publish p" "rt_message_tx rt"] assms call by (simp add: message_wf_def)
  then show ?thesis
    using s call by (intro safe_silent) (simp_all add: mailbox_send_def state_wf_def world_wf_def)
qed

subsection \<open>Routing\<close>

lemma send_all_keeps_mail:
  "mail_wf q \<Longrightarrow> wf_publish p \<Longrightarrow> mail_wf (snd (send_all (e_mail E) p es q))"
proof (induction es arbitrary: q)
  case (Cons e es)
  obtain sid f m qos where e: "e = (sid, f, m, qos)"
    by (cases e)
  let ?m = "Publish (forward_packet p qos)"
  obtain res q1 where call: "ch_send (e_mail E) m ?m q = (res, q1)"
    by (rule prod.exhaust)
  have "message_wf ?m"
    using forward_deliverable [OF Cons.prems(2)] by (simp add: message_wf_def)
  then have "mail_wf q1"
    using send_keeps_mail [OF Cons.prems(1), of ?m m] call by simp
  then show ?case
    using Cons.IH [of q1] Cons.prems(2) e call by (cases "ignore_err res") simp_all
qed simp

lemma save_retained_wf:
  assumes "storage_wf st" "retained_wf m"
  shows "storage_wf (snd (save_retained_message (e_storage E) m st))"
proof -
  obtain res st' where call: "save_retained_message (e_storage E) m st = (res, st')"
    by (rule prod.exhaust)
  have inv: "st_inv st"
    using assms(1) by (simp add: storage_wf_def)
  show ?thesis
  proof (cases res)
    case (Inl e)
    then show ?thesis
      using save_retained_fail [OF inv, of m e st'] call assms(1) by (simp add: storage_wf_def)
  next
    case (Inr u)
    then show ?thesis
      using save_retained_ok [OF inv, of m st'] call assms by (simp add: storage_wf_def)
  qed
qed

lemma delete_retained_wf:
  assumes "storage_wf st"
  shows "storage_wf (snd (delete_retained_message (e_storage E) t st))"
proof -
  obtain res st' where call: "delete_retained_message (e_storage E) t st = (res, st')"
    by (rule prod.exhaust)
  have inv: "st_inv st"
    using assms by (simp add: storage_wf_def)
  show ?thesis
    using delete_retained_fail [OF inv, of t _ st'] delete_retained_ok [OF inv, of t st'] call assms
    by (cases res) (simp_all add: storage_wf_def)
qed

lemma handle_retained_wf:
  assumes "storage_wf st" "wf_publish p"
  shows "storage_wf (handle_retained_message (e_storage E) limit now p st)"
proof -
  have "retained_wf \<lparr>pr_topic = pp_topic p, pr_payload = pp_payload p, pr_qos = stored_qos_from_qos (pp_qos p),
      pr_updated_at = now\<rparr>"
    using assms(2) by (simp add: retained_wf_def wf_publish_fits)
  then show ?thesis
    using save_retained_wf [OF assms(1)] delete_retained_wf [OF assms(1)] assms(1)
    by (simp add: handle_retained_message_def Let_def)
qed

lemma safe_route:
  assumes "wf_publish p"
  shows "safe s (snd (session_route p E s))"
proof -
  obtain rt w where s: "s = (rt, w)"
    by (cases s)
  let ?r = "b_router (w_broker w)"
  obtain res st q where call: "Router_route (e_storage E) (e_mail E) (w_utc w) ?r p (w_storage w, w_mail w) = (res, (st, q))"
    by (metis prod.exhaust)
  have "storage_wf st \<and> mail_wf q" if "state_wf (rt, w)"
  proof (cases "validate_publish_topic (pp_topic p)")
    case True
    obtain res1 q1 where send: "send_all (e_mail E) p (matching (pp_topic p) ?r) (w_mail w) = (res1, q1)"
      by (rule prod.exhaust)
    have wf: "storage_wf (w_storage w)" "mail_wf (w_mail w)"
      using that by (simp_all add: state_wf_def world_wf_def)
    show ?thesis
      using call Router_route_eq [OF True send, of "e_storage E" "w_utc w" "w_storage w"] wf(1)
        send_all_keeps_mail [OF wf(2) assms, of "matching (pp_topic p) ?r"] send
        handle_retained_wf [OF wf(1) assms] by (auto split: if_splits)
  next
    case False
    then show ?thesis
      using call that by (simp add: Router_route_def state_wf_def world_wf_def)
  qed
  then show ?thesis
    using s call by (intro safe_silent) (simp_all add: session_route_def Broker_route_def state_wf_def world_wf_def)
qed

lemma safe_route_authorized:
  assumes "wf_publish p"
  shows "safe s (snd (route_authorized p E s))"
proof -
  obtain rt w where s: "s = (rt, w)"
    by (cases s)
  have "safe s (snd (qmark (session_route p E s) (\<lambda>_ s. (Ok True, s))))"
    by (rule safe_then [OF safe_route [OF assms]]) (simp only: snd_conv safe_refl)
  then show ?thesis
    using s by (cases "authorize_publish (e_authorizer E) (client_name rt) (pp_topic p)")
      (simp_all add: route_authorized_def safe_refl)
qed

subsection \<open>Messages and packets\<close>

lemma numbered_wf: "deliverable p \<Longrightarrow> needs_id p \<Longrightarrow> wf_publish (p\<lparr>pp_packet_id := Some i\<rparr>)"
  by (simp add: deliverable_def)

lemma safe_send_new_message:
  assumes "deliverable p" "needs_id p"
  shows "safe s (snd (send_new_message p st wr E s))"
proof -
  obtain rt w where s: "s = (rt, w)"
    by (cases s)
  obtain i rt1 where pid: "next_packet_id rt = (i, rt1)"
    by (rule prod.exhaust)
  let ?p = "p\<lparr>pp_packet_id := Some i\<rparr>"
  have wf: "wf_publish ?p"
    using numbered_wf [OF assms] .
  have "runtime_wf rt1" if "runtime_wf rt"
    using that pid by (auto simp: next_packet_id_def Let_def runtime_wf_def)
  then have 1: "safe (rt, w) (rt1, w)"
    by (intro safe_runtime) (simp add: state_wf_def)
  have kept: "inflight_wf \<lparr>im_packet = ?p\<lparr>pp_dup := True\<rparr>, im_timestamp = t, im_retry_count = 0, im_qos2_state = st\<rparr>" for t
    using wf assms(2) by (simp add: inflight_wf_def wf_publish_fits needs_id_def)
  have 2: "safe s (snd (case s of (rt, w) \<Rightarrow>
      let inflight = \<lparr>im_packet = ?p\<lparr>pp_dup := True\<rparr>, im_timestamp = w_instant w, im_retry_count = 0, im_qos2_state = st\<rparr>
      in (Ok (), (rt\<lparr>rt_inflight_queue := rt_inflight_queue rt @ [inflight]\<rparr>, w))))" for s :: "('st, 'q, 'k, 'w, 'r) sstate"
    using kept by (cases s) (auto intro!: safe_runtime simp: state_wf_def runtime_wf_def Let_def)
  have "safe (rt1, w) (snd (qmark (send_packet (Publish ?p) wr E (rt1, w)) (\<lambda>_ (rt, w).
      let inflight = \<lparr>im_packet = ?p\<lparr>pp_dup := True\<rparr>, im_timestamp = w_instant w, im_retry_count = 0, im_qos2_state = st\<rparr>
      in (Ok (), (rt\<lparr>rt_inflight_queue := rt_inflight_queue rt @ [inflight]\<rparr>, w)))))"
    using wf by (intro safe_then [OF safe_send_packet 2]) simp_all
  from safe_trans [OF 1 this] show ?thesis
    using s pid by (simp add: send_new_message_def Let_def)
qed

lemma safe_on_message:
  assumes "message_wf m"
  shows "safe s (snd (on_message m wr E s))"
proof -
  obtain p where p: "m = Publish p" "deliverable p"
    using assms by (auto simp: message_wf_def)
  have "safe s (snd (send_packet (Publish p) wr E s))" if "\<not> needs_id p"
    using p(2) that by (intro safe_send_packet) (simp_all add: deliverable_fits)
  then show ?thesis
    using p safe_send_new_message [OF p(2)]
    by (auto simp: on_message_def needs_id_def split: QoS.split)
qed

lemma safe_send_then:
  "outbound p \<Longrightarrow> wf_packet p \<Longrightarrow> safe s (snd (qmark (send_packet p wr E s) (\<lambda>_ s. (Ok b, s))))"
  by (rule safe_then [OF safe_send_packet]) (simp_all only: snd_conv safe_refl)

lemma safe_on_puback: "safe s (snd (on_puback p E s))"
  by (cases s) (auto simp: on_puback_def retain_other_def runtime_wf_def state_wf_def intro!: safe_runtime)

lemma safe_on_pubcomp: "safe s (snd (on_pubcomp p E s))"
  by (cases s) (auto simp: on_pubcomp_def retain_other_def runtime_wf_def state_wf_def intro!: safe_runtime)

lemma safe_on_pubrec: "safe s (snd (on_pubrec p wr E s))"
proof -
  obtain rt w where s: "s = (rt, w)"
    by (cases s)
  have "safe (rt, w) (rt\<lparr>rt_inflight_queue :=
      mark_pubrec (prec_packet_id p) (w_instant w) (rt_inflight_queue rt)\<rparr>, w)"
    using mark_pubrec_wf by (intro safe_runtime) (auto simp: runtime_wf_def state_wf_def)
  from safe_trans [OF this safe_send_then [of "PubRel \<lparr>prel_packet_id = prec_packet_id p\<rparr>"]] show ?thesis
    using s by (simp add: on_pubrec_def Let_def)
qed

lemma safe_on_pubrel: "safe s (snd (on_pubrel p wr E s))"
  unfolding on_pubrel_def
proof (rule safe_then [OF safe_send_packet])
  fix s :: "('st, 'q, 'k, 'w, 'r) sstate"
  obtain rt w where s: "s = (rt, w)"
    by (cases s)
  let ?i = "prel_packet_id p"
  let ?rt = "rt\<lparr>rt_inbound_qos2 := AList.delete ?i (rt_inbound_qos2 rt)\<rparr>"
  have "safe (rt, w) (snd (route_authorized (rq_packet m) E (?rt, w)))"
    if "map_of (rt_inbound_qos2 rt) ?i = Some m" for m
  proof (cases "runtime_wf rt")
    case True
    have "safe (rt, w) (?rt, w)"
      using True inbound_wf_delete by (intro safe_runtime) (simp add: runtime_wf_def)
    moreover have "wf_publish (rq_packet m)"
      using True that inbound_wf_lookup by (auto simp: runtime_wf_def)
    ultimately show ?thesis
      by (rule safe_trans [OF _ safe_route_authorized])
  qed (simp add: safe_def state_wf_def)
  then show "safe s (snd (case s of (rt, w) \<Rightarrow>
      case map_of (rt_inbound_qos2 rt) (prel_packet_id p) of
        None \<Rightarrow> (Ok True, (rt, w))
      | Some received \<Rightarrow> route_authorized (rq_packet received) E
          (rt\<lparr>rt_inbound_qos2 := AList.delete (prel_packet_id p) (rt_inbound_qos2 rt)\<rparr>, w)))"
    using s by (simp add: safe_refl split: option.split)
qed simp_all

lemma safe_on_publish:
  assumes "wf_publish p"
  shows "safe s (snd (on_publish p wr E s))"
proof -
  obtain rt w where s: "s = (rt, w)"
    by (cases s)
  have qos1: "safe s (snd (qmark (send_packet (PubAck q) wr E s) (\<lambda>_ s.
      if pp_dup p then (Ok True, s) else route_authorized p E s)))" for q
    by (rule safe_then [OF safe_send_packet])
      (simp_all add: safe_refl safe_route_authorized assms del: split_paired_All)
  have qos2: "safe (rt, w)
      (snd (qmark (send_packet (PubRec q) wr E (rt\<lparr>rt_inbound_qos2 :=
        AList.update i \<lparr>rq_packet = p\<rparr> (rt_inbound_qos2 rt)\<rparr>, w)) (\<lambda>_ s. (Ok True, s))))"
    if "pp_qos p = ExactlyOnce" for q i
    using inbound_wf_update [of _ "\<lparr>rq_packet = p\<rparr>" i] assms that
    by (intro safe_trans [OF safe_runtime safe_send_then]) (simp_all add: state_wf_def runtime_wf_def)
  show ?thesis
  proof (cases "pp_qos p")
    case AtMostOnce
    then show ?thesis
      using s safe_route_authorized [OF assms] by (simp add: on_publish_def)
  next
    case AtLeastOnce
    then show ?thesis
      using s qos1 by (cases "pp_packet_id p") (simp_all add: on_publish_def safe_refl)
  next
    case ExactlyOnce
    then show ?thesis
      using s qos2
      by (cases "pp_packet_id p")
        (simp_all add: on_publish_def safe_refl Let_def safe_send_then)
  qed
qed

subsection \<open>Subscribing\<close>

lemma safe_send_retained: "\<forall>p \<in> set ps. deliverable p \<Longrightarrow> safe s (snd (send_retained ps E s))"
proof (induction ps arbitrary: s)
  case (Cons p ps)
  then show ?case
    unfolding send_retained.simps by (intro safe_then [OF safe_mailbox_send]) simp_all
qed (simp add: safe_refl)

lemma retained_found_wf:
  assumes "storage_wf st" "p \<in> set (retained_found (e_storage E) st fq)"
  shows "deliverable p"
proof -
  have inv: "st_inv st"
    using assms(1) by (simp add: storage_wf_def)
  obtain f q where fq: "fq = (f, q)"
    by (cases fq)
  have "\<exists>m. p = retained_packet q m \<and> m \<in> ran (retained st)"
  proof (cases "has_wildcards f")
    case True
    then show ?thesis
      using assms(2) fq load_all_retained [OF inv]
      by (auto simp: retained_found_def all_retained_messages_def split: if_splits sum.splits)
  next
    case False
    then obtain m where "load_retained_message (e_storage E) f st = Inr (Some m)" "p = retained_packet q m"
      using assms(2) fq by (cases "load_retained_message (e_storage E) f st")
        (auto simp: retained_found_def split: if_splits option.splits)
    then show ?thesis
      using load_retained [OF inv, of f "Some m"] ranI [of "retained st" f m] by metis
  qed
  then show ?thesis
    using assms(1) retained_packet_deliverable by (auto simp: storage_wf_def ran_def)
qed

lemma Broker_subscribe_found:
  assumes "Broker_subscribe E sid m fs w = ((codes, found), w')"
  shows "found = concat (map (retained_found (e_storage E) (w_storage w)) fs)" "w_storage w' = w_storage w"
    "w_mail w' = w_mail w" "w_out w' = w_out w"
  using assms Router_subscribe_retained [of "e_storage E" "w_storage w" sid m fs "b_router (w_broker w)"]
  by (auto simp: Broker_subscribe_def split: prod.splits)

lemma rebuild_codes_length:
  "rebuild_codes den codes n i k acc = Ok ret \<Longrightarrow> length ret = length acc + n"
  by (induction den codes n i k acc rule: rebuild_codes.induct) (auto split: if_splits)

lemma subscribe_filters_fit:
  assumes "wf_packet (Subscribe p)"
  shows "length (sp_topic_filters p) + 2 \<le> max_remaining_length"
proof -
  have "length fs \<le> length (concat (map (\<lambda>(f, q). str_field f @ [qos_u8 q]) fs))" for fs
    by (induction fs) auto
  from this [of "sp_topic_filters p"] show ?thesis
    using assms by (simp add: mqtt_subscribe_body_def)
qed

lemma subscribe_found_wf:
  assumes "(if fs \<noteq> [] then Broker_subscribe E (rt_id rt) (rt_message_tx rt) fs w else (([], []), w)) = ((codes, ms), w1)"
    and "state_wf (rt, w)"
  shows "\<forall>p \<in> set ms. deliverable p"
proof -
  have "ms = (if fs = [] then [] else concat (map (retained_found (e_storage E) (w_storage w)) fs))"
    using assms(1) Broker_subscribe_found(1) [of "rt_id rt" "rt_message_tx rt" fs w codes ms w1]
    by (auto split: if_splits)
  then show ?thesis
    using retained_found_wf [of "w_storage w"] assms(2) by (auto simp: state_wf_def world_wf_def)
qed

lemma safe_on_subscribe:
  assumes "wf_packet (Subscribe p)"
  shows "safe s (snd (on_subscribe p wr E s))"
proof -
  obtain rt w where s: "s = (rt, w)"
    by (cases s)
  note n = subscribe_filters_fit [OF assms]
  show ?thesis
  proof (cases "check_filters (e_authorizer E) (client_name rt) 0 (sp_topic_filters p) [] []")
    case (Ok a)
    obtain fs den where a: "a = (fs, den)"
      by (cases a)
    obtain codes ms w1 where sub:
      "(if fs \<noteq> [] then Broker_subscribe E (rt_id rt) (rt_message_tx rt) fs w else (([], []), w)) = ((codes, ms), w1)"
      by (metis prod.exhaust)
    have step: "safe (rt, w) (rt, w1)"
      using sub Broker_subscribe_found by (intro safe_world_plain) (auto split: if_splits)
    note found = subscribe_found_wf [OF sub]
    let ?answer = "\<lambda>codes s. qmark (send_packet (SubAck \<lparr>sa_packet_id = sp_packet_id p, sa_return_codes = codes\<rparr>)
        wr E s) (\<lambda>_ s. qmark (send_retained ms E s) (\<lambda>_ s. (Ok True, s)))"
    have answer: "safe s (snd (?answer ret s))" if "state_wf (rt, w)" "length ret = length (sp_topic_filters p)" for s ret
    proof (rule safe_then [OF safe_send_packet])
      show "safe s (snd (qmark (send_retained ms E s) (\<lambda>_ s. (Ok True, s))))" for s
        by (rule safe_then [OF safe_send_retained [OF found]]) (simp_all only: that snd_conv safe_refl)
    qed (use n that in simp_all)
    have "safe (rt, w) (snd (qmark (rebuild_codes den codes (length (sp_topic_filters p)) 0 0 [], (rt, w1)) ?answer))"
      if "state_wf (rt, w)"
    proof (rule safe_qmark)
      fix ret
      assume "fst (rebuild_codes den codes (length (sp_topic_filters p)) 0 0 [], (rt, w1)) = Ok ret"
      then have "length ret = length (sp_topic_filters p)"
        using rebuild_codes_length [of den codes "length (sp_topic_filters p)" 0 0 "[]" ret] by simp
      from answer [OF that this] show "safe (snd (rebuild_codes den codes (length (sp_topic_filters p)) 0 0 [], (rt, w1)))
          (snd (?answer ret (snd (rebuild_codes den codes (length (sp_topic_filters p)) 0 0 [], (rt, w1)))))"
        unfolding snd_conv .
    qed (simp add: step)
    then have "safe (rt, w) (snd (qmark (rebuild_codes den codes (length (sp_topic_filters p)) 0 0 [], (rt, w1)) ?answer))"
      by (cases "state_wf (rt, w)") (simp_all add: safe_def)
    then show ?thesis
      using s Ok a sub by (simp add: on_subscribe_def)
  qed (simp_all add: s on_subscribe_def safe_refl)
qed

lemma safe_on_unsubscribe: "safe s (snd (on_unsubscribe p wr E s))"
proof -
  obtain rt w where s: "s = (rt, w)"
    by (cases s)
  have "safe (rt, w) (rt, Broker_unsubscribe (rt_id rt) (up_topic_filters p) w)"
    by (rule safe_world_plain) (simp_all add: Broker_unsubscribe_def)
  from safe_trans [OF this safe_send_then [of "UnsubAck \<lparr>ua_packet_id = up_packet_id p\<rparr>"]] show ?thesis
    using s by (simp add: on_unsubscribe_def Let_def)
qed

lemma safe_on_packet:
  assumes "wf_packet pack"
  shows "safe s (snd (on_packet pack wr E s))"
proof -
  have "safe s (snd (on_pingreq wr E s))"
    unfolding on_pingreq_def by (rule safe_send_then) simp_all
  moreover have "safe s (snd (on_disconnect E s))"
    by (cases s) (auto simp: on_disconnect_def runtime_wf_def state_wf_def intro!: safe_runtime)
  ultimately show ?thesis
    using assms safe_on_publish safe_on_puback safe_on_pubrec safe_on_pubrel safe_on_pubcomp safe_on_subscribe
      safe_on_unsubscribe
    by (cases pack) (simp_all add: on_packet_def safe_refl)
qed

subsection \<open>Timers, the will and persistence\<close>

lemma safe_resend_publishes: "\<forall>p \<in> set ps. deliverable p \<Longrightarrow> safe s (snd (resend_publishes ps E s))"
proof (induction ps arbitrary: s)
  case (Cons p ps)
  then show ?case
    unfolding resend_publishes.simps by (intro safe_then [OF safe_mailbox_send]) simp_all
qed (simp add: safe_refl)

lemma safe_resend_pubrels: "safe s (snd (resend_pubrels ids wr E s))"
proof (induction ids arbitrary: s)
  case (Cons i ids)
  show ?case
    unfolding resend_pubrels.simps by (rule safe_then [OF safe_send_packet Cons.IH]) simp_all
qed (simp add: safe_refl)

lemma safe_on_retransmit: "safe s (snd (on_retransmit wr E s))"
proof -
  obtain rt w where s: "s = (rt, w)"
    by (cases s)
  obtain kept ps ids where scan: "retransmit_scan (get_retransmission_interval_ms (b_config (w_broker w)))
      (cfg_max_retransmission_limit (b_config (w_broker w))) (w_instant w) (rt_inflight_queue rt) = (kept, ps, ids)"
    by (metis prod.exhaust)
  have "safe (rt, w) (snd (qmark (resend_publishes ps E (rt\<lparr>rt_inflight_queue := kept\<rparr>, w))
      (\<lambda>_ s. resend_pubrels ids wr E s)))" if "runtime_wf rt"
  proof -
    have wf: "\<forall>m \<in> set kept. inflight_wf m" "\<forall>p \<in> set ps. deliverable p"
      using retransmit_scan_wf [OF scan] that by (simp_all add: runtime_wf_def)
    have "safe (rt, w) (rt\<lparr>rt_inflight_queue := kept\<rparr>, w)"
      using that wf(1) by (intro safe_runtime) (simp add: runtime_wf_def)
    then show ?thesis
      by (rule safe_trans) (rule safe_then [OF safe_resend_publishes [OF wf(2)] safe_resend_pubrels])
  qed
  then have "safe (rt, w) (snd (qmark (resend_publishes ps E (rt\<lparr>rt_inflight_queue := kept\<rparr>, w))
      (\<lambda>_ s. resend_pubrels ids wr E s)))"
    by (cases "runtime_wf rt") (simp_all add: safe_def state_wf_def)
  then show ?thesis
    using s scan by (simp add: on_retransmit_def safe_refl Let_def)
qed

lemma safe_publish_will: "safe s (snd (publish_will E s))"
proof -
  obtain rt w where s: "s = (rt, w)"
    by (cases s)
  have "safe (rt, w) (snd (session_route (will_packet m) E (rt\<lparr>rt_will_message := None\<rparr>, w)))"
    if "rt_will_message rt = Some m" for m
  proof (cases "runtime_wf rt")
    case True
    then have "wf_publish (will_packet m)"
      using that will_wf_fits by (simp add: runtime_wf_def wf_publish_fits will_packet_def id_bytes_def)
    moreover have "safe (rt, w) (rt\<lparr>rt_will_message := None\<rparr>, w)"
      using True by (intro safe_runtime) (simp add: runtime_wf_def)
    ultimately show ?thesis
      by (rule safe_trans [OF _ safe_route, rotated])
  qed (simp add: safe_def state_wf_def)
  then show ?thesis
    using s by (simp add: publish_will_def safe_refl split: option.split)
qed

lemma saved_session_wf:
  assumes "stores v ses subs (map (persist_inflight cid now) q) (map (persist_inbound cid now) al)"
    and "ps_will_message ses = map_option persist_will (rt_will_message rt)"
    and "runtime_wf rt" "q = rt_inflight_queue rt" "al = rt_inbound_qos2 rt"
  shows "saved_wf v"
proof -
  have sets: "set (sv_inflight v) = persist_inflight cid now ` set q" "set (sv_inbound v) = persist_inbound cid now ` set al"
    using assms(1) unfolding stores_def by (metis set_map set_mset_mset)+
  have "ps_will_message (sv_session v) = map_option persist_will (rt_will_message rt)"
    using assms(1,2) same_session_fields(4) [of "sv_session v" ses] by (simp add: stores_def)
  moreover have "fits (pi_topic (persist_inflight cid now m)) (pi_payload (persist_inflight cid now m)) 2
      \<and> pi_qos (persist_inflight cid now m) \<noteq> StoredAtMostOnce" if "m \<in> set q" for m
  proof -
    have "inflight_wf m"
      using that assms(3,4) by (simp add: runtime_wf_def)
    then show ?thesis
      by (cases "pp_qos (im_packet m)") (simp_all add: inflight_wf_def wf_publish_fits id_bytes_def persist_inflight_def)
  qed
  moreover have "fits (pb_topic (persist_inbound cid now x)) (pb_payload (persist_inbound cid now x)) 2" if "x \<in> set al" for x
  proof -
    have "wf_publish (rq_packet (snd x))" "pp_qos (rq_packet (snd x)) = ExactlyOnce"
      using that assms(3,5) unfolding runtime_wf_def inbound_wf_def by auto
    then show ?thesis
      by (simp add: wf_publish_fits id_bytes_def persist_inbound_def case_prod_beta)
  qed
  ultimately show ?thesis
    using assms(3) sets unfolding saved_wf_def runtime_wf_def by (auto simp: persist_will_def)
qed

lemma safe_save_to_storage: "safe s (save_to_storage E s)"
proof -
  obtain rt w where s: "s = (rt, w)"
    by (cases s)
  show ?thesis
  proof (cases "rt_client_id rt")
    case (Some cid)
    define ses where "ses = \<lparr>ps_client_id = cid, ps_next_packet_id = rt_next_packet_id rt,
      ps_keep_alive = rt_keep_alive rt, ps_will_message = map_option persist_will (rt_will_message rt),
      ps_created_at = w_utc w, ps_updated_at = w_utc w\<rparr>"
    define subs where "subs = map (persist_subscription cid) (Broker_get_subscriptions (rt_id rt) w)"
    define infl where "infl = map (persist_inflight cid (w_utc w)) (rt_inflight_queue rt)"
    define inb where "inb = map (persist_inbound cid (w_utc w)) (rt_inbound_qos2 rt)"
    obtain res st where call: "save_session (e_storage E) ses subs infl inb (w_storage w) = (res, st)"
      by (rule prod.exhaust)
    have own: "owned ses subs infl inb"
      by (auto simp: owned_def ses_def subs_def infl_def inb_def persist_subscription_def persist_inflight_def
          persist_inbound_def)
    have "storage_wf st" if "state_wf (rt, w)"
    proof -
      have wf: "storage_wf (w_storage w)" "st_inv (w_storage w)" "runtime_wf rt"
        using that by (simp_all add: state_wf_def world_wf_def storage_wf_def)
      show ?thesis
      proof (cases res)
        case (Inl e)
        then show ?thesis
          using save_session_fail [OF wf(2)] call wf(1) unfolding storage_wf_def by metis
      next
        case (Inr u)
        then have "save_session (e_storage E) ses subs infl inb (w_storage w) = (Inr (), st)"
          using call by simp
        from save_session_ok [OF wf(2) own this] obtain v where v: "st_inv st" "retained st = retained (w_storage w)"
          "saved st = (saved (w_storage w))(ps_client_id ses \<mapsto> v)" "stores v ses subs infl inb"
          by blast
        have "saved_wf v"
          using saved_session_wf [OF v(4) [unfolded infl_def inb_def] _ wf(3)] by (simp add: ses_def)
        then show ?thesis
          using v wf(1) by (simp add: storage_wf_def)
      qed
    qed
    from safe_storage [OF this] show ?thesis
      using s Some call by (simp add: save_to_storage_def ses_def subs_def infl_def inb_def Let_def)
  qed (simp add: s save_to_storage_def safe_refl)
qed

lemma restored_wf:
  assumes "runtime_wf rt" "\<forall>m \<in> set infl. fits (pi_topic m) (pi_payload m) 2 \<and> pi_qos m \<noteq> StoredAtMostOnce"
    and "\<forall>m \<in> set inb. fits (pb_topic m) (pb_payload m) 2"
    and "\<forall>m. ps_will_message ps = Some m \<longrightarrow> will_wf (pw_topic m) (pw_payload m)"
  shows "runtime_wf (restored now ps infl inb rt)"
proof -
  have one: "wf_publish (rq_packet (restore_inbound m)) \<and> pp_qos (rq_packet (restore_inbound m)) = ExactlyOnce"
    if "fits (pb_topic m) (pb_payload m) 2" for m
    using that by (simp add: restore_inbound_def wf_publish_fits id_bytes_def)
  have "inbound_wf (fold (\<lambda>m. AList.update (pb_packet_id m) (restore_inbound m)) inb al)" if "inbound_wf al" for al
    using assms(3) that
  proof (induction inb arbitrary: al)
    case (Cons m inb)
    then show ?case
      using one [of m] by (simp add: inbound_wf_update)
  qed simp
  moreover have "inflight_wf (restore_inflight now m)"
    if "fits (pi_topic m) (pi_payload m) 2 \<and> pi_qos m \<noteq> StoredAtMostOnce" for m
    using that by (cases "pi_qos m") (simp_all add: restore_inflight_def inflight_wf_def wf_publish_fits id_bytes_def)
  ultimately show ?thesis
    using assms(1,2,4) by (auto simp: runtime_wf_def restored_def restore_will_def)
qed

lemma delete_session_wf:
  assumes "storage_wf st"
  shows "storage_wf (snd (delete_session (e_storage E) cid st))"
proof -
  obtain res st' where call: "delete_session (e_storage E) cid st = (res, st')"
    by (rule prod.exhaust)
  have inv: "st_inv st"
    using assms by (simp add: storage_wf_def)
  show ?thesis
    using delete_session_fail [OF inv, of cid _ st'] delete_session_ok [OF inv, of cid st'] call assms
    by (cases res) (simp_all add: storage_wf_def)
qed

lemma safe_delete_session:
  "safe (rt, w) (rt, w\<lparr>w_storage := snd (delete_session (e_storage E) cid (w_storage w))\<rparr>)"
  by (rule safe_storage) (simp add: state_wf_def world_wf_def delete_session_wf)

lemma safe_restore_from_storage: "safe s (snd (restore_from_storage cid E s))"
proof -
  obtain rt w where s: "s = (rt, w)"
    by (cases s)
  consider (none) "restore_from_storage cid E (rt, w) = (False, (rt, w))"
    | (some) ps where "load_session (e_storage E) cid (w_storage w) = Inr (Some ps)"
    by (cases "load_session (e_storage E) cid (w_storage w)";
        cases "projr (load_session (e_storage E) cid (w_storage w))")
      (simp_all add: restore_from_storage_def)
  then show ?thesis
  proof cases
    case some
    let ?infl = "or_empty (load_inflight_messages (e_storage E) cid (w_storage w))"
    let ?inb = "or_empty (load_inbound_qos2_messages (e_storage E) cid (w_storage w))"
    let ?rt = "restored (w_instant w) ps ?infl ?inb rt"
    have "runtime_wf ?rt" if wf: "state_wf (rt, w)"
    proof -
      have st: "st_inv (w_storage w)"
        using wf by (simp add: state_wf_def world_wf_def storage_wf_def)
      obtain v where v: "saved (w_storage w) cid = Some v" "ps = sv_session v"
        using load_session_saved [OF st some] by (cases "saved (w_storage w) cid") auto
      then have "saved_wf v"
        using wf by (simp add: state_wf_def world_wf_def storage_wf_def)
      moreover have "set ?infl \<subseteq> set (sv_inflight v)"
        using load_inflight_saved [OF st, of cid, THEN mset_eq_setD] v(1)
        by (cases "load_inflight_messages (e_storage E) cid (w_storage w)") (simp_all add: or_empty_def)
      moreover have "set ?inb \<subseteq> set (sv_inbound v)"
        using load_inbound_saved [OF st, of cid, THEN mset_eq_setD] v(1)
        by (cases "load_inbound_qos2_messages (e_storage E) cid (w_storage w)") (simp_all add: or_empty_def)
      ultimately show ?thesis
        using wf v(2) by (intro restored_wf) (auto simp: state_wf_def saved_wf_def)
    qed
    then have 1: "safe (rt, w) (?rt, w)"
      by (rule safe_runtime)
    have 2: "safe (?rt, w) (?rt, if fs = [] then w else snd (Broker_subscribe E (rt_id rt) (rt_message_tx rt) fs w))" for fs
      by (rule safe_world_plain) (simp_all add: Broker_subscribe_def split: prod.split)
    show ?thesis
      unfolding s restore_from_storage_eq [OF some refl refl] snd_conv
      by (rule safe_trans [OF safe_trans [OF 1 2] safe_delete_session])
  qed (simp add: s safe_refl)
qed

subsection \<open>Connecting, taking over, and the main loop\<close>

lemma safe_on_takeover: "safe s (snd (on_takeover str c k E s))"
  unfolding on_takeover_def Let_def
proof (rule safe_then [OF safe_send_packet])
  fix s :: "('st, 'q, 'k, 'w, 'r) sstate"
  obtain rt w where s: "s = (rt, w)"
    by (cases s)
  let ?rt = "rt\<lparr>rt_clean_session := c, rt_keep_alive := k\<rparr>"
  have 1: "safe (rt, w) (?rt, w)"
    by (rule safe_runtime) (auto simp: state_wf_def runtime_wf_def)
  have 2: "safe (?rt, w) (?rt, Broker_unsubscribe_all (rt_id rt) w)"
    by (rule safe_world_plain) (simp_all add: Broker_unsubscribe_all_def)
  have 3: "safe (?rt, w') (?rt\<lparr>rt_inflight_queue := []\<rparr>, w')" for w'
    by (rule safe_runtime) (auto simp: state_wf_def runtime_wf_def)
  note steps = 1 safe_trans [OF safe_trans [OF 1 2] 3] safe_trans [OF safe_trans [OF safe_trans [OF 1 2] safe_delete_session] 3]
  show "safe s (snd (case s of (rt, w) \<Rightarrow>
      if c then (Ok (), (rt\<lparr>rt_clean_session := c, rt_keep_alive := k\<rparr>)\<lparr>rt_inflight_queue := []\<rparr>,
        case rt_client_id (rt\<lparr>rt_clean_session := c, rt_keep_alive := k\<rparr>) of
          None \<Rightarrow> Broker_unsubscribe_all (rt_id (rt\<lparr>rt_clean_session := c, rt_keep_alive := k\<rparr>)) w
        | Some client_id \<Rightarrow> Broker_unsubscribe_all (rt_id (rt\<lparr>rt_clean_session := c, rt_keep_alive := k\<rparr>)) w
            \<lparr>w_storage := snd (delete_session (e_storage E) client_id (w_storage
              (Broker_unsubscribe_all (rt_id (rt\<lparr>rt_clean_session := c, rt_keep_alive := k\<rparr>)) w)))\<rparr>)
      else (Ok (), rt\<lparr>rt_clean_session := c, rt_keep_alive := k\<rparr>, w)))"
    using s steps by (cases c; cases "rt_client_id rt") simp_all
qed simp_all

lemma safe_accept_connect: "safe s (snd (accept_connect str b E s))"
  unfolding accept_connect_def
proof (rule safe_then [OF safe_send_packet])
  fix s :: "('st, 'q, 'k, 'w, 'r) sstate"
  show "safe s (snd (case s of (rt, w) \<Rightarrow> (Ok Processing, rt\<lparr>rt_stream := Some str\<rparr>, w)))"
    by (cases s) (auto simp: state_wf_def runtime_wf_def intro!: safe_runtime)
qed simp_all

lemma safe_refuse: "safe s (snd (refuse str c E s))"
  unfolding refuse_def send_connack_error_def by (rule safe_send_then) simp_all

lemma safe_connect_identified: "safe s (snd (connect_identified connect str E s))"
proof -
  obtain rt w where s: "s = (rt, w)"
    by (cases s)
  let ?rt = "rt\<lparr>rt_client_id := Some (cp_client_id connect)\<rparr>"
  have 1: "safe (rt, w) (?rt, w)"
    by (rule safe_runtime) (auto simp: state_wf_def runtime_wf_def)
  obtain x b where coll:
    "Broker_has_collision (cp_client_id connect) (rt_takeover rt) (w_broker w) = (x, b)"
    by (rule prod.exhaust)
  have 2: "safe (?rt, w) (?rt, w\<lparr>w_broker := b, w_cmd := k\<rparr>)" "safe (?rt, w) (?rt, w\<lparr>w_broker := b\<rparr>)" for k
    by (simp_all add: safe_world_plain)
  note keep = safe_trans [OF 1 2(1)] safe_trans [OF 1 2(2)]
  show ?thesis
  proof (cases x)
    case None
    obtain p s2 where rest: "restore_from_storage (cp_client_id connect) E (?rt, w\<lparr>w_broker := b\<rparr>) = (p, s2)"
      by (rule prod.exhaust)
    have "safe (?rt, w\<lparr>w_broker := b\<rparr>) s2"
      using safe_restore_from_storage [of "(?rt, w\<lparr>w_broker := b\<rparr>)" "cp_client_id connect"] rest by simp
    note restore = safe_trans [OF safe_trans [OF keep(2) this] safe_accept_connect]
    note clean = safe_trans [OF safe_trans [OF keep(2) safe_delete_session [of _ _ "cp_client_id connect"]]
        safe_accept_connect]
    show ?thesis
      using s coll None rest restore clean by (simp add: connect_identified_def Let_def)
  next
    case (Some takeover)
    obtain res k where run: "run_takeover (e_cmd E) takeover str (cp_clean_session connect)
        (cp_keep_alive connect) (w_cmd w) = (res, k)"
      by (rule prod.exhaust)
    show ?thesis
      using s coll Some run keep(1) by (cases res) (simp_all add: connect_identified_def Let_def)
  qed
qed

lemma safe_on_connect:
  assumes "wf_connect connect"
  shows "safe s (snd (on_connect connect str E s))"
proof -
  obtain rt w where s: "s = (rt, w)"
    by (cases s)
  let ?rt = "connect_will connect (rt\<lparr>rt_clean_session := cp_clean_session connect,
    rt_keep_alive := cp_keep_alive connect\<rparr>)"
  have 1: "safe (rt, w) (?rt, w)"
    using assms by (intro safe_runtime)
      (auto simp: state_wf_def runtime_wf_def connect_will_def wf_connect_def will_wf_def split: option.split)
  note steps = safe_trans [OF 1 safe_connect_identified] safe_trans [OF 1 safe_accept_connect]
  show ?thesis
    using s steps safe_refuse
    by (simp add: on_connect_def Let_def safe_refl split: sum.split outcome.split AuthError.split)
qed

lemma safe_catch_err: "safe s (snd x) \<Longrightarrow> safe s (snd (catch_err d x))"
  by (cases "(d, x)" rule: catch_err.cases) simp_all

lemma safe_continue_if: "safe s (snd x) \<Longrightarrow> safe s (snd (continue_if x))"
  by (cases x rule: continue_if.cases) (simp_all add: break_off_def)

lemma safe_decode_from: "decode_from str E w = (pack, w') \<Longrightarrow> safe (rt, w) (rt, w')"
  by (auto simp: decode_from_def intro!: safe_world_plain split: prod.splits)

lemma decode_from_wf: "decode_from str E w = (Ok pack, w') \<Longrightarrow> wf_packet pack"
  using packet_decode_wf by (auto simp: decode_from_def split: prod.splits)

lemma safe_drop_decode: "safe (rt, w) (rt, drop_decode polled str E w)"
proof -
  obtain pack w' where call: "decode_from str E w = (pack, w')"
    by (rule prod.exhaust)
  then show ?thesis
    using safe_decode_from [OF call] by (cases pack) (simp_all add: drop_decode_def safe_refl)
qed

lemma safe_recv_command: "safe s (snd (recv_command E s))"
  by (cases s) (auto simp: recv_command_def intro!: safe_world_plain split: prod.split outcome.split)

lemma recv_message_wf:
  assumes "recv_message E (rt, w) = (res, s')" "mail_wf (w_mail w)"
  shows "(\<exists>q. s' = (rt, w\<lparr>w_mail := q\<rparr>) \<and> mail_wf q) \<and> (\<forall>m. res = Ok m \<longrightarrow> message_wf m)"
proof (cases "queue (w_mail w) (rt_message_rx rt)")
  case Nil
  then show ?thesis
    using mail.recv_wait [OF Nil] assms
    by (auto simp: recv_message_def mail_wf_def split: prod.splits)
next
  case (Cons m ms)
  have "message_wf m" "\<forall>m \<in> set ms. message_wf m"
    using assms(2) Cons unfolding mail_wf_def by (metis list.set_intros)+
  moreover obtain q where "ch_recv (e_mail E) (rt_message_rx rt) (w_mail w) = (Ok (Some m), q)"
      "queue q = (queue (w_mail w))(rt_message_rx rt := ms)"
    using mail.recv_ready [OF Cons] by (metis prod.collapse)
  moreover have "mail_wf q"
    using assms(2) calculation by (simp add: mail_wf_def)
  ultimately show ?thesis
    using assms(1) by (auto simp: recv_message_def)
qed

lemma safe_message_event:
  "safe s (snd (qmark (recv_message E s) (\<lambda>message s.
      continue_if (qmark (on_message message str E s) (\<lambda>_ s. (Ok True, s))))))"
proof -
  obtain rt w where s: "s = (rt, w)"
    by (cases s)
  obtain res s1 where recv: "recv_message E (rt, w) = (res, s1)"
    by (rule prod.exhaust)
  have handled: "safe s (snd (continue_if (qmark (on_message m str E s) (\<lambda>_ s. (Ok True, s)))))" if "message_wf m" for m s
    by (intro safe_continue_if safe_then [OF safe_on_message [OF that]]) (simp only: snd_conv safe_refl)
  have "safe (rt, w) (snd (qmark (recv_message E (rt, w)) (\<lambda>message s.
      continue_if (qmark (on_message message str E s) (\<lambda>_ s. (Ok True, s))))))" if "state_wf (rt, w)"
  proof (rule safe_qmark)
    note wf = recv_message_wf [OF recv]
    show "safe (rt, w) (snd (recv_message E (rt, w)))"
      using wf that recv by (intro safe_silent) (auto simp: state_wf_def world_wf_def)
    show "safe (snd (recv_message E (rt, w))) (snd (continue_if (qmark (on_message m str E (snd (recv_message E (rt, w))))
        (\<lambda>_ s. (Ok True, s)))))" if "fst (recv_message E (rt, w)) = Ok m" for m
      using wf that recv \<open>state_wf (rt, w)\<close> by (intro handled) (auto simp: state_wf_def world_wf_def)
  qed
  then show ?thesis
    unfolding s by (cases "state_wf (rt, w)") (simp_all add: safe_def)
qed

lemma safe_do_waiting: "safe s (snd (do_waiting ev E s))"
proof -
  obtain rt w where s: "s = (rt, w)"
    by (cases s)
  show ?thesis
  proof (cases "rt_stream rt")
    case (Some str)
    let ?rt = "rt\<lparr>rt_stream := None\<rparr>"
    have 1: "safe (rt, w) (?rt, w)"
      by (rule safe_runtime) (auto simp: state_wf_def runtime_wf_def)
    obtain pack w' where call: "decode_from str E w = (pack, w')"
      by (rule prod.exhaust)
    note 2 = safe_trans [OF 1 safe_decode_from [OF call]]
    have conn: "safe (rt, w) (snd (catch_err Cleanup (on_connect c str E (?rt, w'))))" if "pack = Ok (Connect c)" for c
      using decode_from_wf [of str w "Connect c" w'] call that
      by (intro safe_trans [OF 2 safe_catch_err [OF safe_on_connect]]) simp
    have "safe (?rt, drop_decode polled str E w)
        (snd (qmark (recv_command E (?rt, drop_decode polled str E w)) (\<lambda>_ s. (Ok Cleanup, s))))" for polled
      by (rule safe_then [OF safe_recv_command]) (simp only: snd_conv safe_refl)
    note cmd = safe_trans [OF safe_trans [OF 1 safe_drop_decode] this]
    show ?thesis
      using s Some 1 2 call conn cmd
      by (simp add: do_waiting_def Let_def split: loop_event.split outcome.split Packet.split)
  qed (simp add: s do_waiting_def safe_refl)
qed

lemma safe_start_processing: "safe s (snd (start_processing s))"
  by (cases s)
    (auto simp: start_processing_def runtime_wf_def state_wf_def safe_refl intro!: safe_runtime split: option.split)

lemma safe_after_takeover:
  "safe s (snd (case on_takeover str c k E s of
      (Ok _, rt, w) \<Rightarrow> (Ok a, rt\<lparr>rt_stream := Some str\<rparr>, w)
    | (Err e, s) \<Rightarrow> (Ok b, s) | (Panic, s) \<Rightarrow> (Panic, s) | (Pending, s) \<Rightarrow> (Pending, s)))"
proof -
  obtain res rt1 w1 where call: "on_takeover str c k E s = (res, (rt1, w1))"
    by (metis prod.exhaust)
  then have 1: "safe s (rt1, w1)"
    using safe_on_takeover [of s str c k] by simp
  have "safe (rt1, w1) (rt1\<lparr>rt_stream := Some str\<rparr>, w1)"
    by (rule safe_runtime) (auto simp: state_wf_def runtime_wf_def)
  from 1 safe_trans [OF 1 this] show ?thesis
    using call by (cases res) simp_all
qed

lemma safe_processing_takeover: "safe s (snd (processing_takeover params str E s))"
  unfolding processing_takeover_def
  by (rule safe_then [OF safe_catch_err [OF safe_send_packet] safe_after_takeover]) simp_all

lemma safe_processing_event: "safe s (snd (processing_event ev str ka E s))"
proof -
  obtain rt w where s: "s = (rt, w)"
    by (cases s)
  obtain pack w' where call: "decode_from str E w = (pack, w')"
    by (rule prod.exhaust)
  note dec = safe_decode_from [OF call, of rt]
  have pack: "safe (rt, w) (snd (continue_if (on_packet p str E (rt, w'))))" if "pack = Ok p" for p
    using decode_from_wf call that by (intro safe_trans [OF dec safe_continue_if [OF safe_on_packet]]) simp
  have resent: "safe s (snd (continue_if (qmark (on_retransmit str E s) (\<lambda>_ s. (Ok True, s)))))" for s
    by (rule safe_continue_if, rule safe_then [OF safe_on_retransmit]) (simp only: snd_conv safe_refl)
  have cmd: "safe s (snd (qmark (recv_command E s) (\<lambda>command s. case command of
      Some (Takeover params) \<Rightarrow> processing_takeover params str E s | _ \<Rightarrow> (Ok (Break Cleanup), s))))" for s
    by (rule safe_then [OF safe_recv_command])
      (simp add: safe_processing_takeover safe_refl split: option.split Command.split del: split_paired_All)
  note after = safe_trans [OF safe_drop_decode]
  show ?thesis
    using s call dec pack after [OF safe_message_event] after [OF cmd] after [OF resent] safe_drop_decode
    by (simp add: processing_event_def Let_def break_off_def split: loop_event.split outcome.split)
qed

lemma safe_pending_command: "safe s (snd (pending_command E s))"
  unfolding pending_command_def
  by (rule safe_then [OF safe_recv_command])
    (simp add: safe_refl safe_after_takeover split: option.split Command.split del: split_paired_All)

lemma safe_cleanup: "safe s (snd (cleanup E s))"
  unfolding cleanup_def
proof (rule safe_then [OF safe_publish_will])
  fix s :: "('st, 'q, 'k, 'w, 'r) sstate"
  show "safe s (snd (case s of (rt, w) \<Rightarrow> (Ok (), rt, w\<lparr>w_broker :=
      Broker_remove_session (rt_id rt) (rt_client_id rt) (w_broker w)\<rparr>)))"
    by (cases s) (simp add: safe_world_plain)
qed

lemma safe_session_step: "session_step E (c, s) (c', s') \<Longrightarrow> safe s s'"
proof (induction "(c, s)" "(c', s')" arbitrary: c s c' s' rule: session_step.induct)
  case (waiting ev s st s')
  then show ?case using safe_do_waiting [of s ev] by simp
next
  case (start s str ka s')
  then show ?case using safe_start_processing [of s] by simp
next
  case (no_stream s s')
  then show ?case using safe_start_processing [of s] by simp
next
  case (loop ev str ka s s')
  then show ?case using safe_processing_event [of s ev str ka] by simp
next
  case (leave ev str ka s st s')
  then show ?case using safe_processing_event [of s ev str ka] by simp
next
  case (save s)
  then show ?case by (rule safe_save_to_storage)
next
  case (command s st s')
  then show ?case using safe_pending_command [of s] by simp
next
  case (finish s s')
  then show ?case using safe_cleanup [of s] by simp
qed

definition system_wf :: "('st, 'q, 'k, 'w, 'r) system \<Rightarrow> bool" where
  "system_wf = (\<lambda>(tasks, w). world_wf w \<and> (\<forall>sid c rt. tasks sid = Some (c, rt) \<longrightarrow> runtime_wf rt))"

end

section \<open>The whole broker\<close>

text \<open>
  Steps of the interleaved sessions in which only sessions queue messages and write to the clients: what
  is not a step of a session is a system step that adds no message to a mailbox and leaves the
  output and the storage as they are, and does not undo a write that failed.
\<close>

inductive wire_step :: "('q \<Rightarrow> channel \<Rightarrow> Packet list) \<Rightarrow> ('w \<Rightarrow> stream \<Rightarrow> bytes)
    \<Rightarrow> ('w \<Rightarrow> stream \<Rightarrow> bool) \<Rightarrow> ('st, 'q, 'k, 'w, 'b, 'r, 'c) env
    \<Rightarrow> ('st, 'q, 'k, 'w, 'r) system \<Rightarrow> ('st, 'q, 'k, 'w, 'r) system \<Rightarrow> bool" for queue sent intact E where
  task: "tasks sid = Some (c, rt) \<Longrightarrow> session_step E (c, (rt, w)) (c', (rt', w')) \<Longrightarrow>
    wire_step queue sent intact E (tasks, w) (tasks(sid \<mapsto> (c', rt')), w')"
| other: "system_step E (tasks, w) (tasks', w') \<Longrightarrow>
    (\<forall>sid c rt. tasks sid = Some (c, rt) \<longrightarrow> tasks' sid = Some (c, rt)) \<Longrightarrow>
    (\<forall>c. set (queue (w_mail w') c) \<subseteq> set (queue (w_mail w) c)) \<Longrightarrow>
    sent (w_out w') = sent (w_out w) \<Longrightarrow> (\<forall>str. intact (w_out w') str \<longrightarrow> intact (w_out w) str) \<Longrightarrow>
    w_storage w' = w_storage w \<Longrightarrow>
    wire_step queue sent intact E (tasks, w) (tasks', w')"

lemma wire_step_system: "wire_step queue sent intact E x y \<Longrightarrow> system_step E x y"
  by (induction rule: wire_step.induct) (auto intro: system_step.task)

lemma runtime_wf_new: "runtime_wf (snd (Session_new sid cch mch str))"
  by (simp add: Session_new_def runtime_wf_def inbound_wf_def)

lemma system_step_tasks:
  assumes "system_step E (tasks, w) (tasks', w')" "\<forall>sid c rt. tasks sid = Some (c, rt) \<longrightarrow> tasks' sid = Some (c, rt)"
    and "tasks' sid = Some (c, rt)" "tasks sid = None"
  shows "runtime_wf rt"
  using assms(1)
proof cases
  case (accept sid' mch cch str handle rt' k q)
  then show ?thesis
    using assms(3,4) runtime_wf_new [of sid' cch mch str] by (auto split: if_splits)
qed (use assms(3,4) in \<open>auto split: if_splits\<close>)

context wire
begin

lemma wire_step_safe:
  assumes "wire_step queue sent intact E (tasks, w) (tasks', w')" "system_wf (tasks, w)"
  shows "system_wf (tasks', w') \<and> out_wf (w_out w) (w_out w')"
  using assms(1)
proof cases
  case (task sid c rt c' rt')
  have "state_wf (rt, w)"
    using assms(2) task(2) by (auto simp: system_wf_def state_wf_def)
  then have "state_wf (rt', w')" "out_wf (w_out w) (w_out w')"
    using safe_session_step [OF task(3)] by (simp_all add: safe_def)
  then show ?thesis
    using assms(2) task(1) by (auto simp: system_wf_def state_wf_def split: if_splits)
next
  case other
  have "runtime_wf rt" if "tasks' sid = Some (c, rt)" for sid c rt
    using assms(2) system_step_tasks [OF other(1,2) that] other(2) that
    by (cases "tasks sid") (auto simp: system_wf_def)
  moreover have "world_wf w'"
    using assms(2) other(3,6) by (auto simp: system_wf_def world_wf_def mail_wf_def)
  ultimately show ?thesis
    using out_wf_same [OF other(4,5)] by (auto simp: system_wf_def)
qed

lemma wire_run_safe:
  assumes "rtranclp (wire_step queue sent intact E) (tasks0, w0) (tasks, w)" "system_wf (tasks0, w0)"
  shows "system_wf (tasks, w) \<and> out_wf (w_out w0) (w_out w)"
  using assms(1)
proof (induction "(tasks, w)" arbitrary: tasks w rule: rtranclp_induct)
  case base
  then show ?case
    using assms(2) by (simp add: out_wf_refl)
next
  case (step y)
  obtain tasks1 w1 where y: "y = (tasks1, w1)"
    by (cases y)
  then show ?case
    using step(3) [OF y] wire_step_safe [OF step(2) [unfolded y]] out_wf_trans by blast
qed

end

text \<open>
  C4: everything the broker writes is well formed.  In every run of any number of interleaved sessions over any
  input, from a start with well-formed stored messages and empty mailboxes, what a connection has taken is
  one packet after the other that a server may send, each well formed and encoded as the standard
  prescribes.  On a connection on which no write has failed they are whole; where a write failed, at whatever
  byte, the connection has a first part of the packet.  The messages waiting in the
  mailboxes, in flight and in the storage stay so that they can be written, and no session steps outside
  of that, whatever bytes its client sends and whether or not the storage or the connections fail.
\<close>

theorem output_well_formed:
  assumes "storage (e_storage E) st_inv saved retained" "byte_writer (e_writer E) sent intact" "buf_writer (e_buf E)"
    and "mailboxes (e_mail E) queue open_rx cap" "async_reader (e_reader E) avail eof" "buf_reader (e_cursor E) adv view"
    and "st_inv (w_storage w0)" "\<forall>t m. retained (w_storage w0) t = Some m \<longrightarrow> retained_wf m"
    and "\<forall>cid v. saved (w_storage w0) cid = Some v \<longrightarrow> saved_wf v" "\<forall>c. queue (w_mail w0) c = []"
    and "rtranclp (wire_step queue sent intact E) (\<lambda>_. None, w0) (tasks, w)"
  shows "(\<forall>str. \<exists>pieces. (\<forall>(p, bs) \<in> set pieces. outbound p \<and> wf_packet p \<and> prefix bs (mqtt_bytes p)
        \<and> (intact (w_out w) str \<longrightarrow> bs = mqtt_bytes p))
      \<and> sent (w_out w) str = sent (w_out w0) str @ concat (map snd pieces))
    \<and> (\<forall>c. \<forall>m \<in> set (queue (w_mail w) c). \<exists>p. m = Publish p \<and> deliverable p)
    \<and> (\<forall>sid c rt. tasks sid = Some (c, rt) \<longrightarrow> runtime_wf rt)
    \<and> (\<forall>t m. retained (w_storage w) t = Some m \<longrightarrow> retained_wf m)
    \<and> (\<forall>cid v. saved (w_storage w) cid = Some v \<longrightarrow> saved_wf v)"
proof -
  have wire: "wire E st_inv saved retained sent intact queue open_rx cap avail eof adv view"
    using assms(1-6) by (simp add: wire_def broker_state_def codec_def)
  have "wire.system_wf st_inv saved retained queue (\<lambda>_. None, w0)"
    using assms(7-10) unfolding wire.system_wf_def [OF wire] wire.world_wf_def [OF wire] wire.mail_wf_def [OF wire]
      wire.storage_wf_def [OF wire] by simp
  from wire.wire_run_safe [OF wire assms(11) this] show ?thesis
    unfolding wire.system_wf_def [OF wire] wire.world_wf_def [OF wire] wire.mail_wf_def [OF wire]
      wire.storage_wf_def [OF wire] wire.out_wf_def [OF wire] message_wf_def by simp
qed

interpretation local_wire: wire "local_env a z" memory_inv memory_saved memory_retained net_sent "\<lambda>w s. w s \<noteq> None"
  chan_queue "\<lambda>q c. q c \<noteq> None" "\<lambda>_. 100" fst snd drop "\<lambda>c. c"
  unfolding wire_def broker_state_def codec_def local_env_simps
  using mem.storage_axioms net.bytes.byte_writer_axioms vec.buf_writer_axioms mail.mailboxes_axioms
    pipe.async_reader_axioms slice.buf_reader_axioms
  by blast

text \<open>
  A client that asks for another protocol version, which is refused, on a connection that breaks after
  \<open>n\<close> bytes.
\<close>

definition cut_env :: "(memory, channel \<Rightarrow> Packet list option, channel \<Rightarrow> Command list option,
        stream \<Rightarrow> bytes \<times> nat \<times> bool, bytes, bytes \<times> bool, bytes) env" where
  "cut_env =
    \<lparr>e_storage = memory_ops, e_mail = bounded_chan 100, e_cmd = bounded_chan 10,
     e_writer = cut_writer, e_buf = vec_bufmut, e_reader = pipe_reader, e_cursor = slice_buf,
     e_authenticator = allow_all_authenticate, e_authorizer = allow_all_authorizer\<rparr>"

lemma cut_env_simps [simp]:
  "e_storage cut_env = memory_ops" "e_mail cut_env = bounded_chan 100" "e_writer cut_env = cut_writer"
  "e_buf cut_env = vec_bufmut" "e_reader cut_env = pipe_reader" "e_cursor cut_env = slice_buf"
  by (simp_all add: cut_env_def)

definition old_connect :: ConnectPacket where
  "old_connect = example_connect\<lparr>cp_protocol_level := 3\<rparr>"

definition old_client_world :: "nat \<Rightarrow> (memory, channel \<Rightarrow> Packet list option, channel \<Rightarrow> Command list option,
        stream \<Rightarrow> bytes \<times> nat \<times> bool, bytes \<times> bool) world" where
  "old_client_world n =
    \<lparr>w_broker = Broker_new default_config, w_storage = memory_new, w_mail = [1 \<mapsto> []], w_cmd = [0 \<mapsto> []],
     w_out = (\<lambda>_. ([], n, True)), w_in = (\<lambda>_. (mqtt_bytes (Connect old_connect), False)), w_instant = 0, w_utc = 0\<rparr>"

definition version_refused :: Packet where
  "version_refused = ConnAck \<lparr>ca_session_present = False, ca_return_code = 1\<rparr>"

lemma old_connect_wf: "wf_packet (Connect old_connect)"
  by (simp add: old_connect_def wf_connect_def example_connect_def wf_field_def in_range_def mqtt_connect_body_def
      str_field_def bin_field_def max_remaining_length_def)

lemma send_refused:
  "send_packet version_refused 0 cut_env (rt, w) =
    (if 4 \<le> fst (snd (w_out w 0)) then Ok () else Err (IOError ''ConnectionReset''),
     (rt, w\<lparr>w_out := (w_out w)(0 := (fst (w_out w 0) @ take (fst (snd (w_out w 0))) [0x20, 2, 0, 1],
        fst (snd (w_out w 0)) - 4, snd (snd (w_out w 0)) \<and> 4 \<le> fst (snd (w_out w 0))))\<rparr>))"
proof -
  have bs: "bytesmut_deref vec_bufmut (Packet_encode vec_bufmut version_refused (bytesmut_new vec_bufmut)) = [0x20, 2, 0, 1]"
    using vec.packet_encode_bytes [of version_refused]
    by (simp add: version_refused_def vec.deref_new mqtt_frame_def rl_bytes.simps [of "Suc (Suc 0)"])
  show ?thesis
    by (cases "w_out w 0") (simp add: send_packet_def bs cut_writer_def eval_nat_numeral)
qed

lemma old_client_run:
  "\<exists>tasks w. rtranclp (wire_step chan_queue cut_sent cut_intact cut_env) (\<lambda>_. None, old_client_world n) (tasks, w)
    \<and> cut_sent (w_out w) 0 = take n [0x20, 2, 0, 1] \<and> cut_intact (w_out w) 0 = (4 \<le> n)"
proof -
  let ?rt = "start_runtime" and ?rt' = "start_runtime\<lparr>rt_stream := None\<rparr>" and ?start = "old_client_world n"
  let ?tasks = "[''s'' \<mapsto> (InState Waiting, ?rt)]"
  let ?w = "?start\<lparr>w_broker := Broker_add_client (fst (Session_new ''s'' 0 1 0)) (w_broker ?start)\<rparr>"
  have "system_step cut_env (\<lambda>_. None, ?start) (?tasks, ?start\<lparr>w_broker :=
      Broker_add_client (fst (Session_new ''s'' 0 1 0)) (w_broker ?start),
      w_mail := w_mail ?start, w_cmd := w_cmd ?start\<rparr>)"
    by (rule system_step.accept) (auto simp: start_runtime_def)
  then have one: "wire_step chan_queue cut_sent cut_intact cut_env (\<lambda>_. None, ?start) (?tasks, ?w)"
    by (intro wire_step.other) simp_all
  have "codec pipe_reader fst snd slice_buf drop (\<lambda>c. c)"
    using pipe.async_reader_axioms slice.buf_reader_axioms by (rule codec.intro)
  from codec.packet_decode_mqtt_bytes [OF this, of "w_in ?w 0" "Connect old_connect" "[]"] old_connect_wf
  obtain r where r: "Packet_decode pipe_reader slice_buf (w_in ?w 0) = (Ok (Connect old_connect), r)"
    by (auto simp: old_client_world_def)
  let ?read = "?w\<lparr>w_in := (w_in ?w)(0 := r)\<rparr>"
  let ?cut = "?read\<lparr>w_out := (w_out ?read)(0 := (take n [0x20, 2, 0, 1], n - 4, 4 \<le> n))\<rparr>"
  have "send_connack_error 0 UNACCEPTABLE_PROTOCOL_VERSION cut_env (?rt', ?read)
      = (if 4 \<le> n then Ok () else Err (IOError ''ConnectionReset''), (?rt', ?cut))"
    using send_refused [of ?rt' ?read]
    by (simp add: send_connack_error_def UNACCEPTABLE_PROTOCOL_VERSION_def version_refused_def old_client_world_def)
  then have "do_waiting EvPacket cut_env (?rt, ?w) = (Ok Cleanup, (?rt', ?cut))"
    using r
    by (simp add: do_waiting_def decode_from_def start_runtime_def Session_new_def on_connect_def old_connect_def
        PROTOCOL_LEVEL_def refuse_def)
  then have "session_step cut_env (InState Waiting, (?rt, ?w)) (InState Cleanup, (?rt', ?cut))"
    by (rule session_step.waiting)
  then have "wire_step chan_queue cut_sent cut_intact cut_env (?tasks, ?w) (?tasks(''s'' \<mapsto> (InState Cleanup, ?rt')), ?cut)"
    by (intro wire_step.task) simp_all
  with one have "rtranclp (wire_step chan_queue cut_sent cut_intact cut_env) (\<lambda>_. None, ?start)
      (?tasks(''s'' \<mapsto> (InState Cleanup, ?rt')), ?cut)"
    by (meson converse_rtranclp_into_rtranclp r_into_rtranclp)
  then show ?thesis
    by (intro exI conjI) (auto simp: cut_sent_def cut_intact_def)
qed

lemma old_client_start:
  "memory_inv (w_storage (old_client_world n))"
  "\<forall>t m. memory_retained (w_storage (old_client_world n)) t = Some m \<longrightarrow> retained_wf m"
  "\<forall>cid v. memory_saved (w_storage (old_client_world n)) cid = Some v \<longrightarrow> saved_wf v"
  "\<forall>c. chan_queue (w_mail (old_client_world n)) c = []" "cut_sent (w_out (old_client_world n)) 0 = []"
  by (simp_all add: old_client_world_def memory_inv_new [unfolded memory_new_def] memory_new_def
      memory_saved_def memory_retained_def chan_queue_def cut_sent_def)

theorem output_well_formed_witness:
  "(\<exists>tasks w pieces. rtranclp (wire_step chan_queue cut_sent cut_intact cut_env) (\<lambda>_. None, old_client_world 9) (tasks, w)
    \<and> cut_intact (w_out w) 0 \<and> cut_sent (w_out w) 0 = [0x20, 2, 0, 1]
    \<and> cut_sent (w_out w) 0 = concat (map snd pieces) \<and> (\<forall>(p, bs) \<in> set pieces. outbound p \<and> wf_packet p \<and> bs = mqtt_bytes p))
   \<and> (\<exists>tasks w pieces. rtranclp (wire_step chan_queue cut_sent cut_intact cut_env) (\<lambda>_. None, old_client_world 3) (tasks, w)
    \<and> \<not> cut_intact (w_out w) 0 \<and> cut_sent (w_out w) 0 = [0x20, 2, 0]
    \<and> cut_sent (w_out w) 0 = concat (map snd pieces) \<and> (\<forall>(p, bs) \<in> set pieces. outbound p \<and> wf_packet p \<and> prefix bs (mqtt_bytes p)))"
proof -
  have pieces: "\<exists>pieces. (\<forall>(p, bs) \<in> set pieces. outbound p \<and> wf_packet p \<and> prefix bs (mqtt_bytes p)
        \<and> (cut_intact (w_out w) 0 \<longrightarrow> bs = mqtt_bytes p)) \<and> cut_sent (w_out w) 0 = concat (map snd pieces)"
    if "rtranclp (wire_step chan_queue cut_sent cut_intact cut_env) (\<lambda>_. None, old_client_world n) (tasks, w)" for n tasks w
    using output_well_formed [where E = cut_env, unfolded cut_env_simps, OF mem.storage_axioms cut.byte_writer_axioms
        vec.buf_writer_axioms mail.mailboxes_axioms pipe.async_reader_axioms slice.buf_reader_axioms
        old_client_start(1-4) that, THEN conjunct1, rule_format, of 0] old_client_start(5) [of n] by simp
  obtain tasks w where nine: "rtranclp (wire_step chan_queue cut_sent cut_intact cut_env) (\<lambda>_. None, old_client_world 9) (tasks, w)"
      "cut_sent (w_out w) 0 = [0x20, 2, 0, 1]" "cut_intact (w_out w) 0"
    using old_client_run [of 9] by auto
  obtain tasks' w' where three: "rtranclp (wire_step chan_queue cut_sent cut_intact cut_env) (\<lambda>_. None, old_client_world 3) (tasks', w')"
      "cut_sent (w_out w') 0 = [0x20, 2, 0]" "\<not> cut_intact (w_out w') 0"
    using old_client_run [of 3] by auto
  obtain ps where ps: "\<forall>(p, bs) \<in> set ps. outbound p \<and> wf_packet p \<and> bs = mqtt_bytes p" "cut_sent (w_out w) 0 = concat (map snd ps)"
    using pieces [OF nine(1)] nine(3) by fastforce
  obtain qs where qs: "\<forall>(p, bs) \<in> set qs. outbound p \<and> wf_packet p \<and> prefix bs (mqtt_bytes p)"
      "cut_sent (w_out w') 0 = concat (map snd qs)"
    using pieces [OF three(1)] three(3) by fastforce
  show ?thesis
    using nine ps three qs by blast
qed

end
