(* ===== verification/Transport.thy ===== *)
theory Transport
  imports Config
begin

text \<open>
  The listeners of \<^verbatim>\<open>src/transport.rs\<close> and the TLS acceptor they share.  Sockets, files, the PEM
  reader and \<open>rustls\<close> are parameters: \<open>'n\<close> is the state of the network, \<open>'l\<close> a bound TCP socket,
  \<open>'s\<close> an accepted one, \<open>'a\<close> a TLS acceptor and \<open>'t\<close> a TLS stream.  The operations of the
  accepted connections are in \<open>Transport_Streams\<close>.
\<close>

record ('f, 'cert, 'key, 'a) tls_ops =
  file_open :: "path \<Rightarrow> ('f, rstring) outcome"
  pem_certs :: "'f \<Rightarrow> ('cert, rstring) outcome list"
  pem_private_key :: "'f \<Rightarrow> ('key option, rstring) outcome"
  with_single_cert :: "'cert list \<Rightarrow> 'key \<Rightarrow> ('a, rstring) outcome"

record ('l, 's, 'a, 't, 'n) net_ops =
  tcp_bind :: "rstring \<Rightarrow> 'n \<Rightarrow> ('l, rstring) outcome \<times> 'n"
  tcp_accept :: "'l \<Rightarrow> 'n \<Rightarrow> ('s, rstring) outcome \<times> 'n"
  tcp_local_addr :: "'l \<Rightarrow> (rstring, rstring) outcome"
  tls_accept :: "'a \<Rightarrow> 's \<Rightarrow> 'n \<Rightarrow> ('t, rstring) outcome \<times> 'n"

datatype ('l, 'a) AsyncListener = TcpAsyncListener 'l | TlsAsyncListener 'l 'a

datatype ('s, 't) AsyncStream = TcpAsyncStream 's | TlsAsyncStream 't

definition tcp_listener_bind :: "('l, 's, 'a, 't, 'n) net_ops \<Rightarrow> rstring \<Rightarrow> 'n
    \<Rightarrow> (('l, 'a) AsyncListener, rstring) outcome \<times> 'n" where
  "tcp_listener_bind N addr n =
    qmark (tcp_bind N addr n) (\<lambda>listener n. (Ok (TcpAsyncListener listener), n))"

definition tls_listener_bind :: "('l, 's, 'a, 't, 'n) net_ops \<Rightarrow> rstring \<Rightarrow> 'a \<Rightarrow> 'n
    \<Rightarrow> (('l, 'a) AsyncListener, rstring) outcome \<times> 'n" where
  "tls_listener_bind N addr acceptor n =
    qmark (tcp_bind N addr n) (\<lambda>listener n. (Ok (TlsAsyncListener listener acceptor), n))"

fun listener_accept :: "('l, 's, 'a, 't, 'n) net_ops \<Rightarrow> ('l, 'a) AsyncListener \<Rightarrow> 'n
    \<Rightarrow> (('s, 't) AsyncStream, rstring) outcome \<times> 'n" where
  "listener_accept N (TcpAsyncListener listener) n =
    qmark (tcp_accept N listener n) (\<lambda>stream n. (Ok (TcpAsyncStream stream), n))"
| "listener_accept N (TlsAsyncListener listener acceptor) n =
    qmark (tcp_accept N listener n) (\<lambda>tcp_stream n.
      qmark (tls_accept N acceptor tcp_stream n) (\<lambda>tls_stream n. (Ok (TlsAsyncStream tls_stream), n)))"

fun listener_local_addr :: "('l, 's, 'a, 't, 'n) net_ops \<Rightarrow> ('l, 'a) AsyncListener \<Rightarrow> (rstring, rstring) outcome" where
  "listener_local_addr N (TcpAsyncListener listener) = tcp_local_addr N listener"
| "listener_local_addr N (TlsAsyncListener listener acceptor) = tcp_local_addr N listener"

definition listener_close :: "('l, 'a) AsyncListener \<Rightarrow> (unit, rstring) outcome" where
  "listener_close listener = Ok ()"

text \<open>\<open>collect\<close> into a \<open>Result\<close>: the first error, or all the values.\<close>

fun collect_results :: "('a, 'e) outcome list \<Rightarrow> ('a list, 'e) outcome" where
  "collect_results [] = Ok []"
| "collect_results (x # xs) = outcome_bind x (\<lambda>a. outcome_bind (collect_results xs) (\<lambda>as. Ok (a # as)))"

definition build_tls_acceptor :: "('f, 'cert, 'key, 'a) tls_ops \<Rightarrow> TlsConfig \<Rightarrow> ('a, rstring) outcome" where
  "build_tls_acceptor T tls_config =
    outcome_bind (file_open T (tls_cert_file tls_config)) (\<lambda>cert_file.
    outcome_bind (file_open T (tls_key_file tls_config)) (\<lambda>key_file.
    outcome_bind (collect_results (pem_certs T cert_file)) (\<lambda>certs.
    outcome_bind (pem_private_key T key_file) (\<lambda>found.
    outcome_bind (case found of Some key \<Rightarrow> Ok key
        | None \<Rightarrow> Err (''No private key found in '' @ tls_key_file tls_config)) (\<lambda>key.
      with_single_cert T certs key)))))"

end
