(* ===== verification/Transport_Streams.thy ===== *)
theory Transport_Streams
  imports Transport Wire
begin

text \<open>
  The connections of \<^verbatim>\<open>src/transport.rs\<close>: \<open>TcpAsyncStream\<close> and \<open>TlsAsyncStream\<close> implement \<open>AsyncRead\<close>,
  \<open>AsyncWrite\<close> and \<open>AsyncStream\<close> over a TCP socket and a TLS stream, which are parameters.  A connection of
  either kind honours the contract of a byte stream if the stream inside does, and so is a reader of
  packets as \<open>Wire\<close> asks for.
\<close>

section \<open>Operations\<close>

text \<open>
  A poll gives \<open>Pending\<close>, an error, or a result: the bytes put into a buffer with room for the given number, or
  how many of the given bytes were taken.
\<close>

record 'x io_ops =
  poll_read :: "nat \<Rightarrow> 'x \<Rightarrow> (bytes, io_error) outcome \<times> 'x"
  poll_write :: "bytes \<Rightarrow> 'x \<Rightarrow> (nat, io_error) outcome \<times> 'x"
  poll_flush :: "'x \<Rightarrow> (unit, io_error) outcome \<times> 'x"
  poll_shutdown :: "'x \<Rightarrow> (unit, io_error) outcome \<times> 'x"

record ('s, 't) socket_ops =
  tcp_io :: "'s io_ops"
  tls_io :: "'t io_ops"
  tcp_peer_addr :: "'s \<Rightarrow> (rstring, io_error) outcome"
  tls_get_ref :: "'t \<Rightarrow> 's"

fun stream_poll_read :: "('s, 't) socket_ops \<Rightarrow> nat \<Rightarrow> ('s, 't) AsyncStream
    \<Rightarrow> (bytes, io_error) outcome \<times> ('s, 't) AsyncStream" where
  "stream_poll_read S buf (TcpAsyncStream stream) = map_prod id TcpAsyncStream (poll_read (tcp_io S) buf stream)"
| "stream_poll_read S buf (TlsAsyncStream stream) = map_prod id TlsAsyncStream (poll_read (tls_io S) buf stream)"

fun stream_poll_write :: "('s, 't) socket_ops \<Rightarrow> bytes \<Rightarrow> ('s, 't) AsyncStream
    \<Rightarrow> (nat, io_error) outcome \<times> ('s, 't) AsyncStream" where
  "stream_poll_write S buf (TcpAsyncStream stream) = map_prod id TcpAsyncStream (poll_write (tcp_io S) buf stream)"
| "stream_poll_write S buf (TlsAsyncStream stream) = map_prod id TlsAsyncStream (poll_write (tls_io S) buf stream)"

fun stream_poll_flush :: "('s, 't) socket_ops \<Rightarrow> ('s, 't) AsyncStream
    \<Rightarrow> (unit, io_error) outcome \<times> ('s, 't) AsyncStream" where
  "stream_poll_flush S (TcpAsyncStream stream) = map_prod id TcpAsyncStream (poll_flush (tcp_io S) stream)"
| "stream_poll_flush S (TlsAsyncStream stream) = map_prod id TlsAsyncStream (poll_flush (tls_io S) stream)"

fun stream_poll_shutdown :: "('s, 't) socket_ops \<Rightarrow> ('s, 't) AsyncStream
    \<Rightarrow> (unit, io_error) outcome \<times> ('s, 't) AsyncStream" where
  "stream_poll_shutdown S (TcpAsyncStream stream) = map_prod id TcpAsyncStream (poll_shutdown (tcp_io S) stream)"
| "stream_poll_shutdown S (TlsAsyncStream stream) = map_prod id TlsAsyncStream (poll_shutdown (tls_io S) stream)"

definition stream_io :: "('s, 't) socket_ops \<Rightarrow> ('s, 't) AsyncStream io_ops" where
  "stream_io S = \<lparr>poll_read = stream_poll_read S, poll_write = stream_poll_write S,
    poll_flush = stream_poll_flush S, poll_shutdown = stream_poll_shutdown S\<rparr>"

text \<open>\<open>shutdown\<close> of tokio's \<open>AsyncWriteExt\<close> completes when \<open>poll_shutdown\<close> of the stream inside does.\<close>

fun stream_close :: "('s, 't) socket_ops \<Rightarrow> ('s, 't) AsyncStream \<Rightarrow> (unit, io_error) outcome \<times> ('s, 't) AsyncStream" where
  "stream_close S (TcpAsyncStream stream) =
    qmark (map_prod id TcpAsyncStream (poll_shutdown (tcp_io S) stream)) (\<lambda>_ str. (Ok (), str))"
| "stream_close S (TlsAsyncStream stream) =
    qmark (map_prod id TlsAsyncStream (poll_shutdown (tls_io S) stream)) (\<lambda>_ str. (Ok (), str))"

fun stream_peer_addr :: "('s, 't) socket_ops \<Rightarrow> ('s, 't) AsyncStream \<Rightarrow> (rstring, io_error) outcome" where
  "stream_peer_addr S (TcpAsyncStream stream) = tcp_peer_addr S stream"
| "stream_peer_addr S (TlsAsyncStream stream) = (let tcp_stream = tls_get_ref S stream in tcp_peer_addr S tcp_stream)"

section \<open>Documented behaviour\<close>

text \<open>
  \<open>avail\<close> are the bytes that have arrived, after \<open>eof\<close> none follow, and \<open>taken\<close> are those written while \<open>up\<close>.
  A read gives at least one byte unless the other side has closed; a write takes at least one or waits.
\<close>

locale byte_stream =
  fixes P :: "'x io_ops"
    and avail :: "'x \<Rightarrow> bytes" and eof :: "'x \<Rightarrow> bool" and taken :: "'x \<Rightarrow> bytes" and up :: "'x \<Rightarrow> bool"
  assumes read_some: "avail x \<noteq> [] \<Longrightarrow> 0 < n \<Longrightarrow> \<exists>k x'. 0 < k \<and> k \<le> n \<and> k \<le> length (avail x)
      \<and> poll_read P n x = (Ok (take k (avail x)), x') \<and> avail x' = drop k (avail x) \<and> eof x' = eof x
      \<and> taken x' = taken x \<and> up x' = up x"
    and read_eof: "avail x = [] \<Longrightarrow> eof x \<Longrightarrow> 0 < n \<Longrightarrow> fst (poll_read P n x) = Ok []"
    and read_wait: "avail x = [] \<Longrightarrow> \<not> eof x \<Longrightarrow> 0 < n \<Longrightarrow> \<exists>x'. poll_read P n x = (Pending, x')
      \<and> avail x' = [] \<and> \<not> eof x' \<and> taken x' = taken x \<and> up x' = up x"
    and write_up: "up x \<Longrightarrow> bs \<noteq> [] \<Longrightarrow> \<exists>x' k. (poll_write P bs x = (Pending, x') \<and> k = 0
        \<or> poll_write P bs x = (Ok k, x') \<and> 0 < k \<and> k \<le> length bs)
      \<and> taken x' = taken x @ take k bs \<and> avail x' = avail x \<and> eof x' = eof x \<and> up x'"
    and write_down: "\<not> up x \<Longrightarrow> bs \<noteq> [] \<Longrightarrow> \<exists>e x'. poll_write P bs x = (Err e, x') \<and> taken x' = taken x \<and> \<not> up x'"

text \<open>Both kinds of connection, over a socket and a TLS stream that honour it.\<close>

locale sockets = tcp: byte_stream "tcp_io S" avail_s eof_s taken_s up_s + tls: byte_stream "tls_io S" avail_t eof_t taken_t up_t
  for S :: "('s, 't) socket_ops" and avail_s eof_s taken_s up_s avail_t eof_t taken_t up_t

sublocale sockets \<subseteq> stream: byte_stream "stream_io S" "case_AsyncStream avail_s avail_t" "case_AsyncStream eof_s eof_t"
  "case_AsyncStream taken_s taken_t" "case_AsyncStream up_s up_t"
proof (unfold_locales, goal_cases)
  case (1 x n)
  then show ?case
    using tcp.read_some [of _ n] tls.read_some [of _ n] by (cases x) (fastforce simp: stream_io_def)+
next
  case (2 x n)
  then show ?case
    using tcp.read_eof [of _ n] tls.read_eof [of _ n] by (cases x) (simp_all add: stream_io_def)
next
  case (3 x n)
  then show ?case
    using tcp.read_wait [of _ n] tls.read_wait [of _ n] by (cases x) (fastforce simp: stream_io_def)+
next
  case (4 x bs)
  then show ?case
    using tcp.write_up [of _ bs] tls.write_up [of _ bs] by (cases x) (fastforce simp: stream_io_def)+
next
  case (5 x bs)
  then show ?case
    using tcp.write_down [of _ bs] tls.write_down [of _ bs] by (cases x) (fastforce simp: stream_io_def)+
qed

context sockets
begin

lemma stream_honours: "byte_stream (stream_io S) (case_AsyncStream avail_s avail_t) (case_AsyncStream eof_s eof_t)
  (case_AsyncStream taken_s taken_t) (case_AsyncStream up_s up_t)"
  by (rule stream.byte_stream_axioms)

end

section \<open>Connections as readers of packets\<close>

text \<open>
  \<open>read_u8\<close> and \<open>read_exact\<close> of tokio's \<open>AsyncReadExt\<close> are given for every byte stream; \<open>ext\<close> stands for them.
\<close>

locale read_ext =
  fixes ext :: "'x io_ops \<Rightarrow> 'x reader_ops"
  assumes ext: "byte_stream P avail eof taken up \<Longrightarrow> async_reader (ext P) avail eof"

lemma connection_reader:
  assumes "sockets S avail_s eof_s taken_s up_s avail_t eof_t taken_t up_t" "read_ext ext"
  shows "async_reader (ext (stream_io S)) (case_AsyncStream avail_s avail_t) (case_AsyncStream eof_s eof_t)"
  by (rule read_ext.ext [OF assms(2)]) (rule sockets.stream_honours [OF assms(1)])

text \<open>An instance of them: reading until the buffer is full.\<close>

fun exact_loop :: "'x io_ops \<Rightarrow> nat \<Rightarrow> bytes \<Rightarrow> 'x \<Rightarrow> (bytes, io_error) outcome \<times> 'x" where
  "exact_loop P n acc x =
    (if n = 0 then (Ok acc, x)
     else case poll_read P n x of
       (Ok [], x) \<Rightarrow> (Err ''UnexpectedEof'', x)
     | (Ok (b # bs), x) \<Rightarrow> exact_loop P (n - length (b # bs)) (acc @ b # bs) x
     | (Err e, x) \<Rightarrow> (Err e, x)
     | (Panic, x) \<Rightarrow> (Panic, x)
     | (Pending, x) \<Rightarrow> (Pending, x))"

declare exact_loop.simps [simp del]

definition loop_ext :: "'x io_ops \<Rightarrow> 'x reader_ops" where
  "loop_ext P = \<lparr>read_u8 = (\<lambda>x. case exact_loop P 1 [] x of
       (Ok bs, x) \<Rightarrow> (Ok (hd bs), x) | (Err e, x) \<Rightarrow> (Err e, x) | (Panic, x) \<Rightarrow> (Panic, x) | (Pending, x) \<Rightarrow> (Pending, x)),
     read_exact = (\<lambda>n. exact_loop P n [])\<rparr>"

context byte_stream
begin

lemma exact_loop_step:
  assumes "avail x \<noteq> []" "0 < n"
  obtains k x' where "0 < k" "k \<le> n" "k \<le> length (avail x)" "avail x' = drop k (avail x)" "eof x' = eof x"
    "exact_loop P n acc x = exact_loop P (n - k) (acc @ take k (avail x)) x'"
proof -
  obtain k x' where k: "0 < k" "k \<le> n" "k \<le> length (avail x)" "poll_read P n x = (Ok (take k (avail x)), x')"
    "avail x' = drop k (avail x)" "eof x' = eof x"
    using read_some [OF assms] by blast
  obtain b bs where bs: "take k (avail x) = b # bs"
    using k(1) assms(1) by (cases "take k (avail x)") auto
  have "length (b # bs) = k"
    using k(3) by (simp flip: bs)
  then have "exact_loop P n acc x = exact_loop P (n - k) (acc @ take k (avail x)) x'"
    using assms(2) k(4) bs by (subst exact_loop.simps) simp
  then show thesis
    using that k by blast
qed

lemma exact_loop_ready:
  "n \<le> length (avail x) \<Longrightarrow> \<exists>x'. exact_loop P n acc x = (Ok (acc @ take n (avail x)), x')
    \<and> avail x' = drop n (avail x) \<and> eof x' = eof x"
proof (induction n arbitrary: acc x rule: less_induct)
  case (less n)
  show ?case
  proof (cases "n = 0")
    case True
    then show ?thesis
      by (subst exact_loop.simps) simp
  next
    case False
    then have "avail x \<noteq> []" "0 < n"
      using less.prems by auto
    then obtain k x' where k: "0 < k" "k \<le> n" "k \<le> length (avail x)" "avail x' = drop k (avail x)" "eof x' = eof x"
      "exact_loop P n acc x = exact_loop P (n - k) (acc @ take k (avail x)) x'"
      by (rule exact_loop_step)
    from less.IH [of "n - k" x' "acc @ take k (avail x)"] show ?thesis
      using k less.prems take_add [of k "n - k" "avail x"] by auto
  qed
qed

lemma exact_loop_short:
  "length (avail x) < n \<Longrightarrow> if eof x then fst (exact_loop P n acc x) = Err ''UnexpectedEof''
    else fst (exact_loop P n acc x) = Pending \<and> avail (snd (exact_loop P n acc x)) = [] \<and> \<not> eof (snd (exact_loop P n acc x))"
proof (induction n arbitrary: acc x rule: less_induct)
  case (less n)
  show ?case
  proof (cases "avail x = []")
    case True
    then show ?thesis
      using read_eof [OF True, of n] read_wait [OF True, of n] less.prems
      by (subst (1 2 3 4) exact_loop.simps) (auto split: prod.splits)
  next
    case False
    then have "avail x \<noteq> []" "0 < n"
      using less.prems by auto
    then obtain k x' where k: "0 < k" "k \<le> n" "k \<le> length (avail x)" "avail x' = drop k (avail x)" "eof x' = eof x"
      "exact_loop P n acc x = exact_loop P (n - k) (acc @ take k (avail x)) x'"
      by (rule exact_loop_step)
    from less.IH [of "n - k" x' "acc @ take k (avail x)"] show ?thesis
      using k less.prems by auto
  qed
qed

lemma loop_reader: "async_reader (loop_ext P) avail eof"
proof (unfold_locales, goal_cases)
  case (1 r b bs)
  then show ?case
    using exact_loop_ready [of 1 r "[]"] by (auto simp: loop_ext_def)
next
  case (2 r)
  then show ?case
    using exact_loop_short [of r 1 "[]"] by (auto simp: loop_ext_def split: prod.splits)
next
  case (3 r)
  then show ?case
    using exact_loop_short [of r 1 "[]"] by (auto simp: loop_ext_def split: prod.splits)
next
  case (4 n r)
  then show ?case
    using exact_loop_ready [of n r "[]"] by (auto simp: loop_ext_def)
next
  case (5 r n)
  then show ?case
    using exact_loop_short [of r n "[]"] by (auto simp: loop_ext_def)
next
  case (6 r n)
  then show ?case
    using exact_loop_short [of r n "[]"] by (auto simp: loop_ext_def)
qed

end

interpretation loop: read_ext loop_ext
  by (rule read_ext.intro) (rule byte_stream.loop_reader)

text \<open>Sockets in memory: what has arrived, whether the peer has closed, what was written, and whether the peer is there.\<close>

definition memory_io :: "(bytes \<times> bool \<times> bytes \<times> bool) io_ops" where
  "memory_io = \<lparr>poll_read = (\<lambda>n (a, e, t, u). if a = [] \<and> \<not> e \<and> 0 < n then (Pending, (a, e, t, u))
       else (Ok (take n a), (drop n a, e, t, u))),
     poll_write = (\<lambda>bs (a, e, t, u). if u then (Ok (length bs), (a, e, t @ bs, u)) else (Err ''BrokenPipe'', (a, e, t, u))),
     poll_flush = (\<lambda>x. (Ok (), x)),
     poll_shutdown = (\<lambda>(a, e, t, u). (Ok (), (a, e, t, False)))\<rparr>"

definition memory_sockets :: "(bytes \<times> bool \<times> bytes \<times> bool, bytes \<times> bool \<times> bytes \<times> bool) socket_ops" where
  "memory_sockets = \<lparr>tcp_io = memory_io, tls_io = memory_io, tcp_peer_addr = (\<lambda>_. Ok ''127.0.0.1:1''), tls_get_ref = (\<lambda>x. x)\<rparr>"

interpretation memory_stream: byte_stream memory_io fst "\<lambda>x. fst (snd x)" "\<lambda>x. fst (snd (snd x))" "\<lambda>x. snd (snd (snd x))"
proof (unfold_locales, goal_cases)
  case (1 x n)
  then show ?case
    by (intro exI [of _ "min n (length (fst x))"] exI [of _ "snd (poll_read memory_io n x)"])
      (auto simp: memory_io_def min_def split: prod.splits)
next
  case (4 x bs)
  then show ?case
    by (intro exI [of _ "snd (poll_write memory_io bs x)"] exI [of _ "length bs"]) (auto simp: memory_io_def split: prod.splits)
qed (auto simp: memory_io_def split: prod.splits)

interpretation memory_net: sockets memory_sockets fst "\<lambda>x. fst (snd x)" "\<lambda>x. fst (snd (snd x))" "\<lambda>x. snd (snd (snd x))"
  fst "\<lambda>x. fst (snd x)" "\<lambda>x. fst (snd (snd x))" "\<lambda>x. snd (snd (snd x))"
  unfolding sockets_def memory_sockets_def using memory_stream.byte_stream_axioms by simp

end
