(* ===== verification/Sql.thy ===== *)
theory Sql
  imports Storage
begin

text \<open>
  The interface to SQLite that \<^verbatim>\<open>src/storage/sqlite.rs\<close> uses through \<open>rusqlite\<close> and \<open>chrono\<close>,
  parameters of the model.  Statements and queries are the ones that file writes, as terms; their
  meaning on the rows of the tables is the documented one, and a query without ORDER BY may return
  its rows in any order.  A query stands for preparing the statement and stepping through its rows,
  and fails when one of these fails.  \<open>tables\<close> lists the rows of each table in some order and \<open>base\<close> is what a
  transaction falls back to.
\<close>

section \<open>Statements\<close>

datatype sql_value = SqlNull | SqlInteger int | SqlText rstring | SqlBlob bytes

type_synonym row = "sql_value list"

datatype table =
    Sessions | Subscriptions | InflightMessages | InboundQos2Messages | RetainedMessages

type_synonym tables = "table \<Rightarrow> row list"

text \<open>
  \<open>CreateTables\<close> is the batch of CREATE TABLE IF NOT EXISTS; a table that does not exist counts as
  empty.  \<open>Upsert t r cs\<close> is INSERT with ON CONFLICT DO UPDATE of the columns \<open>cs\<close>; \<open>Delete t c v\<close>
  has the condition that column \<open>c\<close> is \<open>v\<close>.
\<close>

datatype statement =
    CreateTables
  | Insert table row
  | Upsert table row "nat list"
  | Delete table nat sql_value

datatype query =
    SelectWhere table nat sql_value
  | SelectOrdered table nat sql_value nat
  | SelectLess table nat sql_value
  | SelectAll table

record 'db sql_ops =
  sql_execute :: "statement \<Rightarrow> 'db \<Rightarrow> (string + unit) \<times> 'db"
  sql_prepare :: "table \<Rightarrow> 'db \<Rightarrow> string + unit"
  sql_query :: "query \<Rightarrow> 'db \<Rightarrow> string + row list"
  sql_count :: "query \<Rightarrow> 'db \<Rightarrow> string + int"
  sql_transaction :: "'db \<Rightarrow> (string + unit) \<times> 'db"
  sql_commit :: "'db \<Rightarrow> (string + unit) \<times> 'db"
  sql_rollback :: "'db \<Rightarrow> 'db"
  get_string :: "sql_value \<Rightarrow> string + rstring"
  get_blob :: "sql_value \<Rightarrow> string + bytes"
  get_i32 :: "sql_value \<Rightarrow> string + int"
  sql_u8 :: "sql_value \<Rightarrow> string + u8"
  get_opt_string :: "sql_value \<Rightarrow> string + rstring option"
  get_opt_blob :: "sql_value \<Rightarrow> string + bytes option"
  get_opt_i32 :: "sql_value \<Rightarrow> string + int option"
  get_opt_u8 :: "sql_value \<Rightarrow> string + u8 option"
  to_rfc3339 :: "datetime \<Rightarrow> string"
  parse_from_rfc3339 :: "string \<Rightarrow> datetime option"

section \<open>Meaning\<close>

text \<open>The primary keys of the schema: the first one or two columns.\<close>

fun key_columns :: "table \<Rightarrow> nat" where
  "key_columns Sessions = 1"
| "key_columns Subscriptions = 2"
| "key_columns InflightMessages = 2"
| "key_columns InboundQos2Messages = 2"
| "key_columns RetainedMessages = 1"

definition primary_key :: "table \<Rightarrow> row \<Rightarrow> row" where
  "primary_key t r = take (key_columns t) r"

definition has_key :: "table \<Rightarrow> row \<Rightarrow> tables \<Rightarrow> bool" where
  "has_key t r T \<longleftrightarrow> primary_key t r \<in> primary_key t ` set (T t)"

definition merge_row :: "nat list \<Rightarrow> row \<Rightarrow> row \<Rightarrow> row" where
  "merge_row cs excluded r = fold (\<lambda>c r. r[c := excluded ! c]) cs r"

fun run_statement :: "statement \<Rightarrow> tables \<Rightarrow> tables option" where
  "run_statement CreateTables T = Some T"
| "run_statement (Insert t r) T = (if has_key t r T then None else Some (T(t := T t @ [r])))"
| "run_statement (Upsert t r cs) T =
    Some (if has_key t r T
          then T(t := map (\<lambda>r'. if primary_key t r' = primary_key t r then merge_row cs r r' else r') (T t))
          else T(t := T t @ [r]))"
| "run_statement (Delete t c v) T = Some (T(t := filter (\<lambda>r. r ! c \<noteq> v) (T t)))"

text \<open>Text is compared bytewise, and a prefix comes first.\<close>

fun text_less :: "rstring \<Rightarrow> rstring \<Rightarrow> bool" where
  "text_less xs [] \<longleftrightarrow> False"
| "text_less [] (y # ys) \<longleftrightarrow> True"
| "text_less (x # xs) (y # ys) \<longleftrightarrow>
    (of_char x :: nat) < of_char y \<or> x = y \<and> text_less xs ys"

fun value_less :: "sql_value \<Rightarrow> sql_value \<Rightarrow> bool" where
  "value_less (SqlText a) (SqlText b) \<longleftrightarrow> text_less a b"
| "value_less _ _ \<longleftrightarrow> False"

fun selected :: "query \<Rightarrow> tables \<Rightarrow> row list" where
  "selected (SelectWhere t c v) T = filter (\<lambda>r. r ! c = v) (T t)"
| "selected (SelectOrdered t c v by) T = filter (\<lambda>r. r ! c = v) (T t)"
| "selected (SelectLess t c v) T = filter (\<lambda>r. value_less (r ! c) v) (T t)"
| "selected (SelectAll t) T = T t"

fun in_order :: "query \<Rightarrow> row list \<Rightarrow> bool" where
  "in_order (SelectOrdered t c v by) rows \<longleftrightarrow>
    (\<forall>i j. i < j \<longrightarrow> j < length rows \<longrightarrow> \<not> value_less (rows ! j ! by) (rows ! i ! by))"
| "in_order _ rows \<longleftrightarrow> True"

section \<open>The contract\<close>

text \<open>
  A statement that fails changes nothing, one that violates a primary key fails, and a transaction
  that is dropped is undone.  \<open>valid\<close> holds of the times that RFC 3339 can write, where the text is
  read back and sorts like the times; \<open>time_of\<close> is the time a text was written for.
\<close>

locale sql_engine =
  fixes Q :: "'db sql_ops"
    and tables :: "'db \<Rightarrow> tables"
    and base :: "'db \<Rightarrow> tables"
    and time_of :: "string \<Rightarrow> datetime"
    and valid :: "datetime \<Rightarrow> bool"
  assumes execute_ok: "sql_execute Q s db = (Inr (), db') \<Longrightarrow>
      run_statement s (tables db) = Some (tables db') \<and> base db' = base db"
    and execute_fail: "sql_execute Q s db = (Inl e, db') \<Longrightarrow> tables db' = tables db \<and> base db' = base db"
    and query_ok: "sql_query Q q db = Inr rows \<Longrightarrow>
      mset rows = mset (selected q (tables db)) \<and> in_order q rows"
    and count_ok: "sql_count Q q db = Inr n \<Longrightarrow> n = int (length (selected q (tables db)))"
    and transaction_ok: "sql_transaction Q db = (Inr (), db') \<Longrightarrow> tables db' = tables db \<and> base db' = tables db"
    and transaction_fail: "sql_transaction Q db = (Inl e, db') \<Longrightarrow> tables db' = tables db"
    and commit_ok: "sql_commit Q db = (Inr (), db') \<Longrightarrow> tables db' = tables db"
    and commit_fail: "sql_commit Q db = (Inl e, db') \<Longrightarrow> base db' = base db"
    and rollback: "tables (sql_rollback Q db) = base db"
    and get_text: "get_string Q (SqlText t) = Inr t" "get_opt_string Q (SqlText t) = Inr (Some t)"
    and get_bytes: "get_blob Q (SqlBlob b) = Inr b" "get_opt_blob Q (SqlBlob b) = Inr (Some b)"
    and get_int: "- (2 ^ 31) \<le> n \<Longrightarrow> n < 2 ^ 31 \<Longrightarrow>
      get_i32 Q (SqlInteger n) = Inr n \<and> get_opt_i32 Q (SqlInteger n) = Inr (Some n)"
    and get_int_range: "2 ^ 31 \<le> n \<Longrightarrow> \<exists>e. get_i32 Q (SqlInteger n) = Inl e"
    and get_byte: "sql_u8 Q (SqlInteger (uint x)) = Inr x" "get_opt_u8 Q (SqlInteger (uint x)) = Inr (Some x)"
    and get_null: "get_opt_string Q SqlNull = Inr None" "get_opt_blob Q SqlNull = Inr None"
      "get_opt_i32 Q SqlNull = Inr None" "get_opt_u8 Q SqlNull = Inr None"
    and written: "time_of (to_rfc3339 Q d) = d"
    and parse_written: "parse_from_rfc3339 Q (to_rfc3339 Q d) = None \<or> parse_from_rfc3339 Q (to_rfc3339 Q d) = Some d"
    and parse_valid: "valid d \<Longrightarrow> parse_from_rfc3339 Q (to_rfc3339 Q d) = Some d"
    and order_valid: "valid d \<Longrightarrow> valid d' \<Longrightarrow> text_less (to_rfc3339 Q d) (to_rfc3339 Q d') \<longleftrightarrow> d < d'"

text \<open>A statement succeeds unless it would violate a primary key, and nothing else fails.\<close>

locale working_engine = sql_engine Q tables base time_of valid
  for Q :: "'db sql_ops" and tables base time_of valid +
  assumes executes: "run_statement s (tables db) \<noteq> None \<Longrightarrow> fst (sql_execute Q s db) = Inr ()"
    and prepares: "sql_prepare Q t db = Inr ()"
    and queries: "\<exists>rows. sql_query Q q db = Inr rows"
    and transactions: "fst (sql_transaction Q db) = Inr ()" "fst (sql_commit Q db) = Inr ()"

end
