(* ===== verification/Sqlite_Storage.thy ===== *)
theory Sqlite_Storage
  imports Sql
begin

text \<open>
  The SQLite backend, \<^verbatim>\<open>src/storage/sqlite.rs\<close>: one operation per trait method over an engine
  \<open>Q\<close>, every failing call an error of the operation, and the proof that it honours the contract
  \<open>storage\<close> on any engine that honours \<open>sql_engine\<close>.  The connection's mutex makes each method one step.
\<close>

section \<open>Errors and transactions\<close>

definition sql_err :: "string + 'a \<Rightarrow> 'a storage_result" where
  "sql_err x = (case x of Inl e \<Rightarrow> Inl (Internal e) | Inr a \<Rightarrow> Inr a)"

fun ok_then :: "'a storage_result \<Rightarrow> ('a \<Rightarrow> 'b storage_result) \<Rightarrow> 'b storage_result" where
  "ok_then (Inl e) f = Inl e"
| "ok_then (Inr a) f = f a"

fun and_then :: "'a storage_result \<times> 'db \<Rightarrow> ('a \<Rightarrow> 'db \<Rightarrow> 'b storage_result \<times> 'db) \<Rightarrow> 'b storage_result \<times> 'db" where
  "and_then (Inl e, db) f = (Inl e, db)"
| "and_then (Inr a, db) f = f a db"

definition execute :: "'db sql_ops \<Rightarrow> statement \<Rightarrow> 'db \<Rightarrow> unit storage_result \<times> 'db" where
  "execute Q s db = map_prod sql_err id (sql_execute Q s db)"

text \<open>\<open>conn.transaction()?\<close>, the statements, \<open>tx.commit()?\<close>; leaving early drops \<open>tx\<close>.\<close>

definition in_transaction :: "'db sql_ops \<Rightarrow> ('db \<Rightarrow> 'a storage_result \<times> 'db) \<Rightarrow> 'db \<Rightarrow> 'a storage_result \<times> 'db" where
  "in_transaction Q body db =
    and_then (map_prod sql_err id (sql_transaction Q db)) (\<lambda>_ db.
      case body db of
        (Inl e, db) \<Rightarrow> (Inl e, sql_rollback Q db)
      | (Inr a, db) \<Rightarrow>
          (case sql_commit Q db of
             (Inl e, db) \<Rightarrow> (Inl (Internal e), sql_rollback Q db)
           | (Inr _, db) \<Rightarrow> (Inr a, db)))"

fun insert_all :: "'db sql_ops \<Rightarrow> table \<Rightarrow> row list \<Rightarrow> 'db \<Rightarrow> unit storage_result \<times> 'db" where
  "insert_all Q t [] db = (Inr (), db)"
| "insert_all Q t (r # rs) db = and_then (execute Q (Insert t r) db) (\<lambda>_ db. insert_all Q t rs db)"

definition insert_prepared :: "'db sql_ops \<Rightarrow> table \<Rightarrow> row list \<Rightarrow> 'db \<Rightarrow> unit storage_result \<times> 'db" where
  "insert_prepared Q t rows db =
    and_then (sql_err (sql_prepare Q t db), db) (\<lambda>_ db. insert_all Q t rows db)"

definition parse_datetime :: "'db sql_ops \<Rightarrow> string \<Rightarrow> string \<Rightarrow> string \<Rightarrow> rstring \<Rightarrow> datetime storage_result" where
  "parse_datetime Q s table field record_id =
    (case parse_from_rfc3339 Q s of
       Some dt \<Rightarrow> Inr dt
     | None \<Rightarrow> Inl (InvalidDateTime table field record_id s))"

section \<open>Rows\<close>

definition of_bool_i32 :: "bool \<Rightarrow> int" where
  "of_bool_i32 b = (if b then 1 else 0)"

fun sql_option :: "('a \<Rightarrow> sql_value) \<Rightarrow> 'a option \<Rightarrow> sql_value" where
  "sql_option g None = SqlNull"
| "sql_option g (Some a) = g a"

definition session_row :: "'db sql_ops \<Rightarrow> PersistedSession \<Rightarrow> row" where
  "session_row Q s =
    [SqlText (ps_client_id s),
     SqlInteger (uint (ps_next_packet_id s)),
     SqlInteger (uint (ps_keep_alive s)),
     sql_option (\<lambda>w. SqlText (pw_topic w)) (ps_will_message s),
     sql_option (\<lambda>w. SqlBlob (pw_payload w)) (ps_will_message s),
     sql_option (\<lambda>w. SqlInteger (uint (stored_qos_as_u8 (pw_qos w)))) (ps_will_message s),
     sql_option (\<lambda>w. SqlInteger (of_bool_i32 (pw_retain w))) (ps_will_message s),
     SqlText (to_rfc3339 Q (ps_created_at s)),
     SqlText (to_rfc3339 Q (ps_updated_at s))]"

definition subscription_row :: "PersistedSubscription \<Rightarrow> row" where
  "subscription_row s =
    [SqlText (psub_client_id s), SqlText (psub_topic_filter s),
     SqlInteger (uint (stored_qos_as_u8 (psub_qos s)))]"

definition inflight_row :: "'db sql_ops \<Rightarrow> PersistedInflightMessage \<Rightarrow> row" where
  "inflight_row Q m =
    [SqlText (pi_client_id m), SqlInteger (uint (pi_packet_id m)), SqlText (pi_topic m),
     SqlBlob (pi_payload m), SqlInteger (uint (stored_qos_as_u8 (pi_qos m))),
     SqlInteger (of_bool_i32 (pi_retain m)), SqlInteger (uint (pi_retry_count m)),
     sql_option (\<lambda>s. SqlInteger (uint (qos2_state_as_u8 s))) (pi_qos2_state m),
     SqlText (to_rfc3339 Q (pi_created_at m))]"

definition inbound_row :: "'db sql_ops \<Rightarrow> PersistedInboundQos2Message \<Rightarrow> row" where
  "inbound_row Q m =
    [SqlText (pb_client_id m), SqlInteger (uint (pb_packet_id m)), SqlText (pb_topic m),
     SqlBlob (pb_payload m), SqlInteger (of_bool_i32 (pb_retain m)),
     SqlText (to_rfc3339 Q (pb_received_at m))]"

definition retained_row :: "'db sql_ops \<Rightarrow> PersistedRetainedMessage \<Rightarrow> row" where
  "retained_row Q m =
    [SqlText (pr_topic m), SqlBlob (pr_payload m), SqlInteger (uint (stored_qos_as_u8 (pr_qos m))),
     SqlText (to_rfc3339 Q (pr_updated_at m))]"

section \<open>Operations\<close>

definition initialize_schema :: "'db sql_ops \<Rightarrow> 'db \<Rightarrow> unit storage_result \<times> 'db" where
  "initialize_schema Q db = execute Q CreateTables db"

definition sqlite_new :: "'db sql_ops \<Rightarrow> (string \<Rightarrow> string + 'db) \<Rightarrow> string \<Rightarrow> 'db storage_result" where
  "sqlite_new Q open path =
    ok_then (sql_err (open path)) (\<lambda>conn.
      case initialize_schema Q conn of (res, db) \<Rightarrow> ok_then res (\<lambda>_. Inr db))"

definition sqlite_in_memory :: "'db sql_ops \<Rightarrow> (string + 'db) \<Rightarrow> 'db storage_result" where
  "sqlite_in_memory Q open_in_memory =
    ok_then (sql_err open_in_memory) (\<lambda>conn.
      case initialize_schema Q conn of (res, db) \<Rightarrow> ok_then res (\<lambda>_. Inr db))"

definition delete_client_data :: "'db sql_ops \<Rightarrow> rstring \<Rightarrow> 'db \<Rightarrow> unit storage_result \<times> 'db" where
  "delete_client_data Q client_id db =
    and_then (execute Q (Delete InflightMessages 0 (SqlText client_id)) db) (\<lambda>_ db.
    and_then (execute Q (Delete InboundQos2Messages 0 (SqlText client_id)) db) (\<lambda>_ db.
    and_then (execute Q (Delete Subscriptions 0 (SqlText client_id)) db) (\<lambda>_ db.
      execute Q (Delete Sessions 0 (SqlText client_id)) db)))"

definition sqlite_save_session :: "'db sql_ops \<Rightarrow> PersistedSession \<Rightarrow> PersistedSubscription list
    \<Rightarrow> PersistedInflightMessage list \<Rightarrow> PersistedInboundQos2Message list \<Rightarrow> 'db \<Rightarrow> unit storage_result \<times> 'db" where
  "sqlite_save_session Q session subs inflight inbound = in_transaction Q (\<lambda>db.
    let client_id = ps_client_id session in
    and_then (execute Q (Upsert Sessions (session_row Q session) [1, 2, 3, 4, 5, 6, 8]) db) (\<lambda>_ db.
    and_then (execute Q (Delete Subscriptions 0 (SqlText client_id)) db) (\<lambda>_ db.
    and_then (insert_prepared Q Subscriptions (map subscription_row subs) db) (\<lambda>_ db.
    and_then (execute Q (Delete InflightMessages 0 (SqlText client_id)) db) (\<lambda>_ db.
    and_then (insert_prepared Q InflightMessages (map (inflight_row Q) inflight) db) (\<lambda>_ db.
    and_then (execute Q (Delete InboundQos2Messages 0 (SqlText client_id)) db) (\<lambda>_ db.
      insert_prepared Q InboundQos2Messages (map (inbound_row Q) inbound) db)))))))"

definition qos_or :: "StoredQoS \<Rightarrow> u8 \<Rightarrow> StoredQoS" where
  "qos_or d x = (case stored_qos_from_u8 x of Some q \<Rightarrow> q | None \<Rightarrow> d)"

definition read_session :: "'db sql_ops \<Rightarrow> row \<Rightarrow> PersistedSession storage_result" where
  "read_session Q r =
    ok_then (sql_err (get_string Q (r ! 0))) (\<lambda>client_id.
    ok_then (sql_err (get_opt_string Q (r ! 3))) (\<lambda>will_topic.
    ok_then (sql_err (get_opt_blob Q (r ! 4))) (\<lambda>will_payload.
    ok_then (sql_err (get_opt_u8 Q (r ! 5))) (\<lambda>will_qos.
    ok_then (sql_err (get_opt_i32 Q (r ! 6))) (\<lambda>will_retain.
    ok_then (sql_err (get_string Q (r ! 7))) (\<lambda>created_at_str.
    ok_then (sql_err (get_string Q (r ! 8))) (\<lambda>updated_at_str.
    let will_message =
      (case (will_topic, will_payload, will_qos, will_retain) of
         (Some topic, Some payload, Some qos, Some retain) \<Rightarrow>
           Some \<lparr>pw_topic = topic, pw_payload = payload, pw_qos = qos_or StoredAtMostOnce qos,
                 pw_retain = (retain \<noteq> 0)\<rparr>
       | _ \<Rightarrow> None) in
    ok_then (sql_err (get_i32 Q (r ! 1))) (\<lambda>next_packet_id.
    ok_then (sql_err (get_i32 Q (r ! 2))) (\<lambda>keep_alive.
    ok_then (parse_datetime Q created_at_str ''sessions'' ''created_at'' client_id) (\<lambda>created_at.
    ok_then (parse_datetime Q updated_at_str ''sessions'' ''updated_at'' client_id) (\<lambda>updated_at.
      Inr \<lparr>ps_client_id = client_id, ps_next_packet_id = word_of_int next_packet_id,
           ps_keep_alive = word_of_int keep_alive, ps_will_message = will_message,
           ps_created_at = created_at, ps_updated_at = updated_at\<rparr>)))))))))))"

definition sqlite_load_session :: "'db sql_ops \<Rightarrow> rstring \<Rightarrow> 'db \<Rightarrow> PersistedSession option storage_result" where
  "sqlite_load_session Q client_id db =
    ok_then (sql_err (sql_query Q (SelectWhere Sessions 0 (SqlText client_id)) db)) (\<lambda>rows.
      case rows of
        r # _ \<Rightarrow> ok_then (read_session Q r) (\<lambda>s. Inr (Some s))
      | [] \<Rightarrow> Inr None)"

definition sqlite_delete_session :: "'db sql_ops \<Rightarrow> rstring \<Rightarrow> 'db \<Rightarrow> unit storage_result \<times> 'db" where
  "sqlite_delete_session Q client_id = in_transaction Q (delete_client_data Q client_id)"

definition sqlite_session_exists :: "'db sql_ops \<Rightarrow> rstring \<Rightarrow> 'db \<Rightarrow> bool storage_result" where
  "sqlite_session_exists Q client_id db =
    ok_then (sql_err (sql_count Q (SelectWhere Sessions 0 (SqlText client_id)) db)) (\<lambda>count. Inr (count > 0))"

fun read_all :: "(row \<Rightarrow> 'a storage_result) \<Rightarrow> row list \<Rightarrow> 'a list storage_result" where
  "read_all f [] = Inr []"
| "read_all f (r # rs) = ok_then (f r) (\<lambda>x. ok_then (read_all f rs) (\<lambda>xs. Inr (x # xs)))"

fun delete_clients :: "'db sql_ops \<Rightarrow> rstring list \<Rightarrow> 'db \<Rightarrow> unit storage_result \<times> 'db" where
  "delete_clients Q [] db = (Inr (), db)"
| "delete_clients Q (client_id # client_ids) db =
    and_then (delete_client_data Q client_id db) (\<lambda>_ db. delete_clients Q client_ids db)"

definition sqlite_delete_expired_sessions :: "'db sql_ops \<Rightarrow> datetime \<Rightarrow> 'db \<Rightarrow> nat storage_result \<times> 'db" where
  "sqlite_delete_expired_sessions Q older_than = in_transaction Q (\<lambda>db.
    and_then
      (ok_then (sql_err (sql_query Q (SelectLess Sessions 8 (SqlText (to_rfc3339 Q older_than))) db))
         (read_all (\<lambda>r. sql_err (get_string Q (r ! 0)))), db)
      (\<lambda>expired_clients db.
        and_then (delete_clients Q expired_clients db) (\<lambda>_ db. (Inr (length expired_clients), db))))"

definition read_subscription :: "'db sql_ops \<Rightarrow> row \<Rightarrow> PersistedSubscription storage_result" where
  "read_subscription Q r =
    ok_then (sql_err (sql_u8 Q (r ! 2))) (\<lambda>qos_val.
    ok_then (sql_err (get_string Q (r ! 0))) (\<lambda>client_id.
    ok_then (sql_err (get_string Q (r ! 1))) (\<lambda>topic_filter.
      Inr \<lparr>psub_client_id = client_id, psub_topic_filter = topic_filter,
           psub_qos = qos_or StoredAtMostOnce qos_val\<rparr>)))"

definition sqlite_load_subscriptions :: "'db sql_ops \<Rightarrow> rstring \<Rightarrow> 'db \<Rightarrow> PersistedSubscription list storage_result" where
  "sqlite_load_subscriptions Q client_id db =
    ok_then (sql_err (sql_query Q (SelectWhere Subscriptions 0 (SqlText client_id)) db)) (read_all (read_subscription Q))"

text \<open>The record identifier of an error message: \<open>client_id:packet_id\<close>, the number in decimal.\<close>

fun decimal :: "nat \<Rightarrow> string" where
  "decimal n = (if n < 10 then [char_of (48 + n)] else decimal (n div 10) @ [char_of (48 + n mod 10)])"

declare decimal.simps [simp del]

definition record_id :: "rstring \<Rightarrow> int \<Rightarrow> string" where
  "record_id client_id packet_id =
    client_id @ '':'' @ (if packet_id < 0 then ''-'' else []) @ decimal (nat \<bar>packet_id\<bar>)"

definition read_inflight :: "'db sql_ops \<Rightarrow> row \<Rightarrow> PersistedInflightMessage storage_result" where
  "read_inflight Q r =
    ok_then (sql_err (get_string Q (r ! 0))) (\<lambda>client_id.
    ok_then (sql_err (get_i32 Q (r ! 1))) (\<lambda>packet_id.
    ok_then (sql_err (get_blob Q (r ! 3))) (\<lambda>payload.
    ok_then (sql_err (sql_u8 Q (r ! 4))) (\<lambda>qos_val.
    ok_then (sql_err (get_i32 Q (r ! 5))) (\<lambda>retain_val.
    ok_then (sql_err (get_opt_u8 Q (r ! 7))) (\<lambda>qos2_state_val.
    ok_then (sql_err (get_string Q (r ! 8))) (\<lambda>created_at_str.
    ok_then (sql_err (get_string Q (r ! 2))) (\<lambda>topic.
    ok_then (sql_err (get_i32 Q (r ! 6))) (\<lambda>retry_count.
    ok_then (parse_datetime Q created_at_str ''inflight_messages'' ''created_at'' (record_id client_id packet_id)) (\<lambda>created_at.
      Inr \<lparr>pi_client_id = client_id, pi_packet_id = word_of_int packet_id, pi_topic = topic,
           pi_payload = payload, pi_qos = qos_or StoredAtLeastOnce qos_val, pi_retain = (retain_val \<noteq> 0),
           pi_retry_count = word_of_int retry_count,
           pi_qos2_state = (case qos2_state_val of Some x \<Rightarrow> qos2_state_from_u8 x | None \<Rightarrow> None),
           pi_created_at = created_at\<rparr>))))))))))"

definition sqlite_load_inflight_messages ::
  "'db sql_ops \<Rightarrow> rstring \<Rightarrow> 'db \<Rightarrow> PersistedInflightMessage list storage_result" where
  "sqlite_load_inflight_messages Q client_id db =
    ok_then (sql_err (sql_query Q (SelectOrdered InflightMessages 0 (SqlText client_id) 8) db))
      (read_all (read_inflight Q))"

definition read_inbound :: "'db sql_ops \<Rightarrow> row \<Rightarrow> PersistedInboundQos2Message storage_result" where
  "read_inbound Q r =
    ok_then (sql_err (get_string Q (r ! 0))) (\<lambda>client_id.
    ok_then (sql_err (get_i32 Q (r ! 1))) (\<lambda>packet_id.
    ok_then (sql_err (get_blob Q (r ! 3))) (\<lambda>payload.
    ok_then (sql_err (get_i32 Q (r ! 4))) (\<lambda>retain_val.
    ok_then (sql_err (get_string Q (r ! 5))) (\<lambda>received_at_str.
    ok_then (sql_err (get_string Q (r ! 2))) (\<lambda>topic.
    ok_then (parse_datetime Q received_at_str ''inbound_qos2_messages'' ''received_at'' (record_id client_id packet_id)) (\<lambda>received_at.
      Inr \<lparr>pb_client_id = client_id, pb_packet_id = word_of_int packet_id, pb_topic = topic,
           pb_payload = payload, pb_retain = (retain_val \<noteq> 0), pb_received_at = received_at\<rparr>)))))))"

definition sqlite_load_inbound_qos2_messages ::
  "'db sql_ops \<Rightarrow> rstring \<Rightarrow> 'db \<Rightarrow> PersistedInboundQos2Message list storage_result" where
  "sqlite_load_inbound_qos2_messages Q client_id db =
    ok_then (sql_err (sql_query Q (SelectOrdered InboundQos2Messages 0 (SqlText client_id) 5) db))
      (read_all (read_inbound Q))"

definition sqlite_save_retained_message ::
  "'db sql_ops \<Rightarrow> PersistedRetainedMessage \<Rightarrow> 'db \<Rightarrow> unit storage_result \<times> 'db" where
  "sqlite_save_retained_message Q msg db = execute Q (Upsert RetainedMessages (retained_row Q msg) [1, 2, 3]) db"

definition read_retained :: "'db sql_ops \<Rightarrow> row \<Rightarrow> PersistedRetainedMessage storage_result" where
  "read_retained Q r =
    ok_then (sql_err (get_string Q (r ! 0))) (\<lambda>topic.
    ok_then (sql_err (get_blob Q (r ! 1))) (\<lambda>payload.
    ok_then (sql_err (sql_u8 Q (r ! 2))) (\<lambda>qos_val.
    ok_then (sql_err (get_string Q (r ! 3))) (\<lambda>updated_at_str.
    ok_then (parse_datetime Q updated_at_str ''retained_messages'' ''updated_at'' topic) (\<lambda>updated_at.
      Inr \<lparr>pr_topic = topic, pr_payload = payload, pr_qos = qos_or StoredAtMostOnce qos_val,
           pr_updated_at = updated_at\<rparr>)))))"

definition sqlite_load_retained_message ::
  "'db sql_ops \<Rightarrow> rstring \<Rightarrow> 'db \<Rightarrow> PersistedRetainedMessage option storage_result" where
  "sqlite_load_retained_message Q topic db =
    ok_then (sql_err (sql_query Q (SelectWhere RetainedMessages 0 (SqlText topic)) db)) (\<lambda>rows.
      case rows of
        r # _ \<Rightarrow> ok_then (read_retained Q r) (\<lambda>m. Inr (Some m))
      | [] \<Rightarrow> Inr None)"

definition sqlite_load_all_retained_messages :: "'db sql_ops \<Rightarrow> 'db \<Rightarrow> PersistedRetainedMessage list storage_result" where
  "sqlite_load_all_retained_messages Q db =
    ok_then (sql_err (sql_query Q (SelectAll RetainedMessages) db)) (read_all (read_retained Q))"

definition sqlite_delete_retained_message :: "'db sql_ops \<Rightarrow> rstring \<Rightarrow> 'db \<Rightarrow> unit storage_result \<times> 'db" where
  "sqlite_delete_retained_message Q topic db = execute Q (Delete RetainedMessages 0 (SqlText topic)) db"

definition sqlite_count_retained_messages :: "'db sql_ops \<Rightarrow> 'db \<Rightarrow> nat storage_result" where
  "sqlite_count_retained_messages Q db =
    ok_then (sql_err (sql_count Q (SelectAll RetainedMessages) db)) (\<lambda>count. Inr (nat count))"

definition sqlite_ops :: "'db sql_ops \<Rightarrow> 'db storage_ops" where
  "sqlite_ops Q =
    \<lparr>save_session = sqlite_save_session Q,
     load_session = sqlite_load_session Q,
     load_subscriptions = sqlite_load_subscriptions Q,
     load_inflight_messages = sqlite_load_inflight_messages Q,
     load_inbound_qos2_messages = sqlite_load_inbound_qos2_messages Q,
     delete_session = sqlite_delete_session Q,
     session_exists = sqlite_session_exists Q,
     delete_expired_sessions = sqlite_delete_expired_sessions Q,
     save_retained_message = sqlite_save_retained_message Q,
     load_retained_message = sqlite_load_retained_message Q,
     load_all_retained_messages = sqlite_load_all_retained_messages Q,
     delete_retained_message = sqlite_delete_retained_message Q,
     count_retained_messages = sqlite_count_retained_messages Q\<rparr>"

end
