(* ===== verification/Sqlite_Rows.thy ===== *)
theory Sqlite_Rows
  imports Sqlite_Storage
begin

text \<open>
  What the rows of the SQLite tables stand for: the two views that the storage contract speaks of,
  the invariant of the tables, what inserts and upserts do to the rows of a key, and that reading
  a written row gives the record back.
\<close>

section \<open>What the rows stand for\<close>

fun text_of :: "sql_value \<Rightarrow> rstring" where
  "text_of (SqlText s) = s"
| "text_of _ = []"

fun blob_of :: "sql_value \<Rightarrow> bytes" where
  "blob_of (SqlBlob b) = b"
| "blob_of _ = []"

fun int_of :: "sql_value \<Rightarrow> int" where
  "int_of (SqlInteger n) = n"
| "int_of _ = 0"

definition qos_of :: "sql_value \<Rightarrow> StoredQoS" where
  "qos_of v = qos_or StoredAtMostOnce (word_of_int (int_of v))"

lemma qos_of_written [simp]: "qos_of (SqlInteger (uint (stored_qos_as_u8 q))) = q"
  by (simp add: qos_of_def qos_or_def)

lemma qos_or_written [simp]: "qos_or d (stored_qos_as_u8 q) = q"
  by (simp add: qos_or_def)

lemma of_bool_i32 [simp]: "of_bool_i32 b \<noteq> 0 \<longleftrightarrow> b"
  by (simp add: of_bool_i32_def)

definition row_session :: "(string \<Rightarrow> datetime) \<Rightarrow> row \<Rightarrow> PersistedSession" where
  "row_session time_of r =
    \<lparr>ps_client_id = text_of (r ! 0),
     ps_next_packet_id = word_of_int (int_of (r ! 1)),
     ps_keep_alive = word_of_int (int_of (r ! 2)),
     ps_will_message = (if r ! 3 = SqlNull then None else Some
       \<lparr>pw_topic = text_of (r ! 3), pw_payload = blob_of (r ! 4), pw_qos = qos_of (r ! 5),
        pw_retain = (int_of (r ! 6) \<noteq> 0)\<rparr>),
     ps_created_at = time_of (text_of (r ! 7)),
     ps_updated_at = time_of (text_of (r ! 8))\<rparr>"

definition row_subscription :: "row \<Rightarrow> PersistedSubscription" where
  "row_subscription r =
    \<lparr>psub_client_id = text_of (r ! 0), psub_topic_filter = text_of (r ! 1), psub_qos = qos_of (r ! 2)\<rparr>"

definition row_inflight :: "(string \<Rightarrow> datetime) \<Rightarrow> row \<Rightarrow> PersistedInflightMessage" where
  "row_inflight time_of r =
    \<lparr>pi_client_id = text_of (r ! 0), pi_packet_id = word_of_int (int_of (r ! 1)),
     pi_topic = text_of (r ! 2), pi_payload = blob_of (r ! 3), pi_qos = qos_of (r ! 4),
     pi_retain = (int_of (r ! 5) \<noteq> 0), pi_retry_count = word_of_int (int_of (r ! 6)),
     pi_qos2_state = (if r ! 7 = SqlNull then None else qos2_state_from_u8 (word_of_int (int_of (r ! 7)))),
     pi_created_at = time_of (text_of (r ! 8))\<rparr>"

definition row_inbound :: "(string \<Rightarrow> datetime) \<Rightarrow> row \<Rightarrow> PersistedInboundQos2Message" where
  "row_inbound time_of r =
    \<lparr>pb_client_id = text_of (r ! 0), pb_packet_id = word_of_int (int_of (r ! 1)),
     pb_topic = text_of (r ! 2), pb_payload = blob_of (r ! 3), pb_retain = (int_of (r ! 4) \<noteq> 0),
     pb_received_at = time_of (text_of (r ! 5))\<rparr>"

definition row_retained :: "(string \<Rightarrow> datetime) \<Rightarrow> row \<Rightarrow> PersistedRetainedMessage" where
  "row_retained time_of r =
    \<lparr>pr_topic = text_of (r ! 0), pr_payload = blob_of (r ! 1), pr_qos = qos_of (r ! 2),
     pr_updated_at = time_of (text_of (r ! 3))\<rparr>"

lemma row_head [simp]:
  "session_row Q s ! 0 = SqlText (ps_client_id s)" "subscription_row u ! 0 = SqlText (psub_client_id u)"
  "inflight_row Q m ! 0 = SqlText (pi_client_id m)" "inbound_row Q b ! 0 = SqlText (pb_client_id b)"
  "retained_row Q r ! 0 = SqlText (pr_topic r)"
  by (simp_all add: session_row_def subscription_row_def inflight_row_def inbound_row_def retained_row_def)

text \<open>The rows with a given first column, and the two views of the contract.\<close>

definition rows_for :: "tables \<Rightarrow> table \<Rightarrow> rstring \<Rightarrow> row list" where
  "rows_for T t k = filter (\<lambda>r. r ! 0 = SqlText k) (T t)"

definition saved_rows :: "(string \<Rightarrow> datetime) \<Rightarrow> tables \<Rightarrow> rstring \<Rightarrow> saved_session option" where
  "saved_rows time_of T cid =
    (case rows_for T Sessions cid of
       [] \<Rightarrow> None
     | r # _ \<Rightarrow> Some
         \<lparr>sv_session = row_session time_of r,
          sv_subscriptions = map row_subscription (rows_for T Subscriptions cid),
          sv_inflight = map (row_inflight time_of) (rows_for T InflightMessages cid),
          sv_inbound = map (row_inbound time_of) (rows_for T InboundQos2Messages cid)\<rparr>)"

definition retained_rows :: "(string \<Rightarrow> datetime) \<Rightarrow> tables \<Rightarrow> rstring \<Rightarrow> PersistedRetainedMessage option" where
  "retained_rows time_of T topic =
    (case rows_for T RetainedMessages topic of [] \<Rightarrow> None | r # _ \<Rightarrow> Some (row_retained time_of r))"

text \<open>Every row was written by the backend, keys are unique, and dependent rows have a session.\<close>

fun written_row :: "'db sql_ops \<Rightarrow> table \<Rightarrow> row \<Rightarrow> bool" where
  "written_row Q Sessions r \<longleftrightarrow> (\<exists>s. r = session_row Q s)"
| "written_row Q Subscriptions r \<longleftrightarrow> (\<exists>s. r = subscription_row s)"
| "written_row Q InflightMessages r \<longleftrightarrow> (\<exists>m. r = inflight_row Q m)"
| "written_row Q InboundQos2Messages r \<longleftrightarrow> (\<exists>m. r = inbound_row Q m)"
| "written_row Q RetainedMessages r \<longleftrightarrow> (\<exists>m. r = retained_row Q m)"

definition heads :: "tables \<Rightarrow> table \<Rightarrow> sql_value set" where
  "heads T t = (\<lambda>r. r ! 0) ` set (T t)"

definition wf_table :: "'db sql_ops \<Rightarrow> table \<Rightarrow> row list \<Rightarrow> bool" where
  "wf_table Q t rows \<longleftrightarrow> (\<forall>r \<in> set rows. written_row Q t r) \<and> distinct (map (primary_key t) rows)"

definition wf_tables :: "'db sql_ops \<Rightarrow> tables \<Rightarrow> bool" where
  "wf_tables Q T \<longleftrightarrow> (\<forall>t. wf_table Q t (T t)) \<and> heads T Subscriptions \<subseteq> heads T Sessions
    \<and> heads T InflightMessages \<subseteq> heads T Sessions \<and> heads T InboundQos2Messages \<subseteq> heads T Sessions"

lemma rows_for_upd:
  "rows_for (T(t := rs)) t' k = (if t' = t then filter (\<lambda>r. r ! 0 = SqlText k) rs else rows_for T t' k)"
  by (simp add: rows_for_def)

fun insert_rows :: "table \<Rightarrow> row list \<Rightarrow> tables \<Rightarrow> tables option" where
  "insert_rows t [] T = Some T"
| "insert_rows t (r # rs) T = Option.bind (run_statement (Insert t r) T) (insert_rows t rs)"

lemma key_single:
  assumes "distinct (map (primary_key t) (T t))" "key_columns t = 1" "\<forall>r \<in> set (T t). r \<noteq> []"
  shows "length (rows_for T t k) \<le> 1"
proof -
  have "distinct (map (\<lambda>r. r ! 0) (T t))"
  proof -
    have eq: "primary_key t r = [r ! 0]" if "r \<in> set (T t)" for r
    proof -
      have "r \<noteq> []"
        using that assms(3) by blast
      then show ?thesis
        using assms(2) by (cases r) (simp_all add: primary_key_def)
    qed
    have "inj_on (primary_key t) (set (T t)) \<longleftrightarrow> inj_on (\<lambda>r. r ! 0) (set (T t))"
      using eq by (auto simp: inj_on_def)
    then show ?thesis
      using assms(1) by (simp add: distinct_map)
  qed
  then have "distinct (map (\<lambda>r. r ! 0) (rows_for T t k))"
    unfolding rows_for_def by (rule distinct_map_filter)
  moreover have "map (\<lambda>r. r ! 0) (rows_for T t k) = replicate (length (rows_for T t k)) (SqlText k)"
    by (rule nth_equalityI) (auto simp: rows_for_def nth_mem dest: nth_mem)
  ultimately have "distinct (replicate (length (rows_for T t k)) (SqlText k))"
    by simp
  then show ?thesis
    by (cases "length (rows_for T t k)"; cases "length (rows_for T t k) - 1") simp_all
qed

lemma insert_rows_eq:
  assumes "distinct (map (primary_key t) (T t))"
  shows "insert_rows t rs T =
    (if distinct (map (primary_key t) (T t @ rs)) then Some (T(t := T t @ rs)) else None)"
  using assms
proof (induction rs arbitrary: T)
  case (Cons r rs)
  show ?case
  proof (cases "has_key t r T")
    case True
    then show ?thesis
      by (auto simp: has_key_def)
  next
    case False
    define U where "U = T(t := T t @ [r])"
    have U: "U t = T t @ [r]" "\<And>rs. U(t := rs) = T(t := rs)"
      by (simp_all add: U_def)
    have "distinct (map (primary_key t) (U t))"
      using Cons.prems False by (auto simp: has_key_def U(1))
    then have "insert_rows t rs U =
        (if distinct (map (primary_key t) (U t @ rs)) then Some (U(t := U t @ rs)) else None)"
      by (rule Cons.IH)
    then have "insert_rows t rs U =
        (if distinct (map (primary_key t) (T t @ r # rs)) then Some (T(t := T t @ r # rs)) else None)"
      unfolding U by simp
    then show ?thesis
      using False by (simp add: U_def)
  qed
qed simp

lemma primary_key_one: "key_columns t = 1 \<Longrightarrow> r \<noteq> [] \<Longrightarrow> primary_key t r = [r ! 0]"
  by (cases r) (simp_all add: primary_key_def)

lemma merge_row_head: "0 \<notin> set cs \<Longrightarrow> merge_row cs x r ! 0 = r ! 0 \<and> (merge_row cs x r = [] \<longleftrightarrow> r = [])"
proof (induction cs arbitrary: r)
  case (Cons c cs)
  then show ?case
    using Cons.IH [of "r[c := x ! c]"] by (simp add: merge_row_def nth_list_update)
qed (simp add: merge_row_def)

text \<open>An upsert in a table with a one-column key: the row with that key is the new one, merged with the old.\<close>

definition upserted :: "nat list \<Rightarrow> row \<Rightarrow> row list \<Rightarrow> row" where
  "upserted cs r old = (case old of [] \<Rightarrow> r | r' # _ \<Rightarrow> merge_row cs r r')"

definition upsert_effect :: "table \<Rightarrow> rstring \<Rightarrow> row \<Rightarrow> tables \<Rightarrow> tables \<Rightarrow> bool" where
  "upsert_effect t k new T T' \<longleftrightarrow> T' = T(t := T' t)
    \<and> (\<forall>k'. rows_for T' t k' = (if k' = k then [new] else rows_for T t k'))
    \<and> (\<lambda>r. r ! 0) ` set (T' t) = insert (SqlText k) ((\<lambda>r. r ! 0) ` set (T t))
    \<and> distinct (map (primary_key t) (T' t)) \<and> set (T' t) \<subseteq> insert new (set (T t))"

lemma has_key_head:
  assumes "key_columns t = 1" "\<forall>r \<in> set (T t). r \<noteq> []" "r \<noteq> []" "r ! 0 = SqlText k"
  shows "x \<in> set (T t) \<Longrightarrow> primary_key t x = primary_key t r \<longleftrightarrow> x ! 0 = SqlText k"
    and "has_key t r T \<longleftrightarrow> (\<exists>x \<in> set (T t). x ! 0 = SqlText k)"
proof -
  have key: "primary_key t x = primary_key t r \<longleftrightarrow> x ! 0 = SqlText k" if "x \<in> set (T t)" for x
    using that assms by (simp add: primary_key_one)
  then show "x \<in> set (T t) \<Longrightarrow> primary_key t x = primary_key t r \<longleftrightarrow> x ! 0 = SqlText k" .
  have "has_key t r T \<longleftrightarrow> (\<exists>x \<in> set (T t). primary_key t x = primary_key t r)"
    unfolding has_key_def image_iff by metis
  also have "\<dots> \<longleftrightarrow> (\<exists>x \<in> set (T t). x ! 0 = SqlText k)"
    by (rule bex_cong [OF refl key])
  finally show "has_key t r T \<longleftrightarrow> (\<exists>x \<in> set (T t). x ! 0 = SqlText k)" .
qed

lemma upsert_absent:
  assumes "key_columns t = 1" "\<forall>r \<in> set (T t). r \<noteq> []" "distinct (map (primary_key t) (T t))"
    and "r \<noteq> []" "r ! 0 = SqlText k" "\<not> has_key t r T"
  shows "upsert_effect t k (upserted cs r (rows_for T t k)) T (T(t := T t @ [r]))"
proof -
  have "rows_for T t k = []"
    using assms(6) has_key_head(2) [where T = T, OF assms(1,2,4,5)] by (auto simp: rows_for_def filter_empty_conv)
  moreover have "distinct (map (primary_key t) (T t @ [r]))"
    using assms(3,6) by (auto simp: has_key_def)
  ultimately show ?thesis
    using assms(5) by (auto simp: upsert_effect_def rows_for_def upserted_def)
qed

lemma rows_for_one:
  assumes "key_columns t = 1" "\<forall>r \<in> set (T t). r \<noteq> []" "distinct (map (primary_key t) (T t))"
    and "\<exists>x \<in> set (T t). x ! 0 = SqlText k"
  obtains x where "rows_for T t k = [x]" "x \<in> set (T t)" "x ! 0 = SqlText k"
proof -
  have "length (rows_for T t k) \<le> 1"
    using assms(1-3) by (intro key_single)
  moreover have "rows_for T t k \<noteq> []"
    using assms(4) by (auto simp: rows_for_def filter_empty_conv)
  ultimately obtain x where x: "rows_for T t k = [x]"
    by (cases "rows_for T t k") auto
  then have "x \<in> set (rows_for T t k)"
    by simp
  then show thesis
    using that [OF x] by (simp add: rows_for_def)
qed

lemma upsert_present:
  assumes "key_columns t = 1" "\<forall>r \<in> set (T t). r \<noteq> []" "distinct (map (primary_key t) (T t))"
    and "0 \<notin> set cs" "\<exists>x \<in> set (T t). x ! 0 = SqlText k"
  shows "upsert_effect t k (upserted cs r (rows_for T t k)) T
    (T(t := map (\<lambda>x. if x ! 0 = SqlText k then merge_row cs r x else x) (T t)))"
proof -
  define g where "g x = (if x ! 0 = SqlText k then merge_row cs r x else x)" for x
  have head: "g x ! 0 = x ! 0" "g x \<noteq> []" if "x \<in> set (T t)" for x
    using that assms(2) merge_row_head [OF assms(4), of r x] by (auto simp: g_def)
  have keys: "map (primary_key t) (map g (T t)) = map (primary_key t) (T t)"
    using head assms(1,2) by (auto simp: primary_key_one)
  obtain x where x: "rows_for T t k = [x]" "x \<in> set (T t)" "x ! 0 = SqlText k"
    by (rule rows_for_one [where T = T, OF assms(1,2,3,5)])
  have rows: "rows_for (T(t := map g (T t))) t k' = map g (rows_for T t k')" for k'
  proof -
    have "filter (\<lambda>r. r ! 0 = SqlText k') (map g (T t)) = map g (filter (\<lambda>r. r ! 0 = SqlText k') (T t))"
      using head by (simp add: filter_map o_def cong: filter_cong)
    then show ?thesis
      by (simp add: rows_for_def)
  qed
  have other: "map g (rows_for T t k') = rows_for T t k'" if "k' \<noteq> k" for k'
    using that by (intro map_idI) (auto simp: rows_for_def g_def)
  have new: "g x = upserted cs r (rows_for T t k)"
    using x by (simp add: g_def upserted_def)
  have "g y \<in> insert (g x) (set (T t))" if "y \<in> set (T t)" for y
  proof (cases "y ! 0 = SqlText k")
    case True
    then have "y \<in> set (rows_for T t k)"
      using that by (simp add: rows_for_def)
    then show ?thesis
      using x by simp
  qed (use that in \<open>simp add: g_def\<close>)
  moreover have "(\<lambda>r. r ! 0) ` g ` set (T t) = insert (SqlText k) ((\<lambda>r. r ! 0) ` set (T t))"
    using head x by (force simp: image_image)
  ultimately have "upsert_effect t k (g x) T (T(t := map g (T t)))"
    unfolding upsert_effect_def using x(1) keys assms(3) rows other by (auto simp del: map_map)
  then have "upsert_effect t k (upserted cs r (rows_for T t k)) T (T(t := map g (T t)))"
    unfolding new .
  then show ?thesis
    unfolding g_def .
qed

lemma upsert_rows:
  assumes "key_columns t = 1" "\<forall>r \<in> set (T t). r \<noteq> []" "distinct (map (primary_key t) (T t))"
    and "r \<noteq> []" "r ! 0 = SqlText k" "0 \<notin> set cs" "run_statement (Upsert t r cs) T = Some T'"
  shows "upsert_effect t k (upserted cs r (rows_for T t k)) T T'"
proof (cases "has_key t r T")
  case True
  note key = has_key_head [where T = T, OF assms(1,2,4,5)]
  have "T' = T(t := map (\<lambda>x. if x ! 0 = SqlText k then merge_row cs r x else x) (T t))"
    using assms(7) True key(1) by (auto intro!: arg_cong [where f = "\<lambda>rows. T(t := rows)"])
  moreover have "\<exists>x \<in> set (T t). x ! 0 = SqlText k"
    using True key(2) by blast
  ultimately show ?thesis
    using upsert_present [where T = T, OF assms(1-3,6)] by simp
next
  case False
  then have "T' = T(t := T t @ [r])"
    using assms(7) by simp
  then show ?thesis
    using upsert_absent [where T = T, OF assms(1-5) False] by simp
qed

section \<open>Reading what was written\<close>

lemma read_all_written:
  assumes "\<forall>r \<in> set rows. \<forall>x. f r = Inr x \<longrightarrow> x = g r" "read_all f rows = Inr xs"
  shows "xs = map g rows"
  using assms
proof (induction rows arbitrary: xs)
  case (Cons r rows)
  obtain x where x: "f r = Inr x"
    using Cons.prems(2) by (cases "f r") simp_all
  obtain ys where "read_all f rows = Inr ys" "xs = x # ys"
    using Cons.prems(2) x by (cases "read_all f rows") simp_all
  then show ?case
    using Cons.IH [of ys] Cons.prems(1) x by simp
qed simp

lemma read_all_succeeds: "\<forall>r \<in> set rows. f r = Inr (g r) \<Longrightarrow> read_all f rows = Inr (map g rows)"
  by (induction rows) simp_all

lemma uint_u16_i32: "- (2 ^ 31) \<le> uint (w :: u16)" "uint (w :: u16) < 2 ^ 31"
proof -
  show "- (2 ^ 31) \<le> uint w"
    by (rule order_trans [of _ 0]) simp_all
  have "uint w < 2 ^ 16"
    using unsigned_less [of w, where 'a = int] by simp
  then show "uint w < 2 ^ 31"
    by (rule less_le_trans) simp
qed

lemma sql_err_simps [simp]: "sql_err (Inr x) = Inr x" "sql_err (Inl e) = Inl (Internal e)"
  by (simp_all add: sql_err_def)

lemma sql_err_eq: "sql_err x = Inr a \<longleftrightarrow> x = Inr a"
  by (cases x) simp_all

context sql_engine
begin

lemma row_written [simp]:
  "row_session time_of (session_row Q s) = s" "row_subscription (subscription_row u) = u"
  "row_inflight time_of (inflight_row Q m) = m" "row_inbound time_of (inbound_row Q b) = b"
  "row_retained time_of (retained_row Q r) = r"
proof -
  show "row_session time_of (session_row Q s) = s"
    by (cases s; cases "ps_will_message s") (simp_all add: row_session_def session_row_def written)
  show "row_subscription (subscription_row u) = u"
    by (cases u) (simp add: row_subscription_def subscription_row_def)
  show "row_inflight time_of (inflight_row Q m) = m"
    by (cases m; cases "pi_qos2_state m") (simp_all add: row_inflight_def inflight_row_def written)
  show "row_inbound time_of (inbound_row Q b) = b"
    by (cases b) (simp add: row_inbound_def inbound_row_def written)
  show "row_retained time_of (retained_row Q r) = r"
    by (cases r) (simp add: row_retained_def retained_row_def written)
qed

lemma i32_small: "get_i32 Q (SqlInteger (of_bool_i32 b)) = Inr (of_bool_i32 b)"
  "get_opt_i32 Q (SqlInteger (of_bool_i32 b)) = Inr (Some (of_bool_i32 b))"
  "get_i32 Q (SqlInteger (uint (w :: u16))) = Inr (uint w)"
  using get_int [of "of_bool_i32 b"] get_int [OF uint_u16_i32 [of w]] by (simp_all add: of_bool_i32_def)

lemma parse_datetime_written:
  "parse_datetime Q (to_rfc3339 Q d) a b c = Inr x \<Longrightarrow> x = d"
  "valid d \<Longrightarrow> parse_datetime Q (to_rfc3339 Q d) a b c = Inr d"
  using parse_written [of d] parse_valid [of d] by (auto simp: parse_datetime_def)

lemmas get_simps = get_text get_bytes get_byte get_null i32_small

lemma read_session_written:
  "read_session Q (session_row Q s) = Inr x \<Longrightarrow> x = s"
  "valid (ps_created_at s) \<Longrightarrow> valid (ps_updated_at s) \<Longrightarrow> read_session Q (session_row Q s) = Inr s"
proof -
  have will: "\<lparr>pw_topic = pw_topic m, pw_payload = pw_payload m, pw_qos = pw_qos m, pw_retain = pw_retain m\<rparr> = m"
    for m :: PersistedWillMessage
    by simp
  have eq: "read_session Q (session_row Q s) =
      ok_then (parse_datetime Q (to_rfc3339 Q (ps_created_at s)) ''sessions'' ''created_at'' (ps_client_id s)) (\<lambda>c.
      ok_then (parse_datetime Q (to_rfc3339 Q (ps_updated_at s)) ''sessions'' ''updated_at'' (ps_client_id s)) (\<lambda>u.
        Inr (s\<lparr>ps_created_at := c, ps_updated_at := u\<rparr>)))"
    by (cases s; cases "ps_will_message s")
      (simp_all add: read_session_def session_row_def get_simps Let_def will)
  show "read_session Q (session_row Q s) = Inr x \<Longrightarrow> x = s"
    unfolding eq
    by (cases "parse_datetime Q (to_rfc3339 Q (ps_created_at s)) ''sessions'' ''created_at'' (ps_client_id s)";
        cases "parse_datetime Q (to_rfc3339 Q (ps_updated_at s)) ''sessions'' ''updated_at'' (ps_client_id s)")
      (auto dest!: parse_datetime_written(1))
  show "valid (ps_created_at s) \<Longrightarrow> valid (ps_updated_at s) \<Longrightarrow> read_session Q (session_row Q s) = Inr s"
    unfolding eq by (simp add: parse_datetime_written(2))
qed

lemma read_subscription_written: "read_subscription Q (subscription_row s) = Inr s"
  by (simp add: read_subscription_def subscription_row_def get_simps)

lemma read_inflight_written:
  "read_inflight Q (inflight_row Q m) = Inr x \<Longrightarrow> x = m"
  "valid (pi_created_at m) \<Longrightarrow> uint (pi_retry_count m) < 2 ^ 31 \<Longrightarrow> read_inflight Q (inflight_row Q m) = Inr m"
proof -
  let ?t = "\<lambda>n. parse_datetime Q (to_rfc3339 Q (pi_created_at m)) ''inflight_messages'' ''created_at''
    (record_id (pi_client_id m) n)"
  have eq: "read_inflight Q (inflight_row Q m) =
      ok_then (sql_err (get_i32 Q (SqlInteger (uint (pi_retry_count m))))) (\<lambda>n.
      ok_then (?t (uint (pi_packet_id m))) (\<lambda>c.
        Inr (m\<lparr>pi_retry_count := word_of_int n, pi_created_at := c\<rparr>)))"
    by (cases m; cases "pi_qos2_state m")
      (simp_all add: read_inflight_def inflight_row_def get_simps)
  have small: "get_i32 Q (SqlInteger (uint (pi_retry_count m))) = Inr (uint (pi_retry_count m))"
    if "uint (pi_retry_count m) < 2 ^ 31"
    using get_int [of "uint (pi_retry_count m)"] that unsigned_greater_eq [of "pi_retry_count m", where 'a = int]
    by simp
  have big: "\<exists>e. get_i32 Q (SqlInteger (uint (pi_retry_count m))) = Inl e" if "\<not> uint (pi_retry_count m) < 2 ^ 31"
    using get_int_range [of "uint (pi_retry_count m)"] that by simp
  show "read_inflight Q (inflight_row Q m) = Inr x \<Longrightarrow> x = m"
    unfolding eq using small big
    by (cases "uint (pi_retry_count m) < 2 ^ 31"; cases "?t (uint (pi_packet_id m))")
      (auto dest!: parse_datetime_written(1))
  show "valid (pi_created_at m) \<Longrightarrow> uint (pi_retry_count m) < 2 ^ 31 \<Longrightarrow> read_inflight Q (inflight_row Q m) = Inr m"
    unfolding eq using small by (simp add: parse_datetime_written(2))
qed

lemma read_inbound_written:
  "read_inbound Q (inbound_row Q m) = Inr x \<Longrightarrow> x = m"
  "valid (pb_received_at m) \<Longrightarrow> read_inbound Q (inbound_row Q m) = Inr m"
proof -
  let ?t = "parse_datetime Q (to_rfc3339 Q (pb_received_at m)) ''inbound_qos2_messages'' ''received_at''
    (record_id (pb_client_id m) (uint (pb_packet_id m)))"
  have eq: "read_inbound Q (inbound_row Q m) = ok_then ?t (\<lambda>c. Inr (m\<lparr>pb_received_at := c\<rparr>))"
    by (cases m) (simp add: read_inbound_def inbound_row_def get_simps)
  show "read_inbound Q (inbound_row Q m) = Inr x \<Longrightarrow> x = m"
    unfolding eq by (cases ?t) (auto dest!: parse_datetime_written(1))
  show "valid (pb_received_at m) \<Longrightarrow> read_inbound Q (inbound_row Q m) = Inr m"
    unfolding eq by (simp add: parse_datetime_written(2))
qed

lemma read_retained_written: "read_retained Q (retained_row Q m) = Inr x \<Longrightarrow> x = m"
proof -
  let ?t = "parse_datetime Q (to_rfc3339 Q (pr_updated_at m)) ''retained_messages'' ''updated_at'' (pr_topic m)"
  have eq: "read_retained Q (retained_row Q m) = ok_then ?t (\<lambda>c. Inr (m\<lparr>pr_updated_at := c\<rparr>))"
    by (cases m) (simp add: read_retained_def retained_row_def get_simps)
  show "read_retained Q (retained_row Q m) = Inr x \<Longrightarrow> x = m"
    unfolding eq by (cases ?t) (auto dest!: parse_datetime_written(1))
qed

end

end
