(* ===== verification/Sqlite_Contract.thy ===== *)
theory Sqlite_Contract
  imports Sqlite_Rows
begin

text \<open>
  The SQLite backend honours the storage contract on every engine that honours \<open>sql_engine\<close>: a
  failed operation leaves the tables as they were, a successful one has the effect of its
  statements, and those have the effect on the saved sessions and the retained messages that the
  contract asks for.
\<close>

section \<open>Effects on the tables\<close>

context sql_engine
begin

text \<open>
  \<open>body\<close> has the effect \<open>F\<close> on the tables when it succeeds, and in every case leaves alone what the
  transaction falls back to.
\<close>

definition effect :: "('db \<Rightarrow> unit storage_result \<times> 'db) \<Rightarrow> (tables \<Rightarrow> tables option) \<Rightarrow> bool" where
  "effect body F \<longleftrightarrow> (\<forall>db res db'. body db = (res, db') \<longrightarrow>
    base db' = base db \<and> (res = Inr () \<longrightarrow> F (tables db) = Some (tables db')))"

lemma effect_execute: "effect (execute Q s) (run_statement s)"
  unfolding effect_def execute_def
proof (intro allI impI)
  fix db res db'
  assume "map_prod sql_err id (sql_execute Q s db) = (res, db')"
  then obtain r where r: "sql_execute Q s db = (r, db')" "res = sql_err r"
    by (cases "sql_execute Q s db") auto
  then show "base db' = base db \<and> (res = Inr () \<longrightarrow> run_statement s (tables db) = Some (tables db'))"
    using execute_ok [of s db db'] execute_fail [of s db _ db'] by (cases r) auto
qed

lemma effect_then:
  assumes "effect f F" "effect g G"
  shows "effect (\<lambda>db. and_then (f db) (\<lambda>_ db. g db)) (\<lambda>T. Option.bind (F T) G)"
  unfolding effect_def
proof (intro allI impI)
  fix db res db'
  assume run: "and_then (f db) (\<lambda>_ db. g db) = (res, db')"
  obtain r db1 where f: "f db = (r, db1)"
    by (rule prod.exhaust)
  note f' = assms(1) [unfolded effect_def, rule_format, OF f]
  show "base db' = base db \<and> (res = Inr () \<longrightarrow> Option.bind (F (tables db)) G = Some (tables db'))"
  proof (cases r)
    case (Inr u)
    then show ?thesis
      using run f f' assms(2) [unfolded effect_def, rule_format, of db1 res db'] by auto
  qed (use run f f' in auto)
qed

lemma effect_insert_all: "effect (insert_all Q t rs) (\<lambda>T. insert_rows t rs T)"
proof (induction rs)
  case Nil
  then show ?case
    by (simp add: effect_def)
next
  case (Cons r rs)
  then show ?case
    using effect_then [OF effect_execute [of "Insert t r"] Cons] by simp
qed

lemma effect_insert_prepared: "effect (insert_prepared Q t rs) (\<lambda>T. insert_rows t rs T)"
  unfolding insert_prepared_def effect_def
proof (intro allI impI)
  fix db res db'
  assume "and_then (sql_err (sql_prepare Q t db), db) (\<lambda>_ db. insert_all Q t rs db) = (res, db')"
  then show "base db' = base db \<and> (res = Inr () \<longrightarrow> insert_rows t rs (tables db) = Some (tables db'))"
    using effect_insert_all [unfolded effect_def, rule_format, of t rs db res db']
    by (cases "sql_prepare Q t db") auto
qed

text \<open>A transaction has the effect of its body, or none.\<close>

lemma in_transaction_effect:
  assumes body: "\<And>db res db'. body db = (res, db') \<Longrightarrow>
      base db' = base db \<and> (\<forall>a. res = Inr a \<longrightarrow> R a (tables db) (tables db'))"
    and "in_transaction Q body db = (res, db')"
  shows "(\<forall>a. res = Inr a \<longrightarrow> R a (tables db) (tables db')) \<and> (\<forall>e. res = Inl e \<longrightarrow> tables db' = tables db)"
proof -
  obtain t db1 where tx: "sql_transaction Q db = (t, db1)"
    by (rule prod.exhaust)
  obtain r db2 where b: "body db1 = (r, db2)"
    by (rule prod.exhaust)
  obtain c db3 where com: "sql_commit Q db2 = (c, db3)"
    by (rule prod.exhaust)
  note body = body [OF b]
  show ?thesis
  proof (cases t)
    case (Inl e)
    then show ?thesis
      using assms(2) tx transaction_fail [of db e db1] by (auto simp: in_transaction_def)
  next
    case (Inr u)
    then have db1: "tables db1 = tables db" "base db1 = tables db"
      using transaction_ok [of db db1] tx by auto
    show ?thesis
    proof (cases r)
      case (Inl e)
      then show ?thesis
        using assms(2) tx Inr b body db1 rollback by (auto simp: in_transaction_def)
    next
      case r: (Inr v)
      then show ?thesis
        using assms(2) tx Inr b com body db1 rollback commit_ok [of db2 db3] commit_fail [of db2 _ db3]
        by (cases c) (auto simp: in_transaction_def)
    qed
  qed
qed

end

section \<open>Statements and the invariant\<close>

lemma written_row_nonempty: "written_row Q t r \<Longrightarrow> r \<noteq> []"
  by (cases t) (auto simp: session_row_def subscription_row_def inflight_row_def inbound_row_def retained_row_def)

lemma wf_tableD:
  assumes "wf_tables Q T"
  shows "wf_table Q t (T t)" "\<forall>r \<in> set (T t). r \<noteq> []" "distinct (map (primary_key t) (T t))"
  using assms written_row_nonempty [of Q t] by (auto simp: wf_tables_def wf_table_def)

lemma wf_table_filter: "wf_table Q t rows \<Longrightarrow> wf_table Q t (filter P rows)"
  by (auto simp: wf_table_def distinct_map_filter)

lemma heads_subset_upd [simp]: "t \<noteq> t' \<Longrightarrow> heads (T(t := rows)) t' = heads T t'"
  by (simp add: heads_def)

text \<open>The statements of \<open>delete_client_data\<close>, for any set of clients.\<close>

definition drop_clients :: "rstring set \<Rightarrow> tables \<Rightarrow> tables" where
  "drop_clients C T t =
    (if t = RetainedMessages then T t else filter (\<lambda>r. r ! 0 \<notin> SqlText ` C) (T t))"

lemma drop_clients_comp: "drop_clients A (drop_clients B T) = drop_clients (A \<union> B) T"
  by (rule ext) (auto simp: drop_clients_def image_Un conj_commute intro!: filter_cong)

lemma drop_clients_none: "drop_clients {} T = T"
  by (rule ext) (simp add: drop_clients_def)

lemma wf_drop_clients: "wf_tables Q T \<Longrightarrow> wf_tables Q (drop_clients C T)"
  unfolding wf_tables_def drop_clients_def heads_def by (auto simp: wf_table_filter)

lemma rows_for_drop:
  "rows_for (drop_clients C T) t k = (if t \<noteq> RetainedMessages \<and> k \<in> C then [] else rows_for T t k)"
  by (auto simp: rows_for_def drop_clients_def filter_empty_conv intro!: filter_cong)

lemma saved_rows_cong:
  assumes "\<And>t. t \<noteq> RetainedMessages \<Longrightarrow> rows_for T' t cid = rows_for T t cid"
  shows "saved_rows time_of T' cid = saved_rows time_of T cid"
  by (simp add: saved_rows_def assms split: list.split)

lemma saved_rows_drop:
  "saved_rows time_of (drop_clients C T) = (\<lambda>cid. if cid \<in> C then None else saved_rows time_of T cid)"
  by (rule ext) (auto simp: saved_rows_def rows_for_drop split: list.split)

lemma retained_rows_cong: "T' RetainedMessages = T RetainedMessages \<Longrightarrow> retained_rows time_of T' = retained_rows time_of T"
  by (rule ext) (simp add: retained_rows_def rows_for_def)

lemma retained_rows_drop: "retained_rows time_of (drop_clients C T) = retained_rows time_of T"
  by (rule retained_rows_cong) (simp add: drop_clients_def)

text \<open>Deleting the rows of a client in a table and inserting new ones.\<close>

definition replace_rows :: "table \<Rightarrow> rstring \<Rightarrow> row list \<Rightarrow> tables \<Rightarrow> tables option" where
  "replace_rows t k rs T = Option.bind (run_statement (Delete t 0 (SqlText k)) T) (insert_rows t rs)"

lemma replace_rows_eq:
  assumes "distinct (map (primary_key t) (T t))"
  shows "replace_rows t k rs T =
    (let rows = filter (\<lambda>r. r ! 0 \<noteq> SqlText k) (T t) @ rs in
     if distinct (map (primary_key t) rows) then Some (T(t := rows)) else None)"
proof -
  define U where "U = T(t := filter (\<lambda>r. r ! 0 \<noteq> SqlText k) (T t))"
  have U: "U t = filter (\<lambda>r. r ! 0 \<noteq> SqlText k) (T t)" "\<And>rs. U(t := rs) = T(t := rs)"
    by (simp_all add: U_def)
  have "distinct (map (primary_key t) (U t))"
    unfolding U by (rule distinct_map_filter [OF assms])
  then have "insert_rows t rs U =
      (if distinct (map (primary_key t) (U t @ rs)) then Some (U(t := U t @ rs)) else None)"
    by (rule insert_rows_eq)
  then show ?thesis
    unfolding U replace_rows_def Let_def by (simp add: U_def)
qed

section \<open>Saving\<close>

lemma merge_session_row:
  "ps_client_id s' = ps_client_id s \<Longrightarrow>
    merge_row [1, 2, 3, 4, 5, 6, 8] (session_row Q s) (session_row Q s') = session_row Q (s\<lparr>ps_created_at := ps_created_at s'\<rparr>)"
  by (simp add: merge_row_def session_row_def)

lemma merge_retained_row:
  "pr_topic m' = pr_topic m \<Longrightarrow> merge_row [1, 2, 3] (retained_row Q m) (retained_row Q m') = retained_row Q m"
  by (simp add: merge_row_def retained_row_def)

text \<open>The creation time that a save keeps: the one in the table, if there is one.\<close>

definition kept_created :: "(string \<Rightarrow> datetime) \<Rightarrow> tables \<Rightarrow> PersistedSession \<Rightarrow> datetime" where
  "kept_created time_of T s =
    (case rows_for T Sessions (ps_client_id s) of [] \<Rightarrow> ps_created_at s | r # _ \<Rightarrow> time_of (text_of (r ! 7)))"

lemma kept_created_saved: "kept_created time_of T s =
    (case saved_rows time_of T (ps_client_id s) of None \<Rightarrow> ps_created_at s | Some v \<Rightarrow> ps_created_at (sv_session v))"
  by (simp add: kept_created_def saved_rows_def row_session_def split: list.split)

lemma upserted_retained:
  assumes "wf_tables Q T"
  shows "upserted [1, 2, 3] (retained_row Q m) (rows_for T RetainedMessages (pr_topic m)) = retained_row Q m"
proof (cases "rows_for T RetainedMessages (pr_topic m)")
  case (Cons r rows)
  then have r: "r \<in> set (T RetainedMessages)" "r ! 0 = SqlText (pr_topic m)"
    by (auto simp: rows_for_def filter_eq_Cons_iff)
  then obtain m' where "r = retained_row Q m'"
    using wf_tableD(1) [OF assms, of RetainedMessages] by (auto simp: wf_table_def)
  moreover have "pr_topic m' = pr_topic m"
    using r(2) calculation by (simp add: retained_row_def)
  ultimately show ?thesis
    using Cons merge_retained_row by (simp add: upserted_def)
qed (simp add: upserted_def)

definition save_tables :: "'db sql_ops \<Rightarrow> PersistedSession \<Rightarrow> PersistedSubscription list
    \<Rightarrow> PersistedInflightMessage list \<Rightarrow> PersistedInboundQos2Message list \<Rightarrow> tables \<Rightarrow> tables option" where
  "save_tables Q s subs infl inb T =
    Option.bind (run_statement (Upsert Sessions (session_row Q s) [1, 2, 3, 4, 5, 6, 8]) T) (\<lambda>T.
    Option.bind (replace_rows Subscriptions (ps_client_id s) (map subscription_row subs) T) (\<lambda>T.
    Option.bind (replace_rows InflightMessages (ps_client_id s) (map (inflight_row Q) infl) T)
      (replace_rows InboundQos2Messages (ps_client_id s) (map (inbound_row Q) inb))))"

text \<open>One dependent table: the new rows carry the client identifier.\<close>

definition replaced :: "'db sql_ops \<Rightarrow> rstring \<Rightarrow> table \<Rightarrow> row list \<Rightarrow> tables \<Rightarrow> tables \<Rightarrow> bool" where
  "replaced Q k t rs T T' \<longleftrightarrow> wf_table Q t (T' t) \<and> heads T' t \<subseteq> insert (SqlText k) (heads T t)
    \<and> (\<forall>k'. rows_for T' t k' = (if k' = k then rs else rows_for T t k'))"

lemma replace_rows_ok:
  assumes "wf_table Q t (T t)" "replace_rows t k rs T = Some T'"
    and "\<forall>r \<in> set rs. written_row Q t r \<and> r ! 0 = SqlText k"
  shows "replaced Q k t rs T T'" "t' \<noteq> t \<Longrightarrow> T' t' = T t'"
proof -
  let ?rows = "filter (\<lambda>r. r ! 0 \<noteq> SqlText k) (T t) @ rs"
  have T': "T' = T(t := ?rows)" and d: "distinct (map (primary_key t) ?rows)"
    using assms(1,2) by (simp_all add: replace_rows_eq wf_table_def Let_def split: if_splits)
  have "wf_table Q t ?rows"
    using assms(1,3) d by (auto simp: wf_table_def)
  moreover have "filter (\<lambda>r. r ! 0 = SqlText k') ?rows = (if k' = k then rs else rows_for T t k')" for k'
  proof (cases "k' = k")
    case True
    then show ?thesis
      using assms(3) by (simp add: filter_empty_conv)
  next
    case False
    then have "filter (\<lambda>r. r ! 0 = SqlText k') rs = []"
      using assms(3) by (auto simp: filter_empty_conv)
    then show ?thesis
      using False by (auto simp: rows_for_def intro!: filter_cong)
  qed
  ultimately show "replaced Q k t rs T T'"
    using assms(3) by (auto simp: T' replaced_def rows_for_def heads_def)
  show "t' \<noteq> t \<Longrightarrow> T' t' = T t'"
    by (simp add: T')
qed

lemma owned_rows:
  assumes "owned s subs infl inb"
  shows "\<forall>r \<in> set (map subscription_row subs). written_row Q Subscriptions r \<and> r ! 0 = SqlText (ps_client_id s)"
    "\<forall>r \<in> set (map (inflight_row Q) infl). written_row Q InflightMessages r \<and> r ! 0 = SqlText (ps_client_id s)"
    "\<forall>r \<in> set (map (inbound_row Q) inb). written_row Q InboundQos2Messages r \<and> r ! 0 = SqlText (ps_client_id s)"
  using assms by (auto simp: owned_def)

lemma save_tables_steps:
  assumes "save_tables Q s subs infl inb T = Some T'"
  obtains T1 T2 T3 where "run_statement (Upsert Sessions (session_row Q s) [1, 2, 3, 4, 5, 6, 8]) T = Some T1"
    "replace_rows Subscriptions (ps_client_id s) (map subscription_row subs) T1 = Some T2"
    "replace_rows InflightMessages (ps_client_id s) (map (inflight_row Q) infl) T2 = Some T3"
    "replace_rows InboundQos2Messages (ps_client_id s) (map (inbound_row Q) inb) T3 = Some T'"
  using assms unfolding save_tables_def by (auto simp: bind_eq_Some_conv simp del: run_statement.simps)

context sql_engine
begin

lemma upserted_session:
  assumes "wf_tables Q T"
  shows "upserted [1, 2, 3, 4, 5, 6, 8] (session_row Q s) (rows_for T Sessions (ps_client_id s)) =
    session_row Q (s\<lparr>ps_created_at := kept_created time_of T s\<rparr>)"
proof (cases "rows_for T Sessions (ps_client_id s)")
  case (Cons r rows)
  then have r: "r \<in> set (T Sessions)" "r ! 0 = SqlText (ps_client_id s)"
    by (auto simp: rows_for_def filter_eq_Cons_iff)
  then obtain s' where s': "r = session_row Q s'"
    using wf_tableD(1) [OF assms, of Sessions] by (auto simp: wf_table_def)
  then have "ps_client_id s' = ps_client_id s" "time_of (text_of (r ! 7)) = ps_created_at s'"
    using r(2) by (simp_all add: session_row_def written)
  then show ?thesis
    using Cons s' merge_session_row [of s' s Q] by (simp add: upserted_def kept_created_def)
qed (simp add: upserted_def kept_created_def)

lemma upsert_session:
  assumes "wf_tables Q T" "run_statement (Upsert Sessions (session_row Q s) [1, 2, 3, 4, 5, 6, 8]) T = Some T'"
  shows "T' = T(Sessions := T' Sessions)"
    "rows_for T' Sessions k =
      (if k = ps_client_id s then [session_row Q (s\<lparr>ps_created_at := kept_created time_of T s\<rparr>)] else rows_for T Sessions k)"
    "heads T' Sessions = insert (SqlText (ps_client_id s)) (heads T Sessions)"
    "wf_table Q Sessions (T' Sessions)"
proof -
  have ups: "T' = T(Sessions := T' Sessions)"
    "rows_for T' Sessions k = (if k = ps_client_id s then [session_row Q (s\<lparr>ps_created_at := kept_created time_of T s\<rparr>)] else rows_for T Sessions k)"
    "(\<lambda>r. r ! 0) ` set (T' Sessions) = insert (SqlText (ps_client_id s)) ((\<lambda>r. r ! 0) ` set (T Sessions))"
    "distinct (map (primary_key Sessions) (T' Sessions))"
    "set (T' Sessions) \<subseteq> insert (session_row Q (s\<lparr>ps_created_at := kept_created time_of T s\<rparr>)) (set (T Sessions))" for k
    using upsert_rows [OF _ wf_tableD(2,3) [OF assms(1)] _ _ _ assms(2)] upserted_session [OF assms(1), of s]
    unfolding upsert_effect_def by (simp_all add: session_row_def)
  then have "wf_table Q Sessions (T' Sessions)"
    using wf_tableD(1) [OF assms(1), of Sessions] by (auto simp: wf_table_def)
  with ups show "T' = T(Sessions := T' Sessions)"
    "rows_for T' Sessions k =
      (if k = ps_client_id s then [session_row Q (s\<lparr>ps_created_at := kept_created time_of T s\<rparr>)] else rows_for T Sessions k)"
    "heads T' Sessions = insert (SqlText (ps_client_id s)) (heads T Sessions)"
    "wf_table Q Sessions (T' Sessions)"
    by (simp_all add: heads_def)
qed

lemma save_tables_parts:
  assumes "wf_tables Q T" "owned s subs infl inb" "save_tables Q s subs infl inb T = Some T'"
  obtains T1 where "run_statement (Upsert Sessions (session_row Q s) [1, 2, 3, 4, 5, 6, 8]) T = Some T1"
    "T' Sessions = T1 Sessions" "T' RetainedMessages = T RetainedMessages"
    "replaced Q (ps_client_id s) Subscriptions (map subscription_row subs) T T'"
    "replaced Q (ps_client_id s) InflightMessages (map (inflight_row Q) infl) T T'"
    "replaced Q (ps_client_id s) InboundQos2Messages (map (inbound_row Q) inb) T T'"
proof -
  obtain T1 T2 T3 where st: "run_statement (Upsert Sessions (session_row Q s) [1, 2, 3, 4, 5, 6, 8]) T = Some T1"
    "replace_rows Subscriptions (ps_client_id s) (map subscription_row subs) T1 = Some T2"
    "replace_rows InflightMessages (ps_client_id s) (map (inflight_row Q) infl) T2 = Some T3"
    "replace_rows InboundQos2Messages (ps_client_id s) (map (inbound_row Q) inb) T3 = Some T'"
    by (rule save_tables_steps [OF assms(3)])
  note ow = owned_rows [OF assms(2), of Q] and wf = wf_tableD(1) [OF assms(1)]
  have w1: "T1 t = T t" if "t \<noteq> Sessions" for t
    using fun_cong [OF upsert_session(1) [OF assms(1) st(1)], of t] that by simp
  have s2: "replaced Q (ps_client_id s) Subscriptions (map subscription_row subs) T1 T2"
    "\<And>t. t \<noteq> Subscriptions \<Longrightarrow> T2 t = T1 t"
    by (rule replace_rows_ok [OF _ st(2) ow(1)]; simp add: w1 wf)+
  have s3: "replaced Q (ps_client_id s) InflightMessages (map (inflight_row Q) infl) T2 T3"
    "\<And>t. t \<noteq> InflightMessages \<Longrightarrow> T3 t = T2 t"
    by (rule replace_rows_ok [OF _ st(3) ow(2)]; simp add: w1 s2(2) wf)+
  have s4: "replaced Q (ps_client_id s) InboundQos2Messages (map (inbound_row Q) inb) T3 T'"
    "\<And>t. t \<noteq> InboundQos2Messages \<Longrightarrow> T' t = T3 t"
    by (rule replace_rows_ok [OF _ st(4) ow(3)]; simp add: w1 s2(2) s3(2) wf)+
  show thesis
    by (rule that [OF st(1)]) (use s2 s3 s4 in \<open>simp_all add: w1 replaced_def rows_for_def heads_def\<close>)
qed

lemma save_tables_wf:
  assumes "wf_tables Q T" "owned s subs infl inb" "save_tables Q s subs infl inb T = Some T'"
  shows "wf_tables Q T'" "T' RetainedMessages = T RetainedMessages"
    "rows_for T' Sessions k =
      (if k = ps_client_id s then [session_row Q (s\<lparr>ps_created_at := kept_created time_of T s\<rparr>)] else rows_for T Sessions k)"
    "rows_for T' Subscriptions k =
      (if k = ps_client_id s then map subscription_row subs else rows_for T Subscriptions k)"
    "rows_for T' InflightMessages k =
      (if k = ps_client_id s then map (inflight_row Q) infl else rows_for T InflightMessages k)"
    "rows_for T' InboundQos2Messages k =
      (if k = ps_client_id s then map (inbound_row Q) inb else rows_for T InboundQos2Messages k)"
proof -
  obtain T1 where T1: "run_statement (Upsert Sessions (session_row Q s) [1, 2, 3, 4, 5, 6, 8]) T = Some T1"
    and same: "T' Sessions = T1 Sessions" "T' RetainedMessages = T RetainedMessages"
    and parts: "replaced Q (ps_client_id s) Subscriptions (map subscription_row subs) T T'"
      "replaced Q (ps_client_id s) InflightMessages (map (inflight_row Q) infl) T T'"
      "replaced Q (ps_client_id s) InboundQos2Messages (map (inbound_row Q) inb) T T'"
    by (rule save_tables_parts [OF assms])
  note s1 = upsert_session(2-4) [OF assms(1) T1]
  have "wf_table Q t (T' t)" for t
    using s1(3) parts same wf_tableD(1) [OF assms(1), of t] by (cases t) (simp_all add: replaced_def)
  moreover have heads: "heads T' Sessions = insert (SqlText (ps_client_id s)) (heads T Sessions)"
    using s1(2) same(1) by (simp add: heads_def)
  moreover have "heads T' Subscriptions \<subseteq> heads T' Sessions" "heads T' InflightMessages \<subseteq> heads T' Sessions"
    "heads T' InboundQos2Messages \<subseteq> heads T' Sessions"
    using assms(1) parts heads unfolding wf_tables_def replaced_def by blast+
  ultimately show "wf_tables Q T'"
    by (simp add: wf_tables_def)
  show "T' RetainedMessages = T RetainedMessages"
    by (rule same(2))
  show "rows_for T' Sessions k =
      (if k = ps_client_id s then [session_row Q (s\<lparr>ps_created_at := kept_created time_of T s\<rparr>)] else rows_for T Sessions k)"
    using s1(1) [of k] same(1) by (simp add: rows_for_def)
  show "rows_for T' Subscriptions k =
      (if k = ps_client_id s then map subscription_row subs else rows_for T Subscriptions k)"
    "rows_for T' InflightMessages k =
      (if k = ps_client_id s then map (inflight_row Q) infl else rows_for T InflightMessages k)"
    "rows_for T' InboundQos2Messages k =
      (if k = ps_client_id s then map (inbound_row Q) inb else rows_for T InboundQos2Messages k)"
    using parts by (simp_all add: replaced_def)
qed

lemma save_tables_saved:
  assumes "wf_tables Q T" "owned s subs infl inb" "save_tables Q s subs infl inb T = Some T'"
  shows "wf_tables Q T' \<and> retained_rows time_of T' = retained_rows time_of T
    \<and> saved_rows time_of T' = (saved_rows time_of T)(ps_client_id s \<mapsto>
        \<lparr>sv_session = s\<lparr>ps_created_at := kept_created time_of T s\<rparr>,
         sv_subscriptions = subs, sv_inflight = infl, sv_inbound = inb\<rparr>)"
proof -
  note rows = save_tables_wf [OF assms]
  let ?v = "\<lparr>sv_session = s\<lparr>ps_created_at := kept_created time_of T s\<rparr>,
    sv_subscriptions = subs, sv_inflight = infl, sv_inbound = inb\<rparr>"
  have "saved_rows time_of T' k = ((saved_rows time_of T)(ps_client_id s \<mapsto> ?v)) k" for k
    by (cases "k = ps_client_id s") (simp_all add: saved_rows_def rows o_def split: list.split)
  then have "saved_rows time_of T' = (saved_rows time_of T)(ps_client_id s \<mapsto> ?v)"
    by (rule ext)
  then show ?thesis
    using rows(1,2) retained_rows_cong by blast
qed

lemma effect_save:
  "effect (\<lambda>db. let client_id = ps_client_id s in
    and_then (execute Q (Upsert Sessions (session_row Q s) [1, 2, 3, 4, 5, 6, 8]) db) (\<lambda>_ db.
    and_then (execute Q (Delete Subscriptions 0 (SqlText client_id)) db) (\<lambda>_ db.
    and_then (insert_prepared Q Subscriptions (map subscription_row subs) db) (\<lambda>_ db.
    and_then (execute Q (Delete InflightMessages 0 (SqlText client_id)) db) (\<lambda>_ db.
    and_then (insert_prepared Q InflightMessages (map (inflight_row Q) infl) db) (\<lambda>_ db.
    and_then (execute Q (Delete InboundQos2Messages 0 (SqlText client_id)) db) (\<lambda>_ db.
      insert_prepared Q InboundQos2Messages (map (inbound_row Q) inb) db)))))))
    (save_tables Q s subs infl inb)"
  unfolding save_tables_def Let_def replace_rows_def bind_assoc
  by (intro effect_then effect_execute effect_insert_prepared)

lemma effect_delete_client: "effect (delete_client_data Q cid) (\<lambda>T. Some (drop_clients {cid} T))"
proof -
  let ?del = "\<lambda>t. run_statement (Delete t 0 (SqlText cid))"
  have "effect (delete_client_data Q cid) (\<lambda>T. Option.bind (?del InflightMessages T) (\<lambda>T.
      Option.bind (?del InboundQos2Messages T) (\<lambda>T. Option.bind (?del Subscriptions T) (?del Sessions))))"
    unfolding delete_client_data_def by (intro effect_then effect_execute)
  moreover have "Option.bind (?del InflightMessages T) (\<lambda>T. Option.bind (?del InboundQos2Messages T)
      (\<lambda>T. Option.bind (?del Subscriptions T) (?del Sessions))) = Some (drop_clients {cid} T)" for T
    by (auto simp: drop_clients_def intro!: ext) (metis table.exhaust)
  ultimately show ?thesis
    by simp
qed

lemma effect_delete_clients: "effect (delete_clients Q cids) (\<lambda>T. Some (drop_clients (set cids) T))"
proof (induction cids)
  case Nil
  then show ?case
    by (simp add: effect_def drop_clients_none)
next
  case (Cons c cids)
  have "effect (delete_clients Q (c # cids)) (\<lambda>T. Option.bind (Some (drop_clients {c} T)) (\<lambda>T. Some (drop_clients (set cids) T)))"
    unfolding delete_clients.simps by (rule effect_then [OF effect_delete_client Cons])
  then show ?case
    by (simp add: drop_clients_comp del: delete_clients.simps)
qed

lemma transaction_cases:
  assumes "effect body F" "in_transaction Q body db = (res, db')"
  shows "res = Inr () \<Longrightarrow> F (tables db) = Some (tables db')" "res = Inl e \<Longrightarrow> tables db' = tables db"
proof -
  have "base db' = base db \<and> (\<forall>a. res = Inr a \<longrightarrow> F (tables db) = Some (tables db'))"
    if "body db = (res, db')" for db res db'
    using assms(1) that by (simp add: effect_def)
  from in_transaction_effect [where R = "\<lambda>_ T T'. F T = Some T'", OF this assms(2)]
  show "res = Inr () \<Longrightarrow> F (tables db) = Some (tables db')" "res = Inl e \<Longrightarrow> tables db' = tables db"
    by blast+
qed

lemma execute_cases:
  assumes "execute Q s db = (res, db')"
  shows "res = Inr () \<Longrightarrow> run_statement s (tables db) = Some (tables db')" "res = Inl e \<Longrightarrow> tables db' = tables db"
proof -
  show "res = Inr () \<Longrightarrow> run_statement s (tables db) = Some (tables db')"
    using effect_execute assms by (auto simp: effect_def)
  assume "res = Inl e"
  then obtain e' where "sql_execute Q s db = (Inl e', db')"
    using assms unfolding execute_def by (cases "sql_execute Q s db"; cases "fst (sql_execute Q s db)") auto
  then show "tables db' = tables db"
    using execute_fail by blast
qed

section \<open>Loading\<close>

lemma query_rows:
  assumes "sql_err (sql_query Q q db) = Inr rows"
  shows "mset rows = mset (selected q (tables db))"
  using assms query_ok by (simp add: sql_err_eq)

end

lemma ok_then_eq: "ok_then x f = Inr b \<longleftrightarrow> (\<exists>a. x = Inr a \<and> f a = Inr b)"
  by (cases x) simp_all

lemma mset_single: "mset xs = mset ys \<Longrightarrow> length ys \<le> 1 \<Longrightarrow> xs = ys"
  by (cases ys; cases "tl ys") auto

lemma rows_for_empty: "rows_for T t k = [] \<longleftrightarrow> SqlText k \<notin> heads T t"
  unfolding rows_for_def heads_def filter_empty_conv image_iff by metis

lemma saved_cases:
  "(case saved_rows time_of T cid of None \<Rightarrow> [] | Some v \<Rightarrow> sv_subscriptions v) =
    (if rows_for T Sessions cid = [] then [] else map row_subscription (rows_for T Subscriptions cid))"
  "(case saved_rows time_of T cid of None \<Rightarrow> [] | Some v \<Rightarrow> sv_inflight v) =
    (if rows_for T Sessions cid = [] then [] else map (row_inflight time_of) (rows_for T InflightMessages cid))"
  "(case saved_rows time_of T cid of None \<Rightarrow> [] | Some v \<Rightarrow> sv_inbound v) =
    (if rows_for T Sessions cid = [] then [] else map (row_inbound time_of) (rows_for T InboundQos2Messages cid))"
  by (simp_all add: saved_rows_def split: list.split)

text \<open>A table with a one-column key is a list of records with distinct keys.\<close>

lemma wf_rows:
  assumes "\<forall>r \<in> set rows. \<exists>x. r = f x"
  obtains xs where "rows = map f xs"
  using assms by (metis ex_map_conv)

lemma wf_sessions:
  assumes "wf_tables Q T"
  obtains ss where "T Sessions = map (session_row Q) ss" "distinct (map ps_client_id ss)"
proof -
  obtain ss where ss: "T Sessions = map (session_row Q) ss"
    by (rule wf_rows [of "T Sessions" "session_row Q"]) (use wf_tableD(1) [OF assms, of Sessions] in \<open>auto simp: wf_table_def\<close>)
  moreover have "distinct (map (\<lambda>s. [SqlText (ps_client_id s)]) ss)"
    using wf_tableD(3) [OF assms, of Sessions]
    by (simp add: ss o_def primary_key_def session_row_def)
  then have "distinct (map ps_client_id ss)"
    by (simp add: distinct_map inj_on_def)
  ultimately show thesis
    by (rule that)
qed

lemma wf_retained:
  assumes "wf_tables Q T"
  obtains ms where "T RetainedMessages = map (retained_row Q) ms" "distinct (map pr_topic ms)"
proof -
  obtain ms where ms: "T RetainedMessages = map (retained_row Q) ms"
    by (rule wf_rows [of "T RetainedMessages" "retained_row Q"])
      (use wf_tableD(1) [OF assms, of RetainedMessages] in \<open>auto simp: wf_table_def\<close>)
  moreover have "distinct (map (\<lambda>m. [SqlText (pr_topic m)]) ms)"
    using wf_tableD(3) [OF assms, of RetainedMessages]
    by (simp add: ms o_def primary_key_def retained_row_def)
  then have "distinct (map pr_topic ms)"
    by (simp add: distinct_map inj_on_def)
  ultimately show thesis
    by (rule that)
qed

context sql_engine
begin

text \<open>The rows of one client in a dependent table.\<close>

lemma reads_written:
  "written_row Q Sessions r \<Longrightarrow> read_session Q r = Inr s \<Longrightarrow> s = row_session time_of r"
  "written_row Q Subscriptions r \<Longrightarrow> read_subscription Q r = Inr u \<Longrightarrow> u = row_subscription r"
  "written_row Q InflightMessages r \<Longrightarrow> read_inflight Q r = Inr m \<Longrightarrow> m = row_inflight time_of r"
  "written_row Q InboundQos2Messages r \<Longrightarrow> read_inbound Q r = Inr b \<Longrightarrow> b = row_inbound time_of r"
  "written_row Q RetainedMessages r \<Longrightarrow> read_retained Q r = Inr x \<Longrightarrow> x = row_retained time_of r"
  using read_session_written(1) read_subscription_written read_inflight_written(1)
    read_inbound_written(1) read_retained_written by fastforce+

lemma load_rows:
  assumes "wf_tables Q (tables db)"
    and "sql_err (sql_query Q q db) = Inr rows" "selected q (tables db) = rows_for (tables db) t cid"
    and "\<And>r x. written_row Q t r \<Longrightarrow> f r = Inr x \<Longrightarrow> x = g r"
    and "heads (tables db) t \<subseteq> heads (tables db) Sessions" "read_all f rows = Inr xs"
  shows "mset xs = mset (if rows_for (tables db) Sessions cid = [] then [] else map g (rows_for (tables db) t cid))"
proof -
  have rows: "mset rows = mset (rows_for (tables db) t cid)"
    using query_rows [OF assms(2)] assms(3) by simp
  then have "\<forall>r \<in> set rows. written_row Q t r"
    using wf_tableD(1) [OF assms(1), of t] mset_eq_setD [OF rows] by (auto simp: rows_for_def wf_table_def)
  then have "xs = map g rows"
    using read_all_written [OF _ assms(6), of g] assms(4) by blast
  then have "mset xs = mset (map g (rows_for (tables db) t cid))"
    using rows by simp
  moreover have "rows_for (tables db) t cid = []" if "rows_for (tables db) Sessions cid = []"
    using that assms(5) unfolding rows_for_empty by blast
  ultimately show ?thesis
    by simp
qed

lemma load_subscriptions_rows:
  assumes "wf_tables Q (tables db)" "sqlite_load_subscriptions Q cid db = Inr xs"
  shows "mset xs = mset (case saved_rows time_of (tables db) cid of None \<Rightarrow> [] | Some v \<Rightarrow> sv_subscriptions v)"
proof -
  obtain rows where q: "sql_err (sql_query Q (SelectWhere Subscriptions 0 (SqlText cid)) db) = Inr rows"
    "read_all (read_subscription Q) rows = Inr xs"
    using assms(2) by (auto simp: sqlite_load_subscriptions_def ok_then_eq)
  show ?thesis
    unfolding saved_cases
    by (rule load_rows [OF assms(1) q(1) _ reads_written(2) _ q(2)])
      (use assms(1) in \<open>simp_all add: rows_for_def wf_tables_def\<close>)
qed

lemma load_inflight_rows:
  assumes "wf_tables Q (tables db)" "sqlite_load_inflight_messages Q cid db = Inr xs"
  shows "mset xs = mset (case saved_rows time_of (tables db) cid of None \<Rightarrow> [] | Some v \<Rightarrow> sv_inflight v)"
proof -
  obtain rows where q: "sql_err (sql_query Q (SelectOrdered InflightMessages 0 (SqlText cid) 8) db) = Inr rows"
    "read_all (read_inflight Q) rows = Inr xs"
    using assms(2) by (auto simp: sqlite_load_inflight_messages_def ok_then_eq)
  show ?thesis
    unfolding saved_cases
    by (rule load_rows [OF assms(1) q(1) _ reads_written(3) _ q(2)])
      (use assms(1) in \<open>simp_all add: rows_for_def wf_tables_def\<close>)
qed

lemma load_inbound_rows:
  assumes "wf_tables Q (tables db)" "sqlite_load_inbound_qos2_messages Q cid db = Inr xs"
  shows "mset xs = mset (case saved_rows time_of (tables db) cid of None \<Rightarrow> [] | Some v \<Rightarrow> sv_inbound v)"
proof -
  obtain rows where q: "sql_err (sql_query Q (SelectOrdered InboundQos2Messages 0 (SqlText cid) 5) db) = Inr rows"
    "read_all (read_inbound Q) rows = Inr xs"
    using assms(2) by (auto simp: sqlite_load_inbound_qos2_messages_def ok_then_eq)
  show ?thesis
    unfolding saved_cases
    by (rule load_rows [OF assms(1) q(1) _ reads_written(4) _ q(2)])
      (use assms(1) in \<open>simp_all add: rows_for_def wf_tables_def\<close>)
qed

lemma keyed_rows:
  assumes "wf_tables Q (tables db)" "key_columns t = 1"
    and "sql_err (sql_query Q (SelectWhere t 0 (SqlText k)) db) = Inr rows"
  shows "rows = rows_for (tables db) t k" "\<forall>r \<in> set rows. written_row Q t r"
proof -
  have "length (rows_for (tables db) t k) \<le> 1"
    using wf_tableD(2,3) [OF assms(1)] assms(2) by (intro key_single)
  then show "rows = rows_for (tables db) t k"
    using query_rows [OF assms(3)] by (intro mset_single) (simp_all add: rows_for_def)
  then show "\<forall>r \<in> set rows. written_row Q t r"
    using wf_tableD(1) [OF assms(1), of t] by (auto simp: rows_for_def wf_table_def)
qed

lemma load_session_rows:
  assumes "wf_tables Q (tables db)" "sqlite_load_session Q cid db = Inr x"
  shows "x = map_option sv_session (saved_rows time_of (tables db) cid)"
proof -
  obtain rows where q: "sql_err (sql_query Q (SelectWhere Sessions 0 (SqlText cid)) db) = Inr rows"
    "(case rows of r # _ \<Rightarrow> ok_then (read_session Q r) (\<lambda>s. Inr (Some s)) | [] \<Rightarrow> Inr None) = Inr x"
    using assms(2) by (auto simp: sqlite_load_session_def ok_then_eq)
  have rows: "rows = rows_for (tables db) Sessions cid" "\<forall>r \<in> set rows. written_row Q Sessions r"
    by (rule keyed_rows [OF assms(1) _ q(1)], simp)+
  show ?thesis
  proof (cases rows)
    case (Cons r rs)
    then obtain s where s: "read_session Q r = Inr s" "x = Some s"
      using q(2) by (auto simp: ok_then_eq)
    moreover have "s = row_session time_of r"
      using reads_written(1) [OF _ s(1)] rows(2) Cons by simp
    ultimately show ?thesis
      using Cons unfolding rows(1) by (simp add: saved_rows_def)
  qed (use q(2) rows(1) in \<open>simp add: saved_rows_def\<close>)
qed

lemma session_exists_rows:
  assumes "sqlite_session_exists Q cid db = Inr b"
  shows "b \<longleftrightarrow> saved_rows time_of (tables db) cid \<noteq> None"
proof -
  obtain n where n: "sql_count Q (SelectWhere Sessions 0 (SqlText cid)) db = Inr n" "b \<longleftrightarrow> n > 0"
    using assms by (auto simp: sqlite_session_exists_def ok_then_eq sql_err_eq)
  have "n = int (length (rows_for (tables db) Sessions cid))"
    using count_ok [OF n(1)] by (simp add: rows_for_def)
  then show ?thesis
    using n(2) by (simp add: saved_rows_def split: list.split)
qed

section \<open>Retained messages\<close>

lemma retained_rows_map:
  assumes "T RetainedMessages = map (retained_row Q) ms" "distinct (map pr_topic ms)"
  shows "retained_rows time_of T t = Some m \<longleftrightarrow> m \<in> set ms \<and> pr_topic m = t"
proof -
  have rows: "rows_for T RetainedMessages t = map (retained_row Q) (filter (\<lambda>m. pr_topic m = t) ms)"
    by (simp add: rows_for_def assms(1) filter_map o_def)
  have one: "m' = m" if "m \<in> set ms" "m' \<in> set ms" "pr_topic m = t" "pr_topic m' = t" for m m'
    using assms(2) that by (simp add: distinct_map inj_on_def)
  show ?thesis
  proof (cases "filter (\<lambda>m. pr_topic m = t) ms")
    case Nil
    then show ?thesis
      using rows by (auto simp: retained_rows_def filter_empty_conv)
  next
    case (Cons m' ms')
    then have "m' \<in> set ms \<and> pr_topic m' = t"
      by (auto simp: filter_eq_Cons_iff)
    then show ?thesis
      using rows Cons one by (auto simp: retained_rows_def)
  qed
qed

lemma retained_views:
  assumes "wf_tables Q T"
  obtains ms where "T RetainedMessages = map (retained_row Q) ms" "distinct (map pr_topic ms)"
    "\<And>t m. retained_rows time_of T t = Some m \<longleftrightarrow> m \<in> set ms \<and> pr_topic m = t"
    "dom (retained_rows time_of T) = pr_topic ` set ms" "ran (retained_rows time_of T) = set ms"
proof -
  obtain ms where ms: "T RetainedMessages = map (retained_row Q) ms" "distinct (map pr_topic ms)"
    by (rule wf_retained [OF assms])
  note look = retained_rows_map [where T = T, OF ms]
  show thesis
    by (rule that [OF ms look]) (auto simp: dom_def ran_def look)
qed

lemma load_retained_rows:
  assumes "wf_tables Q (tables db)" "sqlite_load_retained_message Q t db = Inr y"
  shows "y = retained_rows time_of (tables db) t"
proof -
  obtain rows where q: "sql_err (sql_query Q (SelectWhere RetainedMessages 0 (SqlText t)) db) = Inr rows"
    "(case rows of r # _ \<Rightarrow> ok_then (read_retained Q r) (\<lambda>m. Inr (Some m)) | [] \<Rightarrow> Inr None) = Inr y"
    using assms(2) by (auto simp: sqlite_load_retained_message_def ok_then_eq)
  have rows: "rows = rows_for (tables db) RetainedMessages t" "\<forall>r \<in> set rows. written_row Q RetainedMessages r"
    by (rule keyed_rows [OF assms(1) _ q(1)], simp)+
  show ?thesis
  proof (cases rows)
    case (Cons r rs)
    then obtain m where m: "read_retained Q r = Inr m" "y = Some m"
      using q(2) by (auto simp: ok_then_eq)
    moreover have "m = row_retained time_of r"
      using reads_written(5) [OF _ m(1)] rows(2) Cons by simp
    ultimately show ?thesis
      using Cons unfolding rows(1) by (simp add: retained_rows_def)
  qed (use q(2) rows(1) in \<open>simp add: retained_rows_def\<close>)
qed

lemma load_all_retained_rows:
  assumes "wf_tables Q (tables db)" "sqlite_load_all_retained_messages Q db = Inr rs"
  shows "distinct (map pr_topic rs) \<and> set rs = ran (retained_rows time_of (tables db))"
proof -
  obtain ms where ms: "tables db RetainedMessages = map (retained_row Q) ms" "distinct (map pr_topic ms)"
    "ran (retained_rows time_of (tables db)) = set ms"
    by (rule retained_views [OF assms(1)]) blast
  obtain rows where q: "sql_err (sql_query Q (SelectAll RetainedMessages) db) = Inr rows"
    "read_all (read_retained Q) rows = Inr rs"
    using assms(2) by (auto simp: sqlite_load_all_retained_messages_def ok_then_eq)
  have rows: "mset rows = mset (map (retained_row Q) ms)"
    using query_rows [OF q(1)] ms(1) by simp
  then have "\<forall>r \<in> set rows. written_row Q RetainedMessages r"
    using mset_eq_setD [OF rows] by auto
  then have "rs = map (row_retained time_of) rows"
    using read_all_written [OF _ q(2), of "row_retained time_of"] reads_written(5) by blast
  then have "mset rs = image_mset (row_retained time_of) (mset rows)"
    by simp
  then have "mset rs = image_mset (row_retained time_of) (mset (map (retained_row Q) ms))"
    unfolding rows .
  then have "mset rs = mset ms"
    by (simp add: image_mset.compositionality o_def)
  then have eq: "mset (map pr_topic rs) = mset (map pr_topic ms)" "set rs = set ms"
    by (simp, metis mset_eq_setD)
  from mset_eq_imp_distinct_iff [OF eq(1)] show ?thesis
    using ms(2,3) eq(2) by simp
qed

lemma count_retained_rows:
  assumes "wf_tables Q (tables db)" "sqlite_count_retained_messages Q db = Inr n"
  shows "n = card (dom (retained_rows time_of (tables db)))"
proof -
  obtain ms where ms: "tables db RetainedMessages = map (retained_row Q) ms" "distinct (map pr_topic ms)"
    "dom (retained_rows time_of (tables db)) = pr_topic ` set ms"
    by (rule retained_views [OF assms(1)]) blast
  obtain k where k: "sql_count Q (SelectAll RetainedMessages) db = Inr k" "n = nat k"
    using assms(2) by (auto simp: sqlite_count_retained_messages_def ok_then_eq sql_err_eq)
  have "n = length ms"
    using count_ok [OF k(1)] k(2) ms(1) by simp
  then show ?thesis
    using ms(2,3) distinct_card [OF ms(2)] by simp
qed

lemma save_retained_rows:
  assumes "wf_tables Q T" "run_statement (Upsert RetainedMessages (retained_row Q m) [1, 2, 3]) T = Some T'"
  shows "wf_tables Q T'" "saved_rows time_of T' = saved_rows time_of T"
    "retained_rows time_of T' = (retained_rows time_of T)(pr_topic m \<mapsto> m)"
proof -
  have ups: "T' = T(RetainedMessages := T' RetainedMessages)"
    "rows_for T' RetainedMessages k = (if k = pr_topic m then [retained_row Q m] else rows_for T RetainedMessages k)"
    "distinct (map (primary_key RetainedMessages) (T' RetainedMessages))"
    "set (T' RetainedMessages) \<subseteq> insert (retained_row Q m) (set (T RetainedMessages))" for k
    using upsert_rows [OF _ wf_tableD(2,3) [OF assms(1)] _ _ _ assms(2)] upserted_retained [OF assms(1), of m]
    unfolding upsert_effect_def by (simp_all add: retained_row_def)
  have same: "T' t = T t" if "t \<noteq> RetainedMessages" for t
    using fun_cong [OF ups(1), of t] that by simp
  have "wf_table Q t (T' t)" for t
    using wf_tableD(1) [OF assms(1), of t] ups(3,4)
    by (cases "t = RetainedMessages") (auto simp: same wf_table_def)
  then show "wf_tables Q T'"
    using assms(1) by (simp add: wf_tables_def heads_def same)
  show "saved_rows time_of T' = saved_rows time_of T"
    by (rule ext, rule saved_rows_cong) (simp add: rows_for_def same)
  show "retained_rows time_of T' = (retained_rows time_of T)(pr_topic m \<mapsto> m)"
    by (rule ext) (simp add: retained_rows_def ups(2))
qed

lemma delete_retained_rows:
  assumes "wf_tables Q T" "run_statement (Delete RetainedMessages 0 (SqlText t)) T = Some T'"
  shows "wf_tables Q T'" "saved_rows time_of T' = saved_rows time_of T"
    "retained_rows time_of T' = (retained_rows time_of T)(t := None)"
proof -
  have T': "T' = T(RetainedMessages := filter (\<lambda>r. r ! 0 \<noteq> SqlText t) (T RetainedMessages))"
    using assms(2) by simp
  have "wf_table Q u (T' u)" for u
    using wf_tableD(1) [OF assms(1), of u] by (auto simp: T' wf_table_filter)
  then show "wf_tables Q T'"
    using assms(1) by (simp add: wf_tables_def heads_def T')
  show "saved_rows time_of T' = saved_rows time_of T"
    by (rule ext, rule saved_rows_cong) (simp add: rows_for_def T')
  have "rows_for T' RetainedMessages k = (if k = t then [] else rows_for T RetainedMessages k)" for k
    by (auto simp: T' rows_for_def filter_empty_conv intro!: filter_cong)
  then show "retained_rows time_of T' = (retained_rows time_of T)(t := None)"
    by (intro ext) (simp add: retained_rows_def)
qed

lemma retained_facts:
  assumes "wf_tables Q T"
  shows "retained_rows time_of T t = Some m \<Longrightarrow> pr_topic m = t" "finite (dom (retained_rows time_of T))"
proof -
  obtain ms where ms: "\<And>t m. retained_rows time_of T t = Some m \<longleftrightarrow> m \<in> set ms \<and> pr_topic m = t"
    "dom (retained_rows time_of T) = pr_topic ` set ms"
    by (rule retained_views [OF assms]) blast
  show "retained_rows time_of T t = Some m \<Longrightarrow> pr_topic m = t" "finite (dom (retained_rows time_of T))"
    using ms by simp_all
qed

text \<open>The views after each operation that writes.\<close>

lemma save_session_rows:
  assumes "wf_tables Q (tables db)" "owned s subs infl inb" "sqlite_save_session Q s subs infl inb db = (Inr (), db')"
  shows "wf_tables Q (tables db') \<and> retained_rows time_of (tables db') = retained_rows time_of (tables db)
    \<and> (\<exists>v. saved_rows time_of (tables db') = (saved_rows time_of (tables db))(ps_client_id s \<mapsto> v) \<and> stores v s subs infl inb)"
proof -
  let ?v = "\<lparr>sv_session = s\<lparr>ps_created_at := kept_created time_of (tables db) s\<rparr>,
    sv_subscriptions = subs, sv_inflight = infl, sv_inbound = inb\<rparr>"
  have "save_tables Q s subs infl inb (tables db) = Some (tables db')"
    using transaction_cases(1) [OF effect_save, of s subs infl inb db "Inr ()" db'] assms(3)
    by (simp add: sqlite_save_session_def)
  note saved = save_tables_saved [OF assms(1,2) this]
  moreover have "stores ?v s subs infl inb"
    by (simp add: stores_def same_session_def)
  ultimately show ?thesis
    by blast
qed

lemma save_session_unchanged: "sqlite_save_session Q s subs infl inb db = (Inl e, db') \<Longrightarrow> tables db' = tables db"
  using transaction_cases(2) [OF effect_save, of s subs infl inb db "Inl e" db'] by (simp add: sqlite_save_session_def)

lemma delete_session_rows:
  assumes "wf_tables Q (tables db)" "sqlite_delete_session Q cid db = (Inr (), db')"
  shows "wf_tables Q (tables db') \<and> retained_rows time_of (tables db') = retained_rows time_of (tables db)
    \<and> saved_rows time_of (tables db') = (saved_rows time_of (tables db))(cid := None)"
proof -
  have "tables db' = drop_clients {cid} (tables db)"
    using transaction_cases(1) [OF effect_delete_client, of cid db "Inr ()" db'] assms(2)
    by (simp add: sqlite_delete_session_def)
  then show ?thesis
    using assms(1) by (auto simp: wf_drop_clients saved_rows_drop retained_rows_drop)
qed

lemma delete_session_unchanged: "sqlite_delete_session Q cid db = (Inl e, db') \<Longrightarrow> tables db' = tables db"
  using transaction_cases(2) [OF effect_delete_client, of cid db "Inl e" db'] by (simp add: sqlite_delete_session_def)

lemma retained_operations:
  assumes "wf_tables Q (tables db)"
  shows "sqlite_save_retained_message Q m db = (Inr (), db') \<Longrightarrow>
      wf_tables Q (tables db') \<and> saved_rows time_of (tables db') = saved_rows time_of (tables db)
      \<and> retained_rows time_of (tables db') = (retained_rows time_of (tables db))(pr_topic m \<mapsto> m)"
    and "sqlite_save_retained_message Q m db = (Inl e, db') \<Longrightarrow> tables db' = tables db"
    and "sqlite_delete_retained_message Q t db = (Inr (), db') \<Longrightarrow>
      wf_tables Q (tables db') \<and> saved_rows time_of (tables db') = saved_rows time_of (tables db)
      \<and> retained_rows time_of (tables db') = (retained_rows time_of (tables db))(t := None)"
    and "sqlite_delete_retained_message Q t db = (Inl e, db') \<Longrightarrow> tables db' = tables db"
  unfolding sqlite_save_retained_message_def sqlite_delete_retained_message_def
  by (metis execute_cases(1) save_retained_rows [OF assms], metis execute_cases(2),
      metis execute_cases(1) delete_retained_rows [OF assms], metis execute_cases(2))

end

sublocale sql_engine \<subseteq> sqlite: storage "sqlite_ops Q" "\<lambda>db. wf_tables Q (tables db)"
  "\<lambda>db. saved_rows time_of (tables db)" "\<lambda>db. retained_rows time_of (tables db)"
proof (unfold_locales, unfold sqlite_ops_def storage_ops.simps, goal_cases)
  case 5
  from 5(2) show ?case
    by (rule session_exists_rows)
next
  case 7
  then show ?case
    by (simp add: save_session_unchanged)
next
  case 9
  then show ?case
    by (simp add: delete_session_unchanged)
next
  case (16 db m e db')
  then show ?case
    using retained_operations(2) by simp
next
  case (18 db t e db')
  then show ?case
    using retained_operations(4) by simp
qed (fact load_session_rows load_subscriptions_rows load_inflight_rows load_inbound_rows
    save_session_rows delete_session_rows retained_facts load_retained_rows load_all_retained_rows
    count_retained_rows retained_operations)+

end
