(* ===== verification/Sqlite_Props.thy ===== *)
theory Sqlite_Props
  imports Sqlite_Contract "HOL-Library.List_Lexorder" "HOL-Library.Char_ord"
begin

text \<open>
  Expiry in the SQLite backend, that a save succeeds and is read got when the engine works, an
  engine that keeps its tables in memory and honours the contract, and the properties of the
  backend.
\<close>

section \<open>Expiry\<close>

context sql_engine
begin

definition expired_ids :: "tables \<Rightarrow> datetime \<Rightarrow> rstring list" where
  "expired_ids T older_than = map (\<lambda>r. text_of (r ! 0))
    (filter (\<lambda>r. value_less (r ! 8) (SqlText (to_rfc3339 Q older_than))) (T Sessions))"

lemma expired_ids_read:
  assumes "wf_tables Q (tables db)"
    and "ok_then (sql_err (sql_query Q (SelectLess Sessions 8 (SqlText (to_rfc3339 Q older_than))) db))
      (read_all (\<lambda>r. sql_err (get_string Q (r ! 0)))) = Inr cids"
  shows "mset cids = mset (expired_ids (tables db) older_than)"
proof -
  obtain rows where q: "sql_err (sql_query Q (SelectLess Sessions 8 (SqlText (to_rfc3339 Q older_than))) db) = Inr rows"
    "read_all (\<lambda>r. sql_err (get_string Q (r ! 0))) rows = Inr cids"
    using assms(2) by (auto simp: ok_then_eq)
  have rows: "mset rows = mset (filter (\<lambda>r. value_less (r ! 8) (SqlText (to_rfc3339 Q older_than))) (tables db Sessions))"
    using query_rows [OF q(1)] by simp
  have "\<forall>r \<in> set rows. \<forall>x. sql_err (get_string Q (r ! 0)) = Inr x \<longrightarrow> x = text_of (r ! 0)"
    using wf_tableD(1) [OF assms(1), of Sessions] mset_eq_setD [OF rows]
    by (fastforce simp: wf_table_def get_text)
  then have "cids = map (\<lambda>r. text_of (r ! 0)) rows"
    by (rule read_all_written [OF _ q(2)])
  then have "mset cids = image_mset (\<lambda>r. text_of (r ! 0)) (mset rows)"
    by simp
  then show ?thesis
    unfolding rows expired_ids_def by simp
qed

lemma expired_ids_valid:
  assumes "T Sessions = map (session_row Q) ss" "valid older_than" "\<forall>s \<in> set ss. valid (ps_updated_at s)"
  shows "expired_ids T older_than = map ps_client_id (filter (\<lambda>s. ps_updated_at s < older_than) ss)"
proof -
  have "value_less (session_row Q s ! 8) (SqlText (to_rfc3339 Q older_than)) \<longleftrightarrow> ps_updated_at s < older_than"
    if "s \<in> set ss" for s
    using order_valid [of "ps_updated_at s" older_than] assms(2,3) that by (simp add: session_row_def)
  then show ?thesis
    by (simp add: expired_ids_def assms(1) filter_map o_def cong: filter_cong)
qed

lemma saved_sessions:
  assumes "T Sessions = map (session_row Q) ss" "distinct (map ps_client_id ss)"
  shows "(\<exists>v. saved_rows time_of T cid = Some v \<and> sv_session v = s) \<longleftrightarrow> s \<in> set ss \<and> ps_client_id s = cid"
proof -
  have rows: "rows_for T Sessions cid = map (session_row Q) (filter (\<lambda>s. ps_client_id s = cid) ss)"
    by (simp add: rows_for_def assms(1) filter_map o_def)
  have one: "s' = s" if "s \<in> set ss" "s' \<in> set ss" "ps_client_id s = ps_client_id s'" for s s'
    using assms(2) that by (simp add: distinct_map inj_on_def)
  show ?thesis
  proof (cases "filter (\<lambda>s. ps_client_id s = cid) ss")
    case Nil
    then show ?thesis
      using rows by (auto simp: saved_rows_def filter_empty_conv)
  next
    case (Cons s' ss')
    then have "s' \<in> set ss \<and> ps_client_id s' = cid"
      by (auto simp: filter_eq_Cons_iff)
    then show ?thesis
      using rows Cons one by (auto simp: saved_rows_def)
  qed
qed

lemma delete_expired_tables:
  assumes "wf_tables Q (tables db)" "sqlite_delete_expired_sessions Q older_than db = (res, db')"
  shows "res = Inr n \<Longrightarrow> tables db' = drop_clients (set (expired_ids (tables db) older_than)) (tables db)
      \<and> n = length (expired_ids (tables db) older_than)"
    and "res = Inl e \<Longrightarrow> tables db' = tables db"
proof -
  let ?read = "\<lambda>db. ok_then (sql_err (sql_query Q (SelectLess Sessions 8 (SqlText (to_rfc3339 Q older_than))) db))
      (read_all (\<lambda>r. sql_err (get_string Q (r ! 0))))"
  let ?R = "\<lambda>n T T'. wf_tables Q T \<longrightarrow>
      T' = drop_clients (set (expired_ids T older_than)) T \<and> n = length (expired_ids T older_than)"
  have body: "base db' = base db \<and> (\<forall>n. res = Inr n \<longrightarrow> ?R n (tables db) (tables db'))"
    if "and_then (?read db, db) (\<lambda>cids db. and_then (delete_clients Q cids db) (\<lambda>_ db. (Inr (length cids), db))) = (res, db')"
    for db db' and res :: "nat storage_result"
  proof (cases "?read db")
    case (Inl e)
    then show ?thesis
      using that by auto
  next
    case (Inr cids)
    obtain r db1 where d: "delete_clients Q cids db = (r, db1)"
      by (rule prod.exhaust)
    note eff = effect_delete_clients [unfolded effect_def, rule_format, OF d]
    have ids: "set cids = set (expired_ids (tables db) older_than)" "length cids = length (expired_ids (tables db) older_than)"
      if "wf_tables Q (tables db)"
      using expired_ids_read [OF that Inr] by (metis mset_eq_setD, metis mset_eq_length)
    show ?thesis
      using that Inr d eff ids by (cases r) auto
  qed
  have "in_transaction Q (\<lambda>db. and_then (?read db, db)
      (\<lambda>cids db. and_then (delete_clients Q cids db) (\<lambda>_ db. (Inr (length cids), db)))) db = (res, db')"
    using assms(2) by (simp add: sqlite_delete_expired_sessions_def)
  note tx = in_transaction_effect [where R = ?R, OF body this]
  from tx show "res = Inr n \<Longrightarrow> tables db' = drop_clients (set (expired_ids (tables db) older_than)) (tables db)
      \<and> n = length (expired_ids (tables db) older_than)" "res = Inl e \<Longrightarrow> tables db' = tables db"
    using assms(1) by blast+
qed

lemma delete_expired_rows:
  assumes "wf_tables Q (tables db)" "valid older_than"
    and "\<forall>cid v. saved_rows time_of (tables db) cid = Some v \<longrightarrow> valid (ps_updated_at (sv_session v))"
    and "sqlite_delete_expired_sessions Q older_than db = (Inr n, db')"
  shows "wf_tables Q (tables db') \<and> retained_rows time_of (tables db') = retained_rows time_of (tables db)
    \<and> saved_rows time_of (tables db') = (\<lambda>cid. case saved_rows time_of (tables db) cid of
          None \<Rightarrow> None
        | Some v \<Rightarrow> if ps_updated_at (sv_session v) < older_than then None else Some v)
    \<and> n = card {cid. \<exists>v. saved_rows time_of (tables db) cid = Some v \<and> ps_updated_at (sv_session v) < older_than}"
proof -
  obtain ss where ss: "tables db Sessions = map (session_row Q) ss" "distinct (map ps_client_id ss)"
    by (rule wf_sessions [OF assms(1)])
  note saved = saved_sessions [where T = "tables db", OF ss]
  let ?old = "filter (\<lambda>s. ps_updated_at s < older_than) ss"
  let ?C = "ps_client_id ` set ?old"
  have "\<forall>s \<in> set ss. valid (ps_updated_at s)"
    using assms(3) saved by metis
  then have ids: "expired_ids (tables db) older_than = map ps_client_id ?old"
    using ss(1) assms(2) by (intro expired_ids_valid)
  have T': "tables db' = drop_clients ?C (tables db)" and n: "n = length ?old"
    using delete_expired_tables(1) [OF assms(1,4), of n] by (simp_all add: ids)
  have mem: "cid \<in> ?C \<longleftrightarrow> (\<exists>v. saved_rows time_of (tables db) cid = Some v \<and> ps_updated_at (sv_session v) < older_than)" for cid
    using saved [of cid] by (auto simp: image_iff) metis+
  have "card ?C = n"
    using distinct_card [OF distinct_map_filter [OF ss(2)], of "\<lambda>s. ps_updated_at s < older_than"] n by simp
  moreover have "?C = {cid. \<exists>v. saved_rows time_of (tables db) cid = Some v \<and> ps_updated_at (sv_session v) < older_than}"
    using mem by blast
  moreover have "(if cid \<in> ?C then None else saved_rows time_of (tables db) cid) =
      (case saved_rows time_of (tables db) cid of None \<Rightarrow> None
        | Some v \<Rightarrow> if ps_updated_at (sv_session v) < older_than then None else Some v)" for cid
    unfolding mem by (cases "saved_rows time_of (tables db) cid") simp_all
  ultimately show ?thesis
    unfolding T' saved_rows_drop retained_rows_drop using wf_drop_clients [OF assms(1)] by simp
qed

end

sublocale sql_engine \<subseteq> sqlite_expiry: session_expiry "sqlite_ops Q" "\<lambda>db. wf_tables Q (tables db)"
  "\<lambda>db. saved_rows time_of (tables db)" "\<lambda>db. retained_rows time_of (tables db)" valid
proof (unfold_locales, unfold sqlite_ops_def storage_ops.simps, goal_cases)
  case 1
  then show ?case
    by (rule delete_expired_rows)
next
  case (2 db older_than e db')
  then show ?case
    using delete_expired_tables(2) by simp
qed

section \<open>A working engine\<close>

text \<open>The rows of a save do not repeat a key.\<close>

definition unique_rows :: "PersistedSubscription list \<Rightarrow> PersistedInflightMessage list
    \<Rightarrow> PersistedInboundQos2Message list \<Rightarrow> bool" where
  "unique_rows subs infl inb \<longleftrightarrow> distinct (map psub_topic_filter subs) \<and> distinct (map pi_packet_id infl)
    \<and> distinct (map pb_packet_id inb)"

lemma replace_rows_succeeds:
  assumes "wf_table Q t (T t)" "\<forall>r \<in> set rs. written_row Q t r \<and> r ! 0 = SqlText k"
    and "distinct (map (primary_key t) rs)"
  shows "replace_rows t k rs T \<noteq> None"
proof -
  have head: "primary_key t r = primary_key t r' \<Longrightarrow> r ! 0 = r' ! 0" if "r \<noteq> []" "r' \<noteq> []" for r r'
    using that by (cases t; cases r; cases r') (auto simp: primary_key_def)
  have "primary_key t r \<noteq> primary_key t r'" if "r \<in> set rs" "r' \<in> set (T t)" "r' ! 0 \<noteq> SqlText k" for r r'
    using head [of r r'] that assms(1,2) written_row_nonempty [of Q t] by (auto simp: wf_table_def)
  then have "distinct (map (primary_key t) (filter (\<lambda>r. r ! 0 \<noteq> SqlText k) (T t) @ rs))"
    using assms(1,3) by (auto simp: wf_table_def distinct_map_filter) metis
  moreover have "distinct (map (primary_key t) (T t))"
    using assms(1) by (simp add: wf_table_def)
  ultimately show ?thesis
    by (simp add: replace_rows_eq Let_def del: map_append)
qed

lemma unique_keys:
  assumes "unique_rows subs infl inb"
  shows "distinct (map (primary_key Subscriptions) (map subscription_row subs))"
    "distinct (map (primary_key InflightMessages) (map (inflight_row Q) infl))"
    "distinct (map (primary_key InboundQos2Messages) (map (inbound_row Q) inb))"
  using assms
  by (auto simp: unique_rows_def distinct_map inj_on_def primary_key_def subscription_row_def inflight_row_def
      inbound_row_def numeral_2_eq_2 simp flip: word_uint_eq_iff)

context working_engine
begin

lemma save_tables_succeeds:
  assumes "wf_tables Q T" "owned s subs infl inb" "unique_rows subs infl inb"
  shows "save_tables Q s subs infl inb T \<noteq> None"
proof -
  note ow = owned_rows [OF assms(2), of Q] and uniq = unique_keys [OF assms(3)]
  obtain T1 where st1: "run_statement (Upsert Sessions (session_row Q s) [1, 2, 3, 4, 5, 6, 8]) T = Some T1"
    by simp
  have w1: "T1 t = T t" if "t \<noteq> Sessions" for t
    using fun_cong [OF upsert_session(1) [OF assms(1) st1], of t] that by simp
  have wf1: "wf_table Q Subscriptions (T1 Subscriptions)"
    using wf_tableD(1) [OF assms(1)] by (simp add: w1)
  then obtain T2 where st2: "replace_rows Subscriptions (ps_client_id s) (map subscription_row subs) T1 = Some T2"
    using replace_rows_succeeds [where T = T1, OF wf1 ow(1) uniq(1)] by blast
  have w2: "T2 t = T1 t" if "t \<noteq> Subscriptions" for t
    using replace_rows_ok(2) [OF wf1 st2 ow(1)] that by simp
  have wf2: "wf_table Q InflightMessages (T2 InflightMessages)"
    using wf_tableD(1) [OF assms(1)] by (simp add: w1 w2)
  then obtain T3 where st3: "replace_rows InflightMessages (ps_client_id s) (map (inflight_row Q) infl) T2 = Some T3"
    using replace_rows_succeeds [where T = T2, OF wf2 ow(2) uniq(2)] by blast
  have w3: "T3 t = T2 t" if "t \<noteq> InflightMessages" for t
    using replace_rows_ok(2) [OF wf2 st3 ow(2)] that by simp
  have wf3: "wf_table Q InboundQos2Messages (T3 InboundQos2Messages)"
    using wf_tableD(1) [OF assms(1)] by (simp add: w1 w2 w3)
  then have "replace_rows InboundQos2Messages (ps_client_id s) (map (inbound_row Q) inb) T3 \<noteq> None"
    using replace_rows_succeeds [where T = T3, OF wf3 ow(3) uniq(3)] by blast
  then show ?thesis
    unfolding save_tables_def st1 by (simp add: st2 st3)
qed

text \<open>A body that succeeds whenever its effect is defined.\<close>

definition runs :: "('db \<Rightarrow> unit storage_result \<times> 'db) \<Rightarrow> (tables \<Rightarrow> tables option) \<Rightarrow> bool" where
  "runs body F \<longleftrightarrow> effect body F \<and> (\<forall>db. F (tables db) \<noteq> None \<longrightarrow> fst (body db) = Inr ())"

lemma runs_execute: "runs (execute Q s) (run_statement s)"
  using effect_execute executes by (simp add: runs_def execute_def)

lemma runs_then:
  assumes "runs f F" "runs g G"
  shows "runs (\<lambda>db. and_then (f db) (\<lambda>_ db. g db)) (\<lambda>T. Option.bind (F T) G)"
proof -
  have "fst (and_then (f db) (\<lambda>_ db. g db)) = Inr ()" if some: "Option.bind (F (tables db)) G \<noteq> None" for db
  proof -
    obtain r db1 where f: "f db = (r, db1)"
      by (rule prod.exhaust)
    obtain T' where T': "F (tables db) = Some T'" "G T' \<noteq> None"
      using some by (cases "F (tables db)") auto
    then have "fst (f db) = Inr ()"
      using assms(1) by (simp add: runs_def)
    then have r: "r = Inr ()"
      by (simp add: f)
    then have "T' = tables db1"
      using assms(1) f T'(1) by (fastforce simp: runs_def effect_def)
    then have "fst (g db1) = Inr ()"
      using assms(2) T'(2) by (simp add: runs_def)
    then show ?thesis
      by (simp add: f r)
  qed
  then show ?thesis
    using effect_then assms by (simp add: runs_def)
qed

lemma runs_insert_all: "runs (insert_all Q t rs) (\<lambda>T. insert_rows t rs T)"
proof (induction rs)
  case Nil
  then show ?case
    by (simp add: runs_def effect_def)
next
  case (Cons r rs)
  show ?case
    using runs_then [OF runs_execute [of "Insert t r"] Cons.IH] by simp
qed

lemma runs_insert_prepared: "runs (insert_prepared Q t rs) (\<lambda>T. insert_rows t rs T)"
  using effect_insert_prepared runs_insert_all prepares by (simp add: runs_def insert_prepared_def)

lemma transaction_runs:
  assumes "runs body F" "F (tables db) \<noteq> None"
  obtains db' where "in_transaction Q body db = (Inr (), db')" "F (tables db) = Some (tables db')"
proof -
  obtain t db1 where tx: "sql_transaction Q db = (t, db1)"
    by (rule prod.exhaust)
  obtain r db2 where b: "body db1 = (r, db2)"
    by (rule prod.exhaust)
  obtain c db3 where com: "sql_commit Q db2 = (c, db3)"
    by (rule prod.exhaust)
  have t: "t = Inr ()" and c: "c = Inr ()"
    using transactions(1) [of db] transactions(2) [of db2] tx com by simp_all
  have "tables db1 = tables db"
    using transaction_ok tx t by blast
  then have "fst (body db1) = Inr ()"
    using assms by (simp add: runs_def)
  then have run: "in_transaction Q body db = (Inr (), db3)"
    using tx t b com c by (simp add: in_transaction_def)
  moreover have "F (tables db) = Some (tables db3)"
    using transaction_cases(1) [OF _ run] assms(1) by (simp add: runs_def)
  ultimately show thesis
    by (rule that)
qed

lemma save_session_runs:
  assumes "wf_tables Q (tables db)" "owned s subs infl inb" "unique_rows subs infl inb"
  obtains db' where "sqlite_save_session Q s subs infl inb db = (Inr (), db')"
    "save_tables Q s subs infl inb (tables db) = Some (tables db')"
proof (rule transaction_runs)
  show "runs (\<lambda>db. let client_id = ps_client_id s in
    and_then (execute Q (Upsert Sessions (session_row Q s) [1, 2, 3, 4, 5, 6, 8]) db) (\<lambda>_ db.
    and_then (execute Q (Delete Subscriptions 0 (SqlText client_id)) db) (\<lambda>_ db.
    and_then (insert_prepared Q Subscriptions (map subscription_row subs) db) (\<lambda>_ db.
    and_then (execute Q (Delete InflightMessages 0 (SqlText client_id)) db) (\<lambda>_ db.
    and_then (insert_prepared Q InflightMessages (map (inflight_row Q) infl) db) (\<lambda>_ db.
    and_then (execute Q (Delete InboundQos2Messages 0 (SqlText client_id)) db) (\<lambda>_ db.
      insert_prepared Q InboundQos2Messages (map (inbound_row Q) inb) db)))))))
    (save_tables Q s subs infl inb)"
    unfolding save_tables_def Let_def replace_rows_def bind_assoc
    by (intro runs_then runs_execute runs_insert_prepared)
  show "save_tables Q s subs infl inb (tables db) \<noteq> None"
    by (rule save_tables_succeeds [OF assms])
qed (rule that, unfold sqlite_save_session_def)

lemma query_succeeds: "\<exists>rows. sql_err (sql_query Q q db) = Inr rows"
  using queries [of q db] by auto

lemma ordered_rows:
  assumes "sql_err (sql_query Q (SelectOrdered t c v k) db) = Inr rows"
    and "\<forall>r \<in> set rows. valid (d r) \<and> r ! k = SqlText (to_rfc3339 Q (d r))"
  shows "sorted (map d rows)"
proof -
  have ord: "\<not> value_less (rows ! j ! k) (rows ! i ! k)" if "i < j" "j < length rows" for i j
    using query_ok [of "SelectOrdered t c v k" db rows] assms(1) that by (simp add: sql_err_eq)
  have "d (rows ! i) \<le> d (rows ! j)" if "i \<le> j" "j < length rows" for i j
  proof (cases "i = j")
    case False
    then have "\<not> text_less (to_rfc3339 Q (d (rows ! j))) (to_rfc3339 Q (d (rows ! i)))"
      using ord [of i j] assms(2) that by (simp add: nth_mem)
    moreover have "valid (d (rows ! i))" "valid (d (rows ! j))"
      using assms(2) that by (simp_all add: nth_mem)
    ultimately show ?thesis
      by (simp add: order_valid)
  qed simp
  then show ?thesis
    by (simp add: sorted_iff_nth_mono)
qed

end

text \<open>Values that the columns can hold and read got.\<close>

definition storable :: "(datetime \<Rightarrow> bool) \<Rightarrow> PersistedSession \<Rightarrow> PersistedInflightMessage list
    \<Rightarrow> PersistedInboundQos2Message list \<Rightarrow> bool" where
  "storable valid s infl inb \<longleftrightarrow> valid (ps_created_at s) \<and> valid (ps_updated_at s)
    \<and> (\<forall>m \<in> set infl. valid (pi_created_at m) \<and> uint (pi_retry_count m) < 2 ^ 31)
    \<and> (\<forall>m \<in> set inb. valid (pb_received_at m))"

context working_engine
begin

lemma reload_session:
  assumes "wf_tables Q (tables db)" "rows_for (tables db) Sessions cid = [session_row Q s]"
    and "valid (ps_created_at s)" "valid (ps_updated_at s)"
  shows "sqlite_load_session Q cid db = Inr (Some s)"
proof -
  obtain rows where q: "sql_err (sql_query Q (SelectWhere Sessions 0 (SqlText cid)) db) = Inr rows"
    using query_succeeds by blast
  have "rows = rows_for (tables db) Sessions cid"
    by (rule keyed_rows(1) [OF assms(1) _ q]) simp
  then show ?thesis
    using q assms(2-4) by (simp add: sqlite_load_session_def read_session_written(2))
qed

lemma reload_rows:
  assumes "sql_err (sql_query Q q db) = Inr rows" "selected q (tables db) = map f xs"
    and "\<forall>x \<in> set xs. g (f x) = x \<and> rd (f x) = Inr x"
  shows "read_all rd rows = Inr (map g rows)" "mset (map g rows) = mset xs"
    "\<forall>r \<in> set rows. r = f (g r) \<and> g r \<in> set xs"
proof -
  have rows: "mset rows = mset (map f xs)"
    using query_rows [OF assms(1)] assms(2) by simp
  have mem: "set rows = f ` set xs"
    using mset_eq_setD [OF rows] by simp
  show "\<forall>r \<in> set rows. r = f (g r) \<and> g r \<in> set xs"
    using mem assms(3) by auto
  show "read_all rd rows = Inr (map g rows)"
    using mem assms(3) by (intro read_all_succeeds) auto
  have "mset (map g rows) = image_mset g (mset (map f xs))"
    unfolding mset_map rows ..
  also have "\<dots> = mset (map (\<lambda>x. g (f x)) xs)"
    by (simp add: image_mset.compositionality o_def)
  also have "\<dots> = mset xs"
    using assms(3) by (simp add: map_idI)
  finally show "mset (map g rows) = mset xs" .
qed

lemma reload_subscriptions:
  assumes "rows_for (tables db) Subscriptions cid = map subscription_row subs"
  obtains xs where "sqlite_load_subscriptions Q cid db = Inr xs" "mset xs = mset subs"
proof -
  obtain rows where q: "sql_err (sql_query Q (SelectWhere Subscriptions 0 (SqlText cid)) db) = Inr rows"
    using query_succeeds by blast
  have "selected (SelectWhere Subscriptions 0 (SqlText cid)) (tables db) = map subscription_row subs"
    using assms by (simp add: rows_for_def)
  note got = reload_rows [where g = row_subscription and rd = "read_subscription Q", OF q this]
  show thesis
    by (rule that [OF _ got(2)]) (simp_all add: sqlite_load_subscriptions_def q got(1) read_subscription_written)
qed

lemma reload_inflight:
  assumes "rows_for (tables db) InflightMessages cid = map (inflight_row Q) infl"
    and "\<forall>m \<in> set infl. valid (pi_created_at m) \<and> uint (pi_retry_count m) < 2 ^ 31"
  obtains ms where "sqlite_load_inflight_messages Q cid db = Inr ms" "mset ms = mset infl"
    "sorted (map pi_created_at ms)"
proof -
  obtain rows where q: "sql_err (sql_query Q (SelectOrdered InflightMessages 0 (SqlText cid) 8) db) = Inr rows"
    using query_succeeds by blast
  have sel: "selected (SelectOrdered InflightMessages 0 (SqlText cid) 8) (tables db) = map (inflight_row Q) infl"
    using assms by (simp add: rows_for_def)
  have "\<forall>m \<in> set infl. row_inflight time_of (inflight_row Q m) = m \<and> read_inflight Q (inflight_row Q m) = Inr m"
    using assms(2) by (simp add: read_inflight_written(2))
  note got = reload_rows [OF q sel this]
  have "sorted (map (\<lambda>r. pi_created_at (row_inflight time_of r)) rows)"
  proof (rule ordered_rows [OF q], intro ballI)
    fix r
    assume "r \<in> set rows"
    then obtain m where "r = inflight_row Q m" "m \<in> set infl"
      using got(3) by blast
    then show "valid (pi_created_at (row_inflight time_of r))
      \<and> r ! 8 = SqlText (to_rfc3339 Q (pi_created_at (row_inflight time_of r)))"
      using assms(2) by simp (simp add: inflight_row_def)
  qed
  then show thesis
    using that [OF _ got(2)] by (simp add: sqlite_load_inflight_messages_def q got(1) o_def)
qed

lemma reload_inbound:
  assumes "rows_for (tables db) InboundQos2Messages cid = map (inbound_row Q) inb"
    and "\<forall>m \<in> set inb. valid (pb_received_at m)"
  obtains ms where "sqlite_load_inbound_qos2_messages Q cid db = Inr ms" "mset ms = mset inb"
    "sorted (map pb_received_at ms)"
proof -
  obtain rows where q: "sql_err (sql_query Q (SelectOrdered InboundQos2Messages 0 (SqlText cid) 5) db) = Inr rows"
    using query_succeeds by blast
  have sel: "selected (SelectOrdered InboundQos2Messages 0 (SqlText cid) 5) (tables db) = map (inbound_row Q) inb"
    using assms by (simp add: rows_for_def)
  have "\<forall>m \<in> set inb. row_inbound time_of (inbound_row Q m) = m \<and> read_inbound Q (inbound_row Q m) = Inr m"
    using assms(2) by (simp add: read_inbound_written(2))
  note got = reload_rows [OF q sel this]
  have "sorted (map (\<lambda>r. pb_received_at (row_inbound time_of r)) rows)"
  proof (rule ordered_rows [OF q], intro ballI)
    fix r
    assume "r \<in> set rows"
    then obtain m where "r = inbound_row Q m" "m \<in> set inb"
      using got(3) by blast
    then show "valid (pb_received_at (row_inbound time_of r))
      \<and> r ! 5 = SqlText (to_rfc3339 Q (pb_received_at (row_inbound time_of r)))"
      using assms(2) by simp (simp add: inbound_row_def)
  qed
  then show thesis
    using that [OF _ got(2)] by (simp add: sqlite_load_inbound_qos2_messages_def q got(1) o_def)
qed

lemma save_reload:
  assumes "wf_tables Q (tables db)" "owned s subs infl inb" "unique_rows subs infl inb"
    and "storable valid s infl inb" "valid (kept_created time_of (tables db) s)"
  shows "\<exists>db' xs ms bs. sqlite_save_session Q s subs infl inb db = (Inr (), db')
    \<and> sqlite_load_session Q (ps_client_id s) db' =
        Inr (Some (s\<lparr>ps_created_at := kept_created time_of (tables db) s\<rparr>))
    \<and> sqlite_load_subscriptions Q (ps_client_id s) db' = Inr xs \<and> mset xs = mset subs
    \<and> sqlite_load_inflight_messages Q (ps_client_id s) db' = Inr ms \<and> mset ms = mset infl
    \<and> sorted (map pi_created_at ms)
    \<and> sqlite_load_inbound_qos2_messages Q (ps_client_id s) db' = Inr bs \<and> mset bs = mset inb
    \<and> sorted (map pb_received_at bs)"
proof -
  obtain db' where db': "sqlite_save_session Q s subs infl inb db = (Inr (), db')"
    "save_tables Q s subs infl inb (tables db) = Some (tables db')"
    by (rule save_session_runs [OF assms(1-3)])
  note wf = save_tables_wf(1) [OF assms(1,2) db'(2)]
    and rows = save_tables_wf(3-6) [OF assms(1,2) db'(2), of "ps_client_id s", simplified]
  have "sqlite_load_session Q (ps_client_id s) db' = Inr (Some (s\<lparr>ps_created_at := kept_created time_of (tables db) s\<rparr>))"
    using assms(4,5) by (intro reload_session [OF wf rows(1)]) (simp_all add: storable_def)
  moreover obtain xs where "sqlite_load_subscriptions Q (ps_client_id s) db' = Inr xs" "mset xs = mset subs"
    by (rule reload_subscriptions [OF rows(2)])
  moreover obtain ms where "sqlite_load_inflight_messages Q (ps_client_id s) db' = Inr ms" "mset ms = mset infl"
    "sorted (map pi_created_at ms)"
    using assms(4) by (auto simp: storable_def intro: reload_inflight [OF rows(3)])
  moreover obtain bs where "sqlite_load_inbound_qos2_messages Q (ps_client_id s) db' = Inr bs" "mset bs = mset inb"
    "sorted (map pb_received_at bs)"
    using assms(4) by (auto simp: storable_def intro: reload_inbound [OF rows(4)])
  ultimately show ?thesis
    using db'(1) by blast
qed

end

section \<open>An engine in memory\<close>

text \<open>
  The tables and what a transaction falls back to.  Times are written in a text that sorts like
  them: a run of \<open>a\<close> before a \<open>b\<close> for a negative time, a run of \<open>c\<close> otherwise.
\<close>

definition time_text :: "datetime \<Rightarrow> string" where
  "time_text d = (if d < 0 then replicate (nat (- d)) CHR ''a'' @ ''b'' else replicate (nat d + 1) CHR ''c'')"

definition text_time :: "string \<Rightarrow> datetime" where
  "text_time s = (if s \<noteq> [] \<and> hd s = CHR ''c'' then int (length s) - 1 else 1 - int (length s))"

fun get_text_value :: "sql_value \<Rightarrow> string + rstring" where
  "get_text_value (SqlText t) = Inr t"
| "get_text_value _ = Inl ''InvalidColumnType''"

fun get_blob_value :: "sql_value \<Rightarrow> string + bytes" where
  "get_blob_value (SqlBlob b) = Inr b"
| "get_blob_value _ = Inl ''InvalidColumnType''"

fun get_int_value :: "int \<Rightarrow> int \<Rightarrow> sql_value \<Rightarrow> string + int" where
  "get_int_value lo hi (SqlInteger n) = (if lo \<le> n \<and> n < hi then Inr n else Inl ''IntegralValueOutOfRange'')"
| "get_int_value lo hi _ = Inl ''InvalidColumnType''"

fun get_option_value :: "(sql_value \<Rightarrow> string + 'a) \<Rightarrow> sql_value \<Rightarrow> string + 'a option" where
  "get_option_value f SqlNull = Inr None"
| "get_option_value f v = map_sum id Some (f v)"

fun arrange :: "query \<Rightarrow> row list \<Rightarrow> row list" where
  "arrange (SelectOrdered t c v by) rows = sort_key (\<lambda>r. text_of (r ! by)) rows"
| "arrange q rows = rows"

definition memory_engine :: "(tables \<times> tables) sql_ops" where
  "memory_engine =
    \<lparr>sql_execute = (\<lambda>s db. case run_statement s (fst db) of
        None \<Rightarrow> (Inl ''constraint failed'', db) | Some T \<Rightarrow> (Inr (), (T, snd db))),
     sql_prepare = (\<lambda>t db. Inr ()),
     sql_query = (\<lambda>q db. Inr (arrange q (selected q (fst db)))),
     sql_count = (\<lambda>q db. Inr (int (length (selected q (fst db))))),
     sql_transaction = (\<lambda>db. (Inr (), (fst db, fst db))),
     sql_commit = (\<lambda>db. (Inr (), db)),
     sql_rollback = (\<lambda>db. (snd db, snd db)),
     get_string = get_text_value,
     get_blob = get_blob_value,
     get_i32 = get_int_value (- (2 ^ 31)) (2 ^ 31),
     sql_u8 = (\<lambda>v. map_sum id word_of_int (get_int_value 0 256 v)),
     get_opt_string = get_option_value get_text_value,
     get_opt_blob = get_option_value get_blob_value,
     get_opt_i32 = get_option_value (get_int_value (- (2 ^ 31)) (2 ^ 31)),
     get_opt_u8 = get_option_value (\<lambda>v. map_sum id word_of_int (get_int_value 0 256 v)),
     to_rfc3339 = time_text,
     parse_from_rfc3339 = (\<lambda>s. Some (text_time s))\<rparr>"

lemma text_less_eq: "text_less a b \<longleftrightarrow> a < b"
  by (induction a b rule: text_less.induct) (auto simp: less_char_def)

lemma text_less_runs:
  "text_less (replicate m c) (replicate n c) \<longleftrightarrow> m < n"
  "text_less (replicate m CHR ''a'' @ ''b'') (replicate n CHR ''a'' @ ''b'') \<longleftrightarrow> n < m"
proof -
  show "text_less (replicate m c) (replicate n c) \<longleftrightarrow> m < n"
  proof (induction m arbitrary: n)
    case 0
    then show ?case
      by (cases n) simp_all
  next
    case (Suc m)
    then show ?case
      by (cases n) simp_all
  qed
  show "text_less (replicate m CHR ''a'' @ ''b'') (replicate n CHR ''a'' @ ''b'') \<longleftrightarrow> n < m"
  proof (induction m arbitrary: n)
    case 0
    then show ?case
      by (cases n) simp_all
  next
    case (Suc m)
    then show ?case
      by (cases n) simp_all
  qed
qed

lemma time_text_order: "text_less (time_text d) (time_text d') \<longleftrightarrow> d < d'"
proof -
  obtain m where m: "nat (- d) = Suc m" if "d < 0"
    by (cases "nat (- d)") auto
  obtain n where n: "nat (- d') = Suc n" if "d' < 0"
    by (cases "nat (- d')") auto
  consider "d < 0" "d' < 0" | "d < 0" "\<not> d' < 0" | "\<not> d < 0" "d' < 0" | "\<not> d < 0" "\<not> d' < 0"
    by blast
  then show ?thesis
  proof cases
    case 1
    then show ?thesis
      using text_less_runs(2) [of "nat (- d)" "nat (- d')"] by (simp add: time_text_def)
  next
    case 4
    then show ?thesis
      using text_less_runs(1) [of "nat d + 1" _ "nat d' + 1"] by (auto simp: time_text_def)
  qed (simp_all add: time_text_def m n)
qed

lemma text_time_text: "text_time (time_text d) = d"
proof (cases "d < 0")
  case True
  then obtain m where "nat (- d) = Suc m"
    by (cases "nat (- d)") auto
  with True show ?thesis
    by (simp add: time_text_def text_time_def)
qed (simp add: time_text_def text_time_def)

lemma arrange_in_order: "mset (arrange q rows) = mset rows" "in_order q (arrange q rows)"
proof -
  show "mset (arrange q rows) = mset rows"
    by (cases q) simp_all
  show "in_order q (arrange q rows)"
  proof (cases q)
    case (SelectOrdered t c v k)
    let ?rows = "sort_key (\<lambda>r. text_of (r ! k)) rows"
    have "sorted (map (\<lambda>r. text_of (r ! k)) ?rows)"
      by (rule sorted_sort_key)
    then have le: "text_of (?rows ! i ! k) \<le> text_of (?rows ! j ! k)" if "i < j" "j < length ?rows" for i j
      using that by (simp add: sorted_iff_nth_mono)
    have less: "text_of a < text_of b" if "value_less a b" for a b
      using that by (cases "(a, b)" rule: value_less.cases) (simp_all add: text_less_eq)
    show ?thesis
      using le less unfolding SelectOrdered by (fastforce simp: not_less [symmetric])
  qed simp_all
qed

interpretation mem_engine: working_engine memory_engine fst snd text_time "\<lambda>_. True"
proof
  fix x :: u8
  have byte: "0 \<le> uint x" "uint x < 256"
    using unsigned_less [of x, where 'a = int] by simp_all
  show "sql_u8 memory_engine (SqlInteger (uint x)) = Inr x"
    "get_opt_u8 memory_engine (SqlInteger (uint x)) = Inr (Some x)"
    using byte by (simp_all add: memory_engine_def)
qed (auto simp: memory_engine_def text_time_text time_text_order arrange_in_order split: option.splits)

section \<open>Properties\<close>

context sql_engine
begin

lemmas contract = conjI [OF sqlite.storage_axioms sqlite_expiry.session_expiry_axioms]

text \<open>A save that repeats a key cannot succeed.\<close>

lemma saved_unique:
  assumes "wf_tables Q T" "owned s subs infl inb" "save_tables Q s subs infl inb T = Some T'"
  shows "unique_rows subs infl inb"
proof -
  note rows = save_tables_wf(4-6) [OF assms, of "ps_client_id s", simplified]
  note d = wf_tableD(3) [OF save_tables_wf(1) [OF assms]]
  have keys: "distinct (map (primary_key t) (rows_for T' t k))" for t k
    unfolding rows_for_def by (rule distinct_map_filter [OF d])
  show ?thesis
    using keys [of Subscriptions "ps_client_id s"] keys [of InflightMessages "ps_client_id s"]
      keys [of InboundQos2Messages "ps_client_id s"] assms(2)
    unfolding rows unique_rows_def
    by (auto simp: distinct_map inj_on_def primary_key_def subscription_row_def inflight_row_def inbound_row_def
        owned_def numeral_2_eq_2)
qed

lemma duplicate_refused:
  assumes "wf_tables Q (tables db)" "owned s subs infl inb" "\<not> unique_rows subs infl inb"
  shows "\<exists>e db'. sqlite_save_session Q s subs infl inb db = (Inl e, db') \<and> tables db' = tables db"
proof -
  obtain res db' where run: "sqlite_save_session Q s subs infl inb db = (res, db')"
    by (rule prod.exhaust)
  have "res \<noteq> Inr ()"
    using transaction_cases(1) [OF effect_save, of s subs infl inb db res db'] run saved_unique [OF assms(1,2)] assms(3)
    by (auto simp: sqlite_save_session_def)
  then obtain e where "res = Inl e"
    by (cases res) auto
  then show ?thesis
    using run save_session_unchanged by blast
qed

end

text \<open>
  C22: The SQLite backend honours the contract that the broker relies on.  On every engine that
  keeps SQLite's promises, and for tables written by the backend, what is loaded is what was saved
  last, saving and deleting change the records of one client or one topic and nothing else, an
  operation that fails leaves every record as it was, and expiry removes and counts the sessions
  last updated before the given time.
\<close>

theorem sqlite_honours_contract:
  assumes "sql_engine Q tables base time_of valid"
  shows "storage (sqlite_ops Q) (\<lambda>db. wf_tables Q (tables db)) (\<lambda>db. saved_rows time_of (tables db))
      (\<lambda>db. retained_rows time_of (tables db))
    \<and> session_expiry (sqlite_ops Q) (\<lambda>db. wf_tables Q (tables db)) (\<lambda>db. saved_rows time_of (tables db))
      (\<lambda>db. retained_rows time_of (tables db)) valid"
  by (rule sql_engine.contract [OF assms])

theorem sqlite_honours_contract_witness:
  "storage (sqlite_ops memory_engine) (\<lambda>db. wf_tables memory_engine (fst db)) (\<lambda>db. saved_rows text_time (fst db))
      (\<lambda>db. retained_rows text_time (fst db))
    \<and> session_expiry (sqlite_ops memory_engine) (\<lambda>db. wf_tables memory_engine (fst db))
      (\<lambda>db. saved_rows text_time (fst db)) (\<lambda>db. retained_rows text_time (fst db)) (\<lambda>_. True)"
  by (rule sqlite_honours_contract [OF mem_engine.sql_engine_axioms])

text \<open>
  C23: A session saved in SQLite is read back.  On an engine where nothing but a repeated key fails,
  saving a session whose rows carry its client identifier and repeat no key, with times that can
  be written and retry counts below 2^31, succeeds; loading then succeeds and returns the session
  with the creation time of its first save, the same subscriptions, and the same in-flight and
  inbound messages in the order of their times.
\<close>

theorem sqlite_save_load:
  assumes "working_engine Q tables base time_of valid" "wf_tables Q (tables db)"
    and "owned s subs infl inb" "unique_rows subs infl inb" "storable valid s infl inb"
    and "\<forall>v. saved_rows time_of (tables db) (ps_client_id s) = Some v \<longrightarrow> valid (ps_created_at (sv_session v))"
  shows "\<exists>db' xs ms bs. sqlite_save_session Q s subs infl inb db = (Inr (), db')
    \<and> sqlite_load_session Q (ps_client_id s) db' = Inr (Some (s\<lparr>ps_created_at :=
        (case saved_rows time_of (tables db) (ps_client_id s) of
           None \<Rightarrow> ps_created_at s | Some v \<Rightarrow> ps_created_at (sv_session v))\<rparr>))
    \<and> sqlite_load_subscriptions Q (ps_client_id s) db' = Inr xs \<and> mset xs = mset subs
    \<and> sqlite_load_inflight_messages Q (ps_client_id s) db' = Inr ms \<and> mset ms = mset infl
    \<and> sorted (map pi_created_at ms)
    \<and> sqlite_load_inbound_qos2_messages Q (ps_client_id s) db' = Inr bs \<and> mset bs = mset inb
    \<and> sorted (map pb_received_at bs)"
proof -
  have "valid (kept_created time_of (tables db) s)"
    using assms(5,6) by (simp add: kept_created_saved storable_def split: option.split)
  from working_engine.save_reload [OF assms(1-5) this] show ?thesis
    unfolding kept_created_saved .
qed

definition example_session :: PersistedSession where
  "example_session = \<lparr>ps_client_id = ''c'', ps_next_packet_id = 7, ps_keep_alive = 60,
    ps_will_message = Some \<lparr>pw_topic = ''w'', pw_payload = [1], pw_qos = StoredAtLeastOnce, pw_retain = False\<rparr>,
    ps_created_at = 5, ps_updated_at = 9\<rparr>"

definition example_inflight :: "u16 \<Rightarrow> PersistedInflightMessage" where
  "example_inflight pid = \<lparr>pi_client_id = ''c'', pi_packet_id = pid, pi_topic = ''t'', pi_payload = [],
    pi_qos = StoredExactlyOnce, pi_retain = False, pi_retry_count = 1,
    pi_qos2_state = Some PersistedAwaitingPubRec, pi_created_at = 8\<rparr>"

definition example_subscription :: PersistedSubscription where
  "example_subscription = \<lparr>psub_client_id = ''c'', psub_topic_filter = ''t'', psub_qos = StoredExactlyOnce\<rparr>"

lemmas example_simps = example_session_def example_inflight_def example_subscription_def

lemma wf_empty: "wf_tables Q (\<lambda>_. [])"
  by (simp add: wf_tables_def wf_table_def heads_def)

theorem sqlite_save_load_witness:
  "\<exists>db' xs ms bs. sqlite_save_session memory_engine example_session [example_subscription] [example_inflight 7]
        [] (\<lambda>_. [], \<lambda>_. []) = (Inr (), db')
    \<and> sqlite_load_session memory_engine ''c'' db' = Inr (Some example_session)
    \<and> sqlite_load_subscriptions memory_engine ''c'' db' = Inr xs \<and> mset xs = {# example_subscription #}
    \<and> sqlite_load_inflight_messages memory_engine ''c'' db' = Inr ms \<and> mset ms = {# example_inflight 7 #}
    \<and> sorted (map pi_created_at ms)
    \<and> sqlite_load_inbound_qos2_messages memory_engine ''c'' db' = Inr bs \<and> mset bs = {#}
    \<and> sorted (map pb_received_at bs)"
proof -
  have "saved_rows text_time (\<lambda>_. []) ''c'' = None"
    by (simp add: saved_rows_def rows_for_def)
  then show ?thesis
    using sqlite_save_load [OF mem_engine.working_engine_axioms, of "(\<lambda>_. [], \<lambda>_. [])" example_session
        "[example_subscription]" "[example_inflight 7]" "[]"]
    by (simp add: wf_empty owned_def unique_rows_def storable_def example_simps)
qed

text \<open>
  Repeated keys make a save fail as a whole.  When two subscriptions have the same filter, or
  two in-flight or two inbound messages the same packet identifier, saving the session returns an
  error and every table is as it was, including the rows of the earlier save.
\<close>

theorem sqlite_duplicate_refused:
  assumes "sql_engine Q tables base time_of valid" "wf_tables Q (tables db)" "owned s subs infl inb"
    and "\<not> (distinct (map psub_topic_filter subs) \<and> distinct (map pi_packet_id infl) \<and> distinct (map pb_packet_id inb))"
  shows "\<exists>e db'. sqlite_save_session Q s subs infl inb db = (Inl e, db') \<and> tables db' = tables db"
  using sql_engine.duplicate_refused [OF assms(1-3)] assms(4) unfolding unique_rows_def by blast

theorem sqlite_duplicate_refused_witness:
  "\<exists>e db'. sqlite_save_session memory_engine example_session [] [example_inflight 7, example_inflight 7] []
        (\<lambda>_. [], \<lambda>_. []) = (Inl e, db') \<and> fst db' = (\<lambda>_. [])"
  using sqlite_duplicate_refused [OF mem_engine.sql_engine_axioms, of "(\<lambda>_. [], \<lambda>_. [])" example_session "[]"
      "[example_inflight 7, example_inflight 7]" "[]"]
  by (simp add: wf_empty owned_def example_simps)

end
