(* ===== verification/Server.thy ===== *)
theory Server
  imports Transport System Sqlite_Storage Memory_Storage
begin

text \<open>
  The server, \<^verbatim>\<open>src/server.rs\<close>, the choice of a storage backend in \<^verbatim>\<open>src/storage/mod.rs\<close> and the command line of
  \<^verbatim>\<open>src/main.rs\<close>: start-up as functions that return an error of their own, the accept loops and the
  orchestration loop as a step relation over the running broker of \<open>System\<close>.
\<close>

section \<open>Storage backend\<close>

text \<open>\<open>Arc<dyn Storage>\<close>: one of the two backends, and the dispatch to it.\<close>

datatype 'db backend = MemoryBackend memory | SqliteBackend 'db

fun on_backend :: "(memory \<Rightarrow> 'a \<times> memory) \<Rightarrow> ('db \<Rightarrow> 'a \<times> 'db) \<Rightarrow> 'db backend \<Rightarrow> 'a \<times> 'db backend" where
  "on_backend f g (MemoryBackend m) = map_prod id MemoryBackend (f m)"
| "on_backend f g (SqliteBackend db) = map_prod id SqliteBackend (g db)"

definition dyn_ops :: "'db sql_ops \<Rightarrow> 'db backend storage_ops" where
  "dyn_ops Q =
    (let M = memory_ops; S = sqlite_ops Q in
     \<lparr>save_session = (\<lambda>s subs infl inb. on_backend (save_session M s subs infl inb) (save_session S s subs infl inb)),
      load_session = (\<lambda>cid. case_backend (load_session M cid) (load_session S cid)),
      load_subscriptions = (\<lambda>cid. case_backend (load_subscriptions M cid) (load_subscriptions S cid)),
      load_inflight_messages = (\<lambda>cid. case_backend (load_inflight_messages M cid) (load_inflight_messages S cid)),
      load_inbound_qos2_messages =
        (\<lambda>cid. case_backend (load_inbound_qos2_messages M cid) (load_inbound_qos2_messages S cid)),
      delete_session = (\<lambda>cid. on_backend (delete_session M cid) (delete_session S cid)),
      session_exists = (\<lambda>cid. case_backend (session_exists M cid) (session_exists S cid)),
      delete_expired_sessions = (\<lambda>t. on_backend (delete_expired_sessions M t) (delete_expired_sessions S t)),
      save_retained_message = (\<lambda>m. on_backend (save_retained_message M m) (save_retained_message S m)),
      load_retained_message = (\<lambda>t. case_backend (load_retained_message M t) (load_retained_message S t)),
      load_all_retained_messages = case_backend (load_all_retained_messages M) (load_all_retained_messages S),
      delete_retained_message = (\<lambda>t. on_backend (delete_retained_message M t) (delete_retained_message S t)),
      count_retained_messages = case_backend (count_retained_messages M) (count_retained_messages S)\<rparr>)"

definition storage_new :: "'db sql_ops \<Rightarrow> (path \<Rightarrow> string + 'db) \<Rightarrow> PersistenceConfig \<Rightarrow> 'db backend storage_result" where
  "storage_new Q open config =
    (case pc_backend config of
       Memory \<Rightarrow> Inr (MemoryBackend memory_new)
     | Sqlite \<Rightarrow> ok_then (sqlite_new Q open (pc_database_path config)) (\<lambda>db. Inr (SqliteBackend db)))"

section \<open>Start-up\<close>

datatype ServerError =
    StartupFailed rstring
  | ServerIo io_error
  | ServerStorage StorageError
  | ServerAuth AuthError

record 'db Server =
  srv_config :: Config
  srv_broker :: Broker
  srv_storage :: "'db backend"
  srv_authenticator :: Authenticator
  srv_authorizer :: Authorizer

fun from_storage :: "'a storage_result \<Rightarrow> ('a, ServerError) outcome" where
  "from_storage (Inl e) = Err (ServerStorage e)"
| "from_storage (Inr a) = Ok a"

definition Server_new :: "'db sql_ops \<Rightarrow> (path \<Rightarrow> string + 'db) \<Rightarrow> file_reader \<Rightarrow> Config
    \<Rightarrow> ('db Server, ServerError) outcome" where
  "Server_new Q open read config =
    outcome_bind (from_storage (storage_new Q open (cfg_persistence config))) (\<lambda>storage.
    outcome_bind (map_err ServerAuth (auth_new read (cfg_auth config))) (\<lambda>authenticator.
    outcome_bind (map_err ServerAuth (auth_new_authorizer read (cfg_acl config))) (\<lambda>authorizer.
      Ok \<lparr>srv_config = config, srv_broker = Broker_new config, srv_storage = storage,
          srv_authenticator = authenticator, srv_authorizer = authorizer\<rparr>)))"

definition bind_acceptor :: "('f, 'cert, 'key, 'a) tls_ops \<Rightarrow> Config \<Rightarrow> ('a option, ServerError) outcome" where
  "bind_acceptor T config =
    (if list_ex (starts_with ''tls://'') (cfg_listen config) then
       outcome_bind (case cfg_tls config of Some tls_config \<Rightarrow> Ok tls_config
           | None \<Rightarrow> Err (StartupFailed ''TLS listener configured but [tls] section missing from config'')) (\<lambda>tls_config.
       outcome_bind (map_err (\<lambda>e. StartupFailed (''Failed to initialize TLS: '' @ e)) (build_tls_acceptor T tls_config))
         (\<lambda>acceptor. Ok (Some acceptor)))
     else Ok None)"

definition bind_listener :: "('l, 's, 'a, 't, 'n) net_ops \<Rightarrow> 'a option \<Rightarrow> rstring \<Rightarrow> Protocol \<Rightarrow> rstring \<Rightarrow> 'n
    \<Rightarrow> (('l, 'a) AsyncListener, ServerError) outcome \<times> 'n" where
  "bind_listener N tls_acceptor listen_addr protocol addr n =
    (case protocol of
       Tcp \<Rightarrow> map_prod (map_err (\<lambda>e. StartupFailed (''Failed to bind TCP to '' @ addr @ '': '' @ e))) id
           (tcp_listener_bind N addr n)
     | TcpTls \<Rightarrow> qmark (or_panic tls_acceptor, n) (\<lambda>acceptor n.
         map_prod (map_err (\<lambda>e. StartupFailed (''Failed to bind TLS to '' @ addr @ '': '' @ e))) id
           (tls_listener_bind N addr acceptor n))
     | _ \<Rightarrow> (Err (StartupFailed (''Unsupported protocol in '' @ [CHR 39] @ listen_addr @ [CHR 39])), n))"

definition bind_address :: "('l, 's, 'a, 't, 'n) net_ops \<Rightarrow> 'a option \<Rightarrow> rstring \<Rightarrow> 'n
    \<Rightarrow> (('l, 'a) AsyncListener \<times> rstring, ServerError) outcome \<times> 'n" where
  "bind_address N tls_acceptor listen_addr n =
    qmark (map_err (\<lambda>e. StartupFailed (''Invalid listen address '' @ [CHR 39] @ listen_addr @ [CHR 39] @ '': '' @ e))
        (protocol_from_url listen_addr), n) (\<lambda>(protocol, addr) n.
    qmark (bind_listener N tls_acceptor listen_addr protocol addr n) (\<lambda>listener n.
    qmark (map_err (\<lambda>e. StartupFailed (''Failed to get local address: '' @ e)) (listener_local_addr N listener), n)
      (\<lambda>bound_addr n. (Ok (listener, bound_addr), n))))"

fun bind_loop :: "('l, 's, 'a, 't, 'n) net_ops \<Rightarrow> 'a option \<Rightarrow> rstring list \<Rightarrow> ('l, 'a) AsyncListener list
    \<Rightarrow> rstring list \<Rightarrow> 'n \<Rightarrow> (('l, 'a) AsyncListener list \<times> rstring list, ServerError) outcome \<times> 'n" where
  "bind_loop N tls_acceptor [] listeners addresses n = (Ok (listeners, addresses), n)"
| "bind_loop N tls_acceptor (listen_addr # listen) listeners addresses n =
    qmark (bind_address N tls_acceptor listen_addr n) (\<lambda>(listener, bound_addr) n.
      bind_loop N tls_acceptor listen (listeners @ [listener]) (addresses @ [bound_addr]) n)"

definition Server_bind :: "('f, 'cert, 'key, 'a) tls_ops \<Rightarrow> ('l, 's, 'a, 't, 'n) net_ops \<Rightarrow> Config \<Rightarrow> 'n
    \<Rightarrow> (('l, 'a) AsyncListener list \<times> rstring list, ServerError) outcome \<times> 'n" where
  "Server_bind T N config n =
    qmark (bind_acceptor T config, n) (\<lambda>tls_acceptor n.
      bind_loop N tls_acceptor (cfg_listen config) [] [] n)"

text \<open>
  \<open>run\<close> binds and then serves with the listeners it got.  \<open>start\<close> spawns \<open>serve\<close> with a token of its own and
  returns the handle.
\<close>

definition Server_run :: "('f, 'cert, 'key, 'a) tls_ops \<Rightarrow> ('l, 's, 'a, 't, 'n) net_ops \<Rightarrow> 'db Server \<Rightarrow> 'n
    \<Rightarrow> (('l, 'a) AsyncListener list, ServerError) outcome \<times> 'n" where
  "Server_run T N server n = qmark (Server_bind T N (srv_config server) n) (\<lambda>(listeners, _) n. (Ok listeners, n))"

record ServerHandle =
  sh_addresses :: "rstring list"

definition handle_address :: "ServerHandle \<Rightarrow> rstring option" where
  "handle_address h = (case sh_addresses h of [] \<Rightarrow> None | a # _ \<Rightarrow> Some a)"

definition handle_addresses :: "ServerHandle \<Rightarrow> rstring list" where
  "handle_addresses h = sh_addresses h"

definition start_server :: "'db sql_ops \<Rightarrow> (path \<Rightarrow> string + 'db) \<Rightarrow> file_reader \<Rightarrow> ('f, 'cert, 'key, 'a) tls_ops
    \<Rightarrow> ('l, 's, 'a, 't, 'n) net_ops \<Rightarrow> Config \<Rightarrow> 'n
    \<Rightarrow> ('db Server \<times> ('l, 'a) AsyncListener list \<times> ServerHandle, ServerError) outcome \<times> 'n" where
  "start_server Q open read T N config n =
    qmark (Server_new Q open read config, n) (\<lambda>server n.
    qmark (Server_bind T N (srv_config server) n) (\<lambda>(listeners, addresses) n.
      (Ok (server, listeners, \<lparr>sh_addresses = addresses\<rparr>), n)))"

section \<open>Serving\<close>

text \<open>
  Where an accept loop is: at its \<open>select\<close>, waiting in \<open>stream_tx.send\<close> with a stream, or past its
  loop.  An accepted stream is known by its number.
\<close>

datatype accept_state = Accepting | Sending stream | Closed

datatype serve_phase = Serving | Draining | Stopped

record ('st, 'q, 'k, 'w, 'r) serve_state =
  ss_phase :: serve_phase
  ss_cancelled :: bool
  ss_listeners :: "accept_state list"
  ss_streams :: "stream list"
  ss_tasks :: "rstring \<Rightarrow> (control \<times> Runtime) option"
  ss_world :: "('st, 'q, 'k, 'w, 'r) world"

text \<open>The token is cancelled by \<open>stop\<close> of the handle, or by the signal \<open>main\<close> waits for.\<close>

definition handle_stop :: "('st, 'q, 'k, 'w, 'r) serve_state \<Rightarrow> (unit, ServerError) outcome \<times> ('st, 'q, 'k, 'w, 'r) serve_state" where
  "handle_stop s = (Ok (), s\<lparr>ss_cancelled := True\<rparr>)"

definition stream_channel_size :: nat where
  "stream_channel_size = 64"

definition serve_start :: "nat \<Rightarrow> ('st, 'q, 'k, 'w, 'r) world \<Rightarrow> ('st, 'q, 'k, 'w, 'r) serve_state" where
  "serve_start n w = \<lparr>ss_phase = Serving, ss_cancelled = False, ss_listeners = replicate n Accepting,
    ss_streams = [], ss_tasks = (\<lambda>_. None), ss_world = w\<rparr>"

text \<open>
  The accept loops run inside the \<open>select\<close> of \<open>serve\<close>, as do the sessions until all loops have
  ended; then \<open>cancel_all_sessions\<close> runs to its end before the sessions are polled again.
\<close>

inductive serve_step :: "('st, 'q, 'k, 'w, 'b, 'r, 'c) env \<Rightarrow> ('st, 'q, 'k, 'w, 'r) serve_state
    \<Rightarrow> ('st, 'q, 'k, 'w, 'r) serve_state \<Rightarrow> bool" for E where
  accepted: "ss_phase s = Serving \<Longrightarrow> i < length (ss_listeners s) \<Longrightarrow> ss_listeners s ! i = Accepting \<Longrightarrow>
    serve_step E s (s\<lparr>ss_listeners := (ss_listeners s)[i := Sending str]\<rparr>)"
| accept_failed: "ss_phase s = Serving \<Longrightarrow> i < length (ss_listeners s) \<Longrightarrow> ss_listeners s ! i = Accepting \<Longrightarrow>
    serve_step E s s"
| sent: "ss_phase s = Serving \<Longrightarrow> i < length (ss_listeners s) \<Longrightarrow> ss_listeners s ! i = Sending str \<Longrightarrow>
    length (ss_streams s) < stream_channel_size \<Longrightarrow>
    serve_step E s (s\<lparr>ss_listeners := (ss_listeners s)[i := Accepting], ss_streams := ss_streams s @ [str]\<rparr>)"
| shutdown: "ss_phase s = Serving \<Longrightarrow> ss_cancelled s \<Longrightarrow> i < length (ss_listeners s) \<Longrightarrow>
    ss_listeners s ! i = Accepting \<Longrightarrow>
    serve_step E s (s\<lparr>ss_listeners := (ss_listeners s)[i := Closed]\<rparr>)"
| cancelled: "serve_step E s (snd (handle_stop s))"
| new_client: "ss_phase s = Serving \<Longrightarrow> ss_streams s = str # streams \<Longrightarrow> ss_tasks s sid = None \<Longrightarrow>
    (\<forall>sid' c rt. ss_tasks s sid' = Some (c, rt) \<longrightarrow> rt_message_tx rt \<noteq> mch \<and> rt_command_rx rt \<noteq> cch) \<Longrightarrow>
    Session_new sid cch mch str = (handle, rt) \<Longrightarrow>
    serve_step E s (s\<lparr>ss_streams := streams, ss_tasks := (ss_tasks s)(sid \<mapsto> (InState Waiting, rt)),
      ss_world := (ss_world s)\<lparr>w_broker := Broker_add_client handle (w_broker (ss_world s)),
        w_mail := q, w_cmd := k\<rparr>\<rparr>)"
| session: "ss_phase s \<noteq> Stopped \<Longrightarrow> ss_tasks s sid = Some (c, rt) \<Longrightarrow>
    session_step E (c, (rt, ss_world s)) (c', (rt', w')) \<Longrightarrow>
    serve_step E s (s\<lparr>ss_tasks := (ss_tasks s)(sid \<mapsto> (c', rt')), ss_world := w'\<rparr>)"
| elsewhere: "serve_step E s (s\<lparr>ss_world := (ss_world s)\<lparr>w_mail := q, w_cmd := k, w_out := out, w_in := inp,
    w_instant := t, w_utc := u\<rparr>\<rparr>)"
| listeners_done: "ss_phase s = Serving \<Longrightarrow> list_all (\<lambda>l. l = Closed) (ss_listeners s) \<Longrightarrow>
    Broker_cancel_all_sessions (e_cmd E) (w_broker (ss_world s), w_cmd (ss_world s)) = (Ok (), (b, k)) \<Longrightarrow>
    serve_step E s (s\<lparr>ss_phase := Draining, ss_world := (ss_world s)\<lparr>w_broker := b, w_cmd := k\<rparr>\<rparr>)"
| sessions_done: "ss_phase s = Draining \<Longrightarrow> (\<forall>sid c rt. ss_tasks s sid = Some (c, rt) \<longrightarrow> c = Done) \<Longrightarrow>
    serve_step E s (s\<lparr>ss_phase := Stopped\<rparr>)"

section \<open>Command line\<close>

datatype command_line =
    ShowVersion
  | ShowHelp
  | UsageError rstring
  | RunServer "rstring option" "rstring option"

definition arg_is :: "rstring \<Rightarrow> rstring \<Rightarrow> rstring \<Rightarrow> bool" where
  "arg_is short long arg \<longleftrightarrow> arg = short \<or> arg = long"

fun parse_args :: "rstring list \<Rightarrow> rstring option \<Rightarrow> rstring option \<Rightarrow> command_line" where
  "parse_args [] listen_address config_file = RunServer listen_address config_file"
| "parse_args (arg # args) listen_address config_file =
    (if arg_is ''-v'' ''--version'' arg then ShowVersion
     else if arg_is ''-h'' ''--help'' arg then ShowHelp
     else if arg_is ''-l'' ''--listen'' arg then
       (case args of
          addr # args \<Rightarrow> parse_args args (Some addr) config_file
        | [] \<Rightarrow> UsageError ''Error: -l/--listen requires an address argument'')
     else if arg_is ''-c'' ''--config'' arg then
       (case args of
          file # args \<Rightarrow> parse_args args listen_address (Some file)
        | [] \<Rightarrow> UsageError ''Error: -c/--config requires a file path argument'')
     else UsageError (''Error: Unknown argument '' @ [CHR 39] @ arg @ [CHR 39]))"

text \<open>\<open>toml\<close> stands for \<open>toml::from_str\<close>.\<close>

definition load_config :: "file_reader \<Rightarrow> (rstring \<Rightarrow> (Config, rstring) outcome) \<Rightarrow> rstring option \<Rightarrow> rstring option
    \<Rightarrow> (Config, rstring) outcome" where
  "load_config read toml listen_address config_file =
    outcome_bind
      (case config_file of
         Some config_path \<Rightarrow>
           outcome_bind (map_err (\<lambda>e. ''Failed to read config file: '' @ config_path) (read config_path)) (\<lambda>contents.
             map_err (\<lambda>e. ''Failed to parse config file: '' @ config_path) (toml contents))
       | None \<Rightarrow> Ok default_config)
      (\<lambda>config. case listen_address of
         Some addr \<Rightarrow> Ok (config\<lparr>cfg_listen := [addr]\<rparr>)
       | None \<Rightarrow> Ok config)"

text \<open>\<open>main\<close> up to the orchestration loop: the arguments after the program's name, the
  configuration, the server and its listeners.  From there \<open>serve\<close> runs beside the wait for the signal.\<close>

datatype main_error = ConfigFailed rstring | ServerFailed ServerError

datatype ('db, 'l, 'a) started =
    Exited command_line
  | Listening "'db Server" "('l, 'a) AsyncListener list"

definition main_start :: "'db sql_ops \<Rightarrow> (path \<Rightarrow> string + 'db) \<Rightarrow> file_reader \<Rightarrow> (rstring \<Rightarrow> (Config, rstring) outcome)
    \<Rightarrow> ('f, 'cert, 'key, 'a) tls_ops \<Rightarrow> ('l, 's, 'a, 't, 'n) net_ops \<Rightarrow> rstring list \<Rightarrow> 'n
    \<Rightarrow> (('db, 'l, 'a) started, main_error) outcome \<times> 'n" where
  "main_start Q open read toml T N args n =
    (case parse_args (tl args) None None of
       RunServer listen_address config_file \<Rightarrow>
         qmark (map_err ConfigFailed (load_config read toml listen_address config_file), n) (\<lambda>config n.
         qmark (map_err ServerFailed (Server_new Q open read config), n) (\<lambda>server n.
         qmark (map_prod (map_err ServerFailed) id (Server_run T N server n)) (\<lambda>listeners n.
           (Ok (Listening server listeners), n))))
     | cli \<Rightarrow> (Ok (Exited cli), n))"

end
