(* ===== verification/Server_Props.thy ===== *)
theory Server_Props
  imports Server Sqlite_Props Session_Props
begin

text \<open>
  The properties of start-up and of the orchestration loop: both storage backends honour the contract behind
  the dispatch, the listeners of a configuration are bound without a panic, the invariants of the broker hold
  in every state of the server and at its end nothing is left running, and the command line.
\<close>

section \<open>Storage backend\<close>

fun backend_inv :: "'db sql_ops \<Rightarrow> ('db \<Rightarrow> tables) \<Rightarrow> 'db backend \<Rightarrow> bool" where
  "backend_inv Q tables (MemoryBackend m) \<longleftrightarrow> memory_inv m"
| "backend_inv Q tables (SqliteBackend db) \<longleftrightarrow> wf_tables Q (tables db)"

fun backend_saved :: "(string \<Rightarrow> datetime) \<Rightarrow> ('db \<Rightarrow> tables) \<Rightarrow> 'db backend \<Rightarrow> rstring \<Rightarrow> saved_session option" where
  "backend_saved time_of tables (MemoryBackend m) = memory_saved m"
| "backend_saved time_of tables (SqliteBackend db) = saved_rows time_of (tables db)"

fun backend_retained :: "(string \<Rightarrow> datetime) \<Rightarrow> ('db \<Rightarrow> tables) \<Rightarrow> 'db backend
    \<Rightarrow> rstring \<Rightarrow> PersistedRetainedMessage option" where
  "backend_retained time_of tables (MemoryBackend m) = memory_retained m"
| "backend_retained time_of tables (SqliteBackend db) = retained_rows time_of (tables db)"

lemma on_backend_eq:
  "on_backend f g st = (x, st') \<longleftrightarrow>
    (\<exists>m m'. st = MemoryBackend m \<and> st' = MemoryBackend m' \<and> f m = (x, m'))
    \<or> (\<exists>db db'. st = SqliteBackend db \<and> st' = SqliteBackend db' \<and> g db = (x, db'))"
  by (cases st) (auto simp: map_prod_def split: prod.splits)

lemma case_backend_eq:
  "case_backend f g st = y \<longleftrightarrow>
    (\<exists>m. st = MemoryBackend m \<and> f m = y) \<or> (\<exists>db. st = SqliteBackend db \<and> g db = y)"
  by (cases st) simp_all

lemma dyn_contract:
  assumes "storage (sqlite_ops Q) (\<lambda>db. wf_tables Q (tables db)) (\<lambda>db. saved_rows time_of (tables db))
      (\<lambda>db. retained_rows time_of (tables db))"
  shows "storage (dyn_ops Q) (backend_inv Q tables) (backend_saved time_of tables) (backend_retained time_of tables)"
proof (unfold_locales, unfold dyn_ops_def Let_def storage_ops.simps on_backend_eq case_backend_eq, goal_cases)
  case (10 st t m)
  then show ?case
    by (cases st) (simp_all add: mem.retained_topic storage.retained_topic [OF assms])
next
  case (11 st)
  then show ?case
    by (cases st) (simp_all add: mem.retained_finite storage.retained_finite [OF assms])
qed (elim disjE exE conjE; simp only: backend_inv.simps backend_saved.simps backend_retained.simps;
    rule mem.laws storage.laws [OF assms]; assumption)+

section \<open>Binding\<close>

text \<open>What a listen address asks for: a socket bound to the part after the prefix, with TLS for \<open>tls://\<close>.\<close>

definition listens :: "('l, 's, 'a, 't, 'n) net_ops \<Rightarrow> 'a option \<Rightarrow> rstring \<Rightarrow> ('l, 'a) AsyncListener \<Rightarrow> rstring \<Rightarrow> bool" where
  "listens N acceptor url listener bound \<longleftrightarrow> listener_local_addr N listener = Ok bound
    \<and> (\<exists>sock n n'. case strip_prefix ''tls://'' url of
         Some addr \<Rightarrow> tcp_bind N addr n = (Ok sock, n')
           \<and> (\<exists>a. acceptor = Some a \<and> listener = TlsAsyncListener sock a)
       | None \<Rightarrow> tcp_bind N (case strip_prefix ''tcp://'' url of Some addr \<Rightarrow> addr | None \<Rightarrow> url) n = (Ok sock, n')
           \<and> listener = TcpAsyncListener sock)"

lemma protocol_cases:
  obtains (tls) addr where "strip_prefix ''tls://'' url = Some addr" "protocol_from_url url = Ok (TcpTls, addr)"
    | (tcp) addr where "strip_prefix ''tls://'' url = None" "protocol_from_url url = Ok (Tcp, addr)"
        "addr = (case strip_prefix ''tcp://'' url of Some addr \<Rightarrow> addr | None \<Rightarrow> url)"
proof (cases "starts_with ''tls://'' url")
  case True
  then have "\<not> starts_with ''tcp://'' url"
    by (simp add: starts_with_def)
  with True show thesis
    by (intro tls [of "drop (length ''tls://'') url"]) (simp_all add: protocol_from_url_def strip_prefix_def)
next
  case False
  then show thesis
    by (intro tcp) (simp_all add: protocol_from_url_def strip_prefix_def split: option.split)
qed

lemma bind_listener_cases:
  assumes "bind_listener N acceptor url protocol addr n = (res, n')" "protocol = Tcp \<or> protocol = TcpTls"
  shows "res = Ok l \<Longrightarrow> \<exists>sock. tcp_bind N addr n = (Ok sock, n') \<and>
      l = (if protocol = Tcp then TcpAsyncListener sock else TlsAsyncListener sock (the acceptor))"
    and "res = Panic \<Longrightarrow> fst (tcp_bind N addr n) = Panic \<or> protocol = TcpTls \<and> acceptor = None"
    and "protocol = TcpTls \<Longrightarrow> res = Ok l \<Longrightarrow> acceptor \<noteq> None"
proof -
  obtain r n1 where b: "tcp_bind N addr n = (r, n1)"
    by (rule prod.exhaust)
  show "res = Ok l \<Longrightarrow> \<exists>sock. tcp_bind N addr n = (Ok sock, n') \<and>
      l = (if protocol = Tcp then TcpAsyncListener sock else TlsAsyncListener sock (the acceptor))"
    "res = Panic \<Longrightarrow> fst (tcp_bind N addr n) = Panic \<or> protocol = TcpTls \<and> acceptor = None"
    "protocol = TcpTls \<Longrightarrow> res = Ok l \<Longrightarrow> acceptor \<noteq> None"
    using assms b by (cases r; cases acceptor;
        auto simp: bind_listener_def tcp_listener_bind_def tls_listener_bind_def)+
qed

lemma qmark_cases:
  assumes "qmark (x, s) f = (res, s')"
  obtains (ok) a where "x = Ok a" "f a s = (res, s')"
    | (err) e where "x = Err e" "res = Err e" "s' = s" | (panic) "x = Panic" "res = Panic" "s' = s"
    | (pending) "x = Pending" "res = Pending" "s' = s"
  using assms by (cases x) auto

lemma bind_address_spec:
  assumes "\<forall>addr n. fst (tcp_bind N addr n) \<noteq> Panic" "\<forall>l. tcp_local_addr N l \<noteq> Panic"
    and "starts_with ''tls://'' url \<longrightarrow> acceptor \<noteq> None"
    and "bind_address N acceptor url n = (res, n')"
  shows "res \<noteq> Panic" "res = Ok (l, bound) \<Longrightarrow> listens N acceptor url l bound"
proof -
  have local: "listener_local_addr N l \<noteq> Panic" for l
    using assms(2) by (cases l) simp_all
  obtain protocol addr where p: "(protocol_from_url url :: (Protocol \<times> rstring, rstring) outcome) = Ok (protocol, addr)"
    "protocol = Tcp \<or> protocol = TcpTls"
    "protocol = TcpTls \<Longrightarrow> strip_prefix ''tls://'' url = Some addr"
    "protocol = Tcp \<Longrightarrow> strip_prefix ''tls://'' url = None
      \<and> addr = (case strip_prefix ''tcp://'' url of Some addr \<Rightarrow> addr | None \<Rightarrow> url)"
    by (rule protocol_cases [of url]) auto
  obtain r1 n1 where b: "bind_listener N acceptor url protocol addr n = (r1, n1)"
    by (rule prod.exhaust)
  note cases = bind_listener_cases [OF b p(2)]
  have eq: "bind_address N acceptor url n = qmark (r1, n1) (\<lambda>listener n.
      qmark (map_err (\<lambda>e. StartupFailed (''Failed to get local address: '' @ e)) (listener_local_addr N listener), n)
        (\<lambda>bound_addr n. (Ok (listener, bound_addr), n)))"
    using p(1) b by (simp add: bind_address_def)
  have "r1 \<noteq> Panic"
    using cases(2) assms(1,3) p(3) by (auto simp: strip_prefix_def split: if_splits)
  moreover have "map_err h (listener_local_addr N l) \<noteq> Panic" for h l
    using local [of l] by (cases "listener_local_addr N l") simp_all
  ultimately show "res \<noteq> Panic"
    using assms(4) unfolding eq by (elim qmark_cases) auto
  assume "res = Ok (l, bound)"
  then have ok: "r1 = Ok l" "listener_local_addr N l = Ok bound"
    using assms(4) unfolding eq
    by (auto elim!: qmark_cases) (cases "listener_local_addr N l"; simp)
  obtain sock where "tcp_bind N addr n = (Ok sock, n1)"
    "l = (if protocol = Tcp then TcpAsyncListener sock else TlsAsyncListener sock (the acceptor))"
    using cases(1) [OF ok(1)] by blast
  then show "listens N acceptor url l bound"
    using ok(2) p(2-4) cases(3) [OF _ ok(1)] unfolding listens_def
    by (intro conjI exI [of _ sock] exI [of _ n] exI [of _ n1]) auto
qed

lemma bind_loop_spec:
  assumes "\<forall>addr n. fst (tcp_bind N addr n) \<noteq> Panic" "\<forall>l. tcp_local_addr N l \<noteq> Panic"
    and "\<forall>url \<in> set urls. starts_with ''tls://'' url \<longrightarrow> acceptor \<noteq> None"
    and "bind_loop N acceptor urls ls bs n = (res, n')"
  shows "res \<noteq> Panic \<and> (\<forall>ls' bs'. res = Ok (ls', bs') \<longrightarrow> (\<exists>ls1 bs1. ls' = ls @ ls1 \<and> bs' = bs @ bs1
    \<and> length ls1 = length urls \<and> length bs1 = length urls
    \<and> (\<forall>i < length urls. listens N acceptor (urls ! i) (ls1 ! i) (bs1 ! i))))"
  using assms(3,4)
proof (induction urls arbitrary: ls bs n)
  case (Cons url urls)
  obtain r n1 where b: "bind_address N acceptor url n = (r, n1)"
    by (rule prod.exhaust)
  have "starts_with ''tls://'' url \<longrightarrow> acceptor \<noteq> None"
    using Cons.prems(1) by simp
  note one = bind_address_spec [OF assms(1,2) this b]
  show ?case
  proof (cases r)
    case (Ok lb)
    obtain l bound where lb: "lb = (l, bound)"
      by (rule prod.exhaust)
    have "bind_loop N acceptor urls (ls @ [l]) (bs @ [bound]) n1 = (res, n')"
      using Cons.prems(2) b Ok lb by simp
    from Cons.IH [OF _ this] Cons.prems(1) have IH: "res \<noteq> Panic"
      "\<And>ls' bs'. res = Ok (ls', bs') \<Longrightarrow> (\<exists>ls1 bs1. ls' = ls @ l # ls1 \<and> bs' = bs @ bound # bs1
        \<and> length ls1 = length urls \<and> length bs1 = length urls
        \<and> (\<forall>i < length urls. listens N acceptor (urls ! i) (ls1 ! i) (bs1 ! i)))"
      by simp_all
    have here: "listens N acceptor url l bound"
      using one(2) Ok lb by blast
    have "\<exists>ls1 bs1. ls' = ls @ ls1 \<and> bs' = bs @ bs1 \<and> length ls1 = Suc (length urls) \<and> length bs1 = Suc (length urls)
        \<and> (\<forall>i < Suc (length urls). listens N acceptor ((url # urls) ! i) (ls1 ! i) (bs1 ! i))"
      if finished: "res = Ok (ls', bs')" for ls' bs'
    proof -
      obtain ls1 bs1 where rest: "ls' = ls @ l # ls1" "bs' = bs @ bound # bs1" "length ls1 = length urls"
        "length bs1 = length urls" "\<forall>i < length urls. listens N acceptor (urls ! i) (ls1 ! i) (bs1 ! i)"
        using IH(2) [OF finished] by blast
      then show ?thesis
        using here by (intro exI [of _ "l # ls1"] exI [of _ "bound # bs1"]) (auto simp: nth_Cons split: nat.split)
    qed
    then show ?thesis
      using IH(1) by simp
  qed (use Cons.prems(2) b one(1) in auto)
qed auto

lemma bind_acceptor_cases:
  shows "bind_acceptor T config = Ok acceptor \<Longrightarrow> list_ex (starts_with ''tls://'') (cfg_listen config) \<Longrightarrow>
      acceptor \<noteq> None \<and> cfg_tls config \<noteq> None"
    and "bind_acceptor T config = Panic \<Longrightarrow> \<exists>c. build_tls_acceptor T c = Panic"
    and "list_ex (starts_with ''tls://'') (cfg_listen config) \<Longrightarrow> cfg_tls config = None \<Longrightarrow>
      \<exists>e. bind_acceptor T config = Err (StartupFailed e)"
proof -
  have none: "bind_acceptor T config = Ok None" if "\<not> list_ex (starts_with ''tls://'') (cfg_listen config)"
    using that by (simp add: bind_acceptor_def)
  have missing: "\<exists>e. bind_acceptor T config = Err (StartupFailed e)"
    if "list_ex (starts_with ''tls://'') (cfg_listen config)" "cfg_tls config = None"
    unfolding bind_acceptor_def by (simp only: that if_True option.case outcome_bind.simps) blast
  have some: "bind_acceptor T config = outcome_bind (map_err (\<lambda>e. StartupFailed (''Failed to initialize TLS: '' @ e))
      (build_tls_acceptor T c)) (\<lambda>acceptor. Ok (Some acceptor))"
    if "list_ex (starts_with ''tls://'') (cfg_listen config)" "cfg_tls config = Some c" for c
    unfolding bind_acceptor_def by (simp only: that if_True option.case outcome_bind.simps)
  show "bind_acceptor T config = Ok acceptor \<Longrightarrow> list_ex (starts_with ''tls://'') (cfg_listen config) \<Longrightarrow>
      acceptor \<noteq> None \<and> cfg_tls config \<noteq> None"
    using missing some by (cases "cfg_tls config") (auto simp: outcome_bind_eq_Ok)
  show "bind_acceptor T config = Panic \<Longrightarrow> \<exists>c. build_tls_acceptor T c = Panic"
  proof (cases "cfg_tls config")
    case (Some c)
    assume "bind_acceptor T config = Panic"
    then have "build_tls_acceptor T c = Panic"
      using none some [OF _ Some] by (cases "list_ex (starts_with ''tls://'') (cfg_listen config)";
          cases "build_tls_acceptor T c") simp_all
    then show ?thesis
      by blast
  qed (use none missing in fastforce)
  show "list_ex (starts_with ''tls://'') (cfg_listen config) \<Longrightarrow> cfg_tls config = None \<Longrightarrow>
      \<exists>e. bind_acceptor T config = Err (StartupFailed e)"
    by (rule missing)
qed

text \<open>
  C38: The listeners of a configuration are bound in order, and binding never panics.  When the
  sockets and the TLS library do not panic, \<open>bind\<close> does not either, although it unwraps the TLS
  acceptor; on success there is one listener and one address for each listen address, bound to
  the part after the prefix and using TLS exactly for \<open>tls://\<close>; and a TLS listener without a
  TLS section is refused before any socket is bound.
\<close>

theorem bind_listens:
  assumes "\<forall>addr n. fst (tcp_bind N addr n) \<noteq> Panic" "\<forall>l. tcp_local_addr N l \<noteq> Panic"
    and "\<forall>c. build_tls_acceptor T c \<noteq> Panic" "Server_bind T N config n = (res, n')"
  shows "res \<noteq> Panic
    \<and> (\<forall>ls bs. res = Ok (ls, bs) \<longrightarrow> length ls = length (cfg_listen config) \<and> length bs = length (cfg_listen config)
        \<and> (\<exists>acceptor. bind_acceptor T config = Ok acceptor
            \<and> (\<forall>i < length (cfg_listen config). listens N acceptor (cfg_listen config ! i) (ls ! i) (bs ! i))))
    \<and> (list_ex (starts_with ''tls://'') (cfg_listen config) \<and> cfg_tls config = None \<longrightarrow>
        (\<exists>e. res = Err (StartupFailed e)) \<and> n' = n)"
proof (cases "bind_acceptor T config")
  case (Ok acceptor)
  have run: "bind_loop N acceptor (cfg_listen config) [] [] n = (res, n')"
    using assms(4) Ok by (simp add: Server_bind_def)
  note tls = bind_acceptor_cases(1) [OF Ok]
  then have "\<forall>url \<in> set (cfg_listen config). starts_with ''tls://'' url \<longrightarrow> acceptor \<noteq> None"
    by (auto simp: list_ex_iff)
  from bind_loop_spec [OF assms(1,2) this run] show ?thesis
    using Ok tls by auto
next
  case Panic
  then show ?thesis
    using assms(3) bind_acceptor_cases(2) by blast
next
  case (Err e)
  then have "res = Err e" "n' = n"
    using assms(4) by (simp_all add: Server_bind_def)
  then show ?thesis
    using bind_acceptor_cases(3) [of config T] Err by auto
next
  case Pending
  then have "res = Pending"
    using assms(4) by (simp add: Server_bind_def)
  then show ?thesis
    using bind_acceptor_cases(3) [of config T] Pending by auto
qed

section \<open>Serving\<close>

lemma handle_stop_state [simp]: "snd (handle_stop s) = s\<lparr>ss_cancelled := True\<rparr>"
  by (simp add: handle_stop_def)

context broker_state
begin

definition serve_inv :: "('st, 'q, 'k, 'w, 'r) serve_state \<Rightarrow> bool" where
  "serve_inv s \<longleftrightarrow> system_inv (ss_tasks s, ss_world s) \<and> length (ss_streams s) \<le> stream_channel_size
    \<and> (ss_phase s \<noteq> Serving \<longrightarrow> list_all (\<lambda>l. l = Closed) (ss_listeners s))
    \<and> (list_ex (\<lambda>l. l = Closed) (ss_listeners s) \<longrightarrow> ss_cancelled s)
    \<and> (ss_phase s = Stopped \<longrightarrow> (\<forall>sid c rt. ss_tasks s sid = Some (c, rt) \<longrightarrow> c = Done))"

lemma cancel_all_router:
  assumes "Broker_cancel_all_sessions K (b, k) = (res, (b', k'))"
  shows "b_router b' = b_router b"
proof -
  obtain r k1 where c: "cancel_sessions K (map snd (b_sessions b)) k = (r, k1)"
    by (rule prod.exhaust)
  then show ?thesis
    using assms by (cases r) (auto simp: Broker_cancel_all_sessions_def Let_def)
qed

lemma system_inv_broker:
  assumes "system_inv (tasks, w)" "b_router b = b_router (w_broker w)"
  shows "system_inv (tasks, w\<lparr>w_broker := b, w_cmd := k\<rparr>)"
  using assms by (simp add: system_inv_def world_inv_def mailboxes_distinct_def subscriptions_live_def)

lemma serve_inv_step:
  assumes "serve_step E s s'" "serve_inv s"
  shows "serve_inv s'"
  using assms
proof (induction rule: serve_step.induct)
  case (accepted s i str)
  then show ?case
    by (auto simp: serve_inv_def list_ex_iff in_set_conv_nth nth_list_update split: if_splits)
next
  case (sent s i str)
  then show ?case
    by (auto simp: serve_inv_def list_ex_iff in_set_conv_nth nth_list_update split: if_splits)
next
  case (shutdown s i)
  then show ?case
    by (auto simp: serve_inv_def list_ex_iff)
next
  case (new_client s str streams sid mch cch handle rt k q)
  have "system_inv ((ss_tasks s)(sid \<mapsto> (InState Waiting, rt)), (ss_world s)\<lparr>w_broker :=
      Broker_add_client handle (w_broker (ss_world s)), w_mail := q, w_cmd := k\<rparr>)"
    using new_client by (intro system_inv_step [OF system_step.accept]) (auto simp: serve_inv_def)
  then show ?case
    using new_client by (simp add: serve_inv_def)
next
  case (session s sid c rt c' rt' w')
  have "system_inv ((ss_tasks s)(sid \<mapsto> (c', rt')), w')"
    using session by (intro system_inv_task) (auto simp: serve_inv_def)
  then show ?case
    using session by (simp add: serve_inv_def)
next
  case (elsewhere s q k out inp t u)
  then show ?case
    using system_inv_step [OF system_step.environment] by (simp add: serve_inv_def)
next
  case (listeners_done s b k)
  then show ?case
    using cancel_all_router [OF listeners_done(3)] by (auto simp: serve_inv_def intro: system_inv_broker)
qed (auto simp: serve_inv_def)

lemma serve_inv_reachable:
  assumes "rtranclp (serve_step E) s s'" "serve_inv s"
  shows "serve_inv s'"
  using assms by (induction rule: rtranclp_induct) (auto intro: serve_inv_step)

lemma serve_inv_start: "system_inv (\<lambda>_. None, w) \<Longrightarrow> serve_inv (serve_start n w)"
  by (auto simp: serve_inv_def serve_start_def list_ex_iff)

lemma serve_inv_stopped:
  assumes "serve_inv s" "ss_phase s = Stopped"
  shows "subscription_of (b_router (w_broker (ss_world s))) sid f = None"
proof (cases "subscription_of (b_router (w_broker (ss_world s))) sid f")
  case (Some mq)
  then obtain m q where "subscription_of (b_router (w_broker (ss_world s))) sid f = Some (m, q)"
    by (cases mq) simp
  moreover have "subscriptions_live (ss_tasks s, ss_world s)"
    using assms(1) by (simp add: serve_inv_def system_inv_def)
  ultimately obtain c rt where "ss_tasks s sid = Some (c, rt)" "c \<noteq> Done"
    unfolding subscriptions_live_def prod.case by blast
  then show ?thesis
    using assms unfolding serve_inv_def by blast
qed

end

section \<open>Start-up and the running server\<close>

text \<open>Opening a database keeps its tables.\<close>

lemma sqlite_new_tables:
  assumes "sql_engine Q tables base time_of valid" "sqlite_new Q open path = Inr db"
  obtains conn where "open path = Inr conn" "tables db = tables conn"
proof -
  obtain conn where conn: "open path = Inr conn"
    "(case initialize_schema Q conn of (res, db) \<Rightarrow> ok_then res (\<lambda>_. Inr db)) = Inr db"
    using assms(2) by (auto simp: sqlite_new_def ok_then_eq sql_err_eq)
  obtain res db' where i: "execute Q CreateTables conn = (res, db')"
    by (rule prod.exhaust)
  then have "res = Inr ()" "db' = db"
    using conn(2) by (auto simp: initialize_schema_def ok_then_eq)
  then have "tables db = tables conn"
    using sql_engine.execute_cases(1) [OF assms(1) i] by simp
  with conn(1) show thesis
    by (rule that)
qed

lemma storage_new_inv:
  assumes "sql_engine Q tables base time_of valid" "storage_new Q open config = Inr st"
    and "\<forall>path db. open path = Inr db \<longrightarrow> wf_tables Q (tables db)
      \<and> (\<forall>cid v. saved_rows time_of (tables db) cid = Some v \<longrightarrow> saved_ok v)"
  shows "backend_inv Q tables st" "\<forall>cid v. backend_saved time_of tables st cid = Some v \<longrightarrow> saved_ok v"
proof -
  have "backend_inv Q tables st \<and> (\<forall>cid v. backend_saved time_of tables st cid = Some v \<longrightarrow> saved_ok v)"
  proof (cases "pc_backend config")
    case Memory
    then have "st = MemoryBackend memory_new"
      using assms(2) by (simp add: storage_new_def)
    then show ?thesis
      by (simp add: memory_inv_new) (simp add: memory_new_def memory_saved_def)
  next
    case Sqlite
    then obtain db where db: "sqlite_new Q open (pc_database_path config) = Inr db" "st = SqliteBackend db"
      using assms(2) by (auto simp: storage_new_def ok_then_eq)
    obtain conn where "open (pc_database_path config) = Inr conn" "tables db = tables conn"
      by (rule sqlite_new_tables [OF assms(1) db(1)])
    then show ?thesis
      using assms(3) db(2) by simp
  qed
  then show "backend_inv Q tables st" "\<forall>cid v. backend_saved time_of tables st cid = Some v \<longrightarrow> saved_ok v"
    by blast+
qed

lemma Server_new_fields:
  assumes "Server_new Q open read config = Ok srv"
  shows "srv_broker srv = Broker_new config" "storage_new Q open (cfg_persistence config) = Inr (srv_storage srv)"
    "srv_config srv = config"
proof -
  have from_ok: "from_storage x = Ok a \<longleftrightarrow> x = Inr a" for x :: "'a backend storage_result" and a
    by (cases x) simp_all
  show "srv_broker srv = Broker_new config" "storage_new Q open (cfg_persistence config) = Inr (srv_storage srv)"
    "srv_config srv = config"
    using assms by (auto simp: Server_new_def outcome_bind_eq_Ok from_ok)
qed

text \<open>
  Whichever backend the configuration chooses, the storage the broker is given honours the
  storage contract: the dispatch of \<open>dyn Storage\<close> keeps the backend that was chosen, and every law
  of the contract holds of it.
\<close>

theorem backend_honours_contract:
  assumes "sql_engine Q tables base time_of valid"
  shows "storage (dyn_ops Q) (backend_inv Q tables) (backend_saved time_of tables) (backend_retained time_of tables)"
  by (rule dyn_contract [OF conjunct1 [OF sql_engine.contract [OF assms]]])

theorem backend_honours_contract_witness:
  "storage (dyn_ops memory_engine) (backend_inv memory_engine fst) (backend_saved text_time fst)
    (backend_retained text_time fst)"
  by (rule backend_honours_contract [OF mem_engine.sql_engine_axioms])

text \<open>
  C16: The server is safe from start to stop.  For a server made by \<open>Server::new\<close> over either backend,
  with a database that only the broker wrote, in every state its orchestration loop reaches, with any
  number of listeners, sessions and clients and any interleaving of their steps: the routing index and
  the storage are well formed, every subscription leads to the mailbox of a live session, at most 64
  accepted streams wait, and accepting ends only after cancellation; and when \<open>serve\<close> returns, every
  listener is closed, every session has ended and no subscription is left.
\<close>

theorem server_safe:
  assumes "sql_engine Q tables base time_of valid"
    and "\<forall>path db. open path = Inr db \<longrightarrow> wf_tables Q (tables db)
      \<and> (\<forall>cid v. saved_rows time_of (tables db) cid = Some v \<longrightarrow> saved_ok v)"
    and "Server_new Q open read config = Ok srv" "e_storage E = dyn_ops Q"
    and "w_broker w0 = srv_broker srv" "w_storage w0 = srv_storage srv"
    and "rtranclp (serve_step E) (serve_start n w0) s"
  shows "router_inv (b_router (w_broker (ss_world s))) \<and> backend_inv Q tables (w_storage (ss_world s))
    \<and> (\<forall>sid f m q. subscription_of (b_router (w_broker (ss_world s))) sid f = Some (m, q) \<longrightarrow>
        (\<exists>c rt. ss_tasks s sid = Some (c, rt) \<and> c \<noteq> Done \<and> rt_message_tx rt = m))
    \<and> length (ss_streams s) \<le> 64 \<and> (list_ex (\<lambda>l. l = Closed) (ss_listeners s) \<longrightarrow> ss_cancelled s)
    \<and> (ss_phase s = Stopped \<longrightarrow> list_all (\<lambda>l. l = Closed) (ss_listeners s)
        \<and> (\<forall>sid c rt. ss_tasks s sid = Some (c, rt) \<longrightarrow> c = Done)
        \<and> (\<forall>sid f. subscription_of (b_router (w_broker (ss_world s))) sid f = None))"
proof -
  have state: "broker_state E (backend_inv Q tables) (backend_saved time_of tables) (backend_retained time_of tables)"
    unfolding broker_state_def assms(4) by (rule dyn_contract [OF conjunct1 [OF sql_engine.contract [OF assms(1)]]])
  note new = Server_new_fields [OF assms(3)]
  have start: "start_world config w0"
    by (simp add: start_world_def assms(5) new(1))
  have st: "backend_inv Q tables (w_storage w0)"
    "\<forall>cid v. backend_saved time_of tables (w_storage w0) cid = Some v \<longrightarrow> saved_ok v"
    using storage_new_inv [OF assms(1) new(2) assms(2)] unfolding assms(6) by blast+
  have inv: "broker_state.serve_inv (backend_inv Q tables) (backend_saved time_of tables) s"
    by (rule broker_state.serve_inv_reachable [OF state assms(7)
          broker_state.serve_inv_start [OF state broker_state.system_inv_start [OF state start st]]])
  show ?thesis
    using inv broker_state.serve_inv_stopped [OF state inv]
    unfolding broker_state.serve_inv_def [OF state] broker_state.system_inv_def [OF state]
      broker_state.world_inv_def [OF state] subscriptions_live_def stream_channel_size_def by simp
qed

section \<open>Command line\<close>

datatype cli_option = ListenOpt rstring | ConfigOpt rstring

fun option_words :: "bool \<times> cli_option \<Rightarrow> rstring list" where
  "option_words (long, ListenOpt a) = [if long then ''--listen'' else ''-l'', a]"
| "option_words (long, ConfigOpt f) = [if long then ''--config'' else ''-c'', f]"

fun take_listen :: "bool \<times> cli_option \<Rightarrow> rstring option \<Rightarrow> rstring option" where
  "take_listen (long, ListenOpt a) l = Some a"
| "take_listen (long, ConfigOpt f) l = l"

fun take_config :: "bool \<times> cli_option \<Rightarrow> rstring option \<Rightarrow> rstring option" where
  "take_config (long, ListenOpt a) c = c"
| "take_config (long, ConfigOpt f) c = Some f"

lemma parse_args_option:
  "parse_args (option_words opt @ args) l c = parse_args args (take_listen opt l) (take_config opt c)"
  by (cases opt rule: option_words.cases) (simp_all add: arg_is_def)

lemma parse_args_options:
  "parse_args (concat (map option_words opts) @ args) l c =
    parse_args args (fold take_listen opts l) (fold take_config opts c)"
  by (induction opts arbitrary: l c) (simp_all add: parse_args_option)

definition known_arg :: "rstring \<Rightarrow> bool" where
  "known_arg arg \<longleftrightarrow> arg_is ''-v'' ''--version'' arg \<or> arg_is ''-h'' ''--help'' arg \<or> arg_is ''-l'' ''--listen'' arg
    \<or> arg_is ''-c'' ''--config'' arg"

text \<open>
  The command line means its options.  Listen and config options in short or long form, in any
  order and number, run the server with the last value given of each; an argument that is no
  option after them is a usage error; and a listen address given there replaces the ones of the configuration.
\<close>

theorem command_line_options:
  "parse_args (concat (map option_words opts)) None None = RunServer (fold take_listen opts None) (fold take_config opts None)
    \<and> (\<not> known_arg arg \<longrightarrow> (\<exists>e. parse_args (concat (map option_words opts) @ arg # args) None None = UsageError e))
    \<and> (load_config read toml (Some a) c = Ok config \<longrightarrow> cfg_listen config = [a])
    \<and> load_config read toml None None = Ok default_config"
proof -
  have "parse_args (concat (map option_words opts)) None None = RunServer (fold take_listen opts None) (fold take_config opts None)"
    using parse_args_options [of opts "[]"] by simp
  moreover have "\<exists>e. parse_args (concat (map option_words opts) @ arg # args) None None = UsageError e" if "\<not> known_arg arg"
    using that unfolding parse_args_options known_arg_def by simp
  moreover have "cfg_listen config = [a]" if "load_config read toml (Some a) c = Ok config"
    using that by (auto simp: load_config_def outcome_bind_eq_Ok)
  ultimately show ?thesis
    by (simp add: load_config_def)
qed

theorem command_line_options_witness:
  "parse_args [''-l'', ''a:1''] None None = RunServer (Some ''a:1'') None
    \<and> (\<exists>e. parse_args [''-l'', ''a:1'', ''x''] None None = UsageError e)
    \<and> cfg_listen (default_config\<lparr>cfg_listen := [''a:1'']\<rparr>) = [''a:1'']"
  using command_line_options [of "[(False, ListenOpt ''a:1'')]" "''x''" "[]" "\<lambda>_. Ok []" "\<lambda>_. Ok default_config" "''a:1''"
      None "default_config\<lparr>cfg_listen := [''a:1'']\<rparr>"]
  by (simp add: known_arg_def arg_is_def load_config_def)

text \<open>
  When \<open>main\<close> serves, the server is the one \<open>Server::new\<close> made for the configuration of the command line, and
  has one listener for each of its addresses.
\<close>

lemma qmark_eq_Ok: "qmark x f = (Ok b, s') \<longleftrightarrow> (\<exists>a s. x = (Ok a, s) \<and> f a s = (Ok b, s'))"
  by (cases "(x, f)" rule: qmark.cases) auto

lemma map_err_eq_Ok: "map_err f x = Ok a \<longleftrightarrow> x = Ok a"
  by (cases x) simp_all

lemma main_start_listening:
  assumes "main_start Q open read toml T N args n = (Ok (Listening srv ls), n')"
  obtains listen path config bs where "parse_args (tl args) None None = RunServer listen path"
    "load_config read toml listen path = Ok config" "Server_new Q open read config = Ok srv"
    "Server_bind T N config n = (Ok (ls, bs), n')"
proof -
  obtain listen path where cli: "parse_args (tl args) None None = RunServer listen path"
    using assms by (cases "parse_args (tl args) None None") (simp_all add: main_start_def)
  then obtain config bs where "load_config read toml listen path = Ok config" "Server_new Q open read config = Ok srv"
    "Server_bind T N (srv_config srv) n = (Ok (ls, bs), n')"
    using assms by (auto simp: main_start_def Server_run_def qmark_eq_Ok map_err_eq_Ok map_prod_def split: prod.splits)
  then show thesis
    using that cli Server_new_fields(3) by metis
qed

section \<open>Examples\<close>

definition plain_net :: "(rstring, unit, unit, unit, unit) net_ops" where
  "plain_net = \<lparr>tcp_bind = (\<lambda>addr n. (Ok addr, n)), tcp_accept = (\<lambda>l n. (Ok (), n)),
    tcp_local_addr = (\<lambda>l. Ok l), tls_accept = (\<lambda>a s n. (Ok (), n))\<rparr>"

definition plain_tls :: "(path, unit, unit, unit) tls_ops" where
  "plain_tls = \<lparr>file_open = (\<lambda>p. Ok p), pem_certs = (\<lambda>f. [Ok ()]), pem_private_key = (\<lambda>f. Ok (Some ())),
    with_single_cert = (\<lambda>certs key. Ok ())\<rparr>"

definition tls_config :: "Config" where
  "tls_config = default_config\<lparr>cfg_listen := [''a:1'', ''tls://b:2''],
    cfg_tls := Some \<lparr>tls_cert_file = ''c'', tls_key_file = ''k''\<rparr>\<rparr>"

lemma plain_tls_builds: "build_tls_acceptor plain_tls c = Ok ()"
  by (simp add: build_tls_acceptor_def plain_tls_def)

lemma plain_bind:
  "Server_bind plain_tls plain_net tls_config () =
    (Ok ([TcpAsyncListener ''a:1'', TlsAsyncListener ''b:2'' ()], [''a:1'', ''b:2'']), ())"
  by (simp add: Server_bind_def bind_acceptor_def tls_config_def plain_tls_builds bind_address_def bind_listener_def
      protocol_from_url_def strip_prefix_def starts_with_def tcp_listener_bind_def tls_listener_bind_def plain_net_def)

theorem bind_listens_witness:
  "\<exists>ls bs. Server_bind plain_tls plain_net tls_config () = (Ok (ls, bs), ())
    \<and> (\<exists>acceptor. listens plain_net acceptor ''tls://b:2'' (ls ! 1) (bs ! 1))"
proof -
  let ?ls = "[TcpAsyncListener ''a:1'', TlsAsyncListener ''b:2'' ()]" and ?bs = "[''a:1'', ''b:2'']"
  have ok: "\<forall>addr n. fst (tcp_bind plain_net addr n) \<noteq> Panic" "\<forall>l. tcp_local_addr plain_net l \<noteq> Panic"
    "\<forall>c. build_tls_acceptor plain_tls c \<noteq> Panic"
    by (simp_all add: plain_net_def plain_tls_builds)
  obtain acceptor where
    "\<forall>i < length (cfg_listen tls_config). listens plain_net acceptor (cfg_listen tls_config ! i) (?ls ! i) (?bs ! i)"
    using bind_listens [OF ok plain_bind] by blast
  then have "listens plain_net acceptor (cfg_listen tls_config ! 1) (?ls ! 1) (?bs ! 1)"
    by (rule allE [of _ 1]) (simp add: tls_config_def)
  moreover have "cfg_listen tls_config ! 1 = ''tls://b:2''"
    by (simp add: tls_config_def)
  ultimately have "listens plain_net acceptor ''tls://b:2'' (?ls ! 1) (?bs ! 1)"
    by (simp only:)
  then show ?thesis
    using plain_bind by blast
qed

interpretation dyn: storage "dyn_ops memory_engine" "backend_inv memory_engine fst" "backend_saved text_time fst"
  "backend_retained text_time fst"
  by (rule dyn_contract [OF mem_engine.sqlite.storage_axioms])

text \<open>A server on the engine in memory with one listener, which is cancelled.\<close>

type_synonym example_db = "tables \<times> tables"

definition example_open :: "path \<Rightarrow> string + example_db" where
  "example_open path = Inr (\<lambda>_. [], \<lambda>_. [])"

definition server_env :: "(example_db backend, channel \<Rightarrow> Packet list option, channel \<Rightarrow> Command list option,
    stream \<Rightarrow> bytes option, bytes, bytes \<times> bool, bytes) env" where
  "server_env = \<lparr>e_storage = dyn_ops memory_engine, e_mail = bounded_chan 100, e_cmd = bounded_chan 10,
     e_writer = net_writer, e_buf = vec_bufmut, e_reader = pipe_reader, e_cursor = slice_buf,
     e_authenticator = allow_all_authenticate, e_authorizer = allow_all_authorizer\<rparr>"

definition server_world :: "(example_db backend, channel \<Rightarrow> Packet list option, channel \<Rightarrow> Command list option,
    stream \<Rightarrow> bytes option, bytes \<times> bool) world" where
  "server_world = \<lparr>w_broker = Broker_new default_config, w_storage = MemoryBackend memory_new, w_mail = Map.empty,
    w_cmd = Map.empty, w_out = Map.empty, w_in = (\<lambda>_. ([], False)), w_instant = 0, w_utc = 0\<rparr>"

definition example_server :: "example_db Server" where
  "example_server = \<lparr>srv_config = default_config, srv_broker = Broker_new default_config,
    srv_storage = MemoryBackend memory_new, srv_authenticator = allow_all_authenticate,
    srv_authorizer = allow_all_authorizer\<rparr>"

lemma example_server_new: "Server_new memory_engine example_open read default_config = Ok example_server"
  by (simp add: Server_new_def storage_new_def default_config_def default_persistence_def default_auth_def
      default_acl_def auth_new_def auth_new_authorizer_def example_server_def)

lemma example_stops:
  "\<exists>s. rtranclp (serve_step server_env) (serve_start 1 server_world) s \<and> ss_phase s = Stopped"
proof -
  let ?s0 = "serve_start 1 server_world"
  let ?s1 = "?s0\<lparr>ss_cancelled := True\<rparr>"
  let ?s2 = "?s1\<lparr>ss_listeners := [Closed]\<rparr>"
  let ?s3 = "?s2\<lparr>ss_phase := Draining, ss_world := server_world\<lparr>w_broker := Broker_new default_config, w_cmd := Map.empty\<rparr>\<rparr>"
  have "serve_step server_env ?s0 ?s1"
    using serve_step.cancelled [of server_env ?s0] by simp
  moreover have "serve_step server_env ?s1 ?s2"
    using serve_step.shutdown [of ?s1 0 server_env] by (simp add: serve_start_def)
  moreover have "serve_step server_env ?s2 ?s3"
    using serve_step.listeners_done [of ?s2 server_env "Broker_new default_config" Map.empty]
    by (simp add: serve_start_def server_world_def Broker_cancel_all_sessions_def Broker_new_def Let_def)
  moreover have "serve_step server_env ?s3 (?s3\<lparr>ss_phase := Stopped\<rparr>)"
    by (rule serve_step.sessions_done) (simp_all add: serve_start_def)
  ultimately have "rtranclp (serve_step server_env) ?s0 (?s3\<lparr>ss_phase := Stopped\<rparr>)"
    by (meson converse_rtranclp_into_rtranclp rtranclp.rtrancl_refl)
  moreover have "ss_phase (?s3\<lparr>ss_phase := Stopped\<rparr>) = Stopped"
    by (simp add: serve_start_def)
  ultimately show ?thesis
    by (intro exI conjI)
qed

theorem server_safe_witness:
  "\<exists>s. rtranclp (serve_step server_env) (serve_start 1 server_world) s \<and> ss_phase s = Stopped
    \<and> list_all (\<lambda>l. l = Closed) (ss_listeners s)
    \<and> (\<forall>sid f. subscription_of (b_router (w_broker (ss_world s))) sid f = None)"
proof -
  obtain s where s: "rtranclp (serve_step server_env) (serve_start 1 server_world) s" "ss_phase s = Stopped"
    using example_stops by blast
  have db: "\<forall>path db. example_open path = Inr db \<longrightarrow> wf_tables memory_engine (fst db)
      \<and> (\<forall>cid v. saved_rows text_time (fst db) cid = Some v \<longrightarrow> saved_ok v)"
    by (auto simp: example_open_def wf_empty saved_rows_def rows_for_def)
  have fields: "e_storage server_env = dyn_ops memory_engine" "w_broker server_world = srv_broker example_server"
    "w_storage server_world = srv_storage example_server"
    by (simp_all add: server_env_def server_world_def example_server_def)
  note safe = server_safe [OF mem_engine.sql_engine_axioms db example_server_new [of "\<lambda>_. Panic"] fields s(1)]
  show ?thesis
    using safe s by auto
qed

end
