(* ===== verification/Locks.thy ===== *)
theory Locks
  imports Iotd_Prelude
begin

text \<open>
  Tokio's \<open>RwLock\<close> and \<open>Mutex\<close>, parameters of the model.  A lock is polled by a task, known by a
  number: one poll of \<open>read\<close>, \<open>write\<close> or \<open>lock\<close> either hands out the guard or leaves the task in
  the queue of the lock; a guard is given back when it is dropped.

  Both are documented to be fair: a task that waits is served before those that came after it,
  so that a waiting writer also holds up the readers behind it.
\<close>

type_synonym task = nat

record 'l rwlock_ops =
  rw_read :: "task \<Rightarrow> 'l \<Rightarrow> (unit, unit) outcome \<times> 'l"
  rw_write :: "task \<Rightarrow> 'l \<Rightarrow> (unit, unit) outcome \<times> 'l"
  rw_drop :: "task \<Rightarrow> 'l \<Rightarrow> 'l"

record 'm mutex_ops =
  mx_lock :: "task \<Rightarrow> 'm \<Rightarrow> (unit, unit) outcome \<times> 'm"
  mx_drop :: "task \<Rightarrow> 'm \<Rightarrow> 'm"

section \<open>Queues of waiting tasks\<close>

text \<open>A waiting task with what it waits for: \<open>True\<close> for writing, \<open>False\<close> for reading.\<close>

type_synonym waiter = "task \<times> bool"

definition before :: "task \<Rightarrow> waiter list \<Rightarrow> waiter list" where
  "before t q = takeWhile (\<lambda>w. fst w \<noteq> t) q"

definition enqueue :: "task \<Rightarrow> bool \<Rightarrow> waiter list \<Rightarrow> waiter list" where
  "enqueue t b q = (if t \<in> fst ` set q then q else q @ [(t, b)])"

definition leave :: "task \<Rightarrow> waiter list \<Rightarrow> waiter list" where
  "leave t q = filter (\<lambda>w. fst w \<noteq> t) q"

lemma before_subset: "set (before t q) \<subseteq> set q"
  by (auto simp: before_def dest: set_takeWhileD)

lemma before_self: "(t, b) \<notin> set (before t q)"
  by (auto simp: before_def dest: set_takeWhileD)

lemma before_head [simp]: "before t [] = []" "before t ((t, b) # q) = []"
  by (simp_all add: before_def)

lemma before_not_queued: "t \<notin> fst ` set q \<Longrightarrow> before t q = q"
  by (induction q) (auto simp: before_def)

lemma before_enqueue: "before t (enqueue t b q) = before t q"
  by (induction q) (auto simp: enqueue_def before_def)

lemma enqueue_other: "u \<noteq> t \<Longrightarrow> (u, c) \<in> set (enqueue t b q) \<longleftrightarrow> (u, c) \<in> set q"
  by (auto simp: enqueue_def)

lemma leave_mem [simp]: "w \<in> set (leave t q) \<longleftrightarrow> w \<in> set q \<and> fst w \<noteq> t"
  by (auto simp: leave_def)

lemma distinct_leave: "distinct (map fst q) \<Longrightarrow> distinct (map fst (leave t q))"
  by (simp add: leave_def distinct_map_filter)

lemma distinct_enqueue: "distinct (map fst q) \<Longrightarrow> distinct (map fst (enqueue t b q))"
  by (auto simp: enqueue_def)

section \<open>The documented behaviour\<close>

text \<open>
  \<open>RwLock\<close> over three views: the tasks that hold a read guard, the one that holds the write guard,
  and the queue.  A lock nobody holds goes to the first in the queue; beyond that the locale does
  not say when a reader is let in, since the number of readers is bounded.
\<close>

locale rwlock =
  fixes R :: "'l rwlock_ops"
    and readers :: "'l \<Rightarrow> task set"
    and writer :: "'l \<Rightarrow> task option"
    and waiters :: "'l \<Rightarrow> waiter list"
  assumes read_result: "fst (rw_read R t l) = Ok () \<or> fst (rw_read R t l) = Pending"
    and read_granted: "fst (rw_read R t l) = Ok () \<Longrightarrow>
      writer l = None \<and> (\<forall>w \<in> set (before t (waiters l)). \<not> snd w)
      \<and> readers (snd (rw_read R t l)) = insert t (readers l)
      \<and> writer (snd (rw_read R t l)) = None
      \<and> waiters (snd (rw_read R t l)) = leave t (waiters l)"
    and read_waits: "fst (rw_read R t l) = Pending \<Longrightarrow>
      \<not> (readers l = {} \<and> writer l = None \<and> before t (waiters l) = [])
      \<and> readers (snd (rw_read R t l)) = readers l \<and> writer (snd (rw_read R t l)) = writer l
      \<and> waiters (snd (rw_read R t l)) = enqueue t False (waiters l)"
    and write_result: "fst (rw_write R t l) = Ok () \<or> fst (rw_write R t l) = Pending"
    and write_granted: "fst (rw_write R t l) = Ok () \<Longrightarrow>
      readers l = {} \<and> writer l = None \<and> before t (waiters l) = []
      \<and> readers (snd (rw_write R t l)) = {} \<and> writer (snd (rw_write R t l)) = Some t
      \<and> waiters (snd (rw_write R t l)) = leave t (waiters l)"
    and write_waits: "fst (rw_write R t l) = Pending \<Longrightarrow>
      \<not> (readers l = {} \<and> writer l = None \<and> before t (waiters l) = [])
      \<and> readers (snd (rw_write R t l)) = readers l \<and> writer (snd (rw_write R t l)) = writer l
      \<and> waiters (snd (rw_write R t l)) = enqueue t True (waiters l)"
    and drop_read: "t \<in> readers l \<Longrightarrow> readers (rw_drop R t l) = readers l - {t}
      \<and> writer (rw_drop R t l) = writer l \<and> waiters (rw_drop R t l) = waiters l"
    and drop_write: "writer l = Some t \<Longrightarrow> readers (rw_drop R t l) = readers l
      \<and> writer (rw_drop R t l) = None \<and> waiters (rw_drop R t l) = waiters l"

locale mutex =
  fixes M :: "'m mutex_ops"
    and holder :: "'m \<Rightarrow> task option"
    and waiting :: "'m \<Rightarrow> waiter list"
  assumes lock_result: "fst (mx_lock M t m) = Ok () \<or> fst (mx_lock M t m) = Pending"
    and lock_granted: "fst (mx_lock M t m) = Ok () \<Longrightarrow>
      holder m = None \<and> before t (waiting m) = []
      \<and> holder (snd (mx_lock M t m)) = Some t \<and> waiting (snd (mx_lock M t m)) = leave t (waiting m)"
    and lock_waits: "fst (mx_lock M t m) = Pending \<Longrightarrow>
      \<not> (holder m = None \<and> before t (waiting m) = [])
      \<and> holder (snd (mx_lock M t m)) = holder m
      \<and> waiting (snd (mx_lock M t m)) = enqueue t True (waiting m)"
    and drop_lock: "holder m = Some t \<Longrightarrow>
      holder (mx_drop M t m) = None \<and> waiting (mx_drop M t m) = waiting m"

section \<open>An instance\<close>

datatype guards = Readers "task set" | Writer task

fun guard_readers :: "guards \<Rightarrow> task set" where
  "guard_readers (Readers ts) = ts"
| "guard_readers (Writer t) = {}"

fun guard_writer :: "guards \<Rightarrow> task option" where
  "guard_writer (Readers ts) = None"
| "guard_writer (Writer t) = Some t"

definition fifo_rw :: "(guards \<times> waiter list) rwlock_ops" where
  "fifo_rw =
    \<lparr>rw_read = (\<lambda>t (g, q). if guard_writer g = None \<and> (\<forall>w \<in> set (before t q). \<not> snd w)
        then (Ok (), (Readers (insert t (guard_readers g)), leave t q))
        else (Pending, (g, enqueue t False q))),
     rw_write = (\<lambda>t (g, q). if g = Readers {} \<and> before t q = []
        then (Ok (), (Writer t, leave t q))
        else (Pending, (g, enqueue t True q))),
     rw_drop = (\<lambda>t (g, q). (Readers (guard_readers g - {t}), q))\<rparr>"

definition fifo_mx :: "(task option \<times> waiter list) mutex_ops" where
  "fifo_mx =
    \<lparr>mx_lock = (\<lambda>t (h, q). if h = None \<and> before t q = [] then (Ok (), (Some t, leave t q))
        else (Pending, (h, enqueue t True q))),
     mx_drop = (\<lambda>t (h, q). (None, q))\<rparr>"

lemma guard_writer_None: "guard_writer g = None \<longleftrightarrow> g = Readers (guard_readers g)"
  by (cases g) auto

lemma guard_reader_writer [simp]: "t \<in> guard_readers g \<Longrightarrow> guard_writer g = None"
  by (cases g) auto

interpretation fifo: rwlock fifo_rw "\<lambda>l. guard_readers (fst l)" "\<lambda>l. guard_writer (fst l)" snd
  by unfold_locales
    (auto simp: fifo_rw_def guard_writer_None split: prod.splits if_splits elim: guard_writer.elims
      dest: guard_reader_writer)

interpretation fifo_mutex: mutex fifo_mx fst snd
  by unfold_locales (auto simp: fifo_mx_def split: prod.splits if_splits)

end
