(* ===== verification/Broker_Locks.thy ===== *)
theory Broker_Locks
  imports Broker Locks "HOL-Library.Sublist"
begin

text \<open>
  The operations of \<^verbatim>\<open>src/broker.rs\<close> and \<^verbatim>\<open>src/router.rs\<close> with their locks and await points.

  In \<open>Broker\<close> and \<open>Router\<close> an operation is one function.  Here it is what a task does between two
  awaits: the router's index is behind a \<open>RwLock\<close>, the session handles are behind a \<open>Mutex\<close>, and
  \<open>route\<close> keeps its read guard while it waits for room in a mailbox.  The parts between the awaits
  are those of \<open>Broker\<close> and \<open>Router\<close>; this theory adds which lock they run under and where they stop.
\<close>

section \<open>Operations and where they wait\<close>

datatype operation =
    Call_route PublishPacket
  | Call_subscribe rstring Mailbox "(rstring \<times> QoS) list"
  | Call_unsubscribe rstring "rstring list"
  | Call_unsubscribe_all rstring
  | Call_get_subscriptions rstring
  | Call_has_collision rstring TakeoverAction
  | Call_add_client Session
  | Call_remove_session rstring "rstring option"
  | Call_cancel_all_sessions

datatype answer =
    Returned
  | Codes "u8 list \<times> PublishPacket list"
  | Filters "(rstring \<times> QoS) list"
  | Entry "TakeoverAction option"

text \<open>
  The await an operation is at.  In \<open>Route_send\<close> the two iterators of \<open>route\<close> are at the given
  sessions of the current filter and the filters after it, and the read guard is held; in
  \<open>Remove_write\<close> the guard of the session handles is held.
\<close>

datatype op_state =
    Route_read PublishPacket
  | Route_send PublishPacket "(rstring, Mailbox \<times> QoS) hash_map"
      "(rstring, (rstring, Mailbox \<times> QoS) hash_map) hash_map"
  | Subscribe_write rstring Mailbox "(rstring \<times> QoS) list"
  | Unsubscribe_write rstring "rstring list"
  | Unsubscribe_all_write rstring
  | Subscriptions_read rstring
  | Add_lock Session
  | Remove_lock rstring "rstring option"
  | Remove_write rstring "rstring option"
  | Cancel_lock
  | Cancel_send "Session list"
  | Finished answer
  | Panicked

record ('l, 'm) lock_env =
  le_rw :: "'l rwlock_ops"
  le_mx :: "'m mutex_ops"

record ('st, 'q, 'k, 'w, 'r, 'l, 'm) shared =
  sh_world :: "('st, 'q, 'k, 'w, 'r) world"
  sh_rw :: 'l
  sh_mx :: 'm

section \<open>Awaiting a lock\<close>

text \<open>Each runs what follows the await once the guard is there, and otherwise stays where it is.\<close>

definition await_read :: "('l, 'm) lock_env \<Rightarrow> task \<Rightarrow> op_state
    \<Rightarrow> (('st, 'q, 'k, 'w, 'r, 'l, 'm) shared \<Rightarrow> op_state \<times> ('st, 'q, 'k, 'w, 'r, 'l, 'm) shared)
    \<Rightarrow> ('st, 'q, 'k, 'w, 'r, 'l, 'm) shared \<Rightarrow> op_state \<times> ('st, 'q, 'k, 'w, 'r, 'l, 'm) shared" where
  "await_read L t here rest s =
    (case rw_read (le_rw L) t (sh_rw s) of
       (Ok _, l) \<Rightarrow> rest (s\<lparr>sh_rw := l\<rparr>)
     | (_, l) \<Rightarrow> (here, s\<lparr>sh_rw := l\<rparr>))"

definition await_write :: "('l, 'm) lock_env \<Rightarrow> task \<Rightarrow> op_state
    \<Rightarrow> (('st, 'q, 'k, 'w, 'r, 'l, 'm) shared \<Rightarrow> op_state \<times> ('st, 'q, 'k, 'w, 'r, 'l, 'm) shared)
    \<Rightarrow> ('st, 'q, 'k, 'w, 'r, 'l, 'm) shared \<Rightarrow> op_state \<times> ('st, 'q, 'k, 'w, 'r, 'l, 'm) shared" where
  "await_write L t here rest s =
    (case rw_write (le_rw L) t (sh_rw s) of
       (Ok _, l) \<Rightarrow> rest (s\<lparr>sh_rw := l\<rparr>)
     | (_, l) \<Rightarrow> (here, s\<lparr>sh_rw := l\<rparr>))"

definition await_lock :: "('l, 'm) lock_env \<Rightarrow> task \<Rightarrow> op_state
    \<Rightarrow> (('st, 'q, 'k, 'w, 'r, 'l, 'm) shared \<Rightarrow> op_state \<times> ('st, 'q, 'k, 'w, 'r, 'l, 'm) shared)
    \<Rightarrow> ('st, 'q, 'k, 'w, 'r, 'l, 'm) shared \<Rightarrow> op_state \<times> ('st, 'q, 'k, 'w, 'r, 'l, 'm) shared" where
  "await_lock L t here rest s =
    (case mx_lock (le_mx L) t (sh_mx s) of
       (Ok _, m) \<Rightarrow> rest (s\<lparr>sh_mx := m\<rparr>)
     | (_, m) \<Rightarrow> (here, s\<lparr>sh_mx := m\<rparr>))"

definition release_rw :: "('l, 'm) lock_env \<Rightarrow> task
    \<Rightarrow> ('st, 'q, 'k, 'w, 'r, 'l, 'm) shared \<Rightarrow> ('st, 'q, 'k, 'w, 'r, 'l, 'm) shared" where
  "release_rw L t s = s\<lparr>sh_rw := rw_drop (le_rw L) t (sh_rw s)\<rparr>"

definition release_mx :: "('l, 'm) lock_env \<Rightarrow> task
    \<Rightarrow> ('st, 'q, 'k, 'w, 'r, 'l, 'm) shared \<Rightarrow> ('st, 'q, 'k, 'w, 'r, 'l, 'm) shared" where
  "release_mx L t s = s\<lparr>sh_mx := mx_drop (le_mx L) t (sh_mx s)\<rparr>"

definition set_world :: "('st, 'q, 'k, 'w, 'r) world
    \<Rightarrow> ('st, 'q, 'k, 'w, 'r, 'l, 'm) shared \<Rightarrow> ('st, 'q, 'k, 'w, 'r, 'l, 'm) shared" where
  "set_world w s = s\<lparr>sh_world := w\<rparr>"

definition set_broker :: "Broker
    \<Rightarrow> ('st, 'q, 'k, 'w, 'r, 'l, 'm) shared \<Rightarrow> ('st, 'q, 'k, 'w, 'r, 'l, 'm) shared" where
  "set_broker b s = s\<lparr>sh_world := (sh_world s)\<lparr>w_broker := b\<rparr>\<rparr>"

section \<open>Sending with a guard held\<close>

text \<open>
  The two nested loops of \<open>route\<close> from a given point on: the outcome, the point where a pending
  send stopped it, and the mailboxes.
\<close>

function deliver :: "(Packet, 'q) chan_ops \<Rightarrow> PublishPacket \<Rightarrow> (rstring, Mailbox \<times> QoS) hash_map
    \<Rightarrow> (rstring, (rstring, Mailbox \<times> QoS) hash_map) hash_map \<Rightarrow> 'q
    \<Rightarrow> (unit, unit) outcome \<times> ((rstring, Mailbox \<times> QoS) hash_map
        \<times> (rstring, (rstring, Mailbox \<times> QoS) hash_map) hash_map) \<times> 'q" where
  "deliver C packet [] [] q = (Ok (), ([], []), q)"
| "deliver C packet [] ((filt, sessions) # filters) q =
    (if topic_matches (pp_topic packet) filt then deliver C packet sessions filters q
     else deliver C packet [] filters q)"
| "deliver C packet ((session_id, (sender, subscription_qos)) # sessions) filters q =
    (case ch_send C sender (Publish (forward_packet packet subscription_qos)) q of
       (Pending, q) \<Rightarrow>
         (Pending, ((session_id, (sender, subscription_qos)) # sessions, filters), q)
     | (Panic, q) \<Rightarrow> (Panic, (sessions, filters), q)
     | (_, q) \<Rightarrow> deliver C packet sessions filters q)"
  by pat_completeness auto
termination
  by (relation "measure (\<lambda>(C, p, ss, fs, q). length ss + sum_list (map (\<lambda>(f, ss). Suc (length ss)) fs))")
    auto

definition resume_route :: "('st, 'q, 'k, 'w, 'b, 'r, 'c) env \<Rightarrow> ('l, 'm) lock_env \<Rightarrow> task
    \<Rightarrow> PublishPacket \<Rightarrow> (rstring, Mailbox \<times> QoS) hash_map
    \<Rightarrow> (rstring, (rstring, Mailbox \<times> QoS) hash_map) hash_map
    \<Rightarrow> ('st, 'q, 'k, 'w, 'r, 'l, 'm) shared \<Rightarrow> op_state \<times> ('st, 'q, 'k, 'w, 'r, 'l, 'm) shared" where
  "resume_route E L t packet sessions filters s =
    (case deliver (e_mail E) packet sessions filters (w_mail (sh_world s)) of
       (Pending, (sessions, filters), q) \<Rightarrow>
         (Route_send packet sessions filters, set_world ((sh_world s)\<lparr>w_mail := q\<rparr>) s)
     | (Panic, _, q) \<Rightarrow> (Panicked, release_rw L t (set_world ((sh_world s)\<lparr>w_mail := q\<rparr>) s))
     | (_, _, q) \<Rightarrow> (Finished Returned, release_rw L t (set_world ((sh_world s)\<lparr>w_mail := q\<rparr>) s)))"

text \<open>The loop of \<open>cancel_all_sessions\<close>, which holds no lock.\<close>

fun cancel_from :: "(Command, 'k) chan_ops \<Rightarrow> Session list \<Rightarrow> 'k
    \<Rightarrow> (unit, unit) outcome \<times> Session list \<times> 'k" where
  "cancel_from K [] k = (Ok (), [], k)"
| "cancel_from K (session # sessions) k =
    (case Session_cancel K session k of
       (Pending, k) \<Rightarrow> (Pending, session # sessions, k)
     | (Panic, k) \<Rightarrow> (Panic, sessions, k)
     | (_, k) \<Rightarrow> cancel_from K sessions k)"

definition resume_cancel :: "('st, 'q, 'k, 'w, 'b, 'r, 'c) env \<Rightarrow> Session list
    \<Rightarrow> ('st, 'q, 'k, 'w, 'r, 'l, 'm) shared \<Rightarrow> op_state \<times> ('st, 'q, 'k, 'w, 'r, 'l, 'm) shared" where
  "resume_cancel E sessions s =
    (case cancel_from (e_cmd E) sessions (w_cmd (sh_world s)) of
       (Pending, sessions, k) \<Rightarrow> (Cancel_send sessions, set_world ((sh_world s)\<lparr>w_cmd := k\<rparr>) s)
     | (Panic, _, k) \<Rightarrow> (Panicked, set_world ((sh_world s)\<lparr>w_cmd := k\<rparr>) s)
     | (_, _, k) \<Rightarrow> (Finished Returned, set_world ((sh_world s)\<lparr>w_cmd := k,
         w_broker := (w_broker (sh_world s))\<lparr>b_named_clients := []\<rparr>\<rparr>) s))"

section \<open>Calling and polling an operation\<close>

text \<open>
  \<open>call_op\<close> is the part before the first await: \<open>route\<close> validates the topic and stores a retained
  message, \<open>has_collision\<close> has no await at all.
\<close>

fun call_op :: "('st, 'q, 'k, 'w, 'b, 'r, 'c) env \<Rightarrow> operation \<Rightarrow> ('st, 'q, 'k, 'w, 'r) world
    \<Rightarrow> op_state \<times> ('st, 'q, 'k, 'w, 'r) world" where
  "call_op E (Call_route packet) w =
    (if \<not> validate_publish_topic (pp_topic packet) then (Finished Returned, w)
     else (Route_read packet,
       if pp_retain packet
       then w\<lparr>w_storage := handle_retained_message (e_storage E)
         (r_retained_message_limit (b_router (w_broker w))) (w_utc w) packet (w_storage w)\<rparr>
       else w))"
| "call_op E (Call_subscribe session_id sender topic_filters) w =
    (Subscribe_write session_id sender topic_filters, w)"
| "call_op E (Call_unsubscribe session_id topic_filters) w =
    (Unsubscribe_write session_id topic_filters, w)"
| "call_op E (Call_unsubscribe_all session_id) w = (Unsubscribe_all_write session_id, w)"
| "call_op E (Call_get_subscriptions session_id) w = (Subscriptions_read session_id, w)"
| "call_op E (Call_has_collision client_id action) w =
    (case Broker_has_collision client_id action (w_broker w) of
       (entry, b) \<Rightarrow> (Finished (Entry entry), w\<lparr>w_broker := b\<rparr>))"
| "call_op E (Call_add_client handle) w = (Add_lock handle, w)"
| "call_op E (Call_remove_session session_id client_id) w = (Remove_lock session_id client_id, w)"
| "call_op E Call_cancel_all_sessions w = (Cancel_lock, w)"

text \<open>\<open>remove_session\<close> after it has the handles: it waits for the router, and only then is the guard dropped.\<close>

definition remove_write :: "('l, 'm) lock_env \<Rightarrow> task \<Rightarrow> rstring \<Rightarrow> rstring option
    \<Rightarrow> ('st, 'q, 'k, 'w, 'r, 'l, 'm) shared \<Rightarrow> op_state \<times> ('st, 'q, 'k, 'w, 'r, 'l, 'm) shared" where
  "remove_write L t session_id client_id =
    await_write L t (Remove_write session_id client_id)
      (\<lambda>s. (Finished Returned, release_mx L t (release_rw L t
        (set_broker (Broker_remove_session session_id client_id (w_broker (sh_world s))) s))))"

fun poll_op :: "('st, 'q, 'k, 'w, 'b, 'r, 'c) env \<Rightarrow> ('l, 'm) lock_env \<Rightarrow> task \<Rightarrow> op_state
    \<Rightarrow> ('st, 'q, 'k, 'w, 'r, 'l, 'm) shared \<Rightarrow> op_state \<times> ('st, 'q, 'k, 'w, 'r, 'l, 'm) shared" where
  "poll_op E L t (Route_read packet) s =
    await_read L t (Route_read packet)
      (\<lambda>s. resume_route E L t packet [] (r_filters (b_router (w_broker (sh_world s)))) s) s"
| "poll_op E L t (Route_send packet sessions filters) s =
    resume_route E L t packet sessions filters s"
| "poll_op E L t (Subscribe_write session_id sender topic_filters) s =
    await_write L t (Subscribe_write session_id sender topic_filters)
      (\<lambda>s. case Broker_subscribe E session_id sender topic_filters (sh_world s) of
         (answer, w) \<Rightarrow> (Finished (Codes answer), release_rw L t (set_world w s))) s"
| "poll_op E L t (Unsubscribe_write session_id topic_filters) s =
    await_write L t (Unsubscribe_write session_id topic_filters)
      (\<lambda>s. (Finished Returned, release_rw L t
        (set_world (Broker_unsubscribe session_id topic_filters (sh_world s)) s))) s"
| "poll_op E L t (Unsubscribe_all_write session_id) s =
    await_write L t (Unsubscribe_all_write session_id)
      (\<lambda>s. (Finished Returned, release_rw L t
        (set_world (Broker_unsubscribe_all session_id (sh_world s)) s))) s"
| "poll_op E L t (Subscriptions_read session_id) s =
    await_read L t (Subscriptions_read session_id)
      (\<lambda>s. (Finished (Filters (Broker_get_subscriptions session_id (sh_world s))),
        release_rw L t s)) s"
| "poll_op E L t (Add_lock handle) s =
    await_lock L t (Add_lock handle)
      (\<lambda>s. (Finished Returned, release_mx L t
        (set_broker (Broker_add_client handle (w_broker (sh_world s))) s))) s"
| "poll_op E L t (Remove_lock session_id client_id) s =
    await_lock L t (Remove_lock session_id client_id) (remove_write L t session_id client_id) s"
| "poll_op E L t (Remove_write session_id client_id) s = remove_write L t session_id client_id s"
| "poll_op E L t Cancel_lock s =
    await_lock L t Cancel_lock
      (\<lambda>s. let sessions = map snd (b_sessions (w_broker (sh_world s))) in
         resume_cancel E sessions (release_mx L t
           (set_broker ((w_broker (sh_world s))\<lparr>b_sessions := []\<rparr>) s))) s"
| "poll_op E L t (Cancel_send sessions) s = resume_cancel E sessions s"
| "poll_op E L t (Finished answer) s = (Finished answer, s)"
| "poll_op E L t Panicked s = (Panicked, s)"

section \<open>Interleaved operations\<close>

record ('st, 'q, 'k, 'w, 'r, 'l, 'm) op_system =
  os_ops :: "task \<Rightarrow> op_state option"
  os_shared :: "('st, 'q, 'k, 'w, 'r, 'l, 'm) shared"

definition poll_task :: "('st, 'q, 'k, 'w, 'b, 'r, 'c) env \<Rightarrow> ('l, 'm) lock_env \<Rightarrow> task
    \<Rightarrow> ('st, 'q, 'k, 'w, 'r, 'l, 'm) op_system \<Rightarrow> ('st, 'q, 'k, 'w, 'r, 'l, 'm) op_system" where
  "poll_task E L t s =
    (case os_ops s t of
       None \<Rightarrow> s
     | Some op \<Rightarrow> (case poll_op E L t op (os_shared s) of
         (op, sh) \<Rightarrow> \<lparr>os_ops = (os_ops s)(t \<mapsto> op), os_shared = sh\<rparr>))"

definition call_task :: "('st, 'q, 'k, 'w, 'b, 'r, 'c) env \<Rightarrow> task \<Rightarrow> operation
    \<Rightarrow> ('st, 'q, 'k, 'w, 'r, 'l, 'm) op_system \<Rightarrow> ('st, 'q, 'k, 'w, 'r, 'l, 'm) op_system" where
  "call_task E t operation s =
    (case call_op E operation (sh_world (os_shared s)) of
       (op, w) \<Rightarrow> \<lparr>os_ops = (os_ops s)(t \<mapsto> op), os_shared = set_world w (os_shared s)\<rparr>)"

text \<open>
  A task has one operation at a time; between operations the rest of the session runs, which may
  change everything but the broker's own state.
\<close>

inductive op_step :: "('st, 'q, 'k, 'w, 'b, 'r, 'c) env \<Rightarrow> ('l, 'm) lock_env
    \<Rightarrow> ('st, 'q, 'k, 'w, 'r, 'l, 'm) op_system \<Rightarrow> ('st, 'q, 'k, 'w, 'r, 'l, 'm) op_system \<Rightarrow> bool"
  for E L where
  called: "os_ops s t = None \<Longrightarrow> op_step E L s (call_task E t operation s)"
| polled: "op_step E L s (poll_task E L t s)"
| returned: "os_ops s t = Some (Finished a) \<Longrightarrow> op_step E L s (s\<lparr>os_ops := (os_ops s)(t := None)\<rparr>)"
| elsewhere: "w_broker w = w_broker (sh_world (os_shared s)) \<Longrightarrow>
    op_step E L s (s\<lparr>os_shared := set_world w (os_shared s)\<rparr>)"

text \<open>A new broker: \<open>RwLock::new\<close> and \<open>Mutex::new\<close> give locks in the states \<open>l\<close> and \<open>m\<close>.\<close>

definition op_start :: "('st, 'q, 'k, 'w, 'r) world \<Rightarrow> 'l \<Rightarrow> 'm
    \<Rightarrow> ('st, 'q, 'k, 'w, 'r, 'l, 'm) op_system" where
  "op_start w l m =
    \<lparr>os_ops = (\<lambda>_. None), os_shared = \<lparr>sh_world = w, sh_rw = l, sh_mx = m\<rparr>\<rparr>"

text \<open>The operations as the single steps they are in \<open>Broker\<close>.\<close>

fun atomic_op :: "('st, 'q, 'k, 'w, 'b, 'r, 'c) env \<Rightarrow> operation \<Rightarrow> ('st, 'q, 'k, 'w, 'r) world
    \<Rightarrow> (answer, unit) outcome \<times> ('st, 'q, 'k, 'w, 'r) world" where
  "atomic_op E (Call_route packet) w = qmark (Broker_route E packet w) (\<lambda>_ w. (Ok Returned, w))"
| "atomic_op E (Call_subscribe session_id sender topic_filters) w =
    (case Broker_subscribe E session_id sender topic_filters w of (a, w) \<Rightarrow> (Ok (Codes a), w))"
| "atomic_op E (Call_unsubscribe session_id topic_filters) w =
    (Ok Returned, Broker_unsubscribe session_id topic_filters w)"
| "atomic_op E (Call_unsubscribe_all session_id) w = (Ok Returned, Broker_unsubscribe_all session_id w)"
| "atomic_op E (Call_get_subscriptions session_id) w =
    (Ok (Filters (Broker_get_subscriptions session_id w)), w)"
| "atomic_op E (Call_has_collision client_id action) w =
    (case Broker_has_collision client_id action (w_broker w) of
       (entry, b) \<Rightarrow> (Ok (Entry entry), w\<lparr>w_broker := b\<rparr>))"
| "atomic_op E (Call_add_client handle) w =
    (Ok Returned, w\<lparr>w_broker := Broker_add_client handle (w_broker w)\<rparr>)"
| "atomic_op E (Call_remove_session session_id client_id) w =
    (Ok Returned, w\<lparr>w_broker := Broker_remove_session session_id client_id (w_broker w)\<rparr>)"
| "atomic_op E Call_cancel_all_sessions w =
    (case Broker_cancel_all_sessions (e_cmd E) (w_broker w, w_cmd w) of
       (res, (b, k)) \<Rightarrow> qmark (res, w\<lparr>w_broker := b, w_cmd := k\<rparr>) (\<lambda>_ w. (Ok Returned, w)))"

end
