(* ===== verification/Lock_Discipline.thy ===== *)
theory Lock_Discipline
  imports Broker_Locks
begin

text \<open>
  Who holds which lock in every reachable state of \<open>op_step\<close>, and what this means for the index a
  suspended \<open>route\<close> works on.
\<close>

section \<open>The loops of \<open>route\<close> and \<open>cancel_all_sessions\<close>\<close>

text \<open>The iterators of \<open>route\<close> stand at \<open>ss\<close> and \<open>fs\<close> inside the index \<open>F\<close>.\<close>

definition inside :: "PublishPacket \<Rightarrow> (rstring, (rstring, Mailbox \<times> QoS) hash_map) hash_map
    \<Rightarrow> (rstring, Mailbox \<times> QoS) hash_map
    \<Rightarrow> (rstring, (rstring, Mailbox \<times> QoS) hash_map) hash_map \<Rightarrow> bool" where
  "inside p F ss fs \<longleftrightarrow>
    (\<exists>pre f visited. F = pre @ (f, visited @ ss) # fs \<and> topic_matches (pp_topic p) f)"

lemma inside_next: "inside p F (x # ss) fs \<Longrightarrow> inside p F ss fs"
  unfolding inside_def by (metis append.assoc append_Cons append_Nil)

lemma inside_suffix: "inside p F ss fs \<Longrightarrow> suffix fs F"
  unfolding inside_def suffix_def by (metis append.assoc append_Cons append_Nil)

lemma inside_filter:
  "suffix ((f, ss) # fs) F \<Longrightarrow> topic_matches (pp_topic p) f \<Longrightarrow> inside p F ss fs"
  unfolding inside_def suffix_def by (metis append_Nil)

definition remaining :: "PublishPacket \<Rightarrow> rstring \<Rightarrow> (rstring, Mailbox \<times> QoS) hash_map
    \<Rightarrow> (rstring, (rstring, Mailbox \<times> QoS) hash_map) hash_map \<Rightarrow> subscription_entry list" where
  "remaining p f ss fs =
    entries f ss @ filter (\<lambda>e. topic_matches (pp_topic p) (fst (snd e))) (subscription_list fs)"

lemma remaining_simps [simp]:
  "remaining p f [] [] = []"
  "remaining p f ((s, v) # ss) fs = (s, f, v) # remaining p f ss fs"
  "remaining p f [] ((g, ss) # fs) =
    (if topic_matches (pp_topic p) g then remaining p g ss fs else remaining p f [] fs)"
  by (simp_all add: remaining_def subscription_list_def filter_entries)

lemma remaining_matching:
  assumes "inside p (r_filters r) ss fs"
  obtains f where "suffix (remaining p f ss fs) (matching (pp_topic p) r)"
proof -
  obtain pre f visited where F: "r_filters r = pre @ (f, visited @ ss) # fs"
    and f: "topic_matches (pp_topic p) f"
    using assms by (auto simp: inside_def)
  have "matching (pp_topic p) r = (filter (\<lambda>e. topic_matches (pp_topic p) (fst (snd e)))
      (subscription_list pre) @ entries f visited) @ remaining p f ss fs"
    using f by (simp add: matching_def F subscription_list_def remaining_def filter_entries)
      (simp add: entries_def)
  then show ?thesis
    using that suffixI by blast
qed

text \<open>Run to its end, the resumable loop is the loop of \<open>Router_route\<close>.\<close>

lemma deliver_send_all:
  "(fst (deliver C p ss fs q), snd (snd (deliver C p ss fs q))) = send_all C p (remaining p f ss fs) q"
proof (induction C p ss fs q arbitrary: f rule: deliver.induct)
  case (3 C p sid m qos ss fs q)
  obtain res q' where "ch_send C m (Publish (forward_packet p qos)) q = (res, q')"
    by fastforce
  then show ?case
    using 3 by (cases res) simp_all
qed simp_all

lemma ignore_err_not_Err [simp]: "ignore_err x \<noteq> Err e"
  by (cases x) simp_all

lemma Session_cancel_not_Err [simp]: "Session_cancel K s k \<noteq> (Err e, k')"
  by (cases "ch_send K (s_command_tx s) Cancel k") (simp add: Session_cancel_def)

lemma cancel_from_sessions:
  "(fst (cancel_from K ss k), snd (snd (cancel_from K ss k))) = cancel_sessions K ss k"
proof (induction K ss k rule: cancel_from.induct)
  case (2 K s ss k)
  obtain res k' where "Session_cancel K s k = (res, k')"
    by fastforce
  then show ?case
    using 2 by (cases res) simp_all
qed simp

context mailboxes
begin

lemma deliver_result:
  assumes "deliver D p ss fs q = (res, (ss', fs'), q')" and "D = C"
    and "if ss = [] then suffix fs F else inside p F ss fs"
  shows "res = Ok () \<or> res = Pending \<and> inside p F ss' fs'
    \<and> (\<exists>s m qos ss''. ss' = (s, (m, qos)) # ss'' \<and> open_rx q' m \<and> cap m \<le> length (queue q' m))"
  using assms
proof (induction D p ss fs q rule: deliver.induct)
  case (2 D p f ss fs q)
  then have "suffix fs F"
    by (simp add: suffix_ConsD)
  moreover have "inside p F ss fs" if "topic_matches (pp_topic p) f"
    using that 2 by (simp add: inside_filter)
  ultimately show ?case
    using 2 by (cases "topic_matches (pp_topic p) f") simp_all
next
  case (3 D p sid m qos ss fs q)
  let ?m = "Publish (forward_packet p qos)"
  have "inside p F ss fs" "suffix fs F"
    using 3 by (auto dest: inside_next inside_suffix)
  then show ?case
    using 3 by (cases rule: send_cases [of q m ?m]; cases "ch_send C m ?m q") auto
qed simp

end

section \<open>Holding and waiting\<close>

definition router :: "('st, 'q, 'k, 'w, 'r, 'l, 'm) shared \<Rightarrow> Router" where
  "router s = b_router (w_broker (sh_world s))"

fun sending :: "op_state \<Rightarrow> bool" where
  "sending (Route_send p ss fs) = True"
| "sending _ = False"

fun owns_sessions :: "op_state \<Rightarrow> bool" where
  "owns_sessions (Remove_write sid cid) = True"
| "owns_sessions _ = False"

text \<open>What an operation asks of the router lock (\<open>Some True\<close>: the write guard), and whether it asks for the handles.\<close>

fun wants_router :: "op_state \<Rightarrow> bool option" where
  "wants_router (Route_read p) = Some False"
| "wants_router (Subscriptions_read sid) = Some False"
| "wants_router (Subscribe_write sid m fs) = Some True"
| "wants_router (Unsubscribe_write sid fs) = Some True"
| "wants_router (Unsubscribe_all_write sid) = Some True"
| "wants_router (Remove_write sid cid) = Some True"
| "wants_router _ = None"

fun wants_sessions :: "op_state \<Rightarrow> bool" where
  "wants_sessions (Add_lock h) = True"
| "wants_sessions (Remove_lock sid cid) = True"
| "wants_sessions Cancel_lock = True"
| "wants_sessions _ = False"

definition disciplined :: "(task \<Rightarrow> op_state option) \<Rightarrow> task set \<Rightarrow> task option \<Rightarrow> waiter list
    \<Rightarrow> task option \<Rightarrow> waiter list \<Rightarrow> bool" where
  "disciplined ops rd wr qu ho wa \<longleftrightarrow>
    wr = None \<and> distinct (map fst qu)
    \<and> (\<forall>t. t \<in> rd \<longleftrightarrow> (\<exists>op. ops t = Some op \<and> sending op))
    \<and> (\<forall>t b. (t, b) \<in> set qu \<longrightarrow> (\<exists>op. ops t = Some op \<and> wants_router op = Some b))
    \<and> (\<forall>t. ho = Some t \<longleftrightarrow> (\<exists>op. ops t = Some op \<and> owns_sessions op))
    \<and> (\<forall>t b. (t, b) \<in> set wa \<longrightarrow> (\<exists>op. ops t = Some op \<and> wants_sessions op))"

lemma disciplined_update:
  assumes "disciplined ops rd wr qu ho wa" "wr' = None" "distinct (map fst qu')"
    and "rd' = (if sending op then insert t rd else rd - {t})"
    and "\<And>u b. (u, b) \<in> set qu' \<Longrightarrow> if u = t then wants_router op = Some b else (u, b) \<in> set qu"
    and "ho' = (if owns_sessions op then Some t else if ho = Some t then None else ho)"
    and "owns_sessions op \<Longrightarrow> ho = None \<or> ho = Some t"
    and "\<And>u b. (u, b) \<in> set wa' \<Longrightarrow> if u = t then wants_sessions op else (u, b) \<in> set wa"
  shows "disciplined (ops(t \<mapsto> op)) rd' wr' qu' ho' wa'"
  unfolding disciplined_def
proof (intro conjI allI impI)
  note inv = assms(1) [unfolded disciplined_def]
  show "wr' = None" "distinct (map fst qu')"
    by (fact assms)+
  fix u
  show "u \<in> rd' \<longleftrightarrow> (\<exists>o'. (ops(t \<mapsto> op)) u = Some o' \<and> sending o')"
    using inv assms(4) by auto
  show "ho' = Some u \<longleftrightarrow> (\<exists>o'. (ops(t \<mapsto> op)) u = Some o' \<and> owns_sessions o')"
  proof -
    have "ho = Some v \<longleftrightarrow> (\<exists>o'. ops v = Some o' \<and> owns_sessions o')" for v
      using inv by blast
    from this [of u] show ?thesis
      using assms(6,7) by (cases "u = t"; cases "owns_sessions op") auto
  qed
  fix b
  show "\<exists>o'. (ops(t \<mapsto> op)) u = Some o' \<and> wants_router o' = Some b" if "(u, b) \<in> set qu'"
    using inv assms(5) [OF that] by (auto split: if_splits)
  show "\<exists>o'. (ops(t \<mapsto> op)) u = Some o' \<and> wants_sessions o'" if "(u, b) \<in> set wa'"
    using inv assms(8) [OF that] by (auto split: if_splits)
qed

text \<open>The broker's operations over locks and channels with their documented behaviour.\<close>

locale lock_system =
  rw: rwlock "le_rw L" readers writer waiters + mx: mutex "le_mx L" holder waiting
  + mail: mailboxes "e_mail E" queue open_rx cap + cmd: mpsc "e_cmd E" cqueue copen ccap
  for E :: "('st, 'q, 'k, 'w, 'b, 'r, 'c) env" and L :: "('l, 'm) lock_env"
    and readers writer waiters holder waiting queue open_rx cap cqueue copen ccap
begin

lemma await_read_cases:
  obtains (granted) l where "await_read L t here rest s = rest (s\<lparr>sh_rw := l\<rparr>)"
      "\<forall>w \<in> set (before t (waiters (sh_rw s))). \<not> snd w"
      "readers l = insert t (readers (sh_rw s))" "writer l = None"
      "waiters l = leave t (waiters (sh_rw s))"
    | (waits) l where "await_read L t here rest s = (here, s\<lparr>sh_rw := l\<rparr>)"
      "\<not> (readers (sh_rw s) = {} \<and> writer (sh_rw s) = None \<and> before t (waiters (sh_rw s)) = [])"
      "readers l = readers (sh_rw s)" "writer l = writer (sh_rw s)"
      "waiters l = enqueue t False (waiters (sh_rw s))"
  using rw.read_result [of t "sh_rw s"] rw.read_granted [of t "sh_rw s"]
    rw.read_waits [of t "sh_rw s"]
  by (cases "rw_read (le_rw L) t (sh_rw s)") (auto simp: await_read_def)

lemma await_write_cases:
  obtains (granted) l where "await_write L t here rest s = rest (s\<lparr>sh_rw := l\<rparr>)"
      "readers (sh_rw s) = {}" "before t (waiters (sh_rw s)) = []"
      "readers l = {}" "writer l = Some t" "waiters l = leave t (waiters (sh_rw s))"
    | (waits) l where "await_write L t here rest s = (here, s\<lparr>sh_rw := l\<rparr>)"
      "\<not> (readers (sh_rw s) = {} \<and> writer (sh_rw s) = None \<and> before t (waiters (sh_rw s)) = [])"
      "readers l = readers (sh_rw s)" "writer l = writer (sh_rw s)"
      "waiters l = enqueue t True (waiters (sh_rw s))"
  using rw.write_result [of t "sh_rw s"] rw.write_granted [of t "sh_rw s"]
    rw.write_waits [of t "sh_rw s"]
  by (cases "rw_write (le_rw L) t (sh_rw s)") (auto simp: await_write_def)

lemma await_lock_cases:
  obtains (granted) m where "await_lock L t here rest s = rest (s\<lparr>sh_mx := m\<rparr>)"
      "holder (sh_mx s) = None" "before t (waiting (sh_mx s)) = []"
      "holder m = Some t" "waiting m = leave t (waiting (sh_mx s))"
    | (waits) m where "await_lock L t here rest s = (here, s\<lparr>sh_mx := m\<rparr>)"
      "\<not> (holder (sh_mx s) = None \<and> before t (waiting (sh_mx s)) = [])"
      "holder m = holder (sh_mx s)" "waiting m = enqueue t True (waiting (sh_mx s))"
  using mx.lock_result [of t "sh_mx s"] mx.lock_granted [of t "sh_mx s"]
    mx.lock_waits [of t "sh_mx s"]
  by (cases "mx_lock (le_mx L) t (sh_mx s)") (auto simp: await_lock_def)

text \<open>A resumed \<open>route\<close> ends, or stops before an open mailbox without room.\<close>

lemma resume_route_cases:
  assumes "if ss = [] then suffix fs F else inside p F ss fs"
  obtains (sent) q where "resume_route E L t p ss fs s =
        (Finished Returned, release_rw L t (set_world ((sh_world s)\<lparr>w_mail := q\<rparr>) s))"
    | (stopped) q sid m qos ss' fs' where "resume_route E L t p ss fs s =
        (Route_send p ((sid, (m, qos)) # ss') fs', set_world ((sh_world s)\<lparr>w_mail := q\<rparr>) s)"
      "inside p F ((sid, (m, qos)) # ss') fs'" "open_rx q m" "cap m \<le> length (queue q m)"
proof -
  obtain res ss' fs' q where run: "deliver (e_mail E) p ss fs (w_mail (sh_world s)) = (res, (ss', fs'), q)"
    by (metis prod.collapse)
  show ?thesis
    using mail.deliver_result [OF run refl assms] run that
    by (auto simp: resume_route_def split: outcome.splits)
qed

lemma cancel_from_result:
  assumes "cancel_from K ss k = (res, ss', k')" and "K = e_cmd E"
  shows "res = Ok () \<or> res = Pending \<and> (\<exists>h ss''. ss' = h # ss''
    \<and> copen k' (s_command_tx h) \<and> ccap (s_command_tx h) \<le> length (cqueue k' (s_command_tx h)))"
  using assms
proof (induction K ss k rule: cancel_from.induct)
  case (2 K h ss k)
  then show ?case
    by (cases rule: cmd.send_cases [of k "s_command_tx h" Cancel];
        cases "ch_send (e_cmd E) (s_command_tx h) Cancel k") (auto simp: Session_cancel_def)
qed simp

lemma resume_cancel_cases:
  obtains (sent) k where "resume_cancel E ss s = (Finished Returned, set_world ((sh_world s)\<lparr>w_cmd := k,
        w_broker := (w_broker (sh_world s))\<lparr>b_named_clients := []\<rparr>\<rparr>) s)"
    | (stopped) k h ss' where
      "resume_cancel E ss s = (Cancel_send (h # ss'), set_world ((sh_world s)\<lparr>w_cmd := k\<rparr>) s)"
      "copen k (s_command_tx h)" "ccap (s_command_tx h) \<le> length (cqueue k (s_command_tx h))"
proof -
  obtain res ss' k where run: "cancel_from (e_cmd E) ss (w_cmd (sh_world s)) = (res, ss', k)"
    by (metis prod.collapse)
  show ?thesis
    using cancel_from_result [OF run refl] run that
    by (auto simp: resume_cancel_def split: outcome.splits)
qed

definition held :: "(task \<Rightarrow> op_state option) \<Rightarrow> ('st, 'q, 'k, 'w, 'r, 'l, 'm) shared \<Rightarrow> bool" where
  "held ops s \<longleftrightarrow> disciplined ops (readers (sh_rw s)) (writer (sh_rw s)) (waiters (sh_rw s))
    (holder (sh_mx s)) (waiting (sh_mx s))"

lemma held_facts:
  assumes "held ops s" "ops t = Some op"
  shows "writer (sh_rw s) = None" and "distinct (map fst (waiters (sh_rw s)))"
    and "t \<in> readers (sh_rw s) \<longleftrightarrow> sending op" and "holder (sh_mx s) = Some t \<longleftrightarrow> owns_sessions op"
    and "(t, b) \<in> set (waiters (sh_rw s)) \<Longrightarrow> wants_router op = Some b"
    and "(t, b) \<in> set (waiting (sh_mx s)) \<Longrightarrow> wants_sessions op"
proof -
  note inv = assms(1) [unfolded held_def disciplined_def]
  show "writer (sh_rw s) = None" "distinct (map fst (waiters (sh_rw s)))"
    using inv by blast+
  show "t \<in> readers (sh_rw s) \<longleftrightarrow> sending op" "holder (sh_mx s) = Some t \<longleftrightarrow> owns_sessions op"
    using inv assms(2) by auto
  show "wants_router op = Some b" if "(t, b) \<in> set (waiters (sh_rw s))"
    using inv assms(2) that by fastforce
  show "wants_sessions op" if "(t, b) \<in> set (waiting (sh_mx s))"
    using inv assms(2) that by fastforce
qed

lemma enqueue_self: "(u, c) \<in> set (enqueue t b q) \<Longrightarrow> u = t \<and> c = b \<or> (u, c) \<in> set q"
  by (auto simp: enqueue_def split: if_splits)

lemma held_router_wait:
  assumes "held ops s" "ops t = Some op" "wants_router op = Some b"
    and "readers l = readers (sh_rw s)" "writer l = writer (sh_rw s)"
    and "waiters l = enqueue t b (waiters (sh_rw s))"
  shows "held (ops(t \<mapsto> op)) (s\<lparr>sh_rw := l\<rparr>)"
  unfolding held_def
  by (rule disciplined_update [OF assms(1) [unfolded held_def]])
    (use assms(3-) held_facts [OF assms(1,2)] in
      \<open>auto simp: distinct_enqueue dest!: enqueue_self\<close>)

lemma held_sessions_wait:
  assumes "held ops s" "ops t = Some op" "wants_sessions op"
    and "holder m = holder (sh_mx s)" "waiting m = enqueue t True (waiting (sh_mx s))"
  shows "held (ops(t \<mapsto> op)) (s\<lparr>sh_mx := m\<rparr>)"
  unfolding held_def
  by (rule disciplined_update [OF assms(1) [unfolded held_def]])
    (use assms(3-) held_facts [OF assms(1,2)] in \<open>auto dest!: enqueue_self\<close>)

text \<open>A task that leaves every queue and holds at most a read guard afterwards.\<close>

lemma held_move:
  assumes "held ops s" "ops t = Some op"
    and "writer (sh_rw s') = None"
    and "readers (sh_rw s') = (if sending op' then insert t (readers (sh_rw s)) else readers (sh_rw s) - {t})"
    and "waiters (sh_rw s') = leave t (waiters (sh_rw s)) \<or> waiters (sh_rw s') = waiters (sh_rw s) \<and> wants_router op = None"
    and "holder (sh_mx s') = (if holder (sh_mx s) = Some t then None else holder (sh_mx s))"
    and "waiting (sh_mx s') = leave t (waiting (sh_mx s)) \<or> waiting (sh_mx s') = waiting (sh_mx s) \<and> \<not> wants_sessions op"
    and "\<not> owns_sessions op'"
  shows "held (ops(t \<mapsto> op')) s'"
  unfolding held_def
proof (rule disciplined_update [OF assms(1) [unfolded held_def]])
  note now = held_facts [OF assms(1,2)]
  show "distinct (map fst (waiters (sh_rw s')))"
    using assms(5) now(2) distinct_leave by auto
  show "if u = t then wants_router op' = Some b else (u, b) \<in> set (waiters (sh_rw s))"
    if "(u, b) \<in> set (waiters (sh_rw s'))" for u b
    using that assms(5) now(5) [of b] by auto
  show "if u = t then wants_sessions op' else (u, b) \<in> set (waiting (sh_mx s))"
    if "(u, b) \<in> set (waiting (sh_mx s'))" for u b
    using that assms(7) now(6) [of b] by auto
qed (use assms(3,4,6,8) in auto)

lemmas shared_simps [simp] = release_rw_def release_mx_def set_world_def set_broker_def

text \<open>The index an operation sees, and where its iterators are.\<close>

definition placed :: "op_state \<Rightarrow> ('st, 'q, 'k, 'w, 'r, 'l, 'm) shared \<Rightarrow> bool" where
  "placed op s \<longleftrightarrow> op \<noteq> Panicked \<and> (\<forall>p ss fs. op = Route_send p ss fs \<longrightarrow> inside p (r_filters (router s)) ss fs)"

lemma held_resume:
  assumes "held ops s" "ops t = Some op" "wants_sessions op = False" "owns_sessions op = False"
    and "readers l = insert t (readers (sh_rw s))" "writer l = None"
    and "waiters l = leave t (waiters (sh_rw s)) \<or> waiters l = waiters (sh_rw s) \<and> wants_router op = None"
    and "if ss = [] then suffix fs (r_filters (router s)) else inside p (r_filters (router s)) ss fs"
    and "resume_route E L t p ss fs (s\<lparr>sh_rw := l\<rparr>) = (op', s')"
  shows "held (ops(t \<mapsto> op')) s' \<and> placed op' s' \<and> router s' = router s"
  using assms(8)
proof (cases rule: resume_route_cases [where t = t and s = "s\<lparr>sh_rw := l\<rparr>"])
  case (sent q)
  then have run: "op' = Finished Returned"
    "s' = release_rw L t (set_world ((sh_world s)\<lparr>w_mail := q\<rparr>) (s\<lparr>sh_rw := l\<rparr>))"
    using assms(9) by auto
  have "held (ops(t \<mapsto> op')) s'"
    by (rule held_move [OF assms(1,2)])
      (use run assms(3-7) rw.drop_read [of t l] held_facts [OF assms(1,2)] in auto)
  then show ?thesis
    using run by (simp add: placed_def router_def)
next
  case (stopped q sid m qos ss' fs')
  then have run: "op' = Route_send p ((sid, m, qos) # ss') fs'"
    "s' = set_world ((sh_world s)\<lparr>w_mail := q\<rparr>) (s\<lparr>sh_rw := l\<rparr>)"
    using assms(9) by auto
  have "held (ops(t \<mapsto> op')) s'"
    by (rule held_move [OF assms(1,2)]) (use run assms(3-7) held_facts [OF assms(1,2)] in auto)
  then show ?thesis
    using run stopped(2) by (simp add: placed_def router_def)
qed

lemma held_read:
  assumes "held ops s" "ops t = Some op" "wants_router op = Some False" "op = Route_read p \<or> op = Subscriptions_read sid"
    and "poll_op E L t op s = (op', s')"
  shows "held (ops(t \<mapsto> op')) s' \<and> placed op' s' \<and> router s' = router s"
  using assms(4)
proof
  assume op: "op = Route_read p"
  let ?k = "\<lambda>s. resume_route E L t p [] (r_filters (b_router (w_broker (sh_world s)))) s"
  show ?thesis
  proof (cases rule: await_read_cases [of t op ?k s])
    case (granted l)
    then show ?thesis
      using assms op by (intro held_resume [OF assms(1,2), where l = l]) (auto simp: router_def)
  next
    case (waits l)
    then show ?thesis
      using assms op held_router_wait [OF assms(1-3)] by (auto simp: placed_def router_def)
  qed
next
  assume op: "op = Subscriptions_read sid"
  let ?k = "\<lambda>s. (Finished (Filters (Broker_get_subscriptions sid (sh_world s))), release_rw L t s)"
  show ?thesis
  proof (cases rule: await_read_cases [of t op ?k s])
    case (granted l)
    then have "held (ops(t \<mapsto> op')) s'"
      using assms op rw.drop_read [of t l] held_facts [OF assms(1,2)]
      by (auto intro!: held_move [OF assms(1,2)])
    then show ?thesis
      using granted assms op by (auto simp: placed_def router_def)
  next
    case (waits l)
    then show ?thesis
      using assms op held_router_wait [OF assms(1-3)] by (auto simp: placed_def router_def)
  qed
qed

text \<open>
  What one poll keeps: the discipline, the place of the polled \<open>route\<close>, and the index unless the
  polled task had it for itself.
\<close>

definition kept_by :: "(task \<Rightarrow> op_state option) \<Rightarrow> task \<Rightarrow> ('st, 'q, 'k, 'w, 'r, 'l, 'm) shared
    \<Rightarrow> op_state \<times> ('st, 'q, 'k, 'w, 'r, 'l, 'm) shared \<Rightarrow> bool" where
  "kept_by ops t s = (\<lambda>(op', s'). held (ops(t \<mapsto> op')) s' \<and> placed op' s'
    \<and> (router s' = router s
      \<or> readers (sh_rw s) = {} \<and> (router_inv (router s) \<longrightarrow> router_inv (router s'))))"

lemma kept_write:
  assumes "held ops s" "ops t = Some op" "wants_router op = Some True" "owns_sessions op = False"
    and "\<And>s. router_inv (router s) \<Longrightarrow> router_inv (b_router (w_broker (w s)))"
  shows "kept_by ops t s (await_write L t op (\<lambda>s. (Finished (a s), release_rw L t (set_world (w s) s))) s)"
proof (cases rule: await_write_cases [of t op "\<lambda>s. (Finished (a s), release_rw L t (set_world (w s) s))" s])
  case (granted l)
  have "\<not> sending op" "\<not> wants_sessions op"
    using assms(3) by (cases op; simp)+
  then have "held (ops(t \<mapsto> Finished (a (s\<lparr>sh_rw := l\<rparr>))))
      (release_rw L t (set_world (w (s\<lparr>sh_rw := l\<rparr>)) (s\<lparr>sh_rw := l\<rparr>)))"
    using granted assms(1-4) rw.drop_write [of l t] held_facts [OF assms(1,2)]
    by (auto intro!: held_move [OF assms(1,2)])
  then show ?thesis
    using granted assms(5) [of "s\<lparr>sh_rw := l\<rparr>"] by (simp add: kept_by_def placed_def router_def)
next
  case (waits l)
  moreover have "placed op s" for s
    using assms(3) by (cases op) (auto simp: placed_def)
  ultimately show ?thesis
    using held_router_wait [OF assms(1-3)] by (simp add: kept_by_def router_def)
qed

lemma router_inv_remove_session:
  "router_inv (b_router b) \<Longrightarrow> router_inv (b_router (Broker_remove_session sid cid b))"
  by (simp add: Broker_remove_session_def Let_def router_inv_unsubscribe_all split: option.split)

lemma kept_remove_write:
  assumes "held ops s" "ops t = Some op" "op = Remove_write sid cid \<or> op = Remove_lock sid cid"
    and "holder m = Some t" "waiting m = leave t (waiting (sh_mx s))
      \<or> waiting m = waiting (sh_mx s) \<and> op = Remove_write sid cid"
    and "holder (sh_mx s) = None \<or> holder (sh_mx s) = Some t"
  shows "kept_by ops t s (remove_write L t sid cid (s\<lparr>sh_mx := m\<rparr>))"
proof (cases rule: await_write_cases [of t "Remove_write sid cid"
      "\<lambda>s. (Finished Returned, release_mx L t (release_rw L t
        (set_broker (Broker_remove_session sid cid (w_broker (sh_world s))) s)))" "s\<lparr>sh_mx := m\<rparr>"])
  case (granted l)
  let ?s = "release_mx L t (release_rw L t (set_broker (Broker_remove_session sid cid
      (w_broker (sh_world s))) (s\<lparr>sh_mx := m, sh_rw := l\<rparr>)))"
  have "held (ops(t \<mapsto> Finished Returned)) ?s"
    by (rule held_move [OF assms(1,2)])
      (use granted assms(3-) rw.drop_write [of l t] mx.drop_lock [of m t] in auto)
  then show ?thesis
    using granted router_inv_remove_session [of "w_broker (sh_world s)" sid cid]
    by (simp add: remove_write_def kept_by_def placed_def router_def)
next
  case (waits l)
  note now = held_facts [OF assms(1,2)]
  have "held (ops(t \<mapsto> Remove_write sid cid)) (s\<lparr>sh_mx := m, sh_rw := l\<rparr>)"
    unfolding held_def
  proof (rule disciplined_update [OF assms(1) [unfolded held_def]])
    show "if u = t then wants_router (Remove_write sid cid) = Some b else (u, b) \<in> set (waiters (sh_rw s))"
      if "(u, b) \<in> set (waiters (sh_rw (s\<lparr>sh_mx := m, sh_rw := l\<rparr>)))" for u b
      using that waits now(5) [of b] assms(3) by (auto dest!: enqueue_self)
    show "if u = t then wants_sessions (Remove_write sid cid) else (u, b) \<in> set (waiting (sh_mx s))"
      if "(u, b) \<in> set (waiting (sh_mx (s\<lparr>sh_mx := m, sh_rw := l\<rparr>)))" for u b
      using that now(6) [of b] assms(5) by auto
  qed (use waits now(1,2,3) assms(3,4,6) in \<open>auto simp: distinct_enqueue\<close>)
  then show ?thesis
    using waits by (simp add: remove_write_def kept_by_def placed_def router_def)
qed

lemma kept_add:
  assumes "held ops s" "ops t = Some (Add_lock h)"
  shows "kept_by ops t s (poll_op E L t (Add_lock h) s)"
proof (cases rule: await_lock_cases [of t "Add_lock h" "\<lambda>s. (Finished Returned, release_mx L t
      (set_broker (Broker_add_client h (w_broker (sh_world s))) s))" s])
  case (granted m)
  have "held (ops(t \<mapsto> Finished Returned)) (release_mx L t
      (set_broker (Broker_add_client h (w_broker (sh_world s))) (s\<lparr>sh_mx := m\<rparr>)))"
    by (rule held_move [OF assms])
      (use granted mx.drop_lock [of m t] held_facts [OF assms] in auto)
  then show ?thesis
    using granted by (simp add: kept_by_def placed_def router_def Broker_add_client_def)
next
  case (waits m)
  then show ?thesis
    using held_sessions_wait [OF assms] by (simp add: kept_by_def placed_def router_def)
qed

lemma kept_resume_cancel:
  assumes "held ops s" "ops t = Some op" "op = Cancel_lock \<or> op = Cancel_send hs"
    and "holder m = holder (sh_mx s)" "holder (sh_mx s) \<noteq> Some t"
    and "waiting m = leave t (waiting (sh_mx s)) \<or> waiting m = waiting (sh_mx s) \<and> op = Cancel_send hs"
    and "b_router (w_broker w) = router s"
  shows "kept_by ops t s (resume_cancel E hs (s\<lparr>sh_world := w, sh_mx := m\<rparr>))"
proof (cases rule: resume_cancel_cases [of hs "s\<lparr>sh_world := w, sh_mx := m\<rparr>"])
  case (sent k)
  have "held (ops(t \<mapsto> Finished Returned)) (s\<lparr>sh_world := w\<lparr>w_cmd := k,
      w_broker := (w_broker w)\<lparr>b_named_clients := []\<rparr>\<rparr>, sh_mx := m\<rparr>)"
    by (rule held_move [OF assms(1,2)]) (use assms(3-) held_facts [OF assms(1,2)] in auto)
  then show ?thesis
    using sent assms(7) by (simp add: held_def kept_by_def placed_def router_def)
next
  case (stopped k h hs')
  have "held (ops(t \<mapsto> Cancel_send (h # hs'))) (s\<lparr>sh_world := w\<lparr>w_cmd := k\<rparr>, sh_mx := m\<rparr>)"
    by (rule held_move [OF assms(1,2)]) (use assms(3-) held_facts [OF assms(1,2)] in auto)
  then show ?thesis
    using stopped assms(7) by (simp add: held_def kept_by_def placed_def router_def)
qed

lemma kept_cancel:
  assumes "held ops s" "ops t = Some Cancel_lock"
  shows "kept_by ops t s (poll_op E L t Cancel_lock s)"
proof (cases rule: await_lock_cases [of t Cancel_lock
      "\<lambda>s. let sessions = map snd (b_sessions (w_broker (sh_world s))) in
         resume_cancel E sessions (release_mx L t
           (set_broker ((w_broker (sh_world s))\<lparr>b_sessions := []\<rparr>) s))" s])
  case (granted m)
  then show ?thesis
    using kept_resume_cancel [OF assms, of "map snd (b_sessions (w_broker (sh_world s)))"
        "mx_drop (le_mx L) t m" "(sh_world s)\<lparr>w_broker := (w_broker (sh_world s))\<lparr>b_sessions := []\<rparr>\<rparr>"]
      mx.drop_lock [of m t] by (simp add: router_def Let_def)
next
  case (waits m)
  then show ?thesis
    using held_sessions_wait [OF assms] by (simp add: kept_by_def placed_def router_def)
qed

lemma kept_remove_lock:
  assumes "held ops s" "ops t = Some (Remove_lock sid cid)"
  shows "kept_by ops t s (poll_op E L t (Remove_lock sid cid) s)"
proof (cases rule: await_lock_cases [of t "Remove_lock sid cid" "remove_write L t sid cid" s])
  case (granted m)
  then show ?thesis
    using kept_remove_write [OF assms] by simp
next
  case (waits m)
  then show ?thesis
    using held_sessions_wait [OF assms] by (simp add: kept_by_def placed_def router_def)
qed

lemma kept_route_send:
  assumes "held ops s" "ops t = Some (Route_send p ss fs)" "placed (Route_send p ss fs) s"
  shows "kept_by ops t s (poll_op E L t (Route_send p ss fs) s)"
proof -
  have "if ss = [] then suffix fs (r_filters (router s)) else inside p (r_filters (router s)) ss fs"
    using assms(3) inside_suffix by (auto simp: placed_def)
  then show ?thesis
    using held_resume [OF assms(1,2), of "sh_rw s" ss fs p] held_facts [OF assms(1,2)]
    by (auto simp: kept_by_def insert_absorb split: prod.split)
qed

lemma kept_subscribe:
  assumes "held ops s" "ops t = Some (Subscribe_write sid m fs)"
  shows "kept_by ops t s (poll_op E L t (Subscribe_write sid m fs) s)"
proof -
  have "poll_op E L t (Subscribe_write sid m fs) s = await_write L t (Subscribe_write sid m fs)
    (\<lambda>s. (Finished (Codes (fst (Broker_subscribe E sid m fs (sh_world s)))),
      release_rw L t (set_world (snd (Broker_subscribe E sid m fs (sh_world s))) s))) s"
    by (simp add: case_prod_beta)
  also have "kept_by ops t s \<dots>"
    by (rule kept_write [OF assms])
      (simp_all add: Broker_subscribe_def router_def Router_subscribe_index router_inv_subscribe case_prod_beta)
  finally show ?thesis .
qed

lemma kept_unsubscribe:
  assumes "held ops s"
  shows "ops t = Some (Unsubscribe_write sid fs) \<Longrightarrow>
      kept_by ops t s (poll_op E L t (Unsubscribe_write sid fs) s)"
    and "ops t = Some (Unsubscribe_all_write sid) \<Longrightarrow>
      kept_by ops t s (poll_op E L t (Unsubscribe_all_write sid) s)"
  unfolding poll_op.simps
  by (rule kept_write [OF assms];
      simp add: router_def Broker_unsubscribe_def Broker_unsubscribe_all_def
        router_inv_unsubscribe router_inv_unsubscribe_all)+

lemma kept_read:
  assumes "held ops s"
  shows "ops t = Some (Route_read p) \<Longrightarrow> kept_by ops t s (poll_op E L t (Route_read p) s)"
    and "ops t = Some (Subscriptions_read sid) \<Longrightarrow> kept_by ops t s (poll_op E L t (Subscriptions_read sid) s)"
  using held_read [OF assms] by (auto simp: kept_by_def simp del: poll_op.simps)

lemma kept_removing:
  assumes "held ops s" "ops t = Some (Remove_write sid cid)"
  shows "kept_by ops t s (poll_op E L t (Remove_write sid cid) s)"
  using kept_remove_write [OF assms, of sid cid "sh_mx s"] held_facts [OF assms] by simp

lemma kept_cancelling:
  assumes "held ops s" "ops t = Some (Cancel_send hs)"
  shows "kept_by ops t s (poll_op E L t (Cancel_send hs) s)"
  using kept_resume_cancel [OF assms, of hs "sh_mx s" "sh_world s"] held_facts [OF assms]
  by (simp add: router_def)

lemma kept_finished:
  "held ops s \<Longrightarrow> ops t = Some (Finished a) \<Longrightarrow> kept_by ops t s (poll_op E L t (Finished a) s)"
  by (simp add: kept_by_def fun_upd_idem placed_def)

lemmas kept_intros = kept_route_send kept_subscribe kept_unsubscribe kept_read kept_removing
  kept_cancelling kept_finished kept_add kept_cancel kept_remove_lock

lemma poll_kept:
  assumes "held ops s" "ops t = Some op" "placed op s"
  shows "kept_by ops t s (poll_op E L t op s)"
  using assms by (cases op) (auto simp: placed_def intro: kept_intros simp del: poll_op.simps)

section \<open>Reachable states\<close>

definition sound :: "('st, 'q, 'k, 'w, 'r, 'l, 'm) op_system \<Rightarrow> bool" where
  "sound s \<longleftrightarrow> held (os_ops s) (os_shared s) \<and> router_inv (router (os_shared s))
    \<and> finite (dom (os_ops s)) \<and> (\<forall>t op. os_ops s t = Some op \<longrightarrow> placed op (os_shared s))"

text \<open>No operation has been called and nobody is at the locks.\<close>

definition idle :: "('st, 'q, 'k, 'w, 'r, 'l, 'm) op_system \<Rightarrow> bool" where
  "idle s \<longleftrightarrow> os_ops s = (\<lambda>_. None) \<and> router_inv (router (os_shared s))
    \<and> readers (sh_rw (os_shared s)) = {} \<and> writer (sh_rw (os_shared s)) = None
    \<and> waiters (sh_rw (os_shared s)) = []
    \<and> holder (sh_mx (os_shared s)) = None \<and> waiting (sh_mx (os_shared s)) = []"

lemma sound_idle: "idle s \<Longrightarrow> sound s"
  by (simp add: idle_def sound_def held_def disciplined_def)

lemma sending_readers:
  "held ops s \<Longrightarrow> readers (sh_rw s) = {} \<longleftrightarrow> (\<forall>t op. ops t = Some op \<longrightarrow> \<not> sending op)"
  unfolding held_def disciplined_def by blast

lemma held_absent:
  assumes "held ops s" "ops t = None"
  shows "t \<notin> readers (sh_rw s)" "holder (sh_mx s) \<noteq> Some t"
    and "(t, b) \<notin> set (waiters (sh_rw s))" "(t, b) \<notin> set (waiting (sh_mx s))"
  using assms unfolding held_def disciplined_def by (metis option.distinct(1))+

lemma held_call:
  assumes "held ops s" "ops t = None" "\<not> sending op" "\<not> owns_sessions op"
  shows "held (ops(t \<mapsto> op)) (set_world w s)"
proof -
  have "writer (sh_rw s) = None" "distinct (map fst (waiters (sh_rw s)))"
    using assms(1) by (simp_all add: held_def disciplined_def)
  then show ?thesis
    using assms(3,4) held_absent [OF assms(1,2)] unfolding held_def
    by (intro disciplined_update [OF assms(1) [unfolded held_def]]) auto
qed

lemma held_return:
  assumes "held ops s" "ops t = Some (Finished a)"
  shows "held (ops(t := None)) s"
proof -
  have "(t, b) \<notin> set (waiters (sh_rw s))" "(t, b) \<notin> set (waiting (sh_mx s))" for b
    using held_facts(5,6) [OF assms, of b] by auto
  then show ?thesis
    using assms(1) held_facts(3,4) [OF assms] unfolding held_def disciplined_def
    by (auto split: if_splits)
qed

lemma call_op_facts:
  assumes "call_op E operation w = (op, w')"
  shows "\<not> sending op" "\<not> owns_sessions op" "placed op s" "b_router (w_broker w') = b_router (w_broker w)"
  using assms
  by (cases operation; auto simp: placed_def Broker_has_collision_def split: if_splits option.splits)+

lemma sound_call:
  assumes "sound s" "os_ops s t = None"
  shows "sound (call_task E t operation s)
    \<and> router (os_shared (call_task E t operation s)) = router (os_shared s)"
proof -
  obtain op w where run: "call_op E operation (sh_world (os_shared s)) = (op, w)"
    by fastforce
  note op = call_op_facts [OF run]
  have same: "router (set_world w (os_shared s)) = router (os_shared s)"
    using op(4) by (simp add: router_def)
  then have "placed o' (set_world w (os_shared s)) \<longleftrightarrow> placed o' (os_shared s)" for o'
    by (simp add: placed_def)
  moreover have "held ((os_ops s)(t \<mapsto> op)) (set_world w (os_shared s))"
    using assms op by (intro held_call) (auto simp: sound_def)
  ultimately show ?thesis
    using assms(1) same op(3) by (auto simp: call_task_def run sound_def split: if_splits)
qed

lemma sound_poll:
  assumes "sound s" "os_ops s t = Some op"
  shows "sound (poll_task E L t s)
    \<and> ((\<exists>u op. os_ops s u = Some op \<and> sending op) \<longrightarrow>
        router (os_shared (poll_task E L t s)) = router (os_shared s))"
proof -
  obtain op' sh where run: "poll_op E L t op (os_shared s) = (op', sh)"
    by fastforce
  have inv: "held (os_ops s) (os_shared s)" "placed op (os_shared s)"
    using assms by (auto simp: sound_def)
  have now: "held ((os_ops s)(t \<mapsto> op')) sh" "placed op' sh" "router sh = router (os_shared s)
      \<or> readers (sh_rw (os_shared s)) = {} \<and> router_inv (router sh)"
    using poll_kept [OF inv(1) assms(2) inv(2)] assms(1) by (auto simp: run kept_by_def sound_def)
  have "placed o' sh" if "((os_ops s)(t \<mapsto> op')) u = Some o'" for u o'
  proof (cases "u = t \<or> \<not> sending o'")
    case True
    then show ?thesis
      using that now(2) assms(1) by (cases "u = t"; cases o') (auto simp: placed_def sound_def)
  next
    case False
    then show ?thesis
      using that now(3) assms(1) sending_readers [OF inv(1)] by (auto simp: placed_def sound_def)
  qed
  moreover have "router_inv (router sh)"
    using now(3) assms(1) by (auto simp: sound_def)
  ultimately show ?thesis
    using now assms sending_readers [OF inv(1)] by (auto simp: poll_task_def run sound_def)
qed

lemma sound_step:
  assumes "op_step E L s s'" "sound s"
  shows "sound s' \<and> ((\<exists>t op. os_ops s t = Some op \<and> sending op) \<longrightarrow> router (os_shared s') = router (os_shared s))"
  using assms(1)
proof cases
  case (called t operation)
  then show ?thesis
    using sound_call [OF assms(2)] by simp
next
  case (polled t)
  then show ?thesis
    using sound_poll [OF assms(2)] assms(2) by (cases "os_ops s t") (auto simp: poll_task_def)
next
  case (returned t a)
  then have "held ((os_ops s)(t := None)) (os_shared s)"
    using assms(2) held_return by (simp add: sound_def)
  then show ?thesis
    using returned assms(2) by (auto simp: sound_def split: if_splits)
next
  case (elsewhere w)
  then have "router (os_shared s') = router (os_shared s)"
    by (simp add: router_def)
  then show ?thesis
    using elsewhere assms(2) by (auto simp: sound_def held_def placed_def)
qed

lemma sound_reachable: "(op_step E L)\<^sup>*\<^sup>* s s' \<Longrightarrow> sound s \<Longrightarrow> sound s'"
  by (induction rule: rtranclp_induct) (use sound_step in blast)+

end

end
