(* ===== verification/Lock_Progress.thy ===== *)
theory Lock_Progress
  imports Lock_Discipline
begin

text \<open>
  The operations of the broker make progress: the locks are taken in one order, the session handles
  before the router, so the only thing an operation can wait for indefinitely is room in a channel.
\<close>

section \<open>What a poll of a suspended \<open>route\<close> sends\<close>

context mailboxes
begin

lemma deliver_sends:
  assumes "deliver D p ss fs q = (res, (ss', fs'), q')" and "D = C"
  shows "\<exists>sent f'. remaining p f ss fs = sent @ (if res = Ok () then [] else remaining p f' ss' fs')
    \<and> open_rx q' = open_rx q
    \<and> (\<forall>c. queue q' c = queue q c @
        (if open_rx q c then map (\<lambda>qos. Publish (forward_packet p qos)) (copies c sent) else []))"
  using assms
proof (induction D p ss fs q arbitrary: f rule: deliver.induct)
  case (2 D p g ss fs q)
  then show ?case
    by (cases "topic_matches (pp_topic p) g") simp_all
next
  case (3 D p sid m qos ss fs q)
  let ?m = "Publish (forward_packet p qos)"
  obtain res1 q1 where send: "ch_send C m ?m q = (res1, q1)"
    by fastforce
  have go: ?case if run: "deliver C p ss fs q1 = (res, (ss', fs'), q')" and q1: "open_rx q1 = open_rx q"
    "queue q1 = (if open_rx q m then (queue q)(m := queue q m @ [?m]) else queue q)"
    and IH: "\<exists>sent f'. remaining p f ss fs = sent @ (if res = Ok () then [] else remaining p f' ss' fs')
      \<and> open_rx q' = open_rx q1 \<and> (\<forall>c. queue q' c = queue q1 c @
        (if open_rx q1 c then map (\<lambda>qos. Publish (forward_packet p qos)) (copies c sent) else []))"
  proof -
    from IH obtain sent f' where "remaining p f ss fs = sent @ (if res = Ok () then [] else remaining p f' ss' fs')"
      "open_rx q' = open_rx q1" "\<forall>c. queue q' c = queue q1 c @
        (if open_rx q1 c then map (\<lambda>qos. Publish (forward_packet p qos)) (copies c sent) else [])"
      by blast
    then show ?thesis
      using q1 by (intro exI [of _ "(sid, f, m, qos) # sent"] exI [of _ f']) auto
  qed
  show ?case
  proof (cases rule: send_cases [of q m ?m])
    case sent
    then show ?thesis
      using 3 send by (intro go) auto
  next
    case blocked
    then show ?thesis
      using 3 send by (intro exI [of _ "[]"] exI [of _ f]) auto
  next
    case closed
    then show ?thesis
      using 3 send by (intro go) auto
  qed
qed auto

end

section \<open>Progress\<close>

text \<open>An operation that waits for room in a channel whose receiver still exists.\<close>

context lock_system
begin

definition no_room :: "op_state \<Rightarrow> ('st, 'q, 'k, 'w, 'r, 'l, 'm) shared \<Rightarrow> bool" where
  "no_room op s \<longleftrightarrow>
    (\<exists>p sid m qos ss fs. op = Route_send p ((sid, (m, qos)) # ss) fs
      \<and> open_rx (w_mail (sh_world s)) m \<and> cap m \<le> length (queue (w_mail (sh_world s)) m))
    \<or> (\<exists>h hs. op = Cancel_send (h # hs) \<and> copen (w_cmd (sh_world s)) (s_command_tx h)
      \<and> ccap (s_command_tx h) \<le> length (cqueue (w_cmd (sh_world s)) (s_command_tx h)))"

definition settled :: "op_state \<times> ('st, 'q, 'k, 'w, 'r, 'l, 'm) shared \<Rightarrow> bool" where
  "settled = (\<lambda>(op, s). (\<exists>a. op = Finished a) \<or> no_room op s)"

lemma settled_route:
  assumes "if ss = [] then suffix fs F else inside p F ss fs"
  shows "settled (resume_route E L t p ss fs s)"
  using assms by (cases rule: resume_route_cases [where t = t and s = s])
    (auto simp: settled_def no_room_def)

lemma settled_start: "settled (resume_route E L t p [] fs s)"
  by (rule settled_route [where F = fs]) simp

lemma settled_cancel: "settled (resume_cancel E hs s)"
  by (cases rule: resume_cancel_cases [of hs s]) (auto simp: settled_def no_room_def)

lemma settled_read:
  assumes "readers (sh_rw s) = {}" "writer (sh_rw s) = None" "before t (waiters (sh_rw s)) = []"
    and "\<And>l. settled (rest (s\<lparr>sh_rw := l\<rparr>))"
  shows "settled (await_read L t here rest s)"
  using assms by (cases rule: await_read_cases [of t here rest s]) auto

lemma settled_write:
  assumes "readers (sh_rw s) = {}" "writer (sh_rw s) = None" "before t (waiters (sh_rw s)) = []"
    and "\<And>l. settled (rest (s\<lparr>sh_rw := l\<rparr>))"
  shows "settled (await_write L t here rest s)"
  using assms by (cases rule: await_write_cases [of t here rest s]) auto

lemma settled_lock:
  assumes "holder (sh_mx s) = None" "before t (waiting (sh_mx s)) = []"
    and "\<And>m. settled (rest (s\<lparr>sh_mx := m\<rparr>))"
  shows "settled (await_lock L t here rest s)"
  using assms by (cases rule: await_lock_cases [of t here rest s]) auto

lemma settled_finished: "settled (Finished a, s)"
  by (simp add: settled_def)

lemma settled_router:
  assumes "readers (sh_rw s) = {}" "writer (sh_rw s) = None" "before t (waiters (sh_rw s)) = []"
    and "wants_router op = Some b"
  shows "settled (poll_op E L t op s)"
  using assms(4)
  by (cases op) (auto simp: remove_write_def settled_finished settled_start
      intro!: settled_read [OF assms(1-3)] settled_write [OF assms(1-3)] split: prod.split)

lemma settled_sessions:
  assumes "readers (sh_rw s) = {}" "writer (sh_rw s) = None" "waiters (sh_rw s) = []"
    and "holder (sh_mx s) = None" "before t (waiting (sh_mx s)) = []" "wants_sessions op"
  shows "settled (poll_op E L t op s)"
  using assms(6)
proof (cases op)
  case (Remove_lock sid cid)
  have "settled (remove_write L t sid cid (s\<lparr>sh_mx := m\<rparr>))" for m
    unfolding remove_write_def by (rule settled_write) (simp_all add: assms settled_finished)
  then show ?thesis
    using Remove_lock assms(4,5) by (simp add: settled_lock)
qed (auto simp: Let_def settled_finished settled_cancel intro!: settled_lock [OF assms(4,5)])

text \<open>Whoever comes first in a queue, or anybody if it is empty.\<close>

lemma first_waiting:
  assumes "P t" "\<And>u b. (u, b) \<in> set q \<Longrightarrow> P u"
  obtains u where "P u" "before u q = []"
proof (cases q)
  case Nil
  then show ?thesis
    using that [of t] assms(1) by simp
next
  case (Cons w q')
  then show ?thesis
    using that [of "fst w"] assms(2) [of "fst w" "snd w"] by (simp add: before_def)
qed

lemma some_router_settles:
  assumes "held ops s" "readers (sh_rw s) = {}" "ops t = Some op" "wants_router op = Some b"
  obtains u op' where "ops u = Some op'" "\<nexists>a. op' = Finished a" "settled (poll_op E L u op' s)"
proof -
  let ?P = "\<lambda>u. \<exists>op b. ops u = Some op \<and> wants_router op = Some b"
  have queued: "?P u" if "(u, b) \<in> set (waiters (sh_rw s))" for u b
    using assms(1) that unfolding held_def disciplined_def by blast
  have "?P t"
    using assms by blast
  then obtain u where "?P u" and first: "before u (waiters (sh_rw s)) = []"
    by (rule first_waiting [of ?P, OF _ queued])
  then obtain op b where "ops u = Some op" "wants_router op = Some b"
    by blast
  moreover from this have "\<nexists>a. op = Finished a"
    by auto
  ultimately show ?thesis
    using that [of u op] first settled_router [OF assms(2) held_facts(1) [OF assms(1,3)]] by auto
qed

lemma some_session_settles:
  assumes "held ops s" "readers (sh_rw s) = {}" "ops t = Some op" "wants_sessions op"
    and calm: "\<And>u op. ops u = Some op \<Longrightarrow> wants_router op = None"
  obtains u op' where "ops u = Some op'" "\<nexists>a. op' = Finished a" "settled (poll_op E L u op' s)"
proof -
  note inv = assms(1) [unfolded held_def disciplined_def]
  let ?P = "\<lambda>u. \<exists>op. ops u = Some op \<and> wants_sessions op"
  have queued: "?P u" if "(u, b) \<in> set (waiting (sh_mx s))" for u b
    using inv that by blast
  have "?P t"
    using assms by blast
  then obtain u where "?P u" and first: "before u (waiting (sh_mx s)) = []"
    by (rule first_waiting [of ?P, OF _ queued])
  then obtain op where u: "ops u = Some op" "wants_sessions op"
    by blast
  have "\<not> owns_sessions op" if "ops v = Some op" for v op
    using calm [OF that] by (cases op) auto
  then have "holder (sh_mx s) = None"
    using inv by (metis option.exhaust)
  moreover have "waiters (sh_rw s) = []"
  proof (rule ccontr)
    assume "waiters (sh_rw s) \<noteq> []"
    then obtain v b where "(v, b) \<in> set (waiters (sh_rw s))"
      by (cases "waiters (sh_rw s)") auto
    then obtain o' where "ops v = Some o'" "wants_router o' = Some b"
      using inv by blast
    then show False
      using calm [of v o'] by simp
  qed
  moreover have "\<nexists>a. op = Finished a"
    using u by auto
  ultimately show ?thesis
    using that [of u op] u first settled_sessions [OF assms(2) held_facts(1) [OF assms(1,3)]] by auto
qed

lemma some_route_settles:
  assumes "held ops s" "readers (sh_rw s) \<noteq> {}" "\<And>u op. ops u = Some op \<Longrightarrow> placed op s"
  obtains u op' where "ops u = Some op'" "\<nexists>a. op' = Finished a" "settled (poll_op E L u op' s)"
proof -
  obtain u op' where u: "ops u = Some op'" "sending op'"
    using assms(2) sending_readers [OF assms(1)] by blast
  then obtain p ss fs where op': "op' = Route_send p ss fs"
    by (cases op') auto
  have "if ss = [] then suffix fs (r_filters (router s)) else inside p (r_filters (router s)) ss fs"
    using assms(3) [OF u(1)] op' inside_suffix by (auto simp: placed_def)
  then show ?thesis
    using that [OF u(1)] op' settled_route by simp
qed

lemma some_task_settles:
  assumes "sound s" "os_ops s t = Some op" "\<nexists>a. op = Finished a"
  obtains u op' where "os_ops s u = Some op'" "\<nexists>a. op' = Finished a"
    "settled (poll_op E L u op' (os_shared s))"
proof -
  have inv: "held (os_ops s) (os_shared s)"
    and placed: "\<And>u op. os_ops s u = Some op \<Longrightarrow> placed op (os_shared s)"
    using assms(1) by (auto simp: sound_def)
  show ?thesis
  proof (cases "readers (sh_rw (os_shared s)) = {}")
    case False
    then show ?thesis
      by (rule some_route_settles [OF inv]) (use placed that in blast)+
  next
    case True
    then have "\<not> sending op"
      using sending_readers [OF inv] assms(2) by blast
    show ?thesis
    proof (cases "\<exists>u op' b. os_ops s u = Some op' \<and> wants_router op' = Some b")
      case yes: True
      then show ?thesis
        using some_router_settles [OF inv True] that by blast
    next
      case no: False
      then have calm: "wants_router op' = None" if "os_ops s u = Some op'" for u op'
        using that by (metis option.exhaust)
      show ?thesis
      proof (cases "wants_sessions op")
        case yes: True
        show ?thesis
          by (rule some_session_settles [OF inv True assms(2) yes]) (use calm that in blast)+
      next
        case False
        then obtain hs where "op = Cancel_send hs"
          using \<open>\<not> sending op\<close> calm [OF assms(2)] placed [OF assms(2)] assms(3)
          by (cases op) (auto simp: placed_def)
        then show ?thesis
          using that [OF assms(2,3)] settled_cancel by simp
      qed
    qed
  qed
qed

definition unfinished :: "('st, 'q, 'k, 'w, 'r, 'l, 'm) op_system \<Rightarrow> task set" where
  "unfinished s = {t. \<exists>op. os_ops s t = Some op \<and> (\<nexists>a. op = Finished a)}"

definition polls :: "('st, 'q, 'k, 'w, 'r, 'l, 'm) op_system \<Rightarrow> ('st, 'q, 'k, 'w, 'r, 'l, 'm) op_system \<Rightarrow> bool" where
  "polls s s' \<longleftrightarrow> (\<exists>t. s' = poll_task E L t s)"

lemma operations_settle:
  assumes "sound s"
  shows "\<exists>s'. polls\<^sup>*\<^sup>* s s' \<and> (unfinished s' = {}
    \<or> (\<exists>t op. os_ops s' t = Some op \<and> no_room op (os_shared s')))"
  using assms
proof (induction "card (unfinished s)" arbitrary: s rule: less_induct)
  case less
  have fin: "finite (unfinished s)"
    using less.prems by (auto simp: sound_def unfinished_def intro: finite_subset [of _ "dom (os_ops s)"])
  show ?case
  proof (cases "unfinished s = {}")
    case False
    then obtain t op where "os_ops s t = Some op" "\<nexists>a. op = Finished a"
      by (auto simp: unfinished_def)
    from some_task_settles [OF less.prems this] obtain u op where
      u: "os_ops s u = Some op" "\<nexists>a. op = Finished a" "settled (poll_op E L u op (os_shared s))" .
    obtain op' sh where run: "poll_op E L u op (os_shared s) = (op', sh)"
      by fastforce
    let ?s = "poll_task E L u s"
    have s': "?s = \<lparr>os_ops = (os_ops s)(u \<mapsto> op'), os_shared = sh\<rparr>"
      by (simp add: poll_task_def u run)
    have step: "polls s ?s"
      by (auto simp: polls_def)
    show ?thesis
    proof (cases "\<exists>a. op' = Finished a")
      case True
      then have "unfinished ?s = unfinished s - {u}"
        by (auto simp: unfinished_def s')
      moreover have "u \<in> unfinished s"
        using u by (auto simp: unfinished_def)
      ultimately have "card (unfinished ?s) < card (unfinished s)"
        using fin by (metis card_Diff1_less)
      then show ?thesis
        using less.hyps [of ?s] sound_poll [OF less.prems u(1)] step
        by (meson converse_rtranclp_into_rtranclp)
    next
      case False
      then have "no_room op' sh"
        using u(3) by (auto simp: run settled_def)
      then show ?thesis
        using step by (intro exI [of _ ?s]) (auto simp: s')
    qed
  qed blast
qed

end

end
