(* ===== verification/Lock_Props.thy ===== *)
theory Lock_Props
  imports Lock_Progress Session_Props
begin

text \<open>
  The properties of the broker's operations under their locks: run alone an operation is the single
  step of \<open>Broker\<close>, a suspended \<open>route\<close> keeps its index, and operations end unless a channel is full.
\<close>

context lock_system
begin

lemma idle_start:
  assumes "w_broker w = Broker_new config" "readers l = {}" "writer l = None" "waiters l = []"
    and "holder m = None" "waiting m = []"
  shows "sound (op_start w l m)"
  using assms by (intro sound_idle) (simp add: idle_def op_start_def router_def Broker_new_def router_inv_new)

section \<open>An operation alone\<close>

definition free_locks :: "('st, 'q, 'k, 'w, 'r, 'l, 'm) shared \<Rightarrow> bool" where
  "free_locks s \<longleftrightarrow> readers (sh_rw s) = {} \<and> writer (sh_rw s) = None \<and> waiters (sh_rw s) = []
    \<and> holder (sh_mx s) = None \<and> waiting (sh_mx s) = []"

text \<open>The result of polling once agrees with the result of the single step.\<close>

definition agrees :: "op_state \<times> ('st, 'q, 'k, 'w, 'r, 'l, 'm) shared
    \<Rightarrow> (answer, unit) outcome \<times> ('st, 'q, 'k, 'w, 'r) world \<Rightarrow> bool" where
  "agrees = (\<lambda>(op, s) (res, w). sh_world s = w \<and>
    ((\<exists>a. res = Ok a \<and> op = Finished a \<and> free_locks s) \<or> res = Pending \<and> (\<nexists>a. op = Finished a)))"

lemma leave_Nil [simp]: "leave t [] = []"
  by (simp add: leave_def)

lemma alone_read:
  assumes "free_locks s"
    and "\<And>l. readers l = {t} \<Longrightarrow> writer l = None \<Longrightarrow> waiters l = [] \<Longrightarrow> agrees (rest (s\<lparr>sh_rw := l\<rparr>)) x"
  shows "agrees (await_read L t here rest s) x"
  using assms by (cases rule: await_read_cases [of t here rest s]) (auto simp: free_locks_def)

lemma alone_write:
  assumes "free_locks s"
    and "\<And>l. writer l = Some t \<Longrightarrow> readers l = {} \<Longrightarrow> waiters l = [] \<Longrightarrow> agrees (rest (s\<lparr>sh_rw := l\<rparr>)) x"
  shows "agrees (await_write L t here rest s) x"
  using assms by (cases rule: await_write_cases [of t here rest s]) (auto simp: free_locks_def)

lemma alone_lock:
  assumes "free_locks s"
    and "\<And>m. holder m = Some t \<Longrightarrow> waiting m = [] \<Longrightarrow> agrees (rest (s\<lparr>sh_mx := m\<rparr>)) x"
  shows "agrees (await_lock L t here rest s) x"
  using assms by (cases rule: await_lock_cases [of t here rest s]) (auto simp: free_locks_def)

lemma alone_route:
  assumes "free_locks (s :: ('st, 'q, 'k, 'w, 'r, 'l, 'm) shared)" "readers l = {t}" "writer l = None" "waiters l = []"
    and "route_filters (e_mail E) p (r_filters r) (w_mail (sh_world s)) = (res, q)"
  shows "agrees (resume_route E L t p [] (r_filters r) (s\<lparr>sh_rw := l\<rparr>))
    (qmark (res, (sh_world s)\<lparr>w_mail := q\<rparr>) (\<lambda>_ w. (Ok Returned, w)))"
proof -
  obtain res' ss' fs' q' where run: "deliver (e_mail E) p [] (r_filters r) (w_mail (sh_world s)) = (res', (ss', fs'), q')"
    by (metis prod.collapse)
  have "(res', q') = (res, q)"
    using deliver_send_all [of "e_mail E" p "[]" "r_filters r" "w_mail (sh_world s)" "[]"] assms(5) run
    by (simp add: route_filters_send_all remaining_def)
  moreover have "res' = Ok () \<or> res' = Pending"
    using mail.deliver_result [OF run refl, of "r_filters r"] by auto
  ultimately show ?thesis
    using run assms(1-4) rw.drop_read [of t l]
    by (auto simp: resume_route_def agrees_def free_locks_def)
qed

lemma alone_cancel:
  assumes "free_locks (s :: ('st, 'q, 'k, 'w, 'r, 'l, 'm) shared)"
    and "Broker_cancel_all_sessions (e_cmd E) (w_broker w, w_cmd w) = (res, (b, k))"
    and "sh_world s = w\<lparr>w_broker := (w_broker w)\<lparr>b_sessions := []\<rparr>\<rparr>"
  shows "agrees (resume_cancel E (map snd (b_sessions (w_broker w))) s)
    (qmark (res, w\<lparr>w_broker := b, w_cmd := k\<rparr>) (\<lambda>_ w. (Ok Returned, w)))"
proof -
  let ?hs = "map snd (b_sessions (w_broker w))"
  obtain res' hs' k' where run: "cancel_from (e_cmd E) ?hs (w_cmd w) = (res', hs', k')"
    by (metis prod.collapse)
  then have "cancel_sessions (e_cmd E) ?hs (w_cmd w) = (res', k')"
    using cancel_from_sessions [of "e_cmd E" ?hs "w_cmd w"] by simp
  moreover have "res' = Ok () \<or> res' = Pending"
    using cancel_from_result [OF run refl] by auto
  ultimately show ?thesis
    using run assms by (auto simp: resume_cancel_def agrees_def free_locks_def Broker_cancel_all_sessions_def Let_def)
qed

lemma agrees_finished:
  "free_locks s \<Longrightarrow> agrees (Finished a, s) (Ok a, sh_world s)"
  by (simp add: agrees_def)

lemma free_release:
  assumes "free_locks s"
  shows "writer l = Some t \<Longrightarrow> readers l = {} \<Longrightarrow> waiters l = [] \<Longrightarrow> free_locks (release_rw L t (set_world w (s\<lparr>sh_rw := l\<rparr>)))"
    and "readers l = {t} \<Longrightarrow> writer l = None \<Longrightarrow> waiters l = [] \<Longrightarrow> free_locks (release_rw L t (s\<lparr>sh_rw := l\<rparr>))"
    and "holder m = Some t \<Longrightarrow> waiting m = [] \<Longrightarrow> free_locks (release_mx L t (set_world w (s\<lparr>sh_mx := m\<rparr>)))"
  using assms rw.drop_write [of l t] rw.drop_read [of t l] mx.drop_lock [of m t]
  by (simp_all add: free_locks_def)

lemma alone_remove:
  assumes "free_locks s" "holder m = Some t" "waiting m = []"
  shows "agrees (remove_write L t sid cid (s\<lparr>sh_mx := m\<rparr>))
    (Ok Returned, (sh_world s)\<lparr>w_broker := Broker_remove_session sid cid (w_broker (sh_world s))\<rparr>)"
  using assms rw.drop_write [of _ t] mx.drop_lock [of m t]
  by (cases rule: await_write_cases [of t "Remove_write sid cid" "\<lambda>s. (Finished Returned,
      release_mx L t (release_rw L t (set_broker (Broker_remove_session sid cid (w_broker (sh_world s))) s)))"
      "s\<lparr>sh_mx := m\<rparr>"])
    (auto simp: remove_write_def agrees_def free_locks_def)

lemma alone_calls_route:
  assumes "free_locks s" "sh_world s = w"
  shows "agrees (case call_op E (Call_route p) w of (op, w) \<Rightarrow> poll_op E L t op (set_world w s))
    (atomic_op E (Call_route p) w)"
proof (cases "validate_publish_topic (pp_topic p)")
  case True
  define w1 where "w1 = snd (call_op E (Call_route p) w)"
  have call: "call_op E (Call_route p) w = (Route_read p, w1)"
    and same: "w_broker w1 = w_broker w" "w_mail w1 = w_mail w"
    using True by (simp_all add: w1_def)
  obtain res q where run: "route_filters (e_mail E) p (r_filters (b_router (w_broker w))) (w_mail w) = (res, q)"
    by fastforce
  have free: "free_locks (set_world w1 s)"
    using assms(1) by (simp add: free_locks_def)
  have "atomic_op E (Call_route p) w = qmark (res, w1\<lparr>w_mail := q\<rparr>) (\<lambda>_ w. (Ok Returned, w))"
    using True run by (cases res) (simp_all add: w1_def Broker_route_def Router_route_def Let_def)
  moreover have "agrees (poll_op E L t (Route_read p) (set_world w1 s))
      (qmark (res, w1\<lparr>w_mail := q\<rparr>) (\<lambda>_ w. (Ok Returned, w)))"
    unfolding poll_op.simps
  proof (rule alone_read [OF free])
    fix l
    assume "readers l = {t}" "writer l = None" "waiters l = []"
    from alone_route [OF free this, of p "b_router (w_broker w)" res q]
    show "agrees (resume_route E L t p [] (r_filters (b_router (w_broker (sh_world
        ((set_world w1 s)\<lparr>sh_rw := l\<rparr>))))) ((set_world w1 s)\<lparr>sh_rw := l\<rparr>))
        (qmark (res, w1\<lparr>w_mail := q\<rparr>) (\<lambda>_ w. (Ok Returned, w)))"
      using run same by simp
  qed
  ultimately show ?thesis
    by (simp only: call prod.case)
next
  case False
  then show ?thesis
    using assms by (simp add: agrees_def free_locks_def Broker_route_def Router_route_def)
qed

lemma alone_write_done:
  assumes "free_locks s"
  shows "agrees (await_write L t here (\<lambda>s. (Finished (a (sh_world s)), release_rw L t (set_world (f (sh_world s)) s))) s)
    (Ok (a (sh_world s)), f (sh_world s))"
  by (rule alone_write [OF assms]) (use free_release(1) [OF assms] in \<open>simp add: agrees_def\<close>)

lemma alone_read_done:
  assumes "free_locks s"
  shows "agrees (await_read L t here (\<lambda>s. (Finished (a (sh_world s)), release_rw L t s)) s)
    (Ok (a (sh_world s)), sh_world s)"
  by (rule alone_read [OF assms]) (use free_release(2) [OF assms] in \<open>simp add: agrees_def\<close>)

lemma alone_calls_add:
  assumes "free_locks s"
  shows "agrees (poll_op E L t (Add_lock h) s)
    (Ok Returned, (sh_world s)\<lparr>w_broker := Broker_add_client h (w_broker (sh_world s))\<rparr>)"
  unfolding poll_op.simps
  by (rule alone_lock [OF assms]) (use free_release(3) [OF assms] in \<open>simp add: agrees_def\<close>)

lemma alone_calls_remove:
  assumes "free_locks s"
  shows "agrees (poll_op E L t (Remove_lock sid cid) s)
    (Ok Returned, (sh_world s)\<lparr>w_broker := Broker_remove_session sid cid (w_broker (sh_world s))\<rparr>)"
  unfolding poll_op.simps
  by (rule alone_lock [OF assms]) (use alone_remove [OF assms] in simp)

lemma alone_calls_cancel:
  assumes "free_locks s"
  shows "agrees (poll_op E L t Cancel_lock s) (atomic_op E Call_cancel_all_sessions (sh_world s))"
proof -
  let ?w = "(sh_world s)\<lparr>w_broker := (w_broker (sh_world s))\<lparr>b_sessions := []\<rparr>\<rparr>"
  obtain res b k where run: "Broker_cancel_all_sessions (e_cmd E)
      (w_broker (sh_world s), w_cmd (sh_world s)) = (res, (b, k))"
    by (metis prod.collapse)
  show ?thesis
    unfolding poll_op.simps Let_def
  proof (rule alone_lock [OF assms])
    fix m
    assume "holder m = Some t" "waiting m = []"
    then have "free_locks (release_mx L t (set_world ?w (s\<lparr>sh_mx := m\<rparr>)))"
      by (rule free_release(3) [OF assms])
    from alone_cancel [OF this run]
    show "agrees (resume_cancel E (map snd (b_sessions (w_broker (sh_world (s\<lparr>sh_mx := m\<rparr>)))))
        (release_mx L t (set_broker ((w_broker (sh_world (s\<lparr>sh_mx := m\<rparr>)))\<lparr>b_sessions := []\<rparr>) (s\<lparr>sh_mx := m\<rparr>))))
        (atomic_op E Call_cancel_all_sessions (sh_world s))"
      using run by simp
  qed
qed

lemma alone_calls_router:
  assumes "free_locks s"
  shows "agrees (poll_op E L t (Unsubscribe_write sid us) s) (Ok Returned, Broker_unsubscribe sid us (sh_world s))"
    and "agrees (poll_op E L t (Unsubscribe_all_write sid) s) (Ok Returned, Broker_unsubscribe_all sid (sh_world s))"
    and "agrees (poll_op E L t (Subscriptions_read sid) s)
      (Ok (Filters (Broker_get_subscriptions sid (sh_world s))), sh_world s)"
  unfolding poll_op.simps
  by (rule alone_write_done [OF assms, where a = "\<lambda>_. Returned"]
      alone_read_done [OF assms, where a = "\<lambda>w. Filters (Broker_get_subscriptions sid w)"])+

lemma alone_calls_subscribe:
  assumes "free_locks s"
  shows "agrees (poll_op E L t (Subscribe_write sid m fs) s)
    (case Broker_subscribe E sid m fs (sh_world s) of (a, w) \<Rightarrow> (Ok (Codes a), w))"
proof -
  let ?f = "Broker_subscribe E sid m fs"
  have "poll_op E L t (Subscribe_write sid m fs) s = await_write L t (Subscribe_write sid m fs)
    (\<lambda>s. (Finished (Codes (fst (?f (sh_world s)))), release_rw L t (set_world (snd (?f (sh_world s))) s))) s"
    by (simp add: case_prod_beta)
  then show ?thesis
    using alone_write_done [OF assms, where a = "\<lambda>w. Codes (fst (?f w))" and f = "\<lambda>w. snd (?f w)"]
    by (simp only: case_prod_beta)
qed

lemma alone_agrees:
  assumes "free_locks s"
  shows "agrees (case call_op E operation (sh_world s) of (op, w) \<Rightarrow> poll_op E L t op (set_world w s))
    (atomic_op E operation (sh_world s))"
proof (cases operation)
  case (Call_route p)
  then show ?thesis
    using alone_calls_route [OF assms refl] by simp
next
  case (Call_has_collision cid action)
  then show ?thesis
    using assms by (simp add: agrees_def free_locks_def case_prod_beta)
qed (simp_all add: alone_calls_router [OF assms] alone_calls_subscribe [OF assms] alone_calls_add [OF assms]
    alone_calls_remove [OF assms] alone_calls_cancel [OF assms] del: poll_op.simps atomic_op.simps(9))

end

context lock_system
begin

section \<open>A suspended \<open>route\<close>\<close>

lemma await_write_blocked: "readers (sh_rw s) \<noteq> {} \<Longrightarrow> fst (await_write L t here rest s) = here"
  by (cases rule: await_write_cases [of t here rest s]) auto

lemma await_read_blocked:
  "(v, True) \<in> set (before t (waiters (sh_rw s))) \<Longrightarrow> fst (await_read L t here rest s) = here"
  by (cases rule: await_read_cases [of t here rest s]) fastforce+

text \<open>Behind a reader every writer waits, and behind a waiting writer every reader.\<close>

lemma router_blocked:
  assumes "os_ops s u = Some op"
    and "wants_router op = Some True \<and> readers (sh_rw (os_shared s)) \<noteq> {}
      \<or> wants_router op = Some False \<and> (v, True) \<in> set (before u (waiters (sh_rw (os_shared s))))"
  shows "os_ops (poll_task E L u s) u = Some op"
proof -
  have "fst (poll_op E L u op (os_shared s)) = op"
    using assms(2) by (cases op) (auto simp: remove_write_def await_write_blocked await_read_blocked)
  then show ?thesis
    using assms(1) by (simp add: poll_task_def case_prod_beta)
qed

lemma poll_route_sends:
  assumes "os_ops s t = Some (Route_send p ss fs)" "inside p F ss fs"
  shows "\<exists>sent rest. sent @ rest = remaining p f ss fs
    \<and> (\<forall>c. queue (w_mail (sh_world (os_shared (poll_task E L t s)))) c
        = queue (w_mail (sh_world (os_shared s))) c @
          (if open_rx (w_mail (sh_world (os_shared s))) c
           then map (\<lambda>qos. Publish (forward_packet p qos)) (copies c sent) else []))
    \<and> (os_ops (poll_task E L t s) t = Some (Finished Returned) \<and> rest = []
      \<or> (\<exists>f' ss' fs'. os_ops (poll_task E L t s) t = Some (Route_send p ss' fs')
        \<and> rest = remaining p f' ss' fs'))"
proof -
  let ?q = "w_mail (sh_world (os_shared s))"
  obtain res ss' fs' q where run: "deliver (e_mail E) p ss fs ?q = (res, (ss', fs'), q)"
    by (metis prod.collapse)
  obtain sent f' where all: "remaining p f ss fs = sent @ (if res = Ok () then [] else remaining p f' ss' fs')"
    and q: "\<forall>c. queue q c = queue ?q c @
      (if open_rx ?q c then map (\<lambda>qos. Publish (forward_packet p qos)) (copies c sent) else [])"
    using mail.deliver_sends [OF run refl, of f] by blast
  have "if ss = [] then suffix fs F else inside p F ss fs"
    using assms(2) inside_suffix by auto
  from mail.deliver_result [OF run refl this]
  have "res = Ok () \<or> res = Pending"
    by blast
  then show ?thesis
  proof
    assume "res = Ok ()"
    then show ?thesis
      using all q assms(1) run
      by (intro exI [of _ sent] exI [of _ "[]"]) (simp add: poll_task_def resume_route_def)
  next
    assume "res = Pending"
    then show ?thesis
      using all q assms(1) run
      by (intro exI [of _ sent] exI [of _ "remaining p f' ss' fs'"])
        (auto simp: poll_task_def resume_route_def)
  qed
qed

end

section \<open>Properties\<close>

text \<open>
  C20: An operation that runs alone is the single step it is in the model of the sessions.  When nobody
  holds or waits for a lock, calling an operation of the broker and polling it once gives the state,
  and where it finishes the answer, of the corresponding function of \<open>Broker\<close>, and leaves the locks
  free; it does not finish exactly when that function is pending at a full channel.
\<close>

theorem operation_alone:
  assumes sys: "lock_system E L readers writer waiters holder waiting queue open_rx cap cqueue copen ccap"
    and "readers (sh_rw s) = {}" "writer (sh_rw s) = None" "waiters (sh_rw s) = []"
    and "holder (sh_mx s) = None" "waiting (sh_mx s) = []"
    and "call_op E operation (sh_world s) = (op, w)"
    and "poll_op E L t op (s\<lparr>sh_world := w\<rparr>) = (op', s')"
    and "atomic_op E operation (sh_world s) = (res, w')"
  shows "sh_world s' = w' \<and>
    ((\<exists>a. res = Ok a \<and> op' = Finished a \<and> readers (sh_rw s') = {} \<and> writer (sh_rw s') = None
      \<and> waiters (sh_rw s') = [] \<and> holder (sh_mx s') = None \<and> waiting (sh_mx s') = [])
    \<or> res = Pending \<and> (\<nexists>a. op' = Finished a))"
proof -
  have "lock_system.free_locks readers writer waiters holder waiting s"
    using assms(2-6) by (simp add: lock_system.free_locks_def [OF sys])
  from lock_system.alone_agrees [OF sys this, where operation = operation and t = t] show ?thesis
    using assms(7-9)
    by (simp add: lock_system.agrees_def [OF sys] lock_system.free_locks_def [OF sys] set_world_def)
qed

text \<open>
  C17: A PUBLISH is routed over one index.  In every reachable state of the interleaved operations, the
  subscriptions a suspended \<open>route\<close> has still to serve are the last ones among those that match in the
  current index; whatever step is made next, the index stays as it is; and polling it sends, in order
  and once each, to the first of these subscriptions, until it has served all of them or stops at
  those that remain.  Until then no operation that changes the index advances, nor does one that reads
  it and comes after such an operation in the queue.
\<close>

theorem route_keeps_index:
  assumes sys: "lock_system E L readers writer waiters holder waiting queue open_rx cap cqueue copen ccap"
    and start: "w_broker w = Broker_new config" "readers l = {}" "writer l = None" "waiters l = []"
      "holder m = None" "waiting m = []"
    and run: "(op_step E L)\<^sup>*\<^sup>* (op_start w l m) s"
    and route: "os_ops s t = Some (Route_send p ss fs)"
    and next_step: "op_step E L s s'"
  shows "b_router (w_broker (sh_world (os_shared s'))) = b_router (w_broker (sh_world (os_shared s)))
    \<and> (\<exists>f sent rest. suffix (sent @ rest) (matching (pp_topic p) (b_router (w_broker (sh_world (os_shared s)))))
      \<and> sent @ rest = remaining p f ss fs
      \<and> (\<forall>c. queue (w_mail (sh_world (os_shared (poll_task E L t s)))) c
          = queue (w_mail (sh_world (os_shared s))) c @
            (if open_rx (w_mail (sh_world (os_shared s))) c
             then map (\<lambda>qos. Publish (forward_packet p qos)) (copies c sent) else []))
      \<and> (os_ops (poll_task E L t s) t = Some (Finished Returned) \<and> rest = []
        \<or> (\<exists>f' ss' fs'. os_ops (poll_task E L t s) t = Some (Route_send p ss' fs')
          \<and> rest = remaining p f' ss' fs')))
    \<and> (\<forall>u op. os_ops s u = Some op \<longrightarrow> wants_router op = Some True
        \<or> wants_router op = Some False \<and> (\<exists>v. (v, True) \<in> set (before u (waiters (sh_rw (os_shared s)))))
      \<longrightarrow> os_ops (poll_task E L u s) u = Some op)"
proof -
  have sound: "lock_system.sound readers writer waiters holder waiting s"
    using lock_system.sound_reachable [OF sys run] lock_system.idle_start [OF sys start] by blast
  then have here: "inside p (r_filters (b_router (w_broker (sh_world (os_shared s))))) ss fs"
    using route by (auto simp: lock_system.sound_def [OF sys] lock_system.placed_def [OF sys] router_def)
  obtain f where tail: "suffix (remaining p f ss fs)
      (matching (pp_topic p) (b_router (w_broker (sh_world (os_shared s)))))"
    using remaining_matching [OF here] by blast
  have "b_router (w_broker (sh_world (os_shared s'))) = b_router (w_broker (sh_world (os_shared s)))"
    using lock_system.sound_step [OF sys next_step sound] route by (force simp: router_def)
  moreover have "readers (sh_rw (os_shared s)) \<noteq> {}"
    using lock_system.sending_readers [OF sys] sound route
    by (metis lock_system.sound_def [OF sys] sending.simps(1))
  then have "\<forall>u op. os_ops s u = Some op \<longrightarrow> wants_router op = Some True
      \<or> wants_router op = Some False \<and> (\<exists>v. (v, True) \<in> set (before u (waiters (sh_rw (os_shared s)))))
    \<longrightarrow> os_ops (poll_task E L u s) u = Some op"
    using lock_system.router_blocked [OF sys] by blast
  moreover obtain sent rest where "sent @ rest = remaining p f ss fs"
    "\<forall>c. queue (w_mail (sh_world (os_shared (poll_task E L t s)))) c
      = queue (w_mail (sh_world (os_shared s))) c @ (if open_rx (w_mail (sh_world (os_shared s))) c
        then map (\<lambda>qos. Publish (forward_packet p qos)) (copies c sent) else [])"
    "os_ops (poll_task E L t s) t = Some (Finished Returned) \<and> rest = []
      \<or> (\<exists>f' ss' fs'. os_ops (poll_task E L t s) t = Some (Route_send p ss' fs') \<and> rest = remaining p f' ss' fs')"
    using lock_system.poll_route_sends [OF sys route here, of f] by blast
  ultimately show ?thesis
    using tail by (intro conjI exI [of _ f] exI [of _ sent] exI [of _ rest]) simp_all
qed

text \<open>
  C18: The locks cannot block the broker by themselves.  From every reachable state of the interleaved
  operations there is an order of polls after which all operations have returned, unless one of them
  stands before a full channel whose receiver still exists: a \<open>route\<close> before a mailbox, or
  \<open>cancel_all_sessions\<close> before the command channel of a session.
\<close>

theorem operations_finish:
  assumes sys: "lock_system E L readers writer waiters holder waiting queue open_rx cap cqueue copen ccap"
    and start: "w_broker w = Broker_new config" "readers l = {}" "writer l = None" "waiters l = []"
      "holder m = None" "waiting m = []"
    and run: "(op_step E L)\<^sup>*\<^sup>* (op_start w l m) s"
  shows "\<exists>s'. (\<lambda>s s'. \<exists>t. s' = poll_task E L t s)\<^sup>*\<^sup>* s s'
    \<and> ((\<forall>t op. os_ops s' t = Some op \<longrightarrow> (\<exists>a. op = Finished a))
      \<or> (\<exists>t p sid c qos ss fs. os_ops s' t = Some (Route_send p ((sid, (c, qos)) # ss) fs)
          \<and> open_rx (w_mail (sh_world (os_shared s'))) c
          \<and> cap c \<le> length (queue (w_mail (sh_world (os_shared s'))) c))
      \<or> (\<exists>t h hs. os_ops s' t = Some (Cancel_send (h # hs))
          \<and> copen (w_cmd (sh_world (os_shared s'))) (s_command_tx h)
          \<and> ccap (s_command_tx h) \<le> length (cqueue (w_cmd (sh_world (os_shared s'))) (s_command_tx h))))"
proof -
  have "lock_system.sound readers writer waiters holder waiting s"
    using lock_system.sound_reachable [OF sys run] lock_system.idle_start [OF sys start] by blast
  from lock_system.operations_settle [OF sys this] obtain s' where
    polls: "(lock_system.polls E L)\<^sup>*\<^sup>* s s'" and
    goal: "lock_system.unfinished s' = {} \<or> (\<exists>t op. os_ops s' t = Some op
      \<and> lock_system.no_room queue open_rx cap cqueue copen ccap op (os_shared s'))"
    by blast
  have "lock_system.polls E L = (\<lambda>s s'. \<exists>t. s' = poll_task E L t s)"
    by (simp add: fun_eq_iff lock_system.polls_def [OF sys])
  then show ?thesis
    using polls goal unfolding lock_system.unfinished_def [OF sys] lock_system.no_room_def [OF sys]
    by (intro exI [of _ s']) (simp, blast)
qed

section \<open>Examples\<close>

text \<open>
  Mailboxes with room for one message.  Session \<open>s\<close> subscribes; a first PUBLISH fills its mailbox, a
  second one is suspended before it, and the end of another session then waits for the router with
  the handles in its hand.
\<close>

definition fifo_locks :: "(guards \<times> waiter list, task option \<times> waiter list) lock_env" where
  "fifo_locks = \<lparr>le_rw = fifo_rw, le_mx = fifo_mx\<rparr>"

abbreviation tight_env :: "(memory, channel \<Rightarrow> Packet list option, channel \<Rightarrow> Command list option,
        stream \<Rightarrow> bytes option, bytes, bytes \<times> bool, bytes) env" where
  "tight_env \<equiv> open_env\<lparr>e_mail := bounded_chan 1\<rparr>"

interpretation fifo_system: lock_system "open_env\<lparr>e_mail := bounded_chan n\<rparr>" fifo_locks
  "\<lambda>l. guard_readers (fst l)" "\<lambda>l. guard_writer (fst l)" snd fst snd
  chan_queue "\<lambda>q c. q c \<noteq> None" "\<lambda>_. n" chan_queue "\<lambda>q c. q c \<noteq> None" "\<lambda>_. 10"
  unfolding lock_system_def
  by (intro conjI; unfold fifo_locks_def local_env_def;
      simp add: fifo.rwlock_axioms fifo_mutex.mutex_axioms
        mail.mailboxes_axioms [simplified] bounded.mpsc_axioms [simplified])

definition plain_message :: PublishPacket where
  "plain_message = example_message\<lparr>pp_retain := False\<rparr>"

definition one_subscriber :: Router where
  "one_subscriber = \<lparr>r_filters = [(''a/#'', [(''s'', (1, AtLeastOnce))])],
    r_sessions = [(''s'', [''a/#''])],
    r_retained_message_limit = cfg_retained_message_limit default_config\<rparr>"

definition full_world :: "(memory, channel \<Rightarrow> Packet list option, channel \<Rightarrow> Command list option,
        stream \<Rightarrow> bytes option, bytes \<times> bool) world" where
  "full_world = start_state\<lparr>w_broker := (w_broker start_state)\<lparr>b_router := one_subscriber\<rparr>,
    w_mail := [1 \<mapsto> [Publish (forward_packet plain_message AtLeastOnce)]]\<rparr>"

definition quiet :: "(memory, channel \<Rightarrow> Packet list option, channel \<Rightarrow> Command list option,
    stream \<Rightarrow> bytes option, bytes \<times> bool, guards \<times> waiter list, task option \<times> waiter list) op_system" where
  "quiet = op_start start_state (Readers {}, []) (None, [])"

definition run_op where
  "run_op E L t operation s = poll_task E L t (call_task E t operation s)"

lemma run_op_steps:
  assumes "os_ops s t = None"
  shows "(op_step E L)\<^sup>*\<^sup>* s (run_op E L t operation s)"
  unfolding run_op_def using op_step.called [OF assms] op_step.polled
  by (meson r_into_rtranclp rtranclp.rtrancl_into_rtrancl)

definition subscribed where
  "subscribed = run_op tight_env fifo_locks 0 (Call_subscribe ''s'' 1 [(''a/#'', AtLeastOnce)]) quiet"

definition filled where
  "filled = run_op tight_env fifo_locks 1 (Call_route plain_message) subscribed"

definition suspended where
  "suspended = run_op tight_env fifo_locks 2 (Call_route plain_message) filled"

definition removing where
  "removing = run_op tight_env fifo_locks 3 (Call_remove_session ''s'' None) suspended"

lemmas lock_eval = run_op_def call_task_def poll_task_def await_read_def await_write_def await_lock_def
  release_rw_def release_mx_def set_world_def set_broker_def fifo_locks_def fifo_rw_def fifo_mx_def
  enqueue_def leave_def before_def

lemma quiet_eq:
  "os_ops quiet = (\<lambda>_. None)"
  "os_shared quiet = \<lparr>sh_world = start_state, sh_rw = (Readers {}, []), sh_mx = (None, [])\<rparr>"
  by (simp_all add: quiet_def op_start_def)

lemma subscribed_eq:
  "\<exists>a. os_ops subscribed = [0 \<mapsto> Finished a]"
  "os_shared subscribed = \<lparr>sh_world = start_state\<lparr>w_broker := (w_broker start_state)\<lparr>b_router := one_subscriber\<rparr>\<rparr>,
    sh_rw = (Readers {}, []), sh_mx = (None, [])\<rparr>"
  by (simp_all add: subscribed_def quiet_eq lock_eval Broker_subscribe_def Router_subscribe_index
      index_subscribe_def validate_subscribe_filter_def str_contains_def insert_subscription_def
      start_state_def Broker_new_def Router_new_def one_subscriber_def case_prod_beta) blast

lemma plain_message_valid: "validate_publish_topic (pp_topic plain_message)"
  by (simp add: plain_message_def example_message_def validate_publish_topic_def str_contains_def)

lemma plain_message_simps: "pp_retain plain_message = False" "topic_matches (pp_topic plain_message) ''a/#''"
  by (simp_all add: plain_message_def example_message_def topic_matches_def match_parts_levels level_ok_def)

lemmas route_eval = lock_eval resume_route_def plain_message_valid plain_message_simps one_subscriber_def
  bounded_chan_def full_world_def start_state_def Broker_new_def local_env_def

lemma filled_eq:
  "\<exists>a. os_ops filled = [0 \<mapsto> Finished a, 1 \<mapsto> Finished Returned]"
  "os_shared filled = \<lparr>sh_world = full_world, sh_rw = (Readers {}, []), sh_mx = (None, [])\<rparr>"
proof -
  obtain a where "os_ops subscribed = [0 \<mapsto> Finished a]"
    using subscribed_eq(1) by blast
  then show "\<exists>a. os_ops filled = [0 \<mapsto> Finished a, 1 \<mapsto> Finished Returned]"
    "os_shared filled = \<lparr>sh_world = full_world, sh_rw = (Readers {}, []), sh_mx = (None, [])\<rparr>"
    by (auto simp: filled_def subscribed_eq(2) route_eval)
qed

lemma suspended_eq:
  "\<exists>a. os_ops suspended = [0 \<mapsto> Finished a, 1 \<mapsto> Finished Returned,
    2 \<mapsto> Route_send plain_message [(''s'', (1, AtLeastOnce))] []]"
  "os_shared suspended = \<lparr>sh_world = full_world, sh_rw = (Readers {2}, []), sh_mx = (None, [])\<rparr>"
proof -
  obtain a where "os_ops filled = [0 \<mapsto> Finished a, 1 \<mapsto> Finished Returned]"
    using filled_eq(1) by blast
  then show "\<exists>a. os_ops suspended = [0 \<mapsto> Finished a, 1 \<mapsto> Finished Returned,
      2 \<mapsto> Route_send plain_message [(''s'', (1, AtLeastOnce))] []]"
    "os_shared suspended = \<lparr>sh_world = full_world, sh_rw = (Readers {2}, []), sh_mx = (None, [])\<rparr>"
    by (auto simp: suspended_def filled_eq(2) route_eval)
qed

lemma removing_eq:
  "\<exists>a. os_ops removing = [0 \<mapsto> Finished a, 1 \<mapsto> Finished Returned,
    2 \<mapsto> Route_send plain_message [(''s'', (1, AtLeastOnce))] [], 3 \<mapsto> Remove_write ''s'' None]"
  "os_shared removing = \<lparr>sh_world = full_world, sh_rw = (Readers {2}, [(3, True)]), sh_mx = (Some 3, [])\<rparr>"
proof -
  obtain a where "os_ops suspended = [0 \<mapsto> Finished a, 1 \<mapsto> Finished Returned,
      2 \<mapsto> Route_send plain_message [(''s'', (1, AtLeastOnce))] []]"
    using suspended_eq(1) by blast
  then show "\<exists>a. os_ops removing = [0 \<mapsto> Finished a, 1 \<mapsto> Finished Returned,
      2 \<mapsto> Route_send plain_message [(''s'', (1, AtLeastOnce))] [], 3 \<mapsto> Remove_write ''s'' None]"
    "os_shared removing = \<lparr>sh_world = full_world, sh_rw = (Readers {2}, [(3, True)]), sh_mx = (Some 3, [])\<rparr>"
    by (auto simp: removing_def suspended_eq(2) lock_eval remove_write_def)
qed

lemma suspended_reached: "(op_step tight_env fifo_locks)\<^sup>*\<^sup>* quiet suspended"
proof -
  have "os_ops subscribed 1 = None" "os_ops filled 2 = None" "os_ops quiet 0 = None"
    using subscribed_eq(1) filled_eq(1) by (auto simp: quiet_eq)
  then show ?thesis
    using run_op_steps [of quiet 0] run_op_steps [of subscribed 1] run_op_steps [of filled 2]
    unfolding subscribed_def [symmetric] filled_def [symmetric] suspended_def [symmetric]
    by (metis (no_types, lifting) subscribed_def filled_def suspended_def rtranclp_trans)
qed

theorem operation_alone_witness:
  "\<exists>op w op' s' res w'. call_op tight_env (Call_route plain_message) (sh_world (os_shared filled)) = (op, w)
    \<and> poll_op tight_env fifo_locks 2 op ((os_shared filled)\<lparr>sh_world := w\<rparr>) = (op', s')
    \<and> atomic_op tight_env (Call_route plain_message) (sh_world (os_shared filled)) = (res, w')
    \<and> sh_world s' = w'
    \<and> ((\<exists>a. res = Ok a \<and> op' = Finished a \<and> guard_readers (fst (sh_rw s')) = {} \<and> guard_writer (fst (sh_rw s')) = None
      \<and> snd (sh_rw s') = [] \<and> fst (sh_mx s') = None \<and> snd (sh_mx s') = [])
    \<or> res = Pending \<and> (\<nexists>a. op' = Finished a))"
proof -
  let ?s = "os_shared filled"
  obtain op w where call: "call_op tight_env (Call_route plain_message) (sh_world ?s) = (op, w)"
    by fastforce
  obtain op' s' where poll: "poll_op tight_env fifo_locks 2 op (?s\<lparr>sh_world := w\<rparr>) = (op', s')"
    by fastforce
  obtain res w' where single: "atomic_op tight_env (Call_route plain_message) (sh_world ?s) = (res, w')"
    by fastforce
  have "guard_readers (fst (sh_rw ?s)) = {}" "guard_writer (fst (sh_rw ?s)) = None" "snd (sh_rw ?s) = []"
    "fst (sh_mx ?s) = None" "snd (sh_mx ?s) = []"
    by (simp_all add: filled_eq(2))
  from operation_alone [where s = ?s, OF fifo_system.lock_system_axioms [of 1] this call poll single]
  show ?thesis
    using call poll single by blast
qed

theorem route_keeps_index_witness:
  "os_ops suspended 2 = Some (Route_send plain_message [(''s'', (1, AtLeastOnce))] [])
    \<and> b_router (w_broker (sh_world (os_shared removing))) = one_subscriber
    \<and> (\<exists>f sent rest. suffix (sent @ rest) (matching (pp_topic plain_message) one_subscriber)
      \<and> sent @ rest = remaining plain_message f [(''s'', (1, AtLeastOnce))] [])"
proof -
  have start: "w_broker start_state = Broker_new default_config"
    by (simp add: start_state_def)
  obtain a where ops: "os_ops suspended = [0 \<mapsto> Finished a, 1 \<mapsto> Finished Returned,
      2 \<mapsto> Route_send plain_message [(''s'', (1, AtLeastOnce))] []]"
    using suspended_eq(1) by blast
  let ?s = "call_task tight_env 3 (Call_remove_session ''s'' None) suspended"
  have step: "op_step tight_env fifo_locks suspended ?s"
    by (rule op_step.called) (simp add: ops)
  have route: "os_ops suspended 2 = Some (Route_send plain_message [(''s'', (1, AtLeastOnce))] [])"
    by (simp add: ops)
  have locks: "guard_readers (fst (Readers {}, [])) = {}" "guard_writer (fst (Readers {}, [])) = None"
    "snd (Readers {}, []) = ([] :: waiter list)" "fst (None, []) = (None :: task option)"
    "snd (None, []) = ([] :: waiter list)"
    by simp_all
  have "b_router (w_broker (sh_world (os_shared removing))) = one_subscriber"
    "b_router (w_broker (sh_world (os_shared suspended))) = one_subscriber"
    by (simp_all add: removing_eq(2) suspended_eq(2) full_world_def)
  then show ?thesis
    using route route_keeps_index [OF fifo_system.lock_system_axioms [of 1] start locks
        suspended_reached [unfolded quiet_def] route step] by (intro conjI) metis+
qed

theorem operations_finish_witness:
  "\<exists>s'. (\<lambda>s s'. \<exists>t. s' = poll_task tight_env fifo_locks t s)\<^sup>*\<^sup>* suspended s'
    \<and> ((\<forall>t op. os_ops s' t = Some op \<longrightarrow> (\<exists>a. op = Finished a))
      \<or> (\<exists>t p sid c qos ss fs. os_ops s' t = Some (Route_send p ((sid, (c, qos)) # ss) fs)
          \<and> w_mail (sh_world (os_shared s')) c \<noteq> None
          \<and> 1 \<le> length (chan_queue (w_mail (sh_world (os_shared s'))) c))
      \<or> (\<exists>t h hs. os_ops s' t = Some (Cancel_send (h # hs))
          \<and> w_cmd (sh_world (os_shared s')) (s_command_tx h) \<noteq> None
          \<and> 10 \<le> length (chan_queue (w_cmd (sh_world (os_shared s'))) (s_command_tx h))))"
proof -
  have start: "w_broker start_state = Broker_new default_config"
    by (simp add: start_state_def)
  show ?thesis
    by (rule operations_finish [OF fifo_system.lock_system_axioms [of 1] start _ _ _ _ _
          suspended_reached [unfolded quiet_def]]) simp_all
qed

end
