(* ===== verification/Serve_Locks.thy ===== *)
theory Serve_Locks
  imports Lock_Props
begin

text \<open>
  The orchestration loop of \<open>Server::serve\<close> (\<^verbatim>\<open>src/server.rs\<close>) over the operations of \<open>Broker_Locks\<close>.
  All sessions are polled by this one loop: \<open>sessions.next()\<close> is a branch of its \<open>select!\<close>, and while
  the body of another branch awaits \<open>add_client\<close>, or \<open>cancel_all_sessions\<close> runs after the loop, no
  session makes a step.
\<close>

section \<open>The loop\<close>

text \<open>At the \<open>select!\<close>, in the body of the first branch, in \<open>cancel_all_sessions\<close>, and in the last loop.\<close>

datatype loop_phase = Selecting | Adding task | Cancelling task | Finishing

record ('st, 'q, 'k, 'w, 'r, 'l, 'm) loop_state =
  lp_phase :: loop_phase
  lp_system :: "('st, 'q, 'k, 'w, 'r, 'l, 'm) op_system"

fun session_operation :: "operation \<Rightarrow> bool" where
  "session_operation (Call_add_client handle) = False"
| "session_operation Call_cancel_all_sessions = False"
| "session_operation _ = True"

inductive loop_step :: "('st, 'q, 'k, 'w, 'b, 'r, 'c) env \<Rightarrow> ('l, 'm) lock_env
    \<Rightarrow> ('st, 'q, 'k, 'w, 'r, 'l, 'm) loop_state \<Rightarrow> ('st, 'q, 'k, 'w, 'r, 'l, 'm) loop_state \<Rightarrow> bool"
  for E L where
  session_calls: "lp_phase s = Selecting \<or> lp_phase s = Finishing \<Longrightarrow> os_ops (lp_system s) t = None \<Longrightarrow>
    session_operation operation \<Longrightarrow>
    loop_step E L s (s\<lparr>lp_system := call_task E t operation (lp_system s)\<rparr>)"
| session_polled: "lp_phase s = Selecting \<or> lp_phase s = Finishing \<Longrightarrow>
    loop_step E L s (s\<lparr>lp_system := poll_task E L t (lp_system s)\<rparr>)"
| session_goes_on: "lp_phase s = Selecting \<or> lp_phase s = Finishing \<Longrightarrow>
    os_ops (lp_system s) t = Some (Finished a) \<Longrightarrow>
    loop_step E L s (s\<lparr>lp_system := (lp_system s)\<lparr>os_ops := (os_ops (lp_system s))(t := None)\<rparr>\<rparr>)"
| new_stream: "lp_phase s = Selecting \<Longrightarrow> os_ops (lp_system s) t = None \<Longrightarrow>
    loop_step E L s (s\<lparr>lp_phase := Adding t,
      lp_system := call_task E t (Call_add_client handle) (lp_system s)\<rparr>)"
| listeners_done: "lp_phase s = Selecting \<Longrightarrow> os_ops (lp_system s) t = None \<Longrightarrow>
    loop_step E L s (s\<lparr>lp_phase := Cancelling t,
      lp_system := call_task E t Call_cancel_all_sessions (lp_system s)\<rparr>)"
| awaits: "lp_phase s = Adding t \<or> lp_phase s = Cancelling t \<Longrightarrow>
    loop_step E L s (s\<lparr>lp_system := poll_task E L t (lp_system s)\<rparr>)"
| added: "lp_phase s = Adding t \<Longrightarrow> os_ops (lp_system s) t = Some (Finished a) \<Longrightarrow>
    loop_step E L s (s\<lparr>lp_phase := Selecting,
      lp_system := (lp_system s)\<lparr>os_ops := (os_ops (lp_system s))(t := None)\<rparr>\<rparr>)"
| cancelled: "lp_phase s = Cancelling t \<Longrightarrow> os_ops (lp_system s) t = Some (Finished a) \<Longrightarrow>
    loop_step E L s (s\<lparr>lp_phase := Finishing,
      lp_system := (lp_system s)\<lparr>os_ops := (os_ops (lp_system s))(t := None)\<rparr>\<rparr>)"
| elsewhere: "w_broker w = w_broker (sh_world (os_shared (lp_system s))) \<Longrightarrow>
    loop_step E L s (s\<lparr>lp_system := (lp_system s)\<lparr>os_shared := set_world w (os_shared (lp_system s))\<rparr>\<rparr>)"

definition loop_start :: "('st, 'q, 'k, 'w, 'r) world \<Rightarrow> 'l \<Rightarrow> 'm
    \<Rightarrow> ('st, 'q, 'k, 'w, 'r, 'l, 'm) loop_state" where
  "loop_start w l m = \<lparr>lp_phase = Selecting, lp_system = op_start w l m\<rparr>"

section \<open>Where the loop stops\<close>

lemma loop_step_op_step:
  "loop_step E L s s' \<Longrightarrow> op_step E L (lp_system s) (lp_system s')"
  by (cases rule: loop_step.cases) (auto intro: op_step.intros simp del: set_world_def)

lemma loop_reaches: "(loop_step E L)\<^sup>*\<^sup>* s s' \<Longrightarrow> (op_step E L)\<^sup>*\<^sup>* (lp_system s) (lp_system s')"
  by (induction rule: rtranclp_induct) (auto dest: loop_step_op_step)

context lock_system
begin

text \<open>The loop waits for the handles, and another task has them or comes first.\<close>

definition waits_behind :: "task \<Rightarrow> op_state \<Rightarrow> ('st, 'q, 'k, 'w, 'r, 'l, 'm) loop_state \<Rightarrow> bool" where
  "waits_behind t op s \<longleftrightarrow> (lp_phase s = Adding t \<or> lp_phase s = Cancelling t)
    \<and> os_ops (lp_system s) t = Some op \<and> ((\<exists>h. op = Add_lock h) \<or> op = Cancel_lock)
    \<and> \<not> (holder (sh_mx (os_shared (lp_system s))) = None
      \<and> before t (waiting (sh_mx (os_shared (lp_system s)))) = [])"

lemma poll_awaits_handles:
  assumes "(\<exists>h. op = Add_lock h) \<or> op = Cancel_lock"
  obtains rest where "poll_op E L t op s = await_lock L t op rest s" "\<And>s. fst (rest s) \<noteq> op"
  using assms
proof (elim disjE exE)
  fix h
  assume "op = Add_lock h"
  then show thesis
    by (intro that [of "\<lambda>s. (Finished Returned, release_mx L t
        (set_broker (Broker_add_client h (w_broker (sh_world s))) s))"]) simp_all
next
  assume op: "op = Cancel_lock"
  let ?rest = "\<lambda>s. resume_cancel E (map snd (b_sessions (w_broker (sh_world s)))) (release_mx L t
    (set_broker ((w_broker (sh_world s))\<lparr>b_sessions := []\<rparr>) s))"
  have "fst (resume_cancel E hs s') \<noteq> Cancel_lock" for hs s'
    by (cases rule: resume_cancel_cases [of hs s']) simp_all
  then show thesis
    using op by (intro that [of ?rest]) (simp_all add: Let_def)
qed

lemma poll_waits:
  assumes "(\<exists>h. op = Add_lock h) \<or> op = Cancel_lock"
    and "\<not> (holder (sh_mx s) = None \<and> before t (waiting (sh_mx s)) = [])"
  obtains m where "poll_op E L t op s = (op, s\<lparr>sh_mx := m\<rparr>)"
    "holder m = holder (sh_mx s)" "before t (waiting m) = before t (waiting (sh_mx s))"
proof -
  obtain rest where run: "poll_op E L t op s = await_lock L t op rest s"
    and "\<And>s. fst (rest s) \<noteq> op"
    by (rule poll_awaits_handles [OF assms(1), where t = t and s = s]) (rule that)
  show ?thesis
  proof (cases rule: await_lock_cases [of t op rest s])
    case (granted m)
    then show ?thesis
      using assms(2) by blast
  next
    case (waits m)
    show ?thesis
      by (rule that [of m]) (use run waits in \<open>simp_all only: before_enqueue\<close>)
  qed
qed

lemma waits_behind_step:
  assumes "waits_behind t op s" "loop_step E L s s'"
  shows "waits_behind t op s' \<and> lp_phase s' = lp_phase s \<and> os_ops (lp_system s') = os_ops (lp_system s)
    \<and> w_broker (sh_world (os_shared (lp_system s'))) = w_broker (sh_world (os_shared (lp_system s)))"
  using assms(2)
proof cases
  case (awaits u)
  have u: "u = t"
    using awaits(2) assms(1) by (auto simp: waits_behind_def)
  obtain m where "poll_op E L t op (os_shared (lp_system s)) = (op, (os_shared (lp_system s))\<lparr>sh_mx := m\<rparr>)"
    "holder m = holder (sh_mx (os_shared (lp_system s)))"
    "before t (waiting m) = before t (waiting (sh_mx (os_shared (lp_system s))))"
    using poll_waits [of op "os_shared (lp_system s)" t] assms(1) unfolding waits_behind_def by blast
  then show ?thesis
    using awaits(1) u assms(1) by (auto simp: waits_behind_def poll_task_def)
qed (use assms(1) in \<open>auto simp: waits_behind_def\<close>)

lemma waits_behind_forever:
  assumes "waits_behind t op s" "(loop_step E L)\<^sup>*\<^sup>* s s'"
  shows "waits_behind t op s' \<and> lp_phase s' = lp_phase s \<and> os_ops (lp_system s') = os_ops (lp_system s)
    \<and> w_broker (sh_world (os_shared (lp_system s'))) = w_broker (sh_world (os_shared (lp_system s)))"
  using assms(2) by (induction rule: rtranclp_induct) (use assms(1) waits_behind_step in \<open>simp_all, metis\<close>)

lemma poll_granted:
  assumes "(\<exists>h. op = Add_lock h) \<or> op = Cancel_lock"
    and "holder (sh_mx s) = None" "before t (waiting (sh_mx s)) = []"
  shows "fst (poll_op E L t op s) \<noteq> op"
proof -
  obtain rest where run: "poll_op E L t op s = await_lock L t op rest s"
    and rest: "\<And>s. fst (rest s) \<noteq> op"
    by (rule poll_awaits_handles [OF assms(1), where t = t and s = s]) (rule that)
  show ?thesis
  proof (cases rule: await_lock_cases [of t op rest s])
    case (granted m)
    then show ?thesis
      using run rest by metis
  next
    case (waits m)
    then show ?thesis
      using assms(2,3) by blast
  qed
qed

lemma loop_waits_iff:
  assumes "lp_phase s = Adding t \<or> lp_phase s = Cancelling t" "os_ops (lp_system s) t = Some op"
    and "(\<exists>h. op = Add_lock h) \<or> op = Cancel_lock"
  shows "(\<forall>s'. (loop_step E L)\<^sup>*\<^sup>* s s' \<longrightarrow> lp_phase s' = lp_phase s \<and> os_ops (lp_system s') = os_ops (lp_system s)
      \<and> w_broker (sh_world (os_shared (lp_system s'))) = w_broker (sh_world (os_shared (lp_system s))))
    \<longleftrightarrow> holder (sh_mx (os_shared (lp_system s))) \<noteq> None \<or> before t (waiting (sh_mx (os_shared (lp_system s)))) \<noteq> []"
    (is "?stuck \<longleftrightarrow> ?busy")
proof
  assume ?busy
  then have "waits_behind t op s"
    using assms by (auto simp: waits_behind_def)
  then show ?stuck
    using waits_behind_forever by blast
next
  assume stuck: ?stuck
  let ?s = "s\<lparr>lp_system := poll_task E L t (lp_system s)\<rparr>"
  have "(loop_step E L)\<^sup>*\<^sup>* s ?s"
    using assms(1) by (intro r_into_rtranclp loop_step.awaits)
  then have "os_ops (lp_system ?s) = os_ops (lp_system s)"
    using stuck by blast
  then have "os_ops (lp_system ?s) t = Some op"
    by (simp only: assms(2))
  then have "fst (poll_op E L t op (os_shared (lp_system s))) = op"
    using assms(2) by (simp add: poll_task_def case_prod_beta)
  then show ?busy
    using poll_granted [OF assms(3)] by blast
qed

end

text \<open>
  C19: When the orchestration loop blocks.  While the loop waits for the session handles, in
  \<open>add_client\<close> for a new connection or in \<open>cancel_all_sessions\<close> at the end, it polls no session.
  In every reachable state in which it waits there, nothing in the broker ever changes again, whatever
  happens outside, exactly when some session has the handles or is before it in their queue; and a
  session has them exactly when it is in \<open>remove_session\<close> and waits for the router.
\<close>

theorem serve_blocks:
  assumes sys: "lock_system E L readers writer waiters holder waiting queue open_rx cap cqueue copen ccap"
    and start: "w_broker w = Broker_new config" "readers l = {}" "writer l = None" "waiters l = []"
      "holder m = None" "waiting m = []"
    and run: "(loop_step E L)\<^sup>*\<^sup>* (loop_start w l m) s"
    and phase: "lp_phase s = Adding t \<or> lp_phase s = Cancelling t"
    and op: "os_ops (lp_system s) t = Some op" "(\<exists>h. op = Add_lock h) \<or> op = Cancel_lock"
  shows "((\<forall>s'. (loop_step E L)\<^sup>*\<^sup>* s s' \<longrightarrow> lp_phase s' = lp_phase s \<and> os_ops (lp_system s') = os_ops (lp_system s)
      \<and> w_broker (sh_world (os_shared (lp_system s'))) = w_broker (sh_world (os_shared (lp_system s))))
    \<longleftrightarrow> holder (sh_mx (os_shared (lp_system s))) \<noteq> None \<or> before t (waiting (sh_mx (os_shared (lp_system s)))) \<noteq> [])
    \<and> (\<forall>u. holder (sh_mx (os_shared (lp_system s))) = Some u
      \<longleftrightarrow> (\<exists>sid cid. os_ops (lp_system s) u = Some (Remove_write sid cid)))"
proof -
  have reach: "(op_step E L)\<^sup>*\<^sup>* (op_start w l m) (lp_system s)"
    using loop_reaches [OF run] by (simp add: loop_start_def)
  have "lock_system.sound readers writer waiters holder waiting (lp_system s)"
    using lock_system.sound_reachable [OF sys reach] lock_system.idle_start [OF sys start] by blast
  then have "lock_system.held readers writer waiters holder waiting (os_ops (lp_system s)) (os_shared (lp_system s))"
    by (simp add: lock_system.sound_def [OF sys])
  then have "holder (sh_mx (os_shared (lp_system s))) = Some u \<longleftrightarrow>
      (\<exists>op. os_ops (lp_system s) u = Some op \<and> owns_sessions op)" for u
    unfolding lock_system.held_def [OF sys] disciplined_def by blast
  moreover have "owns_sessions o' \<longleftrightarrow> (\<exists>sid cid. o' = Remove_write sid cid)" for o'
    by (cases o') simp_all
  ultimately show ?thesis
    using lock_system.loop_waits_iff [OF sys phase op] by auto
qed

section \<open>An example\<close>

lemma loop_run_op:
  assumes "os_ops s t = None" "session_operation operation"
  shows "(loop_step E L)\<^sup>*\<^sup>* \<lparr>lp_phase = Selecting, lp_system = s\<rparr>
    \<lparr>lp_phase = Selecting, lp_system = run_op E L t operation s\<rparr>"
proof -
  let ?s = "\<lparr>lp_phase = Selecting, lp_system = s\<rparr>"
  have "loop_step E L ?s (?s\<lparr>lp_system := call_task E t operation (lp_system ?s)\<rparr>)"
    by (rule loop_step.session_calls) (simp_all add: assms)
  moreover have "loop_step E L (?s\<lparr>lp_system := call_task E t operation s\<rparr>)
      (?s\<lparr>lp_system := poll_task E L t (call_task E t operation s)\<rparr>)"
    using loop_step.session_polled [of "?s\<lparr>lp_system := call_task E t operation s\<rparr>" E L t] by simp
  ultimately show ?thesis
    by (simp add: run_op_def)
qed

lemma removing_reached:
  "(loop_step tight_env fifo_locks)\<^sup>*\<^sup>* (loop_start start_state (Readers {}, []) (None, []))
    \<lparr>lp_phase = Selecting, lp_system = removing\<rparr>"
proof -
  have free: "os_ops quiet 0 = None" "os_ops subscribed 1 = None" "os_ops filled 2 = None" "os_ops suspended 3 = None"
    using subscribed_eq(1) filled_eq(1) suspended_eq(1) by (auto simp: quiet_eq)
  let ?at = "\<lambda>s. \<lparr>lp_phase = Selecting, lp_system = s\<rparr>"
  have "(loop_step tight_env fifo_locks)\<^sup>*\<^sup>* (?at quiet) (?at subscribed)"
    unfolding subscribed_def by (rule loop_run_op [OF free(1)]) simp
  also have "(loop_step tight_env fifo_locks)\<^sup>*\<^sup>* (?at subscribed) (?at filled)"
    unfolding filled_def by (rule loop_run_op [OF free(2)]) simp
  also have "(loop_step tight_env fifo_locks)\<^sup>*\<^sup>* (?at filled) (?at suspended)"
    unfolding suspended_def by (rule loop_run_op [OF free(3)]) simp
  also have "(loop_step tight_env fifo_locks)\<^sup>*\<^sup>* (?at suspended) (?at removing)"
    unfolding removing_def by (rule loop_run_op [OF free(4)]) simp
  finally show ?thesis
    by (simp add: loop_start_def quiet_def)
qed

definition accepting where
  "accepting = \<lparr>lp_phase = Adding 4, lp_system =
    call_task tight_env 4 (Call_add_client \<lparr>s_id = ''new'', s_command_tx = 7\<rparr>) removing\<rparr>"

lemma accepting_reached:
  "(loop_step tight_env fifo_locks)\<^sup>*\<^sup>* (loop_start start_state (Readers {}, []) (None, [])) accepting"
proof -
  have "os_ops removing 4 = None"
    using removing_eq(1) by auto
  then have "loop_step tight_env fifo_locks \<lparr>lp_phase = Selecting, lp_system = removing\<rparr> accepting"
    using loop_step.new_stream [of "\<lparr>lp_phase = Selecting, lp_system = removing\<rparr>" 4 tight_env fifo_locks]
    by (simp add: accepting_def)
  with removing_reached show ?thesis
    by (rule rtranclp.rtrancl_into_rtrancl)
qed

theorem serve_blocks_witness:
  "(loop_step tight_env fifo_locks)\<^sup>*\<^sup>* (loop_start start_state (Readers {}, []) (None, [])) accepting
    \<and> lp_phase accepting = Adding 4 \<and> os_ops (lp_system accepting) 3 = Some (Remove_write ''s'' None)
    \<and> (\<nexists>s'. (loop_step tight_env fifo_locks)\<^sup>*\<^sup>* accepting s' \<and> lp_phase s' \<noteq> Adding 4)"
proof -
  obtain a where ops: "os_ops removing = [0 \<mapsto> Finished a, 1 \<mapsto> Finished Returned,
      2 \<mapsto> Route_send plain_message [(''s'', (1, AtLeastOnce))] [], 3 \<mapsto> Remove_write ''s'' None]"
    using removing_eq(1) by blast
  have phase: "lp_phase accepting = Adding 4 \<or> lp_phase accepting = Cancelling 4"
    and op: "os_ops (lp_system accepting) 4 = Some (Add_lock \<lparr>s_id = ''new'', s_command_tx = 7\<rparr>)"
    and lock: "fst (sh_mx (os_shared (lp_system accepting))) = Some 3"
    and at: "lp_phase accepting = Adding 4" "os_ops (lp_system accepting) 3 = Some (Remove_write ''s'' None)"
    by (simp_all add: accepting_def call_task_def removing_eq(2) ops set_world_def)
  have start: "w_broker start_state = Broker_new default_config"
    by (simp add: start_state_def)
  have locks: "guard_readers (fst (Readers {}, [])) = {}" "guard_writer (fst (Readers {}, [])) = None"
    "snd (Readers {}, []) = ([] :: waiter list)" "fst (None, []) = (None :: task option)"
    "snd (None, []) = ([] :: waiter list)"
    by simp_all
  have waits: "(\<exists>h. Add_lock \<lparr>s_id = ''new'', s_command_tx = 7\<rparr> = Add_lock h)
      \<or> Add_lock \<lparr>s_id = ''new'', s_command_tx = 7\<rparr> = Cancel_lock"
    by blast
  have "fst (sh_mx (os_shared (lp_system accepting))) \<noteq> None"
    unfolding lock by blast
  then have "\<forall>s'. (loop_step tight_env fifo_locks)\<^sup>*\<^sup>* accepting s' \<longrightarrow> lp_phase s' = lp_phase accepting
      \<and> os_ops (lp_system s') = os_ops (lp_system accepting)"
    using serve_blocks [OF fifo_system.lock_system_axioms [of 1] start locks accepting_reached phase op waits]
    by blast
  then show ?thesis
    using accepting_reached at by metis
qed

end
