(* ===== verification/Spec2Isabelle.thy ===== *)
theory Spec2Isabelle
  imports Codec Memory_Storage Config Auth Routing Session_Lifecycle Session_Persistence Session_Subscribe
    Session_Delivery Session_Timers System_Props System_Delivery System_Mailboxes Codec_Panics Wire_Safety Transport_Streams Sqlite_Props Server_Props
    Serve_Locks
begin

text \<open>
  A verification development for iotd, an MQTT 3.1.1 broker written in Rust (\<^verbatim>\<open>src/src/\<close>).

  \<^bold>\<open>The program.\<close>  \<open>main\<close> reads the command line and the configuration and makes a \<open>Server\<close>, which chooses a
  storage backend, an authenticator and an authorizer, binds its listeners and runs one loop that accepts
  connections and polls the sessions.  A session belongs to one connection: it decodes packets, answers
  them, and asks the broker to subscribe, unsubscribe and route.  The broker owns the sessions and the
  client identifiers in use; the router inside it owns the subscriptions and stores retained messages in
  the storage; messages reach a session through its bounded mailbox, commands (takeover, cancel) through
  a second channel.  A persistent session is saved when its connection is lost and restored at the next CONNECT.

  \<^bold>\<open>The theories\<close>, each with the sources it models:

  \<^item> \<open>Iotd_Prelude\<close>: the result of running Rust code (\<open>outcome\<close>: a value, an error, a panic, or a future that
    is still pending), \<open>?\<close> as \<open>outcome_bind\<close> and \<open>qmark\<close>, maps, words and the shared lemmas.
  \<^item> \<open>Wire\<close>, \<open>Packet\<close>, \<open>Codec\<close>, \<open>Codec_Types\<close>, \<open>Codec_Panics\<close>: \<^verbatim>\<open>protocol/packet.rs\<close> and \<^verbatim>\<open>v3.rs\<close>.  The traits of \<open>bytes\<close> and \<open>tokio\<close> are records of
    operations with their documented laws as locales; \<open>Packet\<close> has the packets, decoders and encoders,
    \<open>Codec\<close> a layout written from the standard, independently of the encoders and decoders, and the proofs that
    the code reads and writes it;
    \<open>Codec_Types\<close> shows that nothing but well-formed packets is decoded, \<open>Codec_Panics\<close> which bodies make the
    decoder panic.
  \<^item> \<open>Storage\<close>, \<open>Memory_Storage\<close>: \<^verbatim>\<open>storage/types.rs\<close>, \<^verbatim>\<open>traits.rs\<close>, \<^verbatim>\<open>memory.rs\<close>.  The locale \<open>storage\<close> is the
    contract the rest of the broker relies on, over two views: the saved sessions and the retained messages;
    \<open>session_expiry\<close> adds expiry and \<open>reliable_storage\<close> a backend that does not fail.
  \<^item> \<open>Sql\<close>, \<open>Sqlite_Storage\<close>, \<open>Sqlite_Rows\<close>, \<open>Sqlite_Contract\<close>, \<open>Sqlite_Props\<close>: \<^verbatim>\<open>storage/sqlite.rs\<close>.  \<open>Sql\<close> has the
    statements and queries of that file as terms and what SQLite documents of them (\<open>sql_engine\<close>; \<open>working_engine\<close>
    when nothing but a violated key fails); the methods are functions over such an engine, and a
    \<open>sublocale\<close> shows that they honour \<open>storage\<close>.
  \<^item> \<open>Rust_Str\<close>, \<open>Config\<close>, \<open>Auth\<close>: \<^verbatim>\<open>config.rs\<close> and \<^verbatim>\<open>auth/\<close>, with the file parsers.
  \<^item> \<open>Topic\<close>, \<open>Router\<close>, \<open>Routing\<close>: \<^verbatim>\<open>router.rs\<close>.  \<open>Topic\<close> has validation and matching, \<open>Router\<close> the operations on
    the two-way index, \<open>Routing\<close> the refinement to one table (locale \<open>subscription_index\<close>) and delivery.
  \<^item> \<open>Channel\<close>, \<open>Broker\<close>: tokio's \<open>mpsc\<close> as the locale \<open>mpsc\<close>, and \<^verbatim>\<open>broker.rs\<close>; \<open>env\<close> is what does not change
    while the server runs, \<open>world\<close> the shared state.
  \<^item> \<open>Locks\<close>, \<open>Broker_Locks\<close>, \<open>Lock_Discipline\<close>, \<open>Lock_Progress\<close>, \<open>Lock_Props\<close>, \<open>Serve_Locks\<close>: the operations of \<^verbatim>\<open>broker.rs\<close>
    and \<^verbatim>\<open>router.rs\<close> once more, with tokio's \<open>RwLock\<close> and \<open>Mutex\<close> (locales \<open>rwlock\<close> and \<open>mutex\<close>) and their await points:
    \<open>call_op\<close> and \<open>poll_op\<close> run an operation from one await to the next over the functions of \<open>Router\<close> and \<open>Broker\<close>,
    \<open>op_step\<close> interleaves them and \<open>loop_step\<close> is the loop of \<open>serve\<close> that polls the sessions.  In the locale
    \<open>lock_system\<close>, \<open>Lock_Discipline\<close> has the invariant of who holds and waits for which lock.
  \<^item> \<open>Session\<close>: \<^verbatim>\<open>session.rs\<close>, every handler as a function of the session's runtime and the world.
    \<open>Session_Facts\<close> has the facts on single handlers; \<open>Session_Inv\<close> composes the handlers to the step relation
    \<open>session_step\<close> and has the invariants;
    \<open>Session_Props\<close> (publishing), \<open>Session_Lifecycle\<close> (CONNECT, takeover, will), \<open>Session_Subscribe\<close>,
    \<open>Session_Delivery\<close> (outgoing messages, retransmission) and \<open>Session_Persistence\<close> the properties.
    \<open>Session_Timers\<close> adds the two timers of \<open>do_processing\<close> and the passing of time (\<open>timed_step\<close>).
  \<^item> \<open>System\<close>, \<open>System_Props\<close>: all sessions interleaved over one world.  \<open>System_Delivery\<close> follows a message from
    the bytes of its publisher to the bytes of a subscriber; \<open>Wire_Safety\<close> (locale \<open>wire\<close>) carries the
    well-formedness of everything that is written through every handler; \<open>System_Mailboxes\<close> (locale
    \<open>mailbox_system\<close>) shows who may add to a mailbox and take from it, over runs that record what each step took and
    what arrived (\<open>mailbox_trace\<close>).
  \<^item> \<open>Transport\<close>, \<open>Transport_Streams\<close>, \<open>Server\<close>, \<open>Server_Props\<close>: \<^verbatim>\<open>transport.rs\<close>, \<^verbatim>\<open>storage/mod.rs\<close>, \<^verbatim>\<open>server.rs\<close>, \<^verbatim>\<open>main.rs\<close>.

  \<^bold>\<open>What is shown.\<close>
  \<^item> Codec: packets are decoded from and encoded to the layout of the standard, only well-formed packets are
    decoded, round trips, decoding of a closed connection ends, what a decoder that is dropped has consumed, and exactly which packets make it panic.
  \<^item> Router: the index implements a table under all sequences of operations; \<open>route\<close> queues one copy for each
    matching subscription at the smaller QoS and waits only at a full mailbox; retained messages and their
    limit; matching and validation agree with declarative definitions.
  \<^item> Storage: both backends implement the contract, alone and behind the dispatch; a save in SQLite is read
    back or fails as a whole.
  \<^item> Session: QoS 2 exactly once, authorization of everything routed, what each kind of packet does on every
    branch, CONNECT accepted and refused, takeover, the will (published by the end of a session that was not left by
    a DISCONNECT, and not while a persistent session waits), SUBSCRIBE, acknowledgement and
    retransmission with its bound, packet identifiers, timer periods, the keep-alive limit, and that a saved
    session comes back.
  \<^item> Composition: a published message arrives at a subscriber, byte for byte, once for each of its matching
    subscriptions; over any input everything written is a sequence of well-formed packets, whole on every connection
    on which no write has failed; mailboxes are queues that only their own session empties, message by message in
    the order of arrival, so that a session can wait for itself forever; and both kinds of
    connection are readers of packets if the streams inside are.
  \<^item> Locks: a suspended \<open>route\<close> serves one index, in order, and holds up every change of it; the locks alone
    cannot deadlock, since the handles are always taken before the router; when the loop of \<open>serve\<close> blocks
    for good because it waits for the handles of the sessions it does not poll; and an operation that runs alone
    is the single step the session model uses.
  \<^item> System and server: invariants of every reachable state of the interleaved sessions, from start-up over
    either backend until the server has stopped with nothing left; a cancelled session can end; binding
    never panics; the command line.

  \<^bold>\<open>Choices.\<close>
  \<^item> Machine integers keep their width (\<open>u8\<close>, \<open>u16\<close>, \<open>u32\<close>, \<open>u64\<close> as words); \<open>usize\<close> lengths are \<open>nat\<close>; strings are
    lists of bytes, and UTF-8 validity is part of decoding.
  \<^item> A handler of a session runs as one step: its awaits are the writer, the mailboxes and the router
    lock.  A pending send is the value \<open>Pending\<close> of the handler, and no step is made from it.
    What happens around a suspended operation of the broker is the subject of \<open>Broker_Locks\<close>, where a session is
    any sequence of such operations.
    A panic is the value \<open>Panic\<close>; it ends the task that polls all sessions, so no step is made from it either.
  \<^item> Clock readings are fields of the world, constant within a step; identifiers from \<open>Uuid\<close> and new
    channels are fresh names.  Iteration order of hash maps is the order of an association list.
  \<^item> The loops over a cursor carry the number of remaining bytes as fuel, which \<open>Codec\<close> shows to be enough,
    since each round takes at least two bytes; \<open>rebuild_codes\<close> carries the number of filters.
  \<^item> In the orchestration loop any enabled branch of a \<open>select!\<close> may be taken, so the properties hold for every
    scheduling; the environment may change clocks, input, output and channel contents at any time.
    Timers fire at any time in \<open>session_step\<close> and at their deadlines in \<open>timed_step\<close>.

  \<^bold>\<open>Parameters\<close>, with what is assumed of them as locales or premises: \<open>bytes\<close>, \<open>tokio\<close> (streams, channels, intervals, locks),
  \<open>serde\<close>, \<open>toml\<close>, \<open>rusqlite\<close> and \<open>chrono\<close>, \<open>rustls\<close>, sockets and files.  Each locale has an instance on a concrete
  model, used by the examples.  Of \<open>write_all\<close> the properties on all runs assume only that a success has written
  everything and an error an unspecified first part (\<open>byte_writer\<close>); those that tell what a client gets assume that
  its connection takes what is sent (\<open>stream_writer\<close>).

  \<^bold>\<open>Not modelled.\<close>  Logging; lock poisoning (a panic while a lock is held); derived \<open>serde\<close> and \<open>Debug\<close> code;
  \<open>tokio::io::split\<close> (a session reads and writes one connection under its number); the log level of \<open>main\<close>; the build script, benches and tests.  The locks are modelled for
  the operations of the broker and not inside the handlers of a session: there a handler that waits for a lock
  has no step.  Dropping the future of a suspended operation, which only the end of the process does, is left out.
\<close>

end
